(* ===== verification/Prelude.thy ===== *)
theory Prelude
  imports Complex_Main "HOL-Library.Char_ord" "HOL-Library.List_Lexorder"
begin

text \<open>
  Shared vocabulary of the development: the \<open>Error\<close>/\<open>Result\<close> types of
  \<^verbatim>\<open>include/gateway/result.hpp\<close>, decimal digits and \<open>std::to_string\<close>, ASCII case
  conversion, 64-bit ranges, and the generic lemmas on lists, options and maps that the
  component theories use. Strings are byte strings (\<^typ>\<open>string\<close>), as \<open>std::string\<close> is.
\<close>

named_theorems legs_simps \<open>how operations act on a leg table\<close>
named_theorems evolve_intros \<open>record evolution steps\<close>
named_theorems frame_simps \<open>fields an operation leaves alone\<close>

section \<open>Errors and results\<close>

datatype error = Error (code: string) (message: string)

type_synonym 'a result = "error + 'a"

definition is_ok :: "'a result \<Rightarrow> bool" where
  "is_ok r \<longleftrightarrow> (case r of Inr _ \<Rightarrow> True | Inl _ \<Rightarrow> False)"

text \<open>\<open>Result::value()\<close> has \<open>is_ok()\<close> as its precondition (an assertion, then a throwing
  \<open>std::get\<close>): \<open>None\<close> is the violated precondition.\<close>

definition result_value :: "'a result \<Rightarrow> 'a option" where
  "result_value r = (case r of Inr v \<Rightarrow> Some v | Inl _ \<Rightarrow> None)"

definition value_or :: "'a result \<Rightarrow> 'a \<Rightarrow> 'a" where
  "value_or r d = (case r of Inr v \<Rightarrow> v | Inl _ \<Rightarrow> d)"

text \<open>\<open>std::optional::value_or\<close>.\<close>

definition opt_or :: "'a option \<Rightarrow> 'a \<Rightarrow> 'a" where
  "opt_or o1 d = (case o1 of Some v \<Rightarrow> v | None \<Rightarrow> d)"

lemma is_ok_simps [simp]: "is_ok (Inr v)" "\<not> is_ok (Inl e)"
  by (simp_all add: is_ok_def)

lemma is_ok_iff: "is_ok r \<longleftrightarrow> (\<exists>v. r = Inr v)"
  by (cases r) auto

lemma opt_or_simps [simp]: "opt_or (Some v) d = v" "opt_or None d = d"
  by (simp_all add: opt_or_def)

section \<open>Machine integers\<close>

text \<open>\<open>long long\<close> is 64 bits wide, \<open>__int128\<close> 128. Values are kept as \<^typ>\<open>int\<close>; the
  conversions that truncate are written out.\<close>

definition kLlMax :: int where "kLlMax = 2 ^ 63 - 1"
definition kLlMin :: int where "kLlMin = - (2 ^ 63)"

definition wrap64 :: "int \<Rightarrow> int" where
  "wrap64 x = (x + 2 ^ 63) mod 2 ^ 64 - 2 ^ 63"

text \<open>\<open>static_cast<int>\<close> of a 64-bit value: two's complement of the low 32 bits.\<close>

definition wrap32 :: "int \<Rightarrow> int" where
  "wrap32 x = (x + 2 ^ 31) mod 2 ^ 32 - 2 ^ 31"

definition fits_wide :: "int \<Rightarrow> bool" where
  "fits_wide x \<longleftrightarrow> - (2 ^ 127) \<le> x \<and> x < 2 ^ 127"

lemma wrap64_id: "kLlMin \<le> x \<Longrightarrow> x \<le> kLlMax \<Longrightarrow> wrap64 x = x"
  by (simp add: wrap64_def kLlMin_def kLlMax_def)

section \<open>Characters and decimal digits\<close>

definition ascii :: "char \<Rightarrow> nat" where "ascii c = of_char c"

definition is_digit_char :: "char \<Rightarrow> bool" where
  "is_digit_char c \<longleftrightarrow> 48 \<le> ascii c \<and> ascii c \<le> 57"

definition digit_of :: "char \<Rightarrow> int" where
  "digit_of c = int (ascii c) - 48"

definition digit_char :: "nat \<Rightarrow> char" where
  "digit_char n = char_of (48 + n)"

lemma ascii_digit_char: "n < 10 \<Longrightarrow> ascii (digit_char n) = 48 + n"
  by (simp add: ascii_def digit_char_def)

lemma is_digit_char_digit_char [simp]: "n < 10 \<Longrightarrow> is_digit_char (digit_char n)"
  by (simp add: is_digit_char_def ascii_digit_char)

lemma digit_of_digit_char [simp]: "n < 10 \<Longrightarrow> digit_of (digit_char n) = int n"
  by (simp add: digit_of_def ascii_digit_char)

lemma digit_of_bounds: "is_digit_char c \<Longrightarrow> 0 \<le> digit_of c \<and> digit_of c \<le> 9"
  by (auto simp: is_digit_char_def digit_of_def)

lemma digit_not_punct [simp]:
  "is_digit_char c \<Longrightarrow> c \<noteq> CHR ''.''" "is_digit_char c \<Longrightarrow> c \<noteq> CHR ''-''"
  by (auto simp: is_digit_char_def ascii_def)

text \<open>The value a digit string denotes, most significant digit first.\<close>

definition digits_val :: "string \<Rightarrow> int" where
  "digits_val ds = foldl (\<lambda>a c. a * 10 + digit_of c) 0 ds"

lemma foldl_digits: "foldl (\<lambda>a c. a * 10 + digit_of c) u ds = u * 10 ^ length ds + digits_val ds"
proof (induction ds arbitrary: u)
  case Nil
  then show ?case by (simp add: digits_val_def)
next
  case (Cons c ds)
  have "digits_val (c # ds) = digit_of c * 10 ^ length ds + digits_val ds"
    using Cons.IH [of "digit_of c"] by (simp add: digits_val_def)
  with Cons.IH [of "u * 10 + digit_of c"] show ?case by (simp add: algebra_simps)
qed

lemma digits_val_Nil [simp]: "digits_val [] = 0"
  by (simp add: digits_val_def)

lemma digits_val_Cons: "digits_val (c # ds) = digit_of c * 10 ^ length ds + digits_val ds"
  using foldl_digits [of "digit_of c" ds] by (simp add: digits_val_def)

lemma digits_val_append: "digits_val (xs @ ys) = digits_val xs * 10 ^ length ys + digits_val ys"
proof -
  have "digits_val (xs @ ys) = foldl (\<lambda>a c. a * 10 + digit_of c) (digits_val xs) ys"
    by (simp add: digits_val_def)
  then show ?thesis by (simp only: foldl_digits)
qed

lemma digits_val_nonneg: "\<forall>c \<in> set ds. is_digit_char c \<Longrightarrow> 0 \<le> digits_val ds"
  by (induction ds) (auto simp: digits_val_Cons dest: digit_of_bounds)

lemma digits_val_replicate [simp]: "digits_val (replicate n (CHR ''0'') @ ds) = digits_val ds"
proof -
  have "digits_val (replicate n (CHR ''0'')) = 0"
    by (induction n) (auto simp: digits_val_Cons digit_of_def ascii_def)
  then show ?thesis by (simp add: digits_val_append)
qed

text \<open>\<open>std::to_string\<close> on unsigned and signed integers.\<close>

fun nat_to_string :: "nat \<Rightarrow> string" where
  "nat_to_string n = (if n < 10 then [digit_char n]
     else nat_to_string (n div 10) @ [digit_char (n mod 10)])"

declare nat_to_string.simps [simp del]

definition int_to_string :: "int \<Rightarrow> string" where
  "int_to_string i = (if i < 0 then CHR ''-'' # nat_to_string (nat (- i)) else nat_to_string (nat i))"

lemma nat_to_string_ne [simp]: "nat_to_string n \<noteq> []"
  by (subst nat_to_string.simps) simp

lemma nat_to_string_digits: "\<forall>c \<in> set (nat_to_string n). is_digit_char c"
proof (induction n rule: nat_to_string.induct)
  case (1 n)
  then show ?case by (subst nat_to_string.simps) auto
qed

lemma digits_val_nat_to_string [simp]: "digits_val (nat_to_string n) = int n"
proof (induction n rule: nat_to_string.induct)
  case (1 n)
  show ?case
  proof (cases "n < 10")
    case True
    then show ?thesis by (subst nat_to_string.simps) (simp add: digits_val_Cons)
  next
    case False
    with 1 have "digits_val (nat_to_string (n div 10)) = int (n div 10)" by simp
    with False show ?thesis
      by (subst nat_to_string.simps)
        (simp add: digits_val_append digits_val_Cons flip: zdiv_int zmod_int, presburger)
  qed
qed

section \<open>ASCII case\<close>

text \<open>\<open>std::tolower\<close> and \<open>std::toupper\<close> in the C locale.\<close>

definition to_lower_char :: "char \<Rightarrow> char" where
  "to_lower_char c = (if 65 \<le> ascii c \<and> ascii c \<le> 90 then char_of (ascii c + 32) else c)"

definition to_upper_char :: "char \<Rightarrow> char" where
  "to_upper_char c = (if 97 \<le> ascii c \<and> ascii c \<le> 122 then char_of (ascii c - 32) else c)"

section \<open>Lists and maps\<close>

text \<open>Double quotes inside messages.\<close>

abbreviation quote_char :: char where "quote_char \<equiv> CHR 0x22"

lemma foldl_invariant:
  assumes "P s" and "\<And>s x. P s \<Longrightarrow> x \<in> set xs \<Longrightarrow> P (f s x)"
  shows "P (foldl f s xs)"
  using assms by (induction xs arbitrary: s) auto

lemma fold_invariant_on:
  assumes "P s" and "\<And>s x. P s \<Longrightarrow> x \<in> set xs \<Longrightarrow> P (f x s)"
  shows "P (fold f xs s)"
  using assms by (induction xs arbitrary: s) auto

lemma map_upd_dom [simp]: "m k = Some v \<Longrightarrow> dom (m(k \<mapsto> v')) = dom m"
  by auto

end
