(* ===== verification/Connector_Types.thy ===== *)
theory Connector_Types
  imports Prelude
begin

text \<open>
  The venue-agnostic vocabulary of \<^verbatim>\<open>include/gateway/exchange_connector.hpp\<close>: sides, order
  types and states, the request, snapshot and execution-report structs, and the text forms
  of the enums. Field names carry a short prefix per struct (\<open>rq_\<close>, \<open>cx_\<close>, \<open>oq_\<close>, \<open>am_\<close>,
  \<open>pl_\<close>, \<open>sn_\<close>, \<open>er_\<close>) because records share one name space.
\<close>

section \<open>Enums\<close>

datatype side = Buy | Sell

datatype order_type = Limit | Market

datatype order_state = Pending | Live | PartiallyFilled | Filled | Canceled | Rejected

section \<open>Structs\<close>

record order_request =
  rq_client_order_id :: string
  rq_instrument_id :: string
  rq_side :: side
  rq_type :: order_type
  rq_price :: string
  rq_quantity :: string
  rq_time_in_force :: string

record cancel_request =
  cx_client_order_id :: string
  cx_instrument_id :: string

record order_query =
  oq_client_order_id :: string
  oq_instrument_id :: string

record amend_request =
  am_client_order_id :: string
  am_instrument_id :: string
  am_new_price :: "string option"
  am_new_quantity :: "string option"
  am_side :: "side option"
  am_type :: "order_type option"
  am_time_in_force :: string

record order_placement =
  pl_client_order_id :: string
  pl_exchange_order_id :: string

record order_snapshot =
  sn_client_order_id :: string
  sn_exchange_order_id :: string
  sn_instrument_id :: string
  sn_state :: order_state
  sn_side :: side
  sn_type :: order_type
  sn_price :: string
  sn_quantity :: string
  sn_filled_quantity :: string
  sn_average_fill_price :: string

record execution_report =
  er_client_order_id :: string
  er_exchange_order_id :: string
  er_state :: order_state
  er_side :: side
  er_filled_quantity :: string
  er_average_fill_price :: string

section \<open>Text forms\<close>

fun state_to_string :: "order_state \<Rightarrow> string" where
  "state_to_string Pending = ''pending''"
| "state_to_string Live = ''live''"
| "state_to_string PartiallyFilled = ''partially_filled''"
| "state_to_string Filled = ''filled''"
| "state_to_string Canceled = ''canceled''"
| "state_to_string Rejected = ''rejected''"

definition side_to_string :: "side \<Rightarrow> string" where
  "side_to_string s = (if s = Buy then ''buy'' else ''sell'')"

definition type_to_string :: "order_type \<Rightarrow> string" where
  "type_to_string t = (if t = Limit then ''limit'' else ''market'')"

text \<open>The loop of \<open>equals_ignore_case\<close> compares index by index after the size test.\<close>

fun eq_ci_loop :: "string \<Rightarrow> string \<Rightarrow> bool" where
  "eq_ci_loop (a # as) (b # bs) = (if to_lower_char a \<noteq> to_lower_char b then False else eq_ci_loop as bs)"
| "eq_ci_loop _ _ = True"

definition equals_ignore_case :: "string \<Rightarrow> string \<Rightarrow> bool" where
  "equals_ignore_case l r = (if length l \<noteq> length r then False else eq_ci_loop l r)"

definition parse_side :: "string \<Rightarrow> side option" where
  "parse_side t =
     (if equals_ignore_case t ''buy'' then Some Buy
      else if equals_ignore_case t ''sell'' then Some Sell
      else None)"

definition parse_order_type :: "string \<Rightarrow> order_type option" where
  "parse_order_type t =
     (if equals_ignore_case t ''limit'' then Some Limit
      else if equals_ignore_case t ''market'' then Some Market
      else None)"

definition parse_order_state :: "string \<Rightarrow> order_state option" where
  "parse_order_state t =
     (if equals_ignore_case t ''pending'' then Some Pending
      else if equals_ignore_case t ''live'' then Some Live
      else if equals_ignore_case t ''partially_filled'' then Some PartiallyFilled
      else if equals_ignore_case t ''filled'' then Some Filled
      else if equals_ignore_case t ''canceled'' then Some Canceled
      else if equals_ignore_case t ''rejected'' then Some Rejected
      else None)"

section \<open>The text forms round-trip\<close>

lemma eq_ci_loop_iff: "length l = length r \<Longrightarrow> eq_ci_loop l r \<longleftrightarrow> map to_lower_char l = map to_lower_char r"
  by (induction l r rule: list_induct2) auto

lemma equals_ignore_case_iff: "equals_ignore_case l r \<longleftrightarrow> map to_lower_char l = map to_lower_char r"
  by (auto simp: equals_ignore_case_def eq_ci_loop_iff dest: map_eq_imp_length_eq)

lemma state_to_string_lower: "map to_lower_char (state_to_string s) = state_to_string s"
  by (cases s) (simp_all add: to_lower_char_def ascii_def)

lemma side_to_string_lower: "map to_lower_char (side_to_string s) = side_to_string s"
  by (cases s) (simp_all add: side_to_string_def to_lower_char_def ascii_def)

lemma type_to_string_lower: "map to_lower_char (type_to_string s) = type_to_string s"
  by (cases s) (simp_all add: type_to_string_def to_lower_char_def ascii_def)

lemma parse_order_state_iff:
  "parse_order_state t = Some s \<longleftrightarrow> map to_lower_char t = state_to_string s"
proof -
  have lit: "equals_ignore_case t (state_to_string u) \<longleftrightarrow> map to_lower_char t = state_to_string u" for u
    by (simp add: equals_ignore_case_iff state_to_string_lower)
  show ?thesis
    using lit [of Pending] lit [of Live] lit [of PartiallyFilled] lit [of Filled]
      lit [of Canceled] lit [of Rejected]
    by (cases s) (simp_all add: parse_order_state_def)
qed

lemma parse_side_iff: "parse_side t = Some s \<longleftrightarrow> map to_lower_char t = side_to_string s"
proof -
  have lit: "equals_ignore_case t (side_to_string u) \<longleftrightarrow> map to_lower_char t = side_to_string u" for u
    by (simp add: equals_ignore_case_iff side_to_string_lower)
  show ?thesis
    using lit [of Buy] lit [of Sell] by (cases s) (simp_all add: parse_side_def side_to_string_def)
qed

lemma parse_order_type_iff:
  "parse_order_type t = Some s \<longleftrightarrow> map to_lower_char t = type_to_string s"
proof -
  have lit: "equals_ignore_case t (type_to_string u) \<longleftrightarrow> map to_lower_char t = type_to_string u" for u
    by (simp add: equals_ignore_case_iff type_to_string_lower)
  show ?thesis
    using lit [of Limit] lit [of Market]
    by (cases s) (simp_all add: parse_order_type_def type_to_string_def)
qed

lemma parse_to_string [simp]:
  "parse_order_state (state_to_string st) = Some st"
  "parse_side (side_to_string sd) = Some sd"
  "parse_order_type (type_to_string ty) = Some ty"
  by (simp_all add: parse_order_state_iff parse_side_iff parse_order_type_iff
      state_to_string_lower side_to_string_lower type_to_string_lower)

end
