(* ===== verification/Order_State.thy ===== *)
theory Order_State
  imports Connector_Types
begin

text \<open>
  The order lifecycle of \<^verbatim>\<open>src/core/order_state.hpp\<close>: the explicit transition table, the
  terminal states and \<open>apply_transition\<close>, with the contract the rest of the gateway relies
  on (the locale \<open>lifecycle\<close>) and its interpretation on the table of the source.
\<close>

section \<open>The table\<close>

definition kLegalTransitions :: "(order_state \<times> order_state) list" where
  "kLegalTransitions =
     [(Pending, Pending), (Pending, Live), (Pending, PartiallyFilled), (Pending, Filled),
      (Pending, Rejected),
      (Live, Live), (Live, PartiallyFilled), (Live, Filled), (Live, Canceled), (Live, Rejected),
      (PartiallyFilled, PartiallyFilled), (PartiallyFilled, Filled),
      (PartiallyFilled, Canceled), (PartiallyFilled, Rejected)]"

definition is_terminal :: "order_state \<Rightarrow> bool" where
  "is_terminal s \<longleftrightarrow> s = Filled \<or> s = Canceled \<or> s = Rejected"

fun transition_listed :: "(order_state \<times> order_state) list \<Rightarrow> order_state \<Rightarrow> order_state \<Rightarrow> bool" where
  "transition_listed [] from to = False"
| "transition_listed (t # ts) from to =
     (if fst t = from \<and> snd t = to then True else transition_listed ts from to)"

definition can_transition :: "order_state \<Rightarrow> order_state \<Rightarrow> bool" where
  "can_transition from to = transition_listed kLegalTransitions from to"

datatype transition_result = Applied | TransitionRejected

definition apply_transition :: "order_state \<Rightarrow> order_state \<Rightarrow> transition_result \<times> order_state" where
  "apply_transition st nxt =
     (if \<not> can_transition st nxt then (TransitionRejected, st) else (Applied, nxt))"

section \<open>The lifecycle contract\<close>

text \<open>
  What a client of a lifecycle relies on: final states have no way out, and every legal move
  that changes the state climbs a rank, so observations can arrive late, twice or out of
  order without ever moving an order back. \<open>absorb\<close> is a run of guarded moves.
\<close>

locale lifecycle =
  fixes can :: "'s \<Rightarrow> 's \<Rightarrow> bool"
    and final :: "'s \<Rightarrow> bool"
    and rank :: "'s \<Rightarrow> nat"
  assumes final_stuck: "final s \<Longrightarrow> \<not> can s t"
    and rank_climbs: "can s t \<Longrightarrow> s \<noteq> t \<Longrightarrow> rank s < rank t"
begin

definition move :: "'s \<Rightarrow> 's \<Rightarrow> 's" where
  "move s t = (if can s t then t else s)"

definition absorb :: "'s \<Rightarrow> 's list \<Rightarrow> 's" where
  "absorb s ts = foldl move s ts"

lemma move_rank: "rank s \<le> rank (move s t)"
  using rank_climbs by (cases "s = t") (auto simp: move_def intro: less_imp_le)

lemma move_eq_iff: "rank (move s t) = rank s \<longleftrightarrow> move s t = s"
  using rank_climbs by (fastforce simp: move_def)

lemma absorb_rank: "rank s \<le> rank (absorb s ts)"
proof (induction ts arbitrary: s)
  case Nil
  then show ?case by (simp add: absorb_def)
next
  case (Cons t ts)
  have "rank s \<le> rank (move s t)" by (rule move_rank)
  also have "\<dots> \<le> rank (absorb (move s t) ts)" by (rule Cons.IH)
  finally show ?case by (simp add: absorb_def)
qed

lemma absorb_final: "final s \<Longrightarrow> absorb s ts = s"
  by (induction ts) (simp_all add: absorb_def move_def final_stuck)

lemma absorb_append: "absorb s (ts @ us) = absorb (absorb s ts) us"
  by (simp add: absorb_def)

lemma absorb_no_return: "rank (absorb s ts) = rank s \<Longrightarrow> absorb s ts = s"
proof (induction ts arbitrary: s)
  case Nil
  then show ?case by (simp add: absorb_def)
next
  case (Cons t ts)
  have step: "absorb s (t # ts) = absorb (move s t) ts" by (simp add: absorb_def)
  have "rank (move s t) = rank s"
    using Cons.prems step move_rank [of s t] absorb_rank [of "move s t" ts] by simp
  then have "move s t = s" by (simp add: move_eq_iff)
  with Cons step show ?case by simp
qed

end

fun lifecycle_rank :: "order_state \<Rightarrow> nat" where
  "lifecycle_rank Pending = 0"
| "lifecycle_rank Live = 1"
| "lifecycle_rank PartiallyFilled = 2"
| "lifecycle_rank Filled = 3"
| "lifecycle_rank Canceled = 3"
| "lifecycle_rank Rejected = 3"

lemmas transition_defs = can_transition_def kLegalTransitions_def is_terminal_def

lemma can_transition_iff: "can_transition s t \<longleftrightarrow> (s, t) \<in> set kLegalTransitions"
proof -
  have "transition_listed ts s t \<longleftrightarrow> (s, t) \<in> set ts" for ts
    by (induction ts) auto
  then show ?thesis by (simp add: can_transition_def)
qed

interpretation ol: lifecycle can_transition is_terminal lifecycle_rank
proof
  show "\<And>s t. is_terminal s \<Longrightarrow> \<not> can_transition s t"
    by (auto simp: can_transition_iff kLegalTransitions_def is_terminal_def)
  show "\<And>s t. can_transition s t \<Longrightarrow> s \<noteq> t \<Longrightarrow> lifecycle_rank s < lifecycle_rank t"
    by (auto simp: can_transition_iff kLegalTransitions_def)
qed

lemma apply_transition_move: "snd (apply_transition s t) = ol.move s t"
  by (simp add: apply_transition_def ol.move_def)

lemma apply_transition_cases:
  "fst (apply_transition s t) = Applied \<longleftrightarrow> can_transition s t"
  by (simp add: apply_transition_def)

text \<open>Reading the table: which states a state can be left for.\<close>

lemma can_transition_simps [simp]:
  "can_transition Pending t \<longleftrightarrow> t \<noteq> Canceled"
  "can_transition Live t \<longleftrightarrow> t \<noteq> Pending"
  "can_transition PartiallyFilled t \<longleftrightarrow> t \<noteq> Pending \<and> t \<noteq> Live"
  "\<not> can_transition Filled t" "\<not> can_transition Canceled t" "\<not> can_transition Rejected t"
  by (cases t; simp add: can_transition_iff kLegalTransitions_def)+

lemma is_terminal_simps [simp]:
  "is_terminal Filled" "is_terminal Canceled" "is_terminal Rejected"
  "\<not> is_terminal Pending" "\<not> is_terminal Live" "\<not> is_terminal PartiallyFilled"
  by (simp_all add: is_terminal_def)

lemma rank_3_terminal: "lifecycle_rank s = 3 \<longleftrightarrow> is_terminal s"
  by (cases s) simp_all

section \<open>Properties\<close>

text \<open>However late, duplicated or reordered the observations of an order are, applying
  them one after the other through \<open>apply_transition\<close> never lowers the lifecycle rank, a
  terminal state stays exactly as it is, and the state can only have its starting rank
  afterwards by never having moved.\<close>

lemma transitions_never_regress:
  "lifecycle_rank s \<le> lifecycle_rank (foldl (\<lambda>s t. snd (apply_transition s t)) s ts)
   \<and> (is_terminal s \<longrightarrow> foldl (\<lambda>s t. snd (apply_transition s t)) s ts = s)
   \<and> (lifecycle_rank (foldl (\<lambda>s t. snd (apply_transition s t)) s ts) = lifecycle_rank s
        \<longrightarrow> foldl (\<lambda>s t. snd (apply_transition s t)) s ts = s)"
proof -
  have run: "foldl (\<lambda>s t. snd (apply_transition s t)) s ts = ol.absorb s ts"
    by (simp add: ol.absorb_def apply_transition_move)
  show ?thesis
    unfolding run using ol.absorb_rank ol.absorb_final ol.absorb_no_return by blast
qed

end
