(* ===== verification/Decimal.thy ===== *)
theory Decimal
  imports Prelude
begin

text \<open>
  The exact fixed-point decimals of \<^verbatim>\<open>src/core/decimal.hpp\<close> and \<^verbatim>\<open>src/core/decimal.cpp\<close>:
  parsing, printing, comparison and arithmetic. \<open>unscaled\<close> is a \<open>long long\<close>, \<open>scale\<close> an
  \<open>int\<close>; intermediate results live in \<open>__int128\<close> (\<open>Wide\<close>). Both are kept as \<^typ>\<open>int\<close>,
  every range check of the code is written out, and the one conversion without a range
  check (in \<open>sub_clamped_zero\<close>) wraps as the machine does. \<open>dval\<close> is the rational number a
  decimal denotes; the theorems say that each operation computes exactly on it.
\<close>

section \<open>Definitions\<close>

record decimal =
  unscaled :: int
  scale :: int

definition mk_decimal :: "int \<Rightarrow> int \<Rightarrow> decimal" where
  "mk_decimal u s = \<lparr>unscaled = u, scale = s\<rparr>"

definition kMaxDecimalScale :: int where "kMaxDecimalScale = 8"
definition kMaxInternalScale :: int where "kMaxInternalScale = 16"

text \<open>The counting loop of \<open>pow10\<close> multiplies by ten \<open>max 0 e\<close> times.\<close>

definition pow10 :: "int \<Rightarrow> int" where
  "pow10 e = ((\<lambda>v. v * 10) ^^ nat e) 1"

definition aligned :: "decimal \<Rightarrow> decimal \<Rightarrow> int \<times> int" where
  "aligned l r =
     (let s = max (scale l) (scale r)
      in (unscaled l * pow10 (s - scale l), unscaled r * pow10 (s - scale r)))"

definition fits_ll :: "int \<Rightarrow> bool" where
  "fits_ll v \<longleftrightarrow> v \<le> kLlMax \<and> v \<ge> kLlMin"

text \<open>The stripping loop of \<open>normalized\<close>. The guard holds only for multiples of ten, where
  C++ and Isabelle division agree.\<close>

function normalize_loop :: "int \<Rightarrow> int \<Rightarrow> int \<times> int" where
  "normalize_loop u s =
     (if s > 0 \<and> u mod 10 = 0 then normalize_loop (u div 10) (s - 1) else (u, s))"
  by pat_completeness auto
termination
  by (relation "measure (\<lambda>(u, s). nat s)") auto

declare normalize_loop.simps [simp del]

definition normalized :: "decimal \<Rightarrow> decimal" where
  "normalized d =
     (case normalize_loop (unscaled d) (scale d) of
        (u, s) \<Rightarrow> mk_decimal u (if u = 0 then 0 else s))"

definition overflow_error :: "string \<Rightarrow> error" where
  "overflow_error op1 = Error ''protocol'' (''decimal '' @ op1 @ '' overflow'')"

definition invalid_decimal :: "string \<Rightarrow> error" where
  "invalid_decimal t = Error ''protocol'' (''invalid decimal string: '' @ t)"

text \<open>The character loop of \<open>parse_signed_decimal\<close>; \<open>txt\<close> is the whole text after the sign,
  which the error messages quote.\<close>

fun parse_loop :: "string \<Rightarrow> int \<Rightarrow> int \<Rightarrow> bool \<Rightarrow> bool \<Rightarrow> string
    \<Rightarrow> (int \<times> int \<times> bool) result" where
  "parse_loop txt u s in_fraction any_digit [] = Inr (u, s, any_digit)"
| "parse_loop txt u s in_fraction any_digit (c # cs) =
     (if c = CHR ''.'' then
        (if in_fraction then Inl (invalid_decimal txt)
         else parse_loop txt u s True any_digit cs)
      else if \<not> is_digit_char c then Inl (invalid_decimal txt)
      else if in_fraction \<and> s \<ge> kMaxDecimalScale then
        Inl (Error ''protocol''
          (''more than '' @ int_to_string kMaxDecimalScale @ '' fractional digits: '' @ txt))
      else if \<not> fits_ll (u * 10) \<or> \<not> fits_ll (u * 10 + digit_of c) then
        Inl (overflow_error ''parse'')
      else parse_loop txt (u * 10 + digit_of c) (if in_fraction then s + 1 else s)
             in_fraction True cs)"

definition parse_signed_decimal :: "string \<Rightarrow> decimal result" where
  "parse_signed_decimal text =
     (if text = [] then Inl (invalid_decimal text)
      else let negative = (hd text = CHR ''-''); t = (if negative then tl text else text)
      in if t = [] \<or> hd t = CHR ''.'' \<or> last t = CHR ''.'' then Inl (invalid_decimal t)
      else case parse_loop t 0 0 False False t of
             Inl e \<Rightarrow> Inl e
           | Inr (u, s, any_digit) \<Rightarrow>
               if \<not> any_digit then Inl (invalid_decimal t)
               else Inr (normalized (mk_decimal (if negative then - u else u) s)))"

definition parse_decimal :: "string \<Rightarrow> decimal result" where
  "parse_decimal text =
     (if text \<noteq> [] \<and> hd text = CHR ''-'' then
        Inl (Error ''protocol'' (''negative values are not accepted here: '' @ text))
      else parse_signed_decimal text)"

text \<open>\<open>0ULL - static_cast<unsigned long long>(u)\<close> is the magnitude of a negative \<open>u\<close>, also for
  the least \<open>long long\<close>.\<close>

definition magnitude_ull :: "int \<Rightarrow> nat" where
  "magnitude_ull u = nat (if u < 0 then (0 - u mod 2 ^ 64) mod 2 ^ 64 else u mod 2 ^ 64)"

definition pad_zeros :: "nat \<Rightarrow> string \<Rightarrow> string" where
  "pad_zeros s ds = replicate (Suc s - length ds) (CHR ''0'') @ ds"

definition decimal_to_string :: "decimal \<Rightarrow> string" where
  "decimal_to_string d =
     (if scale d \<le> 0 then int_to_string (unscaled d)
      else let negative = unscaled d < 0;
               digits = pad_zeros (nat (scale d)) (nat_to_string (magnitude_ull (unscaled d)));
               split = length digits - nat (scale d);
               text = take split digits @ ''.'' @ drop split digits
           in if negative then CHR ''-'' # text else text)"

definition compare_dec :: "decimal \<Rightarrow> decimal \<Rightarrow> int" where
  "compare_dec l r =
     (case aligned l r of (a, b) \<Rightarrow> if a < b then -1 else if a > b then 1 else 0)"

definition is_zero :: "decimal \<Rightarrow> bool" where
  "is_zero d \<longleftrightarrow> unscaled d = 0"

definition negate :: "decimal \<Rightarrow> decimal" where
  "negate d = mk_decimal (- unscaled d) (scale d)"

definition add_dec :: "decimal \<Rightarrow> decimal \<Rightarrow> decimal result" where
  "add_dec l r =
     (case aligned l r of (a, b) \<Rightarrow>
        if \<not> fits_ll (a + b) then Inl (overflow_error ''add'')
        else Inr (normalized (mk_decimal (a + b) (max (scale l) (scale r)))))"

definition sub_dec :: "decimal \<Rightarrow> decimal \<Rightarrow> decimal result" where
  "sub_dec l r =
     (case aligned l r of (a, b) \<Rightarrow>
        if \<not> fits_ll (a - b) then Inl (overflow_error ''sub'')
        else Inr (normalized (mk_decimal (a - b) (max (scale l) (scale r)))))"

text \<open>No range check here: \<open>static_cast<long long>\<close> keeps the low 64 bits.\<close>

definition sub_clamped_zero :: "decimal \<Rightarrow> decimal \<Rightarrow> decimal" where
  "sub_clamped_zero l r =
     (case aligned l r of (a, b) \<Rightarrow>
        if a \<le> b then mk_decimal 0 0
        else normalized (mk_decimal (wrap64 (a - b)) (max (scale l) (scale r))))"

definition mul_dec :: "decimal \<Rightarrow> decimal \<Rightarrow> decimal result" where
  "mul_dec l r =
     (let product = unscaled l * unscaled r
      in if \<not> fits_ll product then Inl (overflow_error ''mul'')
         else Inr (normalized (mk_decimal product (scale l + scale r))))"

definition div_dec :: "decimal \<Rightarrow> decimal \<Rightarrow> int \<Rightarrow> decimal result" where
  "div_dec l r max_scale =
     (if unscaled r = 0 then Inl (Error ''protocol'' ''decimal div by zero'')
      else if max_scale < 0 \<or> max_scale > kMaxInternalScale then
        Inl (Error ''protocol'' ''decimal div scale out of range'')
      else let common = max (scale l) (scale r);
               scaled_lhs = unscaled l * pow10 (common - scale l + max_scale);
               scaled_rhs = unscaled r * pow10 (common - scale r);
               negative = ((scaled_lhs < 0) \<noteq> (scaled_rhs < 0));
               lhs_magnitude = \<bar>scaled_lhs\<bar>;
               rhs_magnitude = \<bar>scaled_rhs\<bar>;
               quotient = lhs_magnitude div rhs_magnitude;
               remainder = lhs_magnitude mod rhs_magnitude;
               rounded = (if remainder * 2 \<ge> rhs_magnitude then quotient + 1 else quotient);
               signed = (if negative then - rounded else rounded)
           in if \<not> fits_ll signed then Inl (overflow_error ''div'')
              else Inr (normalized (mk_decimal signed max_scale)))"

section \<open>The number a decimal denotes\<close>

definition dval :: "decimal \<Rightarrow> rat" where
  "dval d = of_int (unscaled d) / 10 ^ nat (scale d)"

text \<open>Well-formed at a scale bound: what the struct's comment promises.\<close>

definition wf_decimal :: "int \<Rightarrow> decimal \<Rightarrow> bool" where
  "wf_decimal m d \<longleftrightarrow> 0 \<le> scale d \<and> scale d \<le> m \<and> fits_ll (unscaled d)"

definition canonical :: "decimal \<Rightarrow> bool" where
  "canonical d \<longleftrightarrow> 0 \<le> scale d \<and> (scale d > 0 \<longrightarrow> unscaled d mod 10 \<noteq> 0)"

lemma mk_decimal_sel [simp]: "unscaled (mk_decimal u s) = u" "scale (mk_decimal u s) = s"
  by (simp_all add: mk_decimal_def)

lemma mk_decimal_eta [simp]: "mk_decimal (unscaled d) (scale d) = d"
  by (simp add: mk_decimal_def)

lemma pow10_eq: "pow10 e = 10 ^ nat e"
proof -
  have "((\<lambda>v. v * 10) ^^ n) (1::int) = 10 ^ n" for n
    by (induction n) (simp_all add: mult.commute)
  then show ?thesis by (simp add: pow10_def)
qed

lemma pow10_pos [simp]: "0 < pow10 e"
  by (simp add: pow10_eq)

lemma normalize_loop_spec:
  assumes "0 \<le> s"
  shows "case normalize_loop u s of (u', s') \<Rightarrow>
    0 \<le> s' \<and> s' \<le> s \<and> u = u' * 10 ^ nat (s - s') \<and> (s' > 0 \<longrightarrow> u' mod 10 \<noteq> 0)"
  using assms
proof (induction u s rule: normalize_loop.induct)
  case (1 u s)
  show ?case
  proof (cases "s > 0 \<and> u mod 10 = 0")
    case True
    obtain u' s' where res: "normalize_loop (u div 10) (s - 1) = (u', s')" by fastforce
    with 1 True have ih: "0 \<le> s'" "s' \<le> s - 1" "u div 10 = u' * 10 ^ nat (s - 1 - s')"
      "s' > 0 \<longrightarrow> u' mod 10 \<noteq> 0" by auto
    have u: "u = u div 10 * 10" using True by presburger
    have "nat (s - s') = Suc (nat (s - 1 - s'))" using ih by simp
    with u ih(3) have "u = u' * 10 ^ nat (s - s')"
      by (metis mult.assoc mult.commute power_Suc)
    with True res ih show ?thesis by (subst normalize_loop.simps) simp
  next
    case False
    with 1 show ?thesis by (subst normalize_loop.simps) auto
  qed
qed

lemma normalize_loop_id: "(s > 0 \<longrightarrow> u mod 10 \<noteq> 0) \<Longrightarrow> normalize_loop u s = (u, s)"
  by (subst normalize_loop.simps) auto

lemma rat_scale_shift:
  "0 \<le> s' \<Longrightarrow> s' \<le> s \<Longrightarrow> (of_int (u * 10 ^ nat (s - s')) :: rat) / 10 ^ nat s = of_int u / 10 ^ nat s'"
proof -
  assume "0 \<le> s'" "s' \<le> s"
  then have "nat s = nat (s - s') + nat s'" by simp
  then have "(10::rat) ^ nat s = 10 ^ nat (s - s') * 10 ^ nat s'" by (simp only: power_add)
  then show ?thesis by simp
qed

lemma normalized_spec:
  assumes "0 \<le> scale d"
  shows "dval (normalized d) = dval d" "canonical (normalized d)"
    "scale (normalized d) \<le> scale d" "\<bar>unscaled (normalized d)\<bar> \<le> \<bar>unscaled d\<bar>"
    "unscaled d \<ge> 0 \<Longrightarrow> unscaled (normalized d) \<ge> 0" "unscaled d \<le> 0 \<Longrightarrow> unscaled (normalized d) \<le> 0"
proof -
  obtain u s where r: "normalize_loop (unscaled d) (scale d) = (u, s)" by fastforce
  from normalize_loop_spec [OF assms, of "unscaled d"] r have
    sp: "0 \<le> s" "s \<le> scale d" "unscaled d = u * 10 ^ nat (scale d - s)" "s > 0 \<longrightarrow> u mod 10 \<noteq> 0"
    by auto
  have n: "normalized d = mk_decimal u (if u = 0 then 0 else s)"
    by (simp add: normalized_def r)
  show "dval (normalized d) = dval d"
    using sp rat_scale_shift [of s "scale d" u] by (auto simp: dval_def n)
  show "canonical (normalized d)"
    using sp by (auto simp: canonical_def n)
  show "scale (normalized d) \<le> scale d" using sp assms by (simp add: n)
  have p: "(1::int) \<le> 10 ^ nat (scale d - s)" by simp
  have "\<bar>u\<bar> * 1 \<le> \<bar>u\<bar> * 10 ^ nat (scale d - s)" using p by (intro mult_left_mono) auto
  then show "\<bar>unscaled (normalized d)\<bar> \<le> \<bar>unscaled d\<bar>" using sp(3) by (simp add: n abs_mult)
  show "unscaled d \<ge> 0 \<Longrightarrow> unscaled (normalized d) \<ge> 0"
    using sp(3) p by (auto simp: n zero_le_mult_iff)
  show "unscaled d \<le> 0 \<Longrightarrow> unscaled (normalized d) \<le> 0"
    using sp(3) p by (auto simp: n mult_le_0_iff)
qed

lemma normalized_canonical: "canonical d \<Longrightarrow> normalized d = d"
  by (auto simp: normalized_def canonical_def normalize_loop_id mk_decimal_def)

lemma fits_ll_normalized:
  "0 \<le> scale d \<Longrightarrow> fits_ll (unscaled d) \<Longrightarrow> fits_ll (unscaled (normalized d))"
  using normalized_spec [of d]
  by (cases "unscaled d \<ge> 0") (auto simp: fits_ll_def kLlMax_def kLlMin_def)

lemma wf_normalized: "wf_decimal m d \<Longrightarrow> wf_decimal m (normalized d)"
  using normalized_spec [of d] fits_ll_normalized [of d]
  by (auto simp: wf_decimal_def canonical_def)

lemma canonical_unique:
  assumes "canonical a" "canonical b" "dval a = dval b"
  shows "a = b"
proof -
  have main: "x = y" if c: "canonical x" "canonical y" and v: "dval x = dval y"
    and le: "scale x \<le> scale y" for x y
  proof -
    let ?n = "nat (scale y - scale x)"
    have sx: "0 \<le> scale x" "0 \<le> scale y" using c by (auto simp: canonical_def)
    have "(of_int (unscaled x * 10 ^ ?n) :: rat) / 10 ^ nat (scale y)
        = of_int (unscaled y) / 10 ^ nat (scale y)"
      using rat_scale_shift [of "scale x" "scale y" "unscaled x"] v sx le
      by (simp add: dval_def)
    then have eqr: "(of_int (unscaled x * 10 ^ ?n) :: rat) = of_int (unscaled y)"
      by (simp add: field_simps)
    then have eq: "unscaled x * 10 ^ ?n = unscaled y" by (simp only: of_int_eq_iff)
    have "?n = 0"
    proof (rule ccontr)
      assume "?n \<noteq> 0"
      then obtain k where "?n = Suc k" using not0_implies_Suc by blast
      with eq have "unscaled y = unscaled x * 10 ^ k * 10" by simp
      then have "unscaled y mod 10 = 0" by presburger
      moreover have "scale y > 0" using \<open>?n \<noteq> 0\<close> sx by simp
      ultimately have "unscaled y mod 10 = 0" "scale y > 0" by auto
      with c(2) show False by (simp add: canonical_def)
    qed
    with eq le show "x = y" by simp
  qed
  show ?thesis using main [of a b] main [of b a] assms by (cases "scale a \<le> scale b") auto
qed

lemma aligned_spec:
  assumes "0 \<le> scale l" "0 \<le> scale r" "aligned l r = (a, b)"
  shows "of_int a = dval l * 10 ^ nat (max (scale l) (scale r))"
    "of_int b = dval r * 10 ^ nat (max (scale l) (scale r))"
proof -
  let ?m = "max (scale l) (scale r)"
  have e: "(10::rat) ^ nat ?m = 10 ^ nat (?m - scale l) * 10 ^ nat (scale l)"
     "(10::rat) ^ nat ?m = 10 ^ nat (?m - scale r) * 10 ^ nat (scale r)"
    using assms(1,2) by (simp_all flip: power_add nat_add_distrib)
  have ab: "a = unscaled l * 10 ^ nat (?m - scale l)" "b = unscaled r * 10 ^ nat (?m - scale r)"
    using assms(3) by (simp_all add: aligned_def Let_def pow10_eq)
  show "of_int a = dval l * 10 ^ nat ?m" unfolding e(1) by (simp add: ab dval_def)
  show "of_int b = dval r * 10 ^ nat ?m" unfolding e(2) by (simp add: ab dval_def)
qed

section \<open>Operations are exact\<close>

lemma compare_dec_val:
  assumes "0 \<le> scale l" "0 \<le> scale r"
  shows "compare_dec l r = (if dval l < dval r then -1 else if dval l > dval r then 1 else 0)"
proof -
  obtain a b where ab: "aligned l r = (a, b)" by fastforce
  let ?p = "(10::rat) ^ nat (max (scale l) (scale r))"
  have p: "0 < ?p" by simp
  have "a < b \<longleftrightarrow> (of_int a :: rat) < of_int b" "b < a \<longleftrightarrow> (of_int b :: rat) < of_int a" by simp_all
  then have "a < b \<longleftrightarrow> dval l < dval r" "b < a \<longleftrightarrow> dval r < dval l"
    using aligned_spec [OF assms ab] p by simp_all
  then show ?thesis by (simp add: compare_dec_def ab)
qed

lemma dval_of_aligned:
  "0 \<le> m \<Longrightarrow> of_int n = v * (10::rat) ^ nat m \<Longrightarrow> dval (normalized (mk_decimal n m)) = v"
  using normalized_spec(1) [of "mk_decimal n m"] by (simp add: dval_def [of "mk_decimal n m"])

lemma add_dec_val:
  assumes "0 \<le> scale l" "0 \<le> scale r" "add_dec l r = Inr d"
  shows "dval d = dval l + dval r" "canonical d" "fits_ll (unscaled d)"
    "scale d \<le> max (scale l) (scale r)"
proof -
  obtain a b where ab: "aligned l r = (a, b)" by fastforce
  let ?m = "max (scale l) (scale r)"
  have m: "0 \<le> ?m" using assms by simp
  have d: "d = normalized (mk_decimal (a + b) ?m)" and f: "fits_ll (a + b)"
    using assms(3) by (auto simp: add_dec_def ab split: if_splits)
  have "of_int (a + b) = (dval l + dval r) * 10 ^ nat ?m"
    using aligned_spec [OF assms(1,2) ab] by (simp add: algebra_simps)
  with m show "dval d = dval l + dval r" unfolding d by (rule dval_of_aligned)
  show "canonical d" "scale d \<le> ?m" unfolding d using m normalized_spec [of "mk_decimal (a + b) ?m"] by auto
  show "fits_ll (unscaled d)" unfolding d using m f by (intro fits_ll_normalized) simp_all
qed

lemma mul_dec_val:
  assumes "0 \<le> scale l" "0 \<le> scale r" "mul_dec l r = Inr d"
  shows "dval d = dval l * dval r" "canonical d" "fits_ll (unscaled d)"
    "scale d \<le> scale l + scale r"
proof -
  let ?n = "mk_decimal (unscaled l * unscaled r) (scale l + scale r)"
  have d: "d = normalized ?n" and f: "fits_ll (unscaled l * unscaled r)"
    using assms(3) by (auto simp: mul_dec_def Let_def split: if_splits)
  have n: "0 \<le> scale ?n" using assms by simp
  have "dval ?n = dval l * dval r"
    using assms by (simp add: dval_def nat_add_distrib power_add)
  with n show "dval d = dval l * dval r" "canonical d" "scale d \<le> scale l + scale r"
    unfolding d using normalized_spec [OF n] by auto
  show "fits_ll (unscaled d)" unfolding d using n f by (intro fits_ll_normalized) simp_all
qed

lemma negate_val [simp]: "dval (negate d) = - dval d" "scale (negate d) = scale d"
  by (simp_all add: negate_def dval_def)

text \<open>\<open>sub_clamped_zero\<close> is exact where the aligned difference fits 64 bits.\<close>

lemma sub_clamped_zero_val:
  assumes "0 \<le> scale l" "0 \<le> scale r" "aligned l r = (a, b)" "a - b \<le> kLlMax"
  shows "dval (sub_clamped_zero l r) = max 0 (dval l - dval r)" "canonical (sub_clamped_zero l r)"
    "scale (sub_clamped_zero l r) \<le> max (scale l) (scale r)" "fits_ll (unscaled (sub_clamped_zero l r))"
proof -
  let ?m = "max (scale l) (scale r)"
  have m: "0 \<le> ?m" using assms by simp
  have al: "of_int a = dval l * 10 ^ nat ?m" "of_int b = dval r * 10 ^ nat ?m"
    using aligned_spec [OF assms(1-3)] by auto
  have le: "a \<le> b \<longleftrightarrow> dval l \<le> dval r"
  proof -
    have "a \<le> b \<longleftrightarrow> (of_int a :: rat) \<le> of_int b" by simp
    then show ?thesis unfolding al by simp
  qed
  let ?n = "mk_decimal (a - b) ?m"
  have s: "sub_clamped_zero l r = (if a \<le> b then mk_decimal 0 0 else normalized ?n)"
    using assms(4) by (simp add: sub_clamped_zero_def assms(3) wrap64_id kLlMin_def)
  have v: "dval (normalized ?n) = dval l - dval r"
    by (rule dval_of_aligned [OF m]) (simp add: al algebra_simps)
  show "dval (sub_clamped_zero l r) = max 0 (dval l - dval r)"
    using v le by (simp add: s max_def dval_def)
  show "canonical (sub_clamped_zero l r)" "scale (sub_clamped_zero l r) \<le> ?m"
    using normalized_spec [of ?n] m by (auto simp: s canonical_def)
  show "fits_ll (unscaled (sub_clamped_zero l r))"
  proof (cases "a \<le> b")
    case True
    then show ?thesis by (simp add: s fits_ll_def kLlMax_def kLlMin_def)
  next
    case False
    have "fits_ll (unscaled (normalized ?n))"
      using assms(4) m False by (intro fits_ll_normalized) (simp_all add: fits_ll_def kLlMin_def)
    with False show ?thesis by (simp add: s)
  qed
qed

section \<open>Parsing accepts exactly the decimal literals\<close>

definition dec_literal :: "string \<Rightarrow> string \<Rightarrow> string" where
  "dec_literal ip fp = ip @ (if fp = [] then [] else CHR ''.'' # fp)"

definition literal_ok :: "string \<Rightarrow> string \<Rightarrow> bool" where
  "literal_ok ip fp \<longleftrightarrow> ip \<noteq> [] \<and> list_all is_digit_char ip \<and> list_all is_digit_char fp
     \<and> int (length fp) \<le> kMaxDecimalScale \<and> digits_val (ip @ fp) \<le> kLlMax"

definition literal_decimal :: "bool \<Rightarrow> string \<Rightarrow> string \<Rightarrow> decimal" where
  "literal_decimal neg ip fp =
     normalized (mk_decimal (if neg then - digits_val (ip @ fp) else digits_val (ip @ fp))
       (int (length fp)))"

lemma list_all_digits: "list_all is_digit_char ds \<longleftrightarrow> (\<forall>c \<in> set ds. is_digit_char c)"
  by (simp add: list_all_iff)

lemma parse_loop_digits:
  assumes "list_all is_digit_char ds" "0 \<le> u" "u * 10 ^ length ds + digits_val ds \<le> kLlMax"
    "f \<longrightarrow> s + int (length ds) \<le> kMaxDecimalScale"
  shows "parse_loop txt u s f any (ds @ cs) =
    parse_loop txt (u * 10 ^ length ds + digits_val ds)
      (if f then s + int (length ds) else s) f (any \<or> ds \<noteq> []) cs"
  using assms
proof (induction ds arbitrary: u s any)
  case Nil
  then show ?case by simp
next
  case (Cons c ds)
  let ?u = "u * 10 + digit_of c"
  have c: "is_digit_char c" "0 \<le> digit_of c" and ds: "list_all is_digit_char ds"
    using Cons.prems(1) digit_of_bounds [of c] by auto
  have tot: "u * 10 ^ length (c # ds) + digits_val (c # ds) = ?u * 10 ^ length ds + digits_val ds"
    by (simp add: digits_val_Cons algebra_simps)
  have v: "0 \<le> digits_val ds" using ds by (simp add: list_all_digits digits_val_nonneg)
  have u0: "0 \<le> ?u" using Cons.prems(2) c by simp
  have "?u * 1 \<le> ?u * 10 ^ length ds" using u0 by (intro mult_left_mono) auto
  also have "\<dots> \<le> ?u * 10 ^ length ds + digits_val ds" using v by simp
  also have "\<dots> \<le> kLlMax" using Cons.prems(3) by (simp only: tot)
  finally have le: "?u \<le> kLlMax" by simp
  have fits: "fits_ll (u * 10)" "fits_ll ?u"
    using le u0 c Cons.prems(2) by (auto simp: fits_ll_def kLlMin_def)
  have "parse_loop txt u s f any ((c # ds) @ cs) =
      parse_loop txt ?u (if f then s + 1 else s) f True (ds @ cs)"
    using c fits Cons.prems(4) by (auto simp: digit_not_punct)
  also have "\<dots> = parse_loop txt (?u * 10 ^ length ds + digits_val ds)
      (if f then (if f then s + 1 else s) + int (length ds) else (if f then s + 1 else s)) f True cs"
    using Cons.IH [of ?u "if f then s + 1 else s" True] ds u0 Cons.prems(3,4) tot
    by (cases f) (simp_all add: add.assoc)
  finally show ?case unfolding tot by (simp add: add.assoc)
qed

lemma parse_loop_sound_frac:
  assumes "parse_loop txt u s True any cs = Inr (u', s', any')" "0 \<le> u" "u \<le> kLlMax"
    "s \<le> kMaxDecimalScale"
  shows "list_all is_digit_char cs \<and> u' = u * 10 ^ length cs + digits_val cs \<and> u' \<le> kLlMax
    \<and> s' = s + int (length cs) \<and> s' \<le> kMaxDecimalScale"
  using assms
proof (induction cs arbitrary: u s any)
  case Nil
  then show ?case by simp
next
  case (Cons c cs)
  have c: "is_digit_char c" "s < kMaxDecimalScale" "fits_ll (u * 10 + digit_of c)"
    and rec: "parse_loop txt (u * 10 + digit_of c) (s + 1) True True cs = Inr (u', s', any')"
    using Cons.prems(1) by (auto split: if_splits)
  have "0 \<le> u * 10 + digit_of c" using Cons.prems(2) digit_of_bounds [OF c(1)] by simp
  from Cons.IH [OF rec this] c show ?case
    by (auto simp: fits_ll_def digits_val_Cons algebra_simps)
qed

lemma parse_loop_sound_int:
  assumes "parse_loop txt u 0 False any cs = Inr (u', s', any')" "0 \<le> u" "u \<le> kLlMax"
  shows "\<exists>ip rest. cs = ip @ rest \<and> list_all is_digit_char ip
    \<and> (rest = [] \<and> u' = u * 10 ^ length ip + digits_val ip \<and> s' = 0 \<and> u' \<le> kLlMax
       \<or> (\<exists>fp. rest = CHR ''.'' # fp \<and> list_all is_digit_char fp
            \<and> u' = u * 10 ^ length (ip @ fp) + digits_val (ip @ fp) \<and> u' \<le> kLlMax
            \<and> s' = int (length fp) \<and> s' \<le> kMaxDecimalScale))"
  using assms
proof (induction cs arbitrary: u any)
  case Nil
  then show ?case by auto
next
  case (Cons c cs)
  show ?case
  proof (cases "c = CHR ''.''")
    case True
    with Cons.prems have "parse_loop txt u 0 True any cs = Inr (u', s', any')" by simp
    from parse_loop_sound_frac [OF this Cons.prems(2,3)] True show ?thesis
      by (intro exI [of _ "[]"] exI [of _ "c # cs"]) (auto simp: kMaxDecimalScale_def)
  next
    case False
    have c: "is_digit_char c" "fits_ll (u * 10 + digit_of c)"
      and rec: "parse_loop txt (u * 10 + digit_of c) 0 False True cs = Inr (u', s', any')"
      using Cons.prems(1) False by (auto split: if_splits)
    have u: "0 \<le> u * 10 + digit_of c" "u * 10 + digit_of c \<le> kLlMax"
      using Cons.prems(2) digit_of_bounds [OF c(1)] c(2) by (auto simp: fits_ll_def)
    from Cons.IH [OF rec u] obtain ip rest where
      r: "cs = ip @ rest" "list_all is_digit_char ip"
      "rest = [] \<and> u' = (u * 10 + digit_of c) * 10 ^ length ip + digits_val ip \<and> s' = 0 \<and> u' \<le> kLlMax
       \<or> (\<exists>fp. rest = CHR ''.'' # fp \<and> list_all is_digit_char fp
            \<and> u' = (u * 10 + digit_of c) * 10 ^ length (ip @ fp) + digits_val (ip @ fp) \<and> u' \<le> kLlMax
            \<and> s' = int (length fp) \<and> s' \<le> kMaxDecimalScale)"
      by blast
    with c show ?thesis
      by (intro exI [of _ "c # ip"] exI [of _ rest]) (auto simp: digits_val_Cons algebra_simps)
  qed
qed

lemma parse_loop_literal:
  assumes "literal_ok ip fp"
  shows "parse_loop t0 0 0 False False (dec_literal ip fp) =
    Inr (digits_val (ip @ fp), int (length fp), True)"
proof -
  have ok: "ip \<noteq> []" "list_all is_digit_char ip" "list_all is_digit_char fp"
    "int (length fp) \<le> kMaxDecimalScale" "digits_val (ip @ fp) \<le> kLlMax"
    using assms by (auto simp: literal_ok_def)
  have n: "0 \<le> digits_val ip" "0 \<le> digits_val fp"
    using ok by (simp_all add: list_all_digits digits_val_nonneg)
  have "digits_val ip * 1 \<le> digits_val ip * 10 ^ length fp"
    using n by (intro mult_left_mono) auto
  then have ip: "digits_val ip \<le> kLlMax"
    using ok(5) n by (simp add: digits_val_append)
  have "parse_loop t0 0 0 False False (ip @ cs) = parse_loop t0 (digits_val ip) 0 False True cs" for cs
    using parse_loop_digits [of ip 0 False 0 t0 False cs] ok ip by simp
  moreover have "parse_loop t0 (digits_val ip) 0 True True fp =
      Inr (digits_val (ip @ fp), int (length fp), True)"
    using parse_loop_digits [of fp "digits_val ip" True 0 t0 True "[]"] ok n
    by (simp add: digits_val_append)
  ultimately show ?thesis by (simp add: dec_literal_def)
qed

lemma last_dec_literal:
  "literal_ok ip fp \<Longrightarrow> is_digit_char (last (dec_literal ip fp))"
  by (auto simp: dec_literal_def literal_ok_def list_all_digits)

lemma hd_dec_literal: "literal_ok ip fp \<Longrightarrow> is_digit_char (hd (dec_literal ip fp))"
  by (cases ip) (auto simp: dec_literal_def literal_ok_def)

lemma parse_literal_complete:
  assumes "literal_ok ip fp"
  shows "parse_signed_decimal (if neg then CHR ''-'' # dec_literal ip fp else dec_literal ip fp)
    = Inr (literal_decimal neg ip fp)"
proof -
  let ?t = "dec_literal ip fp"
  have ne: "?t \<noteq> []" using assms by (simp add: dec_literal_def literal_ok_def)
  have hl: "hd ?t \<noteq> CHR ''.''" "hd ?t \<noteq> CHR ''-''" "last ?t \<noteq> CHR ''.''"
    using hd_dec_literal [OF assms] last_dec_literal [OF assms] by auto
  show ?thesis
    using ne hl parse_loop_literal [OF assms, of ?t]
    by (auto simp: parse_signed_decimal_def Let_def literal_decimal_def)
qed

lemma parse_literal_sound:
  assumes "parse_signed_decimal t = Inr d"
  shows "\<exists>neg ip fp. literal_ok ip fp \<and> d = literal_decimal neg ip fp
    \<and> t = (if neg then CHR ''-'' # dec_literal ip fp else dec_literal ip fp)"
proof -
  let ?neg = "hd t = CHR ''-''"
  define r where "r = (if ?neg then tl t else t)"
  have t: "t \<noteq> []" using assms by (auto simp: parse_signed_decimal_def)
  have r: "r \<noteq> []" "hd r \<noteq> CHR ''.''" "last r \<noteq> CHR ''.''"
    using assms t by (auto simp: parse_signed_decimal_def Let_def r_def split: if_splits)
  obtain u s a where loop: "parse_loop r 0 0 False False r = Inr (u, s, a)"
    and d: "d = normalized (mk_decimal (if ?neg then - u else u) s)"
    using assms t r by (auto simp: parse_signed_decimal_def Let_def r_def split: sum.splits if_splits)
  have "(0::int) \<le> 0" "0 \<le> kLlMax" by (simp_all add: kLlMax_def)
  from parse_loop_sound_int [OF loop this] obtain ip rest where
    pr: "r = ip @ rest" "list_all is_digit_char ip"
      "rest = [] \<and> u = digits_val ip \<and> s = 0 \<and> u \<le> kLlMax
       \<or> (\<exists>fp. rest = CHR ''.'' # fp \<and> list_all is_digit_char fp
            \<and> u = digits_val (ip @ fp) \<and> u \<le> kLlMax
            \<and> s = int (length fp) \<and> s \<le> kMaxDecimalScale)"
    by auto
  obtain fp where fp: "r = dec_literal ip fp" "literal_ok ip fp" "u = digits_val (ip @ fp)"
    "s = int (length fp)"
  proof (cases "rest = []")
    case True
    then show ?thesis using that [of "[]"] pr r by (auto simp: dec_literal_def literal_ok_def kMaxDecimalScale_def)
  next
    case False
    with pr obtain fp where f: "rest = CHR ''.'' # fp" "list_all is_digit_char fp"
      "u = digits_val (ip @ fp)" "u \<le> kLlMax" "s = int (length fp)" "s \<le> kMaxDecimalScale" by auto
    have "fp \<noteq> []" "ip \<noteq> []" using r pr(1) f(1) by auto
    then show ?thesis using that [of fp] pr f by (auto simp: dec_literal_def literal_ok_def)
  qed
  have "t = (if ?neg then CHR ''-'' # r else r)"
    using t by (cases t) (auto simp: r_def)
  with fp d show ?thesis
    by (intro exI [of _ ?neg] exI [of _ ip] exI [of _ fp]) (auto simp: literal_decimal_def)
qed

lemma literal_decimal_spec:
  assumes "literal_ok ip fp"
  shows "canonical (literal_decimal neg ip fp)" "wf_decimal kMaxDecimalScale (literal_decimal neg ip fp)"
    "\<bar>unscaled (literal_decimal neg ip fp)\<bar> \<le> kLlMax"
    "dval (literal_decimal neg ip fp) =
       (if neg then -1 else 1) * of_int (digits_val (ip @ fp)) / 10 ^ length fp"
    "\<not> neg \<Longrightarrow> 0 \<le> unscaled (literal_decimal neg ip fp)"
proof -
  let ?v = "digits_val (ip @ fp)"
  let ?n = "mk_decimal (if neg then - ?v else ?v) (int (length fp))"
  have v: "0 \<le> ?v" "?v \<le> kLlMax" "int (length fp) \<le> kMaxDecimalScale"
    using assms digits_val_nonneg [of "ip @ fp"] by (auto simp: literal_ok_def list_all_digits)
  have wf: "wf_decimal kMaxDecimalScale ?n"
    using v by (auto simp: wf_decimal_def fits_ll_def kLlMin_def kLlMax_def)
  have l: "literal_decimal neg ip fp = normalized ?n" by (simp add: literal_decimal_def)
  show "canonical (literal_decimal neg ip fp)" unfolding l by (rule normalized_spec) simp
  show "wf_decimal kMaxDecimalScale (literal_decimal neg ip fp)" unfolding l using wf by (rule wf_normalized)
  show "\<bar>unscaled (literal_decimal neg ip fp)\<bar> \<le> kLlMax"
    unfolding l using normalized_spec(4) [of ?n] v by (cases neg) simp_all
  show "dval (literal_decimal neg ip fp) = (if neg then -1 else 1) * of_int ?v / 10 ^ length fp"
    unfolding l using normalized_spec(1) [of ?n] by (simp add: dval_def [of ?n])
  show "\<not> neg \<Longrightarrow> 0 \<le> unscaled (literal_decimal neg ip fp)"
    unfolding l using normalized_spec(5) [of ?n] v by simp
qed

text \<open>\<open>parse_decimal\<close> is the unsigned half.\<close>

lemma parse_decimal_signed: "parse_decimal t = Inr d \<Longrightarrow> parse_signed_decimal t = Inr d"
  by (auto simp: parse_decimal_def split: if_splits)

lemma parse_decimal_literal:
  assumes "parse_decimal t = Inr d"
  shows "\<exists>ip fp. literal_ok ip fp \<and> d = literal_decimal False ip fp \<and> t = dec_literal ip fp"
proof -
  from parse_literal_sound [OF parse_decimal_signed [OF assms]] obtain neg ip fp where
    l: "literal_ok ip fp" "d = literal_decimal neg ip fp"
      "t = (if neg then CHR ''-'' # dec_literal ip fp else dec_literal ip fp)" by blast
  have "\<not> neg" using assms l(3) by (auto simp: parse_decimal_def)
  with l show ?thesis by auto
qed

lemma parse_decimal_spec:
  assumes "parse_decimal t = Inr d"
  shows "canonical d" "wf_decimal kMaxDecimalScale d" "0 \<le> dval d" "0 \<le> scale d" "0 \<le> unscaled d"
    "scale d \<le> kMaxDecimalScale"
proof -
  obtain ip fp where l: "literal_ok ip fp" "d = literal_decimal False ip fp"
    using parse_decimal_literal [OF assms] by blast
  show "canonical d" "wf_decimal kMaxDecimalScale d" "0 \<le> unscaled d"
    using l literal_decimal_spec [OF l(1), of False] by auto
  then show "0 \<le> dval d" "0 \<le> scale d" "scale d \<le> kMaxDecimalScale"
    by (auto simp: dval_def wf_decimal_def)
qed

lemma parse_signed_spec:
  assumes "parse_signed_decimal t = Inr d"
  shows "canonical d" "wf_decimal kMaxDecimalScale d" "0 \<le> scale d" "\<bar>unscaled d\<bar> \<le> kLlMax"
  using parse_literal_sound [OF assms] literal_decimal_spec by (auto simp: wf_decimal_def)

section \<open>Printing\<close>

lemma magnitude_ull_abs: "fits_ll u \<Longrightarrow> magnitude_ull u = nat \<bar>u\<bar>"
proof -
  assume f: "fits_ll u"
  show ?thesis
  proof (cases "u < 0")
    case True
    have "(0 - u mod 2 ^ 64) mod 2 ^ 64 = (- u) mod (2 ^ 64 :: int)" by (simp add: mod_minus_eq)
    also have "\<dots> = - u" using f True by (intro mod_pos_pos_trivial) (auto simp: fits_ll_def kLlMin_def)
    finally show ?thesis using True by (simp add: magnitude_ull_def)
  next
    case False
    then have "u mod 2 ^ 64 = u" using f by (intro mod_pos_pos_trivial) (auto simp: fits_ll_def kLlMax_def)
    with False show ?thesis by (simp add: magnitude_ull_def)
  qed
qed

lemma decimal_to_string_literal:
  assumes "canonical d" "scale d \<le> kMaxDecimalScale" "\<bar>unscaled d\<bar> \<le> kLlMax"
  shows "\<exists>ip fp. literal_ok ip fp \<and> literal_decimal (unscaled d < 0) ip fp = d
    \<and> decimal_to_string d =
        (if unscaled d < 0 then CHR ''-'' # dec_literal ip fp else dec_literal ip fp)"
proof -
  let ?u = "unscaled d" and ?n = "nat (scale d)" and ?m = "nat_to_string (nat \<bar>unscaled d\<bar>)"
  have fits: "fits_ll ?u" using assms(3) by (auto simp: fits_ll_def kLlMin_def kLlMax_def)
  have s0: "0 \<le> scale d" using assms(1) by (simp add: canonical_def)
  have lit: "literal_decimal (?u < 0) ip fp = d"
    if "digits_val (ip @ fp) = \<bar>?u\<bar>" "length fp = ?n" for ip fp
    using that s0 assms(1) by (simp add: literal_decimal_def normalized_canonical)
  show ?thesis
  proof (cases "scale d \<le> 0")
    case True
    have ok: "literal_ok ?m []"
      using assms(3) nat_to_string_digits by (auto simp: literal_ok_def list_all_iff kMaxDecimalScale_def)
    have "decimal_to_string d = (if ?u < 0 then CHR ''-'' # dec_literal ?m [] else dec_literal ?m [])"
      using True by (auto simp: decimal_to_string_def int_to_string_def dec_literal_def)
    with ok lit [of ?m "[]"] True show ?thesis by (intro exI [of _ ?m] exI [of _ "[]"]) simp
  next
    case False
    define ds where "ds = pad_zeros ?n ?m"
    let ?k = "length ds - ?n"
    have len: "?n < length ds" by (simp add: ds_def pad_zeros_def)
    have ds: "list_all is_digit_char ds" "digits_val ds = \<bar>?u\<bar>"
      using nat_to_string_digits
      by (auto simp: ds_def pad_zeros_def list_all_iff is_digit_char_def ascii_def)
    have ok: "literal_ok (take ?k ds) (drop ?k ds)"
      using ds len assms(2,3) False
      by (auto simp: literal_ok_def list_all_iff dest: in_set_takeD in_set_dropD)
    have "decimal_to_string d = (if ?u < 0 then CHR ''-'' # dec_literal (take ?k ds) (drop ?k ds)
        else dec_literal (take ?k ds) (drop ?k ds))"
      using False len by (simp add: decimal_to_string_def Let_def magnitude_ull_abs [OF fits]
          dec_literal_def flip: ds_def)
    with ok lit [of "take ?k ds" "drop ?k ds"] ds len show ?thesis
      by (intro exI [of _ "take ?k ds"] exI [of _ "drop ?k ds"]) simp
  qed
qed

section \<open>The interface of amounts\<close>

text \<open>
  What the order book-keeping relies on: amounts are read from text, and \<open>cmp\<close> agrees with
  the order of the numbers read. \<open>raise_mark\<close> is the high-water update of a cumulative
  amount kept as text; an empty mark counts as zero.
\<close>

locale amounts =
  fixes parse :: "string \<Rightarrow> 'd result"
    and cmp :: "'d \<Rightarrow> 'd \<Rightarrow> int"
    and amount :: "'d \<Rightarrow> rat"
  assumes cmp_pos: "parse a = Inr x \<Longrightarrow> parse b = Inr y \<Longrightarrow> 0 < cmp x y \<longleftrightarrow> amount y < amount x"
    and amount_nonneg: "parse a = Inr x \<Longrightarrow> 0 \<le> amount x"
begin

definition or_zero :: "string \<Rightarrow> string" where
  "or_zero t = (if t = [] then ''0'' else t)"

definition reading :: "string \<Rightarrow> rat option" where
  "reading t = (case parse (or_zero t) of Inr d \<Rightarrow> Some (amount d) | Inl _ \<Rightarrow> None)"

definition raise_mark :: "string \<Rightarrow> string \<Rightarrow> string" where
  "raise_mark cur new =
     (if new = [] then cur
      else case parse new of
             Inl _ \<Rightarrow> cur
           | Inr r \<Rightarrow> (case parse (or_zero cur) of
               Inl _ \<Rightarrow> cur
             | Inr c \<Rightarrow> if 0 < cmp r c then new else cur))"

lemma reading_nonneg: "reading t = Some v \<Longrightarrow> 0 \<le> v"
  by (auto simp: reading_def amount_nonneg split: sum.splits)

lemma raise_mark_cases: "raise_mark cur new = cur \<or> raise_mark cur new = new"
  by (auto simp: raise_mark_def split: sum.splits)

lemma raise_mark_max:
  assumes "reading cur = Some v" "new \<noteq> []" "reading new = Some w"
  shows "reading (raise_mark cur new) = Some (max v w)"
  using assms cmp_pos
  by (auto simp: raise_mark_def reading_def or_zero_def max_def split: sum.splits if_splits)

lemma raise_mark_unread:
  "new = [] \<or> reading new = None \<Longrightarrow> raise_mark cur new = cur"
  by (auto simp: raise_mark_def reading_def or_zero_def split: sum.splits if_splits)

lemma raise_mark_mono:
  assumes "reading cur = Some v"
  shows "\<exists>w. reading (raise_mark cur new) = Some w \<and> v \<le> w"
proof (cases "new = [] \<or> reading new = None")
  case True
  with assms show ?thesis by (simp add: raise_mark_unread)
next
  case False
  with raise_mark_max [OF assms, of new] show ?thesis by auto
qed

text \<open>The final mark reads as the maximum of all amounts observed, whatever their order.\<close>

lemma raise_marks_Max:
  assumes "reading cur = Some v" "\<forall>t \<in> set ts. t \<noteq> [] \<and> reading t \<noteq> None"
  shows "reading (foldl raise_mark cur ts) = Some (Max (insert v (the ` reading ` set ts)))"
  using assms
proof (induction ts arbitrary: cur v)
  case Nil
  then show ?case by simp
next
  case (Cons t ts)
  then obtain w where w: "reading t = Some w" "t \<noteq> []" by auto
  have "reading (foldl raise_mark cur (t # ts)) = Some (Max (insert (max v w) (the ` reading ` set ts)))"
    using Cons.IH [of "raise_mark cur t" "max v w"] raise_mark_max [OF Cons.prems(1) w(2,1)] Cons.prems(2)
    by simp
  also have "Max (insert (max v w) (the ` reading ` set ts)) = Max (insert v (insert w (the ` reading ` set ts)))"
    by (cases "set ts = {}") (simp_all add: max.assoc)
  finally show ?case using w by (simp add: image_image)
qed

end

interpretation amt: amounts parse_decimal compare_dec dval
proof
  fix a b x y
  assume "parse_decimal a = Inr x" "parse_decimal b = Inr y"
  then have "0 \<le> scale x" "0 \<le> scale y" by (auto dest: parse_decimal_spec)
  then show "0 < compare_dec x y \<longleftrightarrow> dval y < dval x" by (simp add: compare_dec_val)
next
  fix a x
  assume "parse_decimal a = Inr x"
  then show "0 \<le> dval x" by (rule parse_decimal_spec)
qed

section \<open>Division\<close>

lemma half_away_div:
  fixes a b :: int
  assumes "0 < b"
  defines "q \<equiv> (if a mod b * 2 \<ge> b then a div b + 1 else a div b)"
  shows "2 * \<bar>q * b - a\<bar> \<le> b"
proof -
  define k r where "k = a div b" and "r = a mod b"
  have a: "a = k * b + r" and r: "0 \<le> r" "r < b" using assms(1) by (simp_all add: k_def r_def)
  have "q * b - a = (if r * 2 \<ge> b then b - r else - r)"
    unfolding q_def k_def [symmetric] r_def [symmetric] by (simp add: a algebra_simps)
  with r show ?thesis by (auto split: if_splits)
qed

lemma rat_half_away:
  fixes a b q :: int
  assumes "0 < b" "2 * \<bar>q * b - a\<bar> \<le> b"
  shows "2 * \<bar>of_int q - of_int a / of_int b\<bar> \<le> (1::rat)"
proof -
  have "(of_int q - of_int a / of_int b :: rat) = of_int (q * b - a) / of_int b"
    using assms(1) by (simp add: field_simps)
  then have "2 * \<bar>of_int q - of_int a / of_int b\<bar> = (of_int (2 * \<bar>q * b - a\<bar>) / of_int b :: rat)"
    using assms(1) by simp
  also have "\<dots> \<le> of_int b / of_int b"
    by (intro divide_right_mono) (use assms in \<open>simp_all only: of_int_le_iff of_int_0_le_iff\<close>)
  finally show ?thesis using assms(1) by simp
qed

lemma div_dec_val:
  assumes "0 \<le> scale l" "0 \<le> scale r" "div_dec l r m = Inr d"
  shows "2 * 10 ^ nat m * \<bar>dval d - dval l / dval r\<bar> \<le> 1"
proof -
  let ?c = "max (scale l) (scale r)"
  define sl where "sl = unscaled l * pow10 (?c - scale l + m)"
  define sr where "sr = unscaled r * pow10 (?c - scale r)"
  define q where "q = (if \<bar>sl\<bar> mod \<bar>sr\<bar> * 2 \<ge> \<bar>sr\<bar> then \<bar>sl\<bar> div \<bar>sr\<bar> + 1 else \<bar>sl\<bar> div \<bar>sr\<bar>)"
  define sq where "sq = (if (sl < 0) \<noteq> (sr < 0) then - q else q)"
  have "div_dec l r m =
     (if unscaled r = 0 then Inl (Error ''protocol'' ''decimal div by zero'')
      else if m < 0 \<or> m > kMaxInternalScale then
        Inl (Error ''protocol'' ''decimal div scale out of range'')
      else if \<not> fits_ll sq then Inl (overflow_error ''div'') else Inr (normalized (mk_decimal sq m)))"
    by (simp only: div_dec_def Let_def sl_def sr_def q_def sq_def)
  with assms(3) have m: "0 \<le> m" and ur: "unscaled r \<noteq> 0" and d: "d = normalized (mk_decimal sq m)"
    by (auto split: if_splits)
  have sr0: "0 < \<bar>sr\<bar>" using ur by (simp add: sr_def pow10_eq)
  have "2 * \<bar>of_int q - of_int \<bar>sl\<bar> / of_int \<bar>sr\<bar>\<bar> \<le> (1::rat)"
    by (rule rat_half_away [OF sr0]) (unfold q_def, rule half_away_div [OF sr0])
  then have half: "2 * \<bar>of_int sq - of_int sl / of_int sr\<bar> \<le> (1::rat)"
    using sr0 by (auto simp: sq_def abs_if split: if_splits)
  obtain a b where ab: "aligned l r = (a, b)" by fastforce
  have "sl = a * 10 ^ nat m" "sr = b"
    using ab assms(1,2) m by (auto simp: sl_def sr_def aligned_def Let_def pow10_eq nat_add_distrib power_add)
  then have ratio: "(of_int sl / of_int sr :: rat) = dval l / dval r * 10 ^ nat m"
    using aligned_spec [OF assms(1,2) ab] by simp
  have "dval d = of_int sq / 10 ^ nat m"
    using normalized_spec(1) [of "mk_decimal sq m"] m d by (simp add: dval_def [of "mk_decimal sq m"])
  then have "dval d - dval l / dval r = (of_int sq - of_int sl / of_int sr) / 10 ^ nat m"
    unfolding ratio by (simp add: field_simps)
  then have "2 * 10 ^ nat m * \<bar>dval d - dval l / dval r\<bar> = 2 * \<bar>of_int sq - of_int sl / of_int sr\<bar>"
    by simp
  with half show ?thesis by simp
qed

lemma abs_mult_pow10_le:
  assumes "fits_ll u" "e \<le> int n"
  shows "\<bar>u * pow10 e\<bar> \<le> 2 ^ 63 * 10 ^ n"
proof -
  have "\<bar>u\<bar> \<le> 2 ^ 63" using assms(1) by (auto simp: fits_ll_def kLlMax_def kLlMin_def)
  moreover have "pow10 e \<le> 10 ^ n" using assms(2) by (simp add: pow10_eq power_increasing)
  ultimately have "\<bar>u\<bar> * pow10 e \<le> 2 ^ 63 * 10 ^ n"
    by (intro mult_mono) (auto simp: less_imp_le)
  then show ?thesis by (simp add: abs_mult abs_of_pos)
qed

lemma fits_wideI: "\<bar>x\<bar> \<le> 10 ^ 36 \<Longrightarrow> fits_wide x"
  by (simp add: fits_wide_def abs_le_iff)

lemma fits_wide_mod:
  assumes "0 < b" "b \<le> 2 ^ 63 * 10 ^ 8"
  shows "fits_wide (a mod b * 2)"
proof (rule fits_wideI)
  define x where "x = a mod b"
  have "0 \<le> x" "x < b" using assms(1) by (simp_all add: x_def)
  then show "\<bar>a mod b * 2\<bar> \<le> 10 ^ 36" using assms(2) unfolding x_def [symmetric] by simp
qed

section \<open>Properties\<close>

text \<open>C33. \<open>parse_signed_decimal\<close> accepts exactly the literals \<open>[-]digits[.digits]\<close> with digits
  on both sides of the point, at most eight fractional digits and a magnitude of at most
  \<open>2^63 - 1\<close> once the point is dropped, and returns the canonical decimal of that number:
  no accepted text is rounded, and no other text is accepted.\<close>

theorem parse_signed_decimal_literals:
  "parse_signed_decimal t = Inr d \<longleftrightarrow>
     (\<exists>neg ip fp. t = (if neg then CHR ''-'' # dec_literal ip fp else dec_literal ip fp)
        \<and> literal_ok ip fp \<and> canonical d
        \<and> dval d = (if neg then -1 else 1) * of_int (digits_val (ip @ fp)) / 10 ^ length fp)"
proof
  assume "parse_signed_decimal t = Inr d"
  then obtain neg ip fp where l: "literal_ok ip fp" "d = literal_decimal neg ip fp"
    "t = (if neg then CHR ''-'' # dec_literal ip fp else dec_literal ip fp)"
    by (metis parse_literal_sound)
  with literal_decimal_spec [OF l(1), of neg] show "\<exists>neg ip fp.
      t = (if neg then CHR ''-'' # dec_literal ip fp else dec_literal ip fp)
        \<and> literal_ok ip fp \<and> canonical d
        \<and> dval d = (if neg then -1 else 1) * of_int (digits_val (ip @ fp)) / 10 ^ length fp" by blast
next
  assume "\<exists>neg ip fp. t = (if neg then CHR ''-'' # dec_literal ip fp else dec_literal ip fp)
        \<and> literal_ok ip fp \<and> canonical d
        \<and> dval d = (if neg then -1 else 1) * of_int (digits_val (ip @ fp)) / 10 ^ length fp"
  then obtain neg ip fp where l: "literal_ok ip fp" "canonical d"
    "t = (if neg then CHR ''-'' # dec_literal ip fp else dec_literal ip fp)"
    "dval d = (if neg then -1 else 1) * of_int (digits_val (ip @ fp)) / 10 ^ length fp" by blast
  then have "d = literal_decimal neg ip fp"
    using literal_decimal_spec [OF l(1), of neg] by (intro canonical_unique) auto
  with parse_literal_complete [OF l(1), of neg] l(3) show "parse_signed_decimal t = Inr d" by simp
qed

text \<open>C34. Printing and parsing are inverse on canonical decimals of at most eight fractional
  digits and magnitude below \<open>2^63\<close>: the text \<open>decimal_to_string\<close> writes is read back as the
  same decimal.\<close>

theorem decimal_text_roundtrip:
  assumes "canonical d" "scale d \<le> kMaxDecimalScale" "\<bar>unscaled d\<bar> \<le> kLlMax"
  shows "parse_signed_decimal (decimal_to_string d) = Inr d"
proof -
  obtain ip fp where l: "literal_ok ip fp" "literal_decimal (unscaled d < 0) ip fp = d"
    "decimal_to_string d = (if unscaled d < 0 then CHR ''-'' # dec_literal ip fp else dec_literal ip fp)"
    using decimal_to_string_literal [OF assms] by blast
  show ?thesis unfolding l(3) using parse_literal_complete [OF l(1), of "unscaled d < 0"] l(2) by simp
qed

theorem decimal_text_roundtrip_witness:
  "parse_signed_decimal (decimal_to_string (mk_decimal (-499995) 1)) = Inr (mk_decimal (-499995) 1)"
  by (rule decimal_text_roundtrip) (simp_all add: canonical_def kMaxDecimalScale_def kLlMax_def)

text \<open>C35. Comparison, addition and multiplication of well-formed decimals are exact: \<open>compare\<close>
  is the three-way order of the numbers, a sum or product that is returned is the exact one,
  in canonical form and within 64 bits, and the only error is a result whose unscaled value
  at the working scale does not fit 64 bits.\<close>

theorem decimal_arithmetic_exact:
  assumes "0 \<le> scale l" "0 \<le> scale r"
  shows "compare_dec l r = (if dval l < dval r then -1 else if dval l > dval r then 1 else 0)
   \<and> (\<forall>d. add_dec l r = Inr d \<longrightarrow> dval d = dval l + dval r \<and> canonical d \<and> fits_ll (unscaled d))
   \<and> (\<forall>d. mul_dec l r = Inr d \<longrightarrow> dval d = dval l * dval r \<and> canonical d \<and> fits_ll (unscaled d))
   \<and> (is_ok (add_dec l r) \<longleftrightarrow>
        (\<exists>u. fits_ll u \<and> of_int u = (dval l + dval r) * 10 ^ nat (max (scale l) (scale r))))
   \<and> (is_ok (mul_dec l r) \<longleftrightarrow> fits_ll (unscaled l * unscaled r))"
proof -
  obtain a b where ab: "aligned l r = (a, b)" by fastforce
  have "of_int (a + b) = (dval l + dval r) * 10 ^ nat (max (scale l) (scale r))"
    using aligned_spec [OF assms ab] by (simp add: algebra_simps)
  then have "(\<exists>u. fits_ll u \<and> of_int u = (dval l + dval r) * 10 ^ nat (max (scale l) (scale r)))
      \<longleftrightarrow> fits_ll (a + b)"
    by (metis of_int_eq_iff)
  moreover have "is_ok (add_dec l r) \<longleftrightarrow> fits_ll (a + b)" by (simp add: add_dec_def ab)
  moreover have "is_ok (mul_dec l r) \<longleftrightarrow> fits_ll (unscaled l * unscaled r)"
    by (simp add: mul_dec_def Let_def)
  ultimately show ?thesis
    using compare_dec_val [OF assms] add_dec_val [OF assms] mul_dec_val [OF assms] by blast
qed

theorem decimal_arithmetic_exact_witness:
  "compare_dec (mk_decimal 15 1) (mk_decimal 2 0) = -1
   \<and> is_ok (mul_dec (mk_decimal 15 1) (mk_decimal 2 0))"
  using decimal_arithmetic_exact [of "mk_decimal 15 1" "mk_decimal 2 0"]
  by (simp add: dval_def fits_ll_def kLlMax_def kLlMin_def)

text \<open>\<open>div\<close> at \<open>m\<close> digits returns the quotient rounded to nearest: the returned decimal is
  within half a unit of the \<open>m\<close>-th fractional digit of the exact quotient. For operands read
  from text and \<open>m \<le> 8\<close>, the scaled operands fit the 128-bit intermediate type, as does the
  doubled remainder.\<close>

lemma div_dec_rounds_to_nearest:
  assumes "wf_decimal kMaxDecimalScale l" "wf_decimal kMaxDecimalScale r" "m \<le> kMaxDecimalScale"
    and "div_dec l r m = Inr d"
  shows "2 * 10 ^ nat m * \<bar>dval d - dval l / dval r\<bar> \<le> 1
    \<and> fits_wide (unscaled l * pow10 (max (scale l) (scale r) - scale l + m))
    \<and> fits_wide (unscaled r * pow10 (max (scale l) (scale r) - scale r))
    \<and> fits_wide (\<bar>unscaled l * pow10 (max (scale l) (scale r) - scale l + m)\<bar>
        mod \<bar>unscaled r * pow10 (max (scale l) (scale r) - scale r)\<bar> * 2)"
proof -
  have sc: "0 \<le> scale l" "0 \<le> scale r" "scale l \<le> 8" "scale r \<le> 8" "m \<le> 8"
    and fl: "fits_ll (unscaled l)" "fits_ll (unscaled r)"
    using assms(1-3) by (auto simp: wf_decimal_def kMaxDecimalScale_def)
  let ?l = "unscaled l * pow10 (max (scale l) (scale r) - scale l + m)"
  let ?r = "unscaled r * pow10 (max (scale l) (scale r) - scale r)"
  have l: "\<bar>?l\<bar> \<le> 2 ^ 63 * 10 ^ 16" using sc fl by (intro abs_mult_pow10_le) auto
  have r: "\<bar>?r\<bar> \<le> 2 ^ 63 * 10 ^ 8" using sc fl by (intro abs_mult_pow10_le) auto
  have "unscaled r \<noteq> 0" using assms(4) by (auto simp: div_dec_def)
  then have "0 < \<bar>?r\<bar>" by (simp add: pow10_eq)
  then have "fits_wide (\<bar>?l\<bar> mod \<bar>?r\<bar> * 2)" using r by (rule fits_wide_mod)
  moreover have "fits_wide ?l" by (rule fits_wideI) (rule order_trans [OF l], simp)
  moreover have "fits_wide ?r" by (rule fits_wideI) (rule order_trans [OF r], simp)
  ultimately show ?thesis using div_dec_val [OF sc(1,2) assms(4)] by blast
qed

text \<open>\<open>sub_clamped_zero\<close> subtracts and clamps exactly as long as the aligned difference fits
  64 bits. Beyond that the unchecked narrowing conversion wraps: the outstanding quantity of
  an order for 92233720369 with 0.00000001 filled comes out negative.\<close>

lemma sub_clamped_zero_range:
  "(\<forall>l r. 0 \<le> scale l \<and> 0 \<le> scale r \<and> fst (aligned l r) - snd (aligned l r) \<le> kLlMax
      \<longrightarrow> dval (sub_clamped_zero l r) = max 0 (dval l - dval r))
   \<and> (\<exists>l r. parse_decimal ''92233720369'' = Inr l \<and> parse_decimal ''0.00000001'' = Inr r
        \<and> dval r < dval l \<and> dval (sub_clamped_zero l r) < 0)"
proof (intro conjI allI impI)
  fix l r
  assume "0 \<le> scale l \<and> 0 \<le> scale r \<and> fst (aligned l r) - snd (aligned l r) \<le> kLlMax"
  then show "dval (sub_clamped_zero l r) = max 0 (dval l - dval r)"
    using sub_clamped_zero_val(1) [of l r "fst (aligned l r)" "snd (aligned l r)"] by simp
next
  let ?l = "mk_decimal 92233720369 0" and ?r = "mk_decimal 1 8"
  have n: "normalized ?l = ?l" "normalized ?r = ?r"
    by (rule normalized_canonical, simp add: canonical_def)+
  have p: "parse_decimal ''92233720369'' = Inr ?l" "parse_decimal ''0.00000001'' = Inr ?r"
    by (simp_all add: parse_decimal_def parse_signed_decimal_def Let_def n kMaxDecimalScale_def
        is_digit_char_def ascii_def digit_of_def fits_ll_def kLlMax_def kLlMin_def)
  let ?w = "mk_decimal (-9223372036809551617) 8"
  have "normalized ?w = ?w" by (rule normalized_canonical) (simp add: canonical_def)
  then have "sub_clamped_zero ?l ?r = ?w"
    by (simp add: sub_clamped_zero_def aligned_def Let_def pow10_eq wrap64_def)
  then have "dval (sub_clamped_zero ?l ?r) < 0" by (simp add: dval_def)
  moreover have "dval ?r < dval ?l" by (simp add: dval_def)
  ultimately show "\<exists>l r. parse_decimal ''92233720369'' = Inr l \<and> parse_decimal ''0.00000001'' = Inr r
        \<and> dval r < dval l \<and> dval (sub_clamped_zero l r) < 0"
    using p by blast
qed

end
