(* ===== verification/Json.thy ===== *)
theory Json
  imports Prelude
begin

text \<open>
  The JSON values the gateway builds and inspects. The library that parses and prints them
  (\<^verbatim>\<open>nlohmann::json\<close>) is third-party code and is not modelled: this is the value type and the
  accessors the sources use. An object is the sequence of its members in iteration order (the
  library keeps them in a \<open>std::map\<close>, that is, sorted by key and without duplicates, see
  \<open>json_wf\<close>); a non-negative integer literal is \<open>JUInt\<close>, a negative one \<open>JInt\<close>, a floating
  point number \<open>JFloat\<close> (its exact value).
\<close>

datatype json =
    JNull
  | JBool bool
  | JInt int
  | JUInt nat
  | JFloat rat
  | JStr string
  | JArr "json list"
  | JObj "(string \<times> json) list"

fun is_object :: "json \<Rightarrow> bool" where
  "is_object (JObj _) = True"
| "is_object _ = False"

fun is_null :: "json \<Rightarrow> bool" where
  "is_null JNull = True"
| "is_null _ = False"

fun members :: "json \<Rightarrow> (string \<times> json) list" where
  "members (JObj kvs) = kvs"
| "members _ = []"

text \<open>\<open>find\<close>: \<open>None\<close> is \<open>end()\<close>, also on a value that is not an object.\<close>

definition jfind :: "json \<Rightarrow> string \<Rightarrow> json option" where
  "jfind j k = map_of (members j) k"

text \<open>\<open>j[k] = v\<close> on an object: overwrite in place or add in key order. An initializer list
  \<open>{{k, v}, ...}\<close> adds its pairs one after the other.\<close>

fun jset_members :: "(string \<times> json) list \<Rightarrow> string \<Rightarrow> json \<Rightarrow> (string \<times> json) list" where
  "jset_members [] k v = [(k, v)]"
| "jset_members ((k', v') # kvs) k v =
     (if k = k' then (k, v) # kvs
      else if k < k' then (k, v) # (k', v') # kvs
      else (k', v') # jset_members kvs k v)"

definition jset :: "json \<Rightarrow> string \<Rightarrow> json \<Rightarrow> json" where
  "jset j k v = JObj (jset_members (members j) k v)"

definition jobject :: "(string \<times> json) list \<Rightarrow> json" where
  "jobject kvs = foldl (\<lambda>j kv. jset j (fst kv) (snd kv)) (JObj []) kvs"

text \<open>\<open>get<long long>\<close> after \<open>is_number_integer\<close>: an unsigned value above the signed range wraps.\<close>

definition as_long :: "json \<Rightarrow> int option" where
  "as_long j = (case j of JInt i \<Rightarrow> Some i | JUInt n \<Rightarrow> Some (wrap64 (int n)) | _ \<Rightarrow> None)"

text \<open>\<open>erase(k)\<close>.\<close>

definition jerase :: "json \<Rightarrow> string \<Rightarrow> json" where
  "jerase j k = JObj (filter (\<lambda>kv. fst kv \<noteq> k) (members j))"

fun json_wf :: "json \<Rightarrow> bool" where
  "json_wf (JObj kvs) = (sorted (map fst kvs) \<and> distinct (map fst kvs) \<and> (\<forall>kv \<in> set kvs. json_wf (snd kv)))"
| "json_wf (JArr js) = (\<forall>j \<in> set js. json_wf j)"
| "json_wf _ = True"

lemma jfind_JObj [simp]: "jfind (JObj kvs) k = map_of kvs k"
  by (simp add: jfind_def)

lemma jset_members_find: "map_of (jset_members kvs k v) = (map_of kvs)(k \<mapsto> v)"
  by (induction kvs k v rule: jset_members.induct) auto

lemma jfind_jset [simp]: "jfind (jset j k v) k' = (if k' = k then Some v else jfind j k')"
  by (simp add: jset_def jset_members_find jfind_def)

lemma jfind_jerase [simp]: "jfind (jerase j k) k' = (if k' = k then None else jfind j k')"
proof -
  have "map_of (filter (\<lambda>kv. fst kv \<noteq> k) kvs) k' = (if k' = k then None else map_of kvs k')" for kvs :: "(string \<times> json) list"
    by (induction kvs) auto
  then show ?thesis by (simp add: jerase_def jfind_def)
qed

lemma is_object_jset [simp]: "is_object (jset j k v)"
  by (simp add: jset_def)

lemma is_object_jobject [simp]: "is_object (jobject kvs)"
  by (induction kvs rule: rev_induct) (simp_all add: jobject_def)

lemma jfind_jobject:
  assumes "distinct (map fst kvs)"
  shows "jfind (jobject kvs) k = map_of kvs k"
proof -
  have "jfind (jobject kvs) k = map_of (rev kvs) k"
    by (induction kvs rule: rev_induct) (auto simp: jobject_def)
  also have "\<dots> = map_of kvs k"
  proof (cases "map_of kvs k")
    case None
    then have "map_of (rev kvs) k = None" unfolding map_of_eq_None_iff by simp
    with None show ?thesis by simp
  qed (use assms in \<open>simp add: rev_map [symmetric]\<close>)
  finally show ?thesis .
qed

lemma jset_members_keys: "set (map fst (jset_members kvs k v)) = insert k (set (map fst kvs))"
  by (induction kvs k v rule: jset_members.induct) auto

lemma jset_members_wf:
  assumes "sorted (map fst kvs)" "distinct (map fst kvs)"
  shows "sorted (map fst (jset_members kvs k v)) \<and> distinct (map fst (jset_members kvs k v))"
  using assms
proof (induction kvs k v rule: jset_members.induct)
  case (2 k' v' kvs k v)
  then show ?case using jset_members_keys [of kvs k v] by (auto simp: image_iff)
qed simp

lemma jset_members_vals: "set (map snd (jset_members kvs k v)) \<subseteq> insert v (set (map snd kvs))"
  by (induction kvs k v rule: jset_members.induct) auto

text \<open>Setting a member keeps a JSON object well-formed: its keys stay sorted and unique.\<close>

lemma json_wf_jset:
  assumes "json_wf j" "json_wf v"
  shows "json_wf (jset j k v)"
proof -
  have "sorted (map fst (members j))" "distinct (map fst (members j))"
    "\<forall>kv \<in> set (members j). json_wf (snd kv)" using assms(1) by (cases j; simp)+
  then show ?thesis
    using jset_members_wf [of "members j" k v] jset_members_vals [of "members j" k v] assms(2)
    by (fastforce simp: jset_def)
qed

text \<open>A sorted member list is determined by its lookups, so two ways of building an object that
  agree on every member build the same object.\<close>

definition keyed :: "(string \<times> 'v) list \<Rightarrow> bool" where
  "keyed kvs \<longleftrightarrow> sorted (map fst kvs) \<and> distinct (map fst kvs)"

lemma keyed_ext:
  assumes "keyed kvs" "keyed kvs'" "map_of kvs = map_of kvs'"
  shows "kvs = kvs'"
proof -
  have "set (map fst kvs) = set (map fst kvs')" using assms(3) by (metis dom_map_of_conv_image_fst list.set_map)
  then have keys: "map fst kvs = map fst kvs'"
    using assms(1,2) by (intro sorted_distinct_set_unique) (auto simp: keyed_def)
  have "map snd xs = map (the \<circ> map_of xs) (map fst xs)" if "keyed xs" for xs :: "(string \<times> 'a) list"
    using that by (auto simp: keyed_def)
  then have "map snd kvs = map snd kvs'" using assms keys by metis
  with keys show ?thesis by (metis zip_map_fst_snd)
qed

lemma keyed_jset_members: "keyed kvs \<Longrightarrow> keyed (jset_members kvs k v)"
  using jset_members_wf [of kvs k v] by (simp add: keyed_def)

lemma keyed_filter: "keyed kvs \<Longrightarrow> keyed (filter p kvs)"
  by (auto simp: keyed_def sorted_filter distinct_map_filter)

lemma json_wf_keyed: "json_wf j \<Longrightarrow> keyed (members j)"
  by (cases j) (auto simp: keyed_def)

end
