(* ===== verification/Event_Log.thy ===== *)
theory Event_Log
  imports Json
begin

text \<open>
  The append-only event log, \<^verbatim>\<open>src/core/event_log.cpp\<close>, at two levels.

  The byte level is the file itself: \<open>append_bytes\<close> writes one dumped line (a write may fail
  after some bytes reached the file) and \<open>replay\<close> scans the content line by line. The JSON
  printer and parser are third-party code and are the arguments \<open>dump\<close> and \<open>parse\<close>.

  The event level (\<open>event_sink\<close>, \<open>log_append\<close>) is what the order management system calls: a
  list of events and a write that succeeds or fails as a whole. \<open>append_refines\<close> relates the
  two for writes that fail without leaving bytes behind.
\<close>

section \<open>The file\<close>

abbreviation newline :: char where "newline \<equiv> CHR 0x0A"

text \<open>What one flushed write does: everything reaches the file, or the stream turns bad after
  \<open>n\<close> bytes.\<close>

datatype write_outcome = WriteOk | WriteFail nat

record event_log =
  log_path :: string
  log_open :: bool
  log_content :: string
  log_outcome :: "nat \<Rightarrow> write_outcome"
  log_writes :: nat

definition append_bytes :: "(json \<Rightarrow> string) \<Rightarrow> json \<Rightarrow> event_log \<Rightarrow> error option \<times> event_log" where
  "append_bytes dump ev l =
     (if \<not> log_open l then (Some (Error ''io'' (''event log is not open: '' @ log_path l)), l)
      else
        let line = dump ev @ [newline];
            l' = l\<lparr>log_writes := log_writes l + 1\<rparr>
        in case log_outcome l (log_writes l) of
             WriteOk \<Rightarrow> (None, l'\<lparr>log_content := log_content l @ line\<rparr>)
           | WriteFail n \<Rightarrow>
               (Some (Error ''io'' (''failed to append to event log: '' @ log_path l)),
                l'\<lparr>log_content := log_content l @ take n line\<rparr>))"

record replay_stats =
  rs_events :: nat
  rs_tail_truncated :: bool

definition no_replay :: replay_stats where
  "no_replay = \<lparr>rs_events = 0, rs_tail_truncated = False\<rparr>"

text \<open>What the file system does to a replay: the file cannot be opened, reading it fails, or
  shrinking it fails with a message.\<close>

record replay_faults =
  open_fails :: bool
  read_fails :: bool
  resize_error :: "string option"

definition corrupt_line :: "string \<Rightarrow> nat \<Rightarrow> error" where
  "corrupt_line path n = Error ''persistence''
     (''corrupt event log: line '' @ nat_to_string n @ '' of '' @ path @ '' is not a JSON object'')"

text \<open>The scanning loop over the bytes from \<open>position\<close> on. It carries the line number, the
  events already given to the sink and \<open>good_offset\<close>; the result says whether an
  unterminated tail was met.\<close>

function replay_loop :: "(string \<Rightarrow> json option) \<Rightarrow> string \<Rightarrow> string \<Rightarrow> nat \<Rightarrow> json list \<Rightarrow> nat
    \<Rightarrow> bool result \<times> json list \<times> nat" where
  "replay_loop parse path rest line_number sunk good_offset =
     (if rest = [] then (Inr False, sunk, good_offset)
      else
        let line = takeWhile (\<lambda>c. c \<noteq> newline) rest;
            after = dropWhile (\<lambda>c. c \<noteq> newline) rest;
            line_number' = line_number + 1
        in if after = [] then (Inr True, sunk, good_offset)
           else case parse line of
                  None \<Rightarrow> (Inl (corrupt_line path line_number'), sunk, good_offset)
                | Some ev \<Rightarrow>
                    if \<not> is_object ev then (Inl (corrupt_line path line_number'), sunk, good_offset)
                    else replay_loop parse path (tl after) line_number' (sunk @ [ev])
                           (good_offset + length line + 1))"
  by pat_completeness auto

termination
proof (relation "measure (\<lambda>(_, _, rest, _). length rest)", goal_cases)
  case (2 parse path rest line_number sunk good_offset line after line_number' ev)
  then have "length (tl after) < length after" "length after \<le> length rest"
    by (simp_all add: length_dropWhile_le)
  then show ?case by simp
qed simp

declare replay_loop.simps [simp del]

text \<open>\<open>replay\<close> returns its result, the events the sink received and the file afterwards. A
  missing file (\<open>None\<close>) is an empty log.\<close>

definition replay :: "(string \<Rightarrow> json option) \<Rightarrow> string \<Rightarrow> replay_faults \<Rightarrow> string option
    \<Rightarrow> replay_stats result \<times> json list \<times> string option" where
  "replay parse path faults file =
     (case file of
        None \<Rightarrow> (Inr no_replay, [], None)
      | Some content \<Rightarrow>
          if open_fails faults then
            (Inl (Error ''io'' (''cannot open event log for replay: '' @ path)), [], file)
          else if read_fails faults then
            (Inl (Error ''io'' (''failed while reading event log: '' @ path)), [], file)
          else case replay_loop parse path content 0 [] 0 of
            (Inl e, sunk, _) \<Rightarrow> (Inl e, sunk, file)
          | (Inr torn, sunk, good_offset) \<Rightarrow>
              let stats = \<lparr>rs_events = length sunk, rs_tail_truncated = torn\<rparr>
              in if torn then
                   (case resize_error faults of
                      Some m \<Rightarrow> (Inl (Error ''io'' (''cannot truncate torn event log tail: '' @ m)), sunk, file)
                    | None \<Rightarrow> (Inr stats, sunk, Some (take good_offset content)))
                 else (Inr stats, sunk, file))"

section \<open>The log as the order management system uses it\<close>

record event_sink =
  sink_path :: string
  sink_open :: bool
  sink_events :: "json list"
  sink_write_ok :: "nat \<Rightarrow> bool"
  sink_writes :: nat

definition log_append :: "json \<Rightarrow> event_sink \<Rightarrow> error option \<times> event_sink" where
  "log_append ev s =
     (if \<not> sink_open s then (Some (Error ''io'' (''event log is not open: '' @ sink_path s)), s)
      else
        let s' = s\<lparr>sink_writes := sink_writes s + 1\<rparr>
        in if sink_write_ok s (sink_writes s) then (None, s'\<lparr>sink_events := sink_events s @ [ev]\<rparr>)
           else (Some (Error ''io'' (''failed to append to event log: '' @ sink_path s)), s'))"

section \<open>Scanning what was appended\<close>

definition log_lines :: "(json \<Rightarrow> string) \<Rightarrow> json list \<Rightarrow> string" where
  "log_lines dump evs = concat (map (\<lambda>e. dump e @ [newline]) evs)"

text \<open>What the log relies on from the JSON library, per event: it is an object, its compact
  dump has no raw newline, and parsing the dump gives the event back.\<close>

definition codec_ok :: "(json \<Rightarrow> string) \<Rightarrow> (string \<Rightarrow> json option) \<Rightarrow> json \<Rightarrow> bool" where
  "codec_ok dump parse e \<longleftrightarrow> is_object e \<and> newline \<notin> set (dump e) \<and> parse (dump e) = Some e"

lemma log_lines_simps [simp]:
  "log_lines dump [] = []"
  "log_lines dump (e # es) = dump e @ newline # log_lines dump es"
  "log_lines dump (es @ fs) = log_lines dump es @ log_lines dump fs"
  by (simp_all add: log_lines_def)

lemma take_dropWhile_line:
  assumes "newline \<notin> set line"
  shows "takeWhile (\<lambda>c. c \<noteq> newline) (line @ newline # rest) = line"
    "dropWhile (\<lambda>c. c \<noteq> newline) (line @ newline # rest) = newline # rest"
    "takeWhile (\<lambda>c. c \<noteq> newline) line = line" "dropWhile (\<lambda>c. c \<noteq> newline) line = []"
proof -
  have "\<forall>c \<in> set line. c \<noteq> newline" using assms by auto
  then show "takeWhile (\<lambda>c. c \<noteq> newline) (line @ newline # rest) = line"
    "dropWhile (\<lambda>c. c \<noteq> newline) (line @ newline # rest) = newline # rest"
    "takeWhile (\<lambda>c. c \<noteq> newline) line = line" "dropWhile (\<lambda>c. c \<noteq> newline) line = []"
    by (simp_all add: takeWhile_append2 dropWhile_append2)
qed

text \<open>The loop on one terminated line, and on lines that all decode.\<close>

lemma replay_loop_line:
  assumes "newline \<notin> set line"
  shows "replay_loop parse path (line @ newline # rest) n sunk off =
    (case parse line of
       Some ev \<Rightarrow> if is_object ev then replay_loop parse path rest (n + 1) (sunk @ [ev]) (off + length line + 1)
                 else (Inl (corrupt_line path (n + 1)), sunk, off)
     | None \<Rightarrow> (Inl (corrupt_line path (n + 1)), sunk, off))"
  using take_dropWhile_line(1,2) [OF assms, of rest]
  by (subst replay_loop.simps) (simp add: Let_def split: option.splits)

lemma replay_loop_lines:
  assumes "\<forall>e \<in> set es. codec_ok dump parse e"
  shows "replay_loop parse path (log_lines dump es @ rest) n sunk off =
    replay_loop parse path rest (n + length es) (sunk @ es) (off + length (log_lines dump es))"
  using assms
proof (induction es arbitrary: n sunk off)
  case (Cons e es)
  then have e: "newline \<notin> set (dump e)" "parse (dump e) = Some e" "is_object e"
    by (simp_all add: codec_ok_def)
  have "replay_loop parse path (log_lines dump (e # es) @ rest) n sunk off =
      replay_loop parse path (log_lines dump es @ rest) (n + 1) (sunk @ [e]) (off + length (dump e) + 1)"
    using replay_loop_line [OF e(1), of parse path "log_lines dump es @ rest" n sunk off] e(2,3) by simp
  also have "\<dots> = replay_loop parse path rest (n + 1 + length es) ((sunk @ [e]) @ es)
      (off + length (dump e) + 1 + length (log_lines dump es))"
    by (rule Cons.IH) (use Cons.prems in simp)
  finally show ?case by (simp add: add.assoc add.commute add.left_commute)
qed simp

lemma replay_loop_tail:
  assumes "newline \<notin> set tail"
  shows "replay_loop parse path tail n sunk off = (Inr (tail \<noteq> []), sunk, off)"
  using take_dropWhile_line(4) [OF assms] by (subst replay_loop.simps) (simp add: Let_def)

text \<open>The file after a run of appends, seen at both levels.\<close>

definition same_log :: "(json \<Rightarrow> string) \<Rightarrow> event_log \<Rightarrow> event_sink \<Rightarrow> bool" where
  "same_log dump l s \<longleftrightarrow>
     log_path l = sink_path s \<and> log_open l = sink_open s \<and> log_writes l = sink_writes s
     \<and> log_content l = log_lines dump (sink_events s)
     \<and> (\<forall>n. log_outcome l n = (if sink_write_ok s n then WriteOk else WriteFail 0))"

lemma append_refines:
  assumes "same_log dump l s"
  shows "fst (append_bytes dump ev l) = fst (log_append ev s)
    \<and> same_log dump (snd (append_bytes dump ev l)) (snd (log_append ev s))"
  using assms by (auto simp: same_log_def append_bytes_def log_append_def Let_def)

definition append_all :: "(json \<Rightarrow> string) \<Rightarrow> json list \<Rightarrow> event_log \<Rightarrow> event_log" where
  "append_all dump evs l = foldl (\<lambda>l ev. snd (append_bytes dump ev l)) l evs"

lemma append_all_ok:
  assumes "log_open l" "\<forall>k < length evs. log_outcome l (log_writes l + k) = WriteOk"
  shows "append_all dump evs l =
    l\<lparr>log_content := log_content l @ log_lines dump evs, log_writes := log_writes l + length evs\<rparr>"
  using assms
proof (induction evs arbitrary: l)
  case (Cons e es)
  let ?l = "l\<lparr>log_writes := log_writes l + 1, log_content := log_content l @ dump e @ [newline]\<rparr>"
  have now: "log_outcome l (log_writes l) = WriteOk" using Cons.prems(2) by fastforce
  have later: "log_outcome l (Suc (log_writes l + k)) = WriteOk" if "k < length es" for k
    using Cons.prems(2) [rule_format, of "Suc k"] that by simp
  have "snd (append_bytes dump e l) = ?l"
    using now Cons.prems(1) by (simp add: append_bytes_def Let_def)
  then have "append_all dump (e # es) l = append_all dump es ?l" by (simp add: append_all_def)
  also have "\<dots> = ?l\<lparr>log_content := log_content ?l @ log_lines dump es, log_writes := log_writes ?l + length es\<rparr>"
    by (rule Cons.IH) (use Cons.prems(1) later in simp_all)
  finally show ?case by simp
qed (simp add: append_all_def)

lemma replay_lines:
  assumes "\<forall>e \<in> set es. codec_ok dump parse e" "newline \<notin> set tail"
    "\<not> open_fails faults" "\<not> read_fails faults" "resize_error faults = None"
  shows "replay parse path faults (Some (log_lines dump es @ tail)) =
    (Inr \<lparr>rs_events = length es, rs_tail_truncated = (tail \<noteq> [])\<rparr>, es, Some (log_lines dump es))"
  using assms replay_loop_lines [OF assms(1), of path tail 0 "[]" 0] replay_loop_tail [OF assms(2)]
  by (simp add: replay_def Let_def)

lemma replay_bad_line:
  assumes "\<forall>e \<in> set es. codec_ok dump parse e" "newline \<notin> set bad"
    "\<forall>j. parse bad = Some j \<longrightarrow> \<not> is_object j" "\<not> open_fails faults" "\<not> read_fails faults"
  shows "replay parse path faults (Some (log_lines dump es @ bad @ newline # rest)) =
    (Inl (corrupt_line path (length es + 1)), es, Some (log_lines dump es @ bad @ newline # rest))"
  using assms replay_loop_lines [OF assms(1), of path "bad @ newline # rest" 0 "[]" 0]
    replay_loop_line [OF assms(2), of parse path rest "length es" es "length (log_lines dump es)"]
  by (simp add: replay_def split: option.splits)

definition sink_all :: "json list \<Rightarrow> event_sink \<Rightarrow> event_sink" where
  "sink_all evs s = foldl (\<lambda>s ev. snd (log_append ev s)) s evs"

lemma append_all_refines:
  "same_log dump l s \<Longrightarrow> same_log dump (append_all dump evs l) (sink_all evs s)"
proof (induction evs arbitrary: l s)
  case (Cons e es)
  then have "same_log dump (snd (append_bytes dump e l)) (snd (log_append e s))"
    by (simp add: append_refines)
  from Cons.IH [OF this] show ?case by (simp add: append_all_def sink_all_def)
qed (simp add: append_all_def sink_all_def)

lemma sink_all_events: "set (sink_events (sink_all evs s)) \<subseteq> set (sink_events s) \<union> set evs"
proof (induction evs arbitrary: s)
  case (Cons e es)
  have "set (sink_events (snd (log_append e s))) \<subseteq> insert e (set (sink_events s))"
    by (auto simp: log_append_def Let_def)
  with Cons.IH [of "snd (log_append e s)"] show ?case by (auto simp: sink_all_def)
qed (simp add: sink_all_def)

text \<open>What the calls of a run of appends returned, at both levels.\<close>

fun append_errors :: "(json \<Rightarrow> string) \<Rightarrow> json list \<Rightarrow> event_log \<Rightarrow> error option list" where
  "append_errors dump [] l = []"
| "append_errors dump (ev # evs) l = fst (append_bytes dump ev l) # append_errors dump evs (snd (append_bytes dump ev l))"

fun sink_errors :: "json list \<Rightarrow> event_sink \<Rightarrow> error option list" where
  "sink_errors [] s = []"
| "sink_errors (ev # evs) s = fst (log_append ev s) # sink_errors evs (snd (log_append ev s))"

lemma append_errors_refine: "same_log dump l s \<Longrightarrow> append_errors dump evs l = sink_errors evs s"
  by (induction evs arbitrary: l s) (simp_all add: append_refines)

text \<open>An append reports an error exactly when its event is not in the list afterwards.\<close>

lemma sink_all_accepted:
  "sink_events (sink_all evs s) = sink_events s @ map fst (filter (\<lambda>(ev, e). e = None) (zip evs (sink_errors evs s)))"
proof (induction evs arbitrary: s)
  case (Cons ev evs)
  have "sink_events (snd (log_append ev s)) = sink_events s @ (if fst (log_append ev s) = None then [ev] else [])"
    by (simp add: log_append_def Let_def)
  then show ?case using Cons.IH [of "snd (log_append ev s)"] by (simp add: sink_all_def)
qed (simp add: sink_all_def)

section \<open>Properties\<close>

text \<open>C30. Crash recovery. Whatever a log already holds, after any number of successful appends
  and one append that is cut off after some bytes of its line, a replay hands out exactly
  the events that were appended successfully, in order, reports a torn tail iff bytes were
  left behind, and truncates the file to those events' lines (assuming of the JSON library
  that dumps of these events parse back and contain no newline).\<close>

theorem replay_recovers_appends:
  assumes "\<forall>e \<in> set (es @ evs @ [lost]). codec_ok dump parse e"
    and "log_open l" "log_content l = log_lines dump es"
    and "\<forall>k < length evs. log_outcome l (log_writes l + k) = WriteOk"
    and "log_outcome l (log_writes l + length evs) = WriteFail n" "n \<le> length (dump lost)"
    and "\<not> open_fails faults" "\<not> read_fails faults" "resize_error faults = None"
  shows "fst (append_bytes dump lost (append_all dump evs l)) \<noteq> None
    \<and> replay parse path faults (Some (log_content (snd (append_bytes dump lost (append_all dump evs l))))) =
      (Inr \<lparr>rs_events = length (es @ evs), rs_tail_truncated = (n \<noteq> 0 \<and> dump lost \<noteq> [])\<rparr>,
       es @ evs, Some (log_lines dump (es @ evs)))"
proof -
  have tail: "newline \<notin> set (take n (dump lost))"
    using assms(1) by (auto simp: codec_ok_def dest: in_set_takeD)
  have "append_bytes dump lost (append_all dump evs l) =
      (Some (Error ''io'' (''failed to append to event log: '' @ log_path l)),
       l\<lparr>log_content := log_lines dump (es @ evs) @ take n (dump lost),
         log_writes := log_writes l + length evs + 1\<rparr>)"
    using assms(2,3,5,6) by (simp add: append_all_ok [OF assms(2,4)] append_bytes_def Let_def)
  then show ?thesis
    using replay_lines [of "es @ evs" dump parse "take n (dump lost)" faults path] assms(1,7-9) tail
    by simp
qed

theorem replay_recovers_appends_witness:
  "replay (\<lambda>t. if t = ''{}'' then Some (JObj []) else None) ''log''
      \<lparr>open_fails = False, read_fails = False, resize_error = None\<rparr>
      (Some (log_content (snd (append_bytes (\<lambda>_. ''{}'') (JObj [])
        (append_all (\<lambda>_. ''{}'') [JObj []]
          \<lparr>log_path = ''log'', log_open = True, log_content = [],
            log_outcome = \<lambda>k. if k = 0 then WriteOk else WriteFail 1, log_writes = 0\<rparr>))))) =
    (Inr \<lparr>rs_events = 1, rs_tail_truncated = True\<rparr>, [JObj []], Some (''{}'' @ [newline]))"
  using replay_recovers_appends [of "[]" "[JObj []]" "JObj []" "\<lambda>_. ''{}''"
      "\<lambda>t. if t = ''{}'' then Some (JObj []) else None"
      "\<lparr>log_path = ''log'', log_open = True, log_content = [],
        log_outcome = \<lambda>k. if k = 0 then WriteOk else WriteFail 1, log_writes = 0\<rparr>" 1
      "\<lparr>open_fails = False, read_fails = False, resize_error = None\<rparr>" "''log''"]
  by (simp add: codec_ok_def)

text \<open>A failed append that left part of its line behind is not harmless: the next
  successful append continues that line, and unless the glued text happens to be a JSON
  object, the following replay stops there with a \<open>persistence\<close> error and delivers only the
  events before it.\<close>

lemma torn_append_poisons_replay:
  assumes "\<forall>e \<in> set (es @ [lost, ev]). codec_ok dump parse e"
    and "log_open l" "log_content l = log_lines dump es"
    and "log_outcome l (log_writes l) = WriteFail n" "n \<le> length (dump lost)"
    and "log_outcome l (log_writes l + 1) = WriteOk"
    and "\<forall>j. parse (take n (dump lost) @ dump ev) = Some j \<longrightarrow> \<not> is_object j"
    and "\<not> open_fails faults" "\<not> read_fails faults"
  shows "replay parse path faults (Some (log_content (append_all dump [lost, ev] l))) =
    (Inl (corrupt_line path (length es + 1)), es, Some (log_content (append_all dump [lost, ev] l)))"
proof -
  have bad: "newline \<notin> set (take n (dump lost) @ dump ev)"
    using assms(1) by (auto simp: codec_ok_def dest: in_set_takeD)
  have "log_content (append_all dump [lost, ev] l) = log_lines dump es @ (take n (dump lost) @ dump ev) @ newline # []"
    using assms(2-6) by (simp add: append_all_def append_bytes_def Let_def)
  then show ?thesis
    using replay_bad_line [of es dump parse "take n (dump lost) @ dump ev" faults path "[]"]
      bad assms(1,7-9) by simp
qed

text \<open>C31. The byte file implements the event list the order management system works with:
  for writes that fail without leaving bytes, any run of appends keeps the two in step: every
  append returns the same result at both levels, the events of the list are the old ones and
  those whose append returned no error, in order, and a replay of the file then returns exactly
  that list (assuming of the JSON library that dumps of these events parse back and contain no
  newline, and of the file system that the replay can read the file).\<close>

theorem event_log_refines_sink:
  assumes "same_log dump l s" "\<forall>e \<in> set (sink_events s @ evs). codec_ok dump parse e"
    and "\<not> open_fails faults" "\<not> read_fails faults" "resize_error faults = None"
  shows "same_log dump (append_all dump evs l) (sink_all evs s)
    \<and> append_errors dump evs l = sink_errors evs s
    \<and> sink_events (sink_all evs s)
        = sink_events s @ map fst (filter (\<lambda>(ev, e). e = None) (zip evs (append_errors dump evs l)))
    \<and> replay parse path faults (Some (log_content (append_all dump evs l))) =
      (Inr \<lparr>rs_events = length (sink_events (sink_all evs s)), rs_tail_truncated = False\<rparr>,
       sink_events (sink_all evs s), Some (log_content (append_all dump evs l)))"
proof -
  have run: "same_log dump (append_all dump evs l) (sink_all evs s)"
    using assms(1) by (rule append_all_refines)
  have "\<forall>e \<in> set (sink_events (sink_all evs s)). codec_ok dump parse e"
    using assms(2) sink_all_events by fastforce
  with run show ?thesis
    using replay_lines [of "sink_events (sink_all evs s)" dump parse "[]" faults path] assms(3-5)
      append_errors_refine [OF assms(1), of evs] sink_all_accepted [of evs s]
    by (simp add: same_log_def)
qed

text \<open>Two appends, of which the first fails.\<close>

definition demo_file :: event_log where
  "demo_file = \<lparr>log_path = ''log'', log_open = True, log_content = [],
     log_outcome = \<lambda>k. if k = 1 then WriteOk else WriteFail 0, log_writes = 0\<rparr>"

theorem event_log_refines_sink_witness:
  "\<exists>e. append_errors (\<lambda>_. ''{}'') [JObj [], JObj []] demo_file = [Some e, None]
     \<and> replay (\<lambda>t. if t = ''{}'' then Some (JObj []) else None) ''log''
         \<lparr>open_fails = False, read_fails = False, resize_error = None\<rparr>
         (Some (log_content (append_all (\<lambda>_. ''{}'') [JObj [], JObj []] demo_file))) =
       (Inr \<lparr>rs_events = 1, rs_tail_truncated = False\<rparr>, [JObj []], Some (''{}'' @ [newline]))"
proof -
  let ?s = "\<lparr>sink_path = ''log'', sink_open = True, sink_events = [], sink_write_ok = \<lambda>k. k = 1, sink_writes = 0\<rparr>"
  let ?parse = "\<lambda>t. if t = ''{}'' then Some (JObj []) else None"
  have "same_log (\<lambda>_. ''{}'') demo_file ?s" "\<forall>e \<in> set (sink_events ?s @ [JObj [], JObj []]). codec_ok (\<lambda>_. ''{}'') ?parse e"
    by (simp_all add: same_log_def demo_file_def codec_ok_def)
  from event_log_refines_sink [OF this, of "\<lparr>open_fails = False, read_fails = False, resize_error = None\<rparr>" "''log''"]
  show ?thesis by (simp add: demo_file_def append_all_def append_bytes_def sink_all_def log_append_def Let_def)
qed

end
