(* ===== verification/OMS_Record.thy ===== *)
theory OMS_Record
  imports Order_State Decimal Json Event_Log
begin

text \<open>
  The registry entry of the order management system (\<^verbatim>\<open>src/core/oms.hpp\<close>, \<open>OrderRecord\<close>), the
  operations of \<^verbatim>\<open>src/core/oms.cpp\<close> that touch one record only (its leg table, the application
  of one observation) and the events that describe it. \<open>evolves\<close> is the contract every one
  of them keeps.
\<close>

section \<open>The record\<close>

record order_leg =
  leg_version :: nat
  leg_exchange_order_id :: string

record order_record =
  r_client_order_id :: string
  r_symbol :: string
  r_venue :: string
  r_exchange_order_id :: string
  r_side :: side
  r_type :: order_type
  r_time_in_force :: string
  r_price :: string
  r_quantity :: string
  r_state :: order_state
  r_filled_quantity :: string
  r_average_fill_price :: string
  r_legs :: "order_leg list"
  r_adopted :: bool
  r_rejection :: "error option"

text \<open>A value-initialized \<open>OrderRecord\<close> (what \<open>orders_[id]\<close> creates).\<close>

definition default_record :: order_record where
  "default_record = \<lparr>r_client_order_id = [], r_symbol = [], r_venue = [], r_exchange_order_id = [],
     r_side = Buy, r_type = Limit, r_time_in_force = ''GTC'', r_price = [], r_quantity = [],
     r_state = Pending, r_filled_quantity = ''0'', r_average_fill_price = [], r_legs = [],
     r_adopted = False, r_rejection = None\<rparr>"

section \<open>The leg table\<close>

definition push_leg :: "order_record \<Rightarrow> string \<Rightarrow> order_record" where
  "push_leg r i = r\<lparr>r_legs := r_legs r @ [\<lparr>leg_version = length (r_legs r) + 1, leg_exchange_order_id = i\<rparr>]\<rparr>"

definition note_exchange_id :: "order_record \<Rightarrow> string \<Rightarrow> order_record" where
  "note_exchange_id r i =
     (if i = [] \<or> i = r_exchange_order_id r then r
      else push_leg (r\<lparr>r_exchange_order_id := i\<rparr>) i)"

definition append_amend_leg :: "order_record \<Rightarrow> string \<Rightarrow> order_record" where
  "append_amend_leg r i =
     (if i = [] then r else (push_leg r i)\<lparr>r_exchange_order_id := i\<rparr>)"

text \<open>The loop of \<open>leg_index_of\<close>: the newest matching leg wins.\<close>

fun leg_index_loop :: "order_leg list \<Rightarrow> nat \<Rightarrow> string \<Rightarrow> nat option \<Rightarrow> nat option" where
  "leg_index_loop [] index i match = match"
| "leg_index_loop (l # ls) index i match =
     leg_index_loop ls (index + 1) i (if leg_exchange_order_id l = i then Some index else match)"

definition leg_index_of :: "order_record \<Rightarrow> string \<Rightarrow> nat option" where
  "leg_index_of r i = leg_index_loop (r_legs r) 0 i None"

section \<open>Observations\<close>

text \<open>\<open>apply_observation\<close>: first the fill high-water mark, then, for a report that drives the
  lifecycle, state, price and quantity. The boolean is the source's \<open>changed\<close>.\<close>

definition observe_fill :: "order_record \<Rightarrow> string \<Rightarrow> string \<Rightarrow> bool \<times> order_record" where
  "observe_fill r filled avg_price =
     (if filled = [] then (False, r)
      else case parse_decimal filled of
        Inl _ \<Rightarrow> (False, r)
      | Inr reported \<Rightarrow>
          (case parse_decimal (if r_filled_quantity r = [] then ''0'' else r_filled_quantity r) of
             Inl _ \<Rightarrow> (False, r)
           | Inr current \<Rightarrow>
               if compare_dec reported current > 0 then
                 (True, r\<lparr>r_filled_quantity := filled,
                   r_average_fill_price := (if avg_price \<noteq> [] then avg_price else r_average_fill_price r)\<rparr>)
               else (False, r)))"

definition observe_state :: "order_record \<Rightarrow> order_state \<Rightarrow> bool \<times> order_record" where
  "observe_state r st =
     (if st \<noteq> r_state r then
        (case apply_transition (r_state r) st of
           (Applied, s') \<Rightarrow> (True, r\<lparr>r_state := s'\<rparr>)
         | (TransitionRejected, s') \<Rightarrow> (False, r\<lparr>r_state := s'\<rparr>))
      else (False, r))"

definition observe_price :: "order_record \<Rightarrow> string \<Rightarrow> bool \<times> order_record" where
  "observe_price r price =
     (if price \<noteq> [] \<and> price \<noteq> r_price r then (True, r\<lparr>r_price := price\<rparr>) else (False, r))"

definition observe_quantity :: "order_record \<Rightarrow> string \<Rightarrow> bool \<times> order_record" where
  "observe_quantity r quantity =
     (if quantity \<noteq> [] \<and> quantity \<noteq> r_quantity r then (True, r\<lparr>r_quantity := quantity\<rparr>) else (False, r))"

definition apply_observation :: "order_record \<Rightarrow> order_state \<Rightarrow> string \<Rightarrow> string \<Rightarrow> string \<Rightarrow> string
    \<Rightarrow> bool \<Rightarrow> bool \<times> order_record" where
  "apply_observation r st filled avg_price price quantity apply_lifecycle =
     (case observe_fill r filled avg_price of (c1, r1) \<Rightarrow>
        if apply_lifecycle then
          (case observe_state r1 st of (c2, r2) \<Rightarrow>
           case observe_price r2 price of (c3, r3) \<Rightarrow>
           case observe_quantity r3 quantity of (c4, r4) \<Rightarrow>
             (c1 \<or> c2 \<or> c3 \<or> c4, r4))
        else (c1, r1))"

section \<open>Events\<close>

definition event_string :: "json \<Rightarrow> string \<Rightarrow> string option" where
  "event_string ev nm = (case jfind ev nm of Some (JStr s) \<Rightarrow> Some s | _ \<Rightarrow> None)"

text \<open>\<open>legs.empty() ? 1 : legs.back().version\<close>.\<close>

definition current_version :: "order_record \<Rightarrow> nat" where
  "current_version r = (if r_legs r = [] then 1 else leg_version (last (r_legs r)))"

definition place_submitted_event :: "order_record \<Rightarrow> json" where
  "place_submitted_event r = jobject
     [(''type'', JStr ''place_submitted''),
      (''clientOrderId'', JStr (r_client_order_id r)),
      (''symbol'', JStr (r_symbol r)),
      (''venue'', JStr (r_venue r)),
      (''side'', JStr (side_to_string (r_side r))),
      (''orderType'', JStr (type_to_string (r_type r))),
      (''price'', JStr (r_price r)),
      (''quantity'', JStr (r_quantity r)),
      (''timeInForce'', JStr (r_time_in_force r))]"

definition place_accepted_event :: "order_record \<Rightarrow> json" where
  "place_accepted_event r = jobject
     [(''type'', JStr ''place_accepted''),
      (''clientOrderId'', JStr (r_client_order_id r)),
      (''symbol'', JStr (r_symbol r)),
      (''venue'', JStr (r_venue r)),
      (''side'', JStr (side_to_string (r_side r))),
      (''orderType'', JStr (type_to_string (r_type r))),
      (''price'', JStr (r_price r)),
      (''quantity'', JStr (r_quantity r)),
      (''timeInForce'', JStr (r_time_in_force r)),
      (''exchangeOrderId'', JStr (r_exchange_order_id r)),
      (''version'', JUInt (current_version r))]"

definition adopted_event :: "order_record \<Rightarrow> json" where
  "adopted_event r =
     (let ev = place_accepted_event r;
          ev = jset ev ''type'' (JStr ''adopted'');
          ev = jset ev ''state'' (JStr (state_to_string (r_state r)));
          ev = jset ev ''filledQuantity'' (JStr (r_filled_quantity r))
      in jset ev ''averageFillPrice'' (JStr (r_average_fill_price r)))"

definition rejected_event :: "order_record \<Rightarrow> json" where
  "rejected_event r = jobject
     [(''type'', JStr ''rejected''),
      (''clientOrderId'', JStr (r_client_order_id r)),
      (''symbol'', JStr (r_symbol r)),
      (''venue'', JStr (r_venue r)),
      (''code'', JStr (code (opt_or (r_rejection r) (Error [] [])))),
      (''reason'', JStr (message (opt_or (r_rejection r) (Error [] []))))]"

definition amended_event :: "order_record \<Rightarrow> json" where
  "amended_event r = jobject
     [(''type'', JStr ''amended''),
      (''clientOrderId'', JStr (r_client_order_id r)),
      (''price'', JStr (r_price r)),
      (''quantity'', JStr (r_quantity r)),
      (''state'', JStr (state_to_string (r_state r))),
      (''exchangeOrderId'', JStr (r_exchange_order_id r)),
      (''version'', JUInt (current_version r))]"

definition state_event :: "order_record \<Rightarrow> json" where
  "state_event r = jobject
     [(''type'', JStr ''state''),
      (''clientOrderId'', JStr (r_client_order_id r)),
      (''state'', JStr (state_to_string (r_state r))),
      (''filledQuantity'', JStr (r_filled_quantity r)),
      (''averageFillPrice'', JStr (r_average_fill_price r)),
      (''exchangeOrderId'', JStr (r_exchange_order_id r)),
      (''version'', JUInt (current_version r))]"

section \<open>How a record may change\<close>

text \<open>
  \<open>evolves r r'\<close>: \<open>r'\<close> is a later version of \<open>r\<close>. Identity fields are fixed, the state moves
  forward only (and a terminal record keeps its state and its recorded rejection), the fill
  mark never reads lower, and the leg table is only extended.
\<close>

definition same_order :: "order_record \<Rightarrow> order_record \<Rightarrow> bool" where
  "same_order r r' \<longleftrightarrow>
     r_client_order_id r' = r_client_order_id r \<and> r_symbol r' = r_symbol r \<and> r_venue r' = r_venue r
     \<and> r_side r' = r_side r \<and> r_type r' = r_type r \<and> r_time_in_force r' = r_time_in_force r
     \<and> r_adopted r' = r_adopted r"

definition fill_grows :: "order_record \<Rightarrow> order_record \<Rightarrow> bool" where
  "fill_grows r r' \<longleftrightarrow>
     (\<forall>v. amt.reading (r_filled_quantity r) = Some v \<longrightarrow>
        (\<exists>w. amt.reading (r_filled_quantity r') = Some w \<and> v \<le> w))"

definition evolves :: "order_record \<Rightarrow> order_record \<Rightarrow> bool" where
  "evolves r r' \<longleftrightarrow>
     same_order r r'
     \<and> (r_state r' = r_state r \<or> lifecycle_rank (r_state r) < lifecycle_rank (r_state r'))
     \<and> (is_terminal (r_state r) \<longrightarrow> r_rejection r' = r_rejection r)
     \<and> fill_grows r r'
     \<and> (\<exists>new. r_legs r' = r_legs r @ new)"

definition legs_ok :: "order_record \<Rightarrow> bool" where
  "legs_ok r \<longleftrightarrow>
     map leg_version (r_legs r) = [1..<length (r_legs r) + 1]
     \<and> (if r_legs r = [] then r_exchange_order_id r = []
        else r_exchange_order_id r = leg_exchange_order_id (last (r_legs r)) \<and> r_exchange_order_id r \<noteq> [])"

lemma evolves_refl [simp, intro]: "evolves r r"
  by (simp add: evolves_def same_order_def fill_grows_def)

lemma fill_grows_trans: "fill_grows r1 r2 \<Longrightarrow> fill_grows r2 r3 \<Longrightarrow> fill_grows r1 r3"
  by (fastforce simp: fill_grows_def)

lemma lifecycle_rank_le_3: "lifecycle_rank s \<le> 3"
  by (cases s) simp_all

lemma evolves_terminal:
  "evolves r r' \<Longrightarrow> is_terminal (r_state r) \<Longrightarrow> r_state r' = r_state r \<and> r_rejection r' = r_rejection r"
  using lifecycle_rank_le_3 [of "r_state r'"]
  by (auto simp: evolves_def rank_3_terminal [symmetric] not_le)

lemma evolves_trans [trans]:
  assumes "evolves r1 r2" "evolves r2 r3"
  shows "evolves r1 r3"
proof -
  have "is_terminal (r_state r1) \<Longrightarrow> is_terminal (r_state r2)"
    using evolves_terminal [OF assms(1)] by simp
  moreover have "r_state r3 = r_state r1 \<or> lifecycle_rank (r_state r1) < lifecycle_rank (r_state r3)"
    using assms by (auto simp: evolves_def)
  moreover have "\<exists>new. r_legs r3 = r_legs r1 @ new" using assms by (auto simp: evolves_def)
  moreover have "fill_grows r1 r3" using assms fill_grows_trans unfolding evolves_def by blast
  ultimately show ?thesis using assms by (simp add: evolves_def same_order_def)
qed

text \<open>
  The contract of an operation on one record; its client is any sequence of such operations.
\<close>

locale record_operation =
  fixes upd :: "order_record \<Rightarrow> order_record"
  assumes upd_evolves: "evolves r (upd r)"
    and upd_legs_ok: "legs_ok r \<Longrightarrow> legs_ok (upd r)"
begin

lemma iterate: "evolves r ((upd ^^ n) r) \<and> (legs_ok r \<longrightarrow> legs_ok ((upd ^^ n) r))"
  by (induction n) (auto intro: evolves_trans upd_evolves upd_legs_ok)

lemma id_kept [simp]: "r_client_order_id (upd r) = r_client_order_id r"
  using upd_evolves [of r] by (simp add: evolves_def same_order_def)

end

lemma legs_ok_versions: "legs_ok r \<Longrightarrow> map leg_version (r_legs r) = [1..<length (r_legs r) + 1]"
  by (simp add: legs_ok_def)

lemma legs_ok_cong:
  "r_legs r' = r_legs r \<Longrightarrow> r_exchange_order_id r' = r_exchange_order_id r \<Longrightarrow> legs_ok r' \<longleftrightarrow> legs_ok r"
  by (simp only: legs_ok_def)

lemma legs_ok_push:
  "map leg_version (r_legs r) = [1..<length (r_legs r) + 1] \<Longrightarrow> i \<noteq> [] \<Longrightarrow>
     legs_ok ((push_leg r i)\<lparr>r_exchange_order_id := i\<rparr>)"
  by (simp add: legs_ok_def push_leg_def)

lemma note_exchange_id_push:
  "note_exchange_id r i =
     (if i = [] \<or> i = r_exchange_order_id r then r else (push_leg r i)\<lparr>r_exchange_order_id := i\<rparr>)"
  by (simp add: note_exchange_id_def push_leg_def)

lemma evolves_push: "evolves r ((push_leg r i)\<lparr>r_exchange_order_id := j\<rparr>)"
  by (simp add: evolves_def push_leg_def same_order_def fill_grows_def)

interpretation noting: record_operation "\<lambda>r. note_exchange_id r i" for i
proof
  show "evolves r (note_exchange_id r i)" for r
    by (simp add: note_exchange_id_push evolves_push)
  show "legs_ok r \<Longrightarrow> legs_ok (note_exchange_id r i)" for r
    by (auto simp: note_exchange_id_push intro: legs_ok_push legs_ok_versions)
qed

interpretation amending: record_operation "\<lambda>r. append_amend_leg r i" for i
proof
  show "evolves r (append_amend_leg r i)" for r
    by (simp add: append_amend_leg_def evolves_push)
  show "legs_ok r \<Longrightarrow> legs_ok (append_amend_leg r i)" for r
    by (auto simp: append_amend_leg_def intro: legs_ok_push legs_ok_versions)
qed

text \<open>The fill mark is the \<open>amounts\<close> high-water mark, and a transition is a lifecycle move.\<close>

lemma observe_fill_mark:
  "r_filled_quantity (snd (observe_fill r filled avg)) = amt.raise_mark (r_filled_quantity r) filled"
  by (auto simp: observe_fill_def amt.raise_mark_def amt.or_zero_def split: sum.splits)

lemma observe_fill_frame [frame_simps]:
  "r_state (snd (observe_fill r filled avg)) = r_state r"
  "r_legs (snd (observe_fill r filled avg)) = r_legs r"
  "r_exchange_order_id (snd (observe_fill r filled avg)) = r_exchange_order_id r"
  "r_rejection (snd (observe_fill r filled avg)) = r_rejection r"
  "r_price (snd (observe_fill r filled avg)) = r_price r"
  "r_quantity (snd (observe_fill r filled avg)) = r_quantity r"
  "same_order r (snd (observe_fill r filled avg))"
  by (auto simp: observe_fill_def same_order_def split: sum.splits)

lemma observe_state_move: "snd (observe_state r st) = r\<lparr>r_state := ol.move (r_state r) st\<rparr>"
  by (auto simp: observe_state_def apply_transition_def ol.move_def split: transition_result.splits)

lemma observe_fill_grows: "fill_grows r (snd (observe_fill r filled avg))"
  unfolding fill_grows_def observe_fill_mark using amt.raise_mark_mono by blast

lemma move_climbs: "ol.move s t = s \<or> lifecycle_rank s < lifecycle_rank (ol.move s t)"
  using ol.move_rank [of s t] ol.move_eq_iff [of s t] by linarith

lemma observe_price_quantity:
  "snd (observe_price r p) = r\<lparr>r_price := (if p \<noteq> [] then p else r_price r)\<rparr>"
  "snd (observe_quantity r q) = r\<lparr>r_quantity := (if q \<noteq> [] then q else r_quantity r)\<rparr>"
  by (simp_all add: observe_price_def observe_quantity_def)

text \<open>An observation changes one record in a fixed way: the mark is raised, and with
  \<open>apply_lifecycle\<close> the state moves and a non-empty price or quantity is taken over.\<close>

lemma apply_observation_record:
  "snd (apply_observation r st filled avg price quantity lc) =
     (let r1 = snd (observe_fill r filled avg)
      in if lc then r1\<lparr>r_state := ol.move (r_state r1) st,
             r_price := (if price \<noteq> [] then price else r_price r1),
             r_quantity := (if quantity \<noteq> [] then quantity else r_quantity r1)\<rparr>
         else r1)"
  by (simp add: apply_observation_def case_prod_beta observe_price_quantity observe_state_move Let_def)

interpretation observing: record_operation "\<lambda>r. snd (apply_observation r st filled avg price quantity lc)"
  for st filled avg price quantity lc
proof
  fix r
  let ?r1 = "snd (observe_fill r filled avg)"
  have "fill_grows r ?r1" by (rule observe_fill_grows)
  then show "evolves r (snd (apply_observation r st filled avg price quantity lc))"
    using move_climbs [of "r_state r" st]
    by (simp add: apply_observation_record Let_def evolves_def fill_grows_def same_order_def frame_simps
        observe_fill_frame(7) [unfolded same_order_def])
  show "legs_ok r \<Longrightarrow> legs_ok (snd (apply_observation r st filled avg price quantity lc))"
    by (erule legs_ok_cong [THEN iffD2, rotated 2])
      (simp_all add: apply_observation_record Let_def frame_simps)
qed

section \<open>Looking up a leg\<close>

lemma leg_index_loop_spec:
  "leg_index_loop ls n i match =
     (case leg_index_loop ls 0 i None of None \<Rightarrow> match | Some k \<Rightarrow> Some (n + k))"
proof (induction ls arbitrary: n match)
  case (Cons l ls)
  show ?case
    using Cons.IH [of "n + 1" "if leg_exchange_order_id l = i then Some n else match"]
      Cons.IH [of "1" "if leg_exchange_order_id l = i then Some 0 else None"]
    by (simp split: option.splits)
qed simp

lemma leg_index_of_Cons:
  "leg_index_loop (l # ls) 0 i None =
     (case leg_index_loop ls 0 i None of
        None \<Rightarrow> (if leg_exchange_order_id l = i then Some 0 else None)
      | Some k \<Rightarrow> Some (k + 1))"
  using leg_index_loop_spec [of ls 1 i "if leg_exchange_order_id l = i then Some 0 else None"]
  by (simp split: option.splits)

lemma leg_index_None: "leg_index_of r i = None \<longleftrightarrow> i \<notin> leg_exchange_order_id ` set (r_legs r)"
proof -
  have "leg_index_loop ls 0 i None = None \<longleftrightarrow> i \<notin> leg_exchange_order_id ` set ls" for ls
    by (induction ls) (auto simp: leg_index_of_Cons simp del: leg_index_loop.simps(2) split: option.splits)
  then show ?thesis by (simp add: leg_index_of_def)
qed

lemma leg_index_Some:
  assumes "leg_index_of r i = Some k"
  shows "k < length (r_legs r) \<and> leg_exchange_order_id (r_legs r ! k) = i
    \<and> (\<forall>m. k < m \<and> m < length (r_legs r) \<longrightarrow> leg_exchange_order_id (r_legs r ! m) \<noteq> i)"
proof -
  have "leg_index_loop ls 0 i None = Some k \<Longrightarrow> k < length ls \<and> leg_exchange_order_id (ls ! k) = i
      \<and> (\<forall>m. k < m \<and> m < length ls \<longrightarrow> leg_exchange_order_id (ls ! m) \<noteq> i)" for ls k
  proof (induction ls arbitrary: k)
    case (Cons l ls)
    show ?case
    proof (cases "leg_index_loop ls 0 i None")
      case None
      then have "i \<notin> leg_exchange_order_id ` set ls"
        using leg_index_None [of "default_record\<lparr>r_legs := ls\<rparr>" i] by (simp add: leg_index_of_def)
      then have "\<forall>m < length ls. leg_exchange_order_id (ls ! m) \<noteq> i" by (auto simp: set_conv_nth)
      with None Cons.prems show ?thesis
        by (auto simp: leg_index_of_Cons nth_Cons simp del: leg_index_loop.simps(2)
            split: if_splits nat.splits)
    next
      case (Some j)
      then have "k = j + 1" using Cons.prems by (simp add: leg_index_of_Cons del: leg_index_loop.simps(2))
      with Cons.IH [OF Some] show ?thesis by (auto simp: nth_Cons split: nat.splits)
    qed
  qed simp
  from this [of "r_legs r" k] assms show ?thesis by (simp add: leg_index_of_def)
qed

lemma leg_index_current:
  assumes "legs_ok r" "r_legs r \<noteq> []"
  shows "leg_index_of r (r_exchange_order_id r) = Some (length (r_legs r) - 1)"
proof -
  have last: "r_legs r ! (length (r_legs r) - 1) = last (r_legs r)"
    and id: "leg_exchange_order_id (last (r_legs r)) = r_exchange_order_id r"
    using assms by (simp_all add: last_conv_nth legs_ok_def)
  have "leg_index_of r (r_exchange_order_id r) \<noteq> None"
    unfolding leg_index_None id [symmetric] using assms(2) by simp
  then obtain k where k: "leg_index_of r (r_exchange_order_id r) = Some k" by blast
  have "\<not> k < length (r_legs r) - 1"
  proof
    assume "k < length (r_legs r) - 1"
    then have "leg_exchange_order_id (r_legs r ! (length (r_legs r) - 1)) \<noteq> r_exchange_order_id r"
      using leg_index_Some [OF k] by simp
    then show False using last id by simp
  qed
  moreover have "k < length (r_legs r)" using leg_index_Some [OF k] by simp
  ultimately have "k = length (r_legs r) - 1" by linarith
  with k show ?thesis by simp
qed

end
