(* ===== verification/Risk.thy ===== *)
theory Risk
  imports Decimal Json Connector_Types
begin

text \<open>
  Pre-trade risk, \<^verbatim>\<open>src/core/risk.hpp\<close> and \<^verbatim>\<open>src/core/risk.cpp\<close>: the limits, their JSON
  configuration and the check of a candidate order.
\<close>

section \<open>Definitions\<close>

record instrument_risk_limits =
  max_qty :: string
  max_notional :: string
  max_position :: string

record risk_config =
  rc_defaults :: "instrument_risk_limits option"
  rc_instruments :: "string \<rightharpoonup> instrument_risk_limits"

definition empty_risk_config :: risk_config where
  "empty_risk_config = \<lparr>rc_defaults = None, rc_instruments = Map.empty\<rparr>"

record risk_order =
  ro_side :: side
  ro_price :: string
  ro_quantity :: string
  ro_projected_position :: string

definition limits_for :: "risk_config \<Rightarrow> string \<Rightarrow> instrument_risk_limits option" where
  "limits_for cfg symbol =
     (case rc_instruments cfg symbol of Some l \<Rightarrow> Some l | None \<Rightarrow> rc_defaults cfg)"

text \<open>The lambda \<open>read\<close>: the value of one optional field, validated as a decimal.\<close>

definition read_limit :: "json \<Rightarrow> string \<Rightarrow> string result" where
  "read_limit node nm =
     (case jfind node nm of
        None \<Rightarrow> Inr []
      | Some JNull \<Rightarrow> Inr []
      | Some (JStr v) \<Rightarrow>
          if v = [] then Inr []
          else (case parse_decimal v of
                  Inl _ \<Rightarrow> Inl (Error ''protocol''
                    (''risk field '' @ nm @ '' is not a decimal: '' @ v))
                | Inr _ \<Rightarrow> Inr v)
      | Some _ \<Rightarrow> Inl (Error ''protocol'' (''risk field '' @ nm @ '' must be a string'')))"

definition limits_from_json :: "json \<Rightarrow> instrument_risk_limits result" where
  "limits_from_json node =
     (if \<not> is_object node then Inl (Error ''protocol'' ''risk limits block must be a JSON object'')
      else case read_limit node ''maxQty'' of
        Inl e \<Rightarrow> Inl e
      | Inr q \<Rightarrow> (case read_limit node ''maxNotional'' of
          Inl e \<Rightarrow> Inl e
        | Inr n \<Rightarrow> (case read_limit node ''maxPosition'' of
            Inl e \<Rightarrow> Inl e
          | Inr p \<Rightarrow> Inr \<lparr>max_qty = q, max_notional = n, max_position = p\<rparr>)))"

fun read_instruments :: "(string \<times> json) list \<Rightarrow> (string \<rightharpoonup> instrument_risk_limits)
    \<Rightarrow> (string \<rightharpoonup> instrument_risk_limits) result" where
  "read_instruments [] m = Inr m"
| "read_instruments ((k, v) # kvs) m =
     (case limits_from_json v of
        Inl e \<Rightarrow> Inl e
      | Inr l \<Rightarrow> read_instruments kvs (m(k \<mapsto> l)))"

definition risk_config_from_json :: "json \<Rightarrow> risk_config result" where
  "risk_config_from_json node =
     (if \<not> is_object node then Inl (Error ''protocol'' ''risk section must be a JSON object'')
      else if members node = [] then Inr empty_risk_config
      else case (case jfind node ''default'' of
                   None \<Rightarrow> Inr None
                 | Some d \<Rightarrow> (case limits_from_json d of Inl e \<Rightarrow> Inl e | Inr l \<Rightarrow> Inr (Some l))) of
        Inl e \<Rightarrow> Inl e
      | Inr dflt \<Rightarrow>
          (case jfind node ''instruments'' of
             None \<Rightarrow> Inr \<lparr>rc_defaults = dflt, rc_instruments = Map.empty\<rparr>
           | Some ins \<Rightarrow>
               if \<not> is_object ins then
                 Inl (Error ''protocol'' ''risk.instruments must be a JSON object'')
               else (case read_instruments (members ins) Map.empty of
                       Inl e \<Rightarrow> Inl e
                     | Inr m \<Rightarrow> Inr \<lparr>rc_defaults = dflt, rc_instruments = m\<rparr>)))"

definition risk_invalid :: "string \<Rightarrow> string \<Rightarrow> error" where
  "risk_invalid what v = Error ''risk_invalid_value'' (what @ '' is not a valid decimal: '' @ v)"

text \<open>The three checks, each \<open>Some\<close> rejection or \<open>None\<close>, in the order \<open>check_risk\<close> runs them.\<close>

definition check_max_qty :: "instrument_risk_limits \<Rightarrow> string \<Rightarrow> risk_order \<Rightarrow> decimal \<Rightarrow> error option" where
  "check_max_qty l symbol ord quantity =
     (if max_qty l = [] then None
      else case parse_decimal (max_qty l) of
        Inl _ \<Rightarrow> Some (risk_invalid ''maxQty'' (max_qty l))
      | Inr m \<Rightarrow>
          if compare_dec quantity m > 0 then
            Some (Error ''risk_max_qty'' (''quantity '' @ ro_quantity ord @ '' exceeds maxQty '' @
              max_qty l @ '' for '' @ symbol))
          else None)"

definition check_max_notional :: "instrument_risk_limits \<Rightarrow> string \<Rightarrow> risk_order \<Rightarrow> decimal \<Rightarrow> error option" where
  "check_max_notional l symbol ord quantity =
     (if max_notional l = [] \<or> ro_price ord = [] then None
      else case parse_decimal (ro_price ord) of
        Inl _ \<Rightarrow> Some (risk_invalid ''price'' (ro_price ord))
      | Inr price \<Rightarrow> (case parse_decimal (max_notional l) of
          Inl _ \<Rightarrow> Some (risk_invalid ''maxNotional'' (max_notional l))
        | Inr m \<Rightarrow> (case mul_dec price quantity of
            Inl _ \<Rightarrow> Some (Error ''risk_invalid_value'' ''notional computation overflowed'')
          | Inr notional \<Rightarrow>
              if compare_dec notional m > 0 then
                Some (Error ''risk_max_notional'' (''notional '' @ decimal_to_string notional @
                  '' (price '' @ ro_price ord @ '' x quantity '' @ ro_quantity ord @
                  '') exceeds maxNotional '' @ max_notional l @ '' for '' @ symbol))
              else None)))"

text \<open>The sign in the message is the UTF-8 plus-minus sign.\<close>

definition check_max_position :: "instrument_risk_limits \<Rightarrow> string \<Rightarrow> risk_order \<Rightarrow> error option" where
  "check_max_position l symbol ord =
     (if max_position l = [] then None
      else case parse_signed_decimal (ro_projected_position ord) of
        Inl _ \<Rightarrow> Some (risk_invalid ''projectedPosition'' (ro_projected_position ord))
      | Inr position \<Rightarrow> (case parse_decimal (max_position l) of
          Inl _ \<Rightarrow> Some (risk_invalid ''maxPosition'' (max_position l))
        | Inr m \<Rightarrow>
            let magnitude = (if unscaled position < 0 then negate position else position)
            in if compare_dec magnitude m > 0 then
                 Some (Error ''risk_max_position'' (''projected position '' @
                   decimal_to_string position @ '' exceeds maxPosition '' @ [CHR 0xC2, CHR 0xB1] @
                   max_position l @ '' for '' @ symbol))
               else None))"

definition check_risk :: "instrument_risk_limits option \<Rightarrow> string \<Rightarrow> risk_order \<Rightarrow> error option" where
  "check_risk limits symbol ord =
     (case limits of
        None \<Rightarrow> None
      | Some l \<Rightarrow> (case parse_decimal (ro_quantity ord) of
          Inl _ \<Rightarrow> Some (risk_invalid ''quantity'' (ro_quantity ord))
        | Inr quantity \<Rightarrow> (case check_max_qty l symbol ord quantity of
            Some e \<Rightarrow> Some e
          | None \<Rightarrow> (case check_max_notional l symbol ord quantity of
              Some e \<Rightarrow> Some e
            | None \<Rightarrow> check_max_position l symbol ord))))"

section \<open>What each check means\<close>

definition validated_limits :: "instrument_risk_limits \<Rightarrow> bool" where
  "validated_limits l \<longleftrightarrow>
     (\<forall>t \<in> {max_qty l, max_notional l, max_position l}. t = [] \<or> is_ok (parse_decimal t))"

lemma check_max_qty_None:
  assumes "0 \<le> scale q"
  shows "check_max_qty l symbol ord q = None \<longleftrightarrow>
    max_qty l = [] \<or> (\<exists>m. parse_decimal (max_qty l) = Inr m \<and> dval q \<le> dval m)"
proof (cases "parse_decimal (max_qty l)")
  case (Inr m)
  then have "0 \<le> scale m" by (rule parse_decimal_spec)
  with Inr assms show ?thesis by (auto simp: check_max_qty_def compare_dec_val)
qed (simp add: check_max_qty_def)

lemma check_max_notional_None:
  assumes "0 \<le> scale q"
  shows "check_max_notional l symbol ord q = None \<longleftrightarrow>
    max_notional l = [] \<or> ro_price ord = []
    \<or> (\<exists>p m n. parse_decimal (ro_price ord) = Inr p \<and> parse_decimal (max_notional l) = Inr m
         \<and> mul_dec p q = Inr n \<and> dval p * dval q \<le> dval m)"
proof (cases "parse_decimal (ro_price ord)"; cases "parse_decimal (max_notional l)")
  fix p m
  assume pm: "parse_decimal (ro_price ord) = Inr p" "parse_decimal (max_notional l) = Inr m"
  then have sc: "0 \<le> scale p" "0 \<le> scale m" by (auto dest: parse_decimal_spec)
  show ?thesis
  proof (cases "mul_dec p q")
    case (Inr n)
    have "dval n = dval p * dval q" "0 \<le> scale n"
      using mul_dec_val [OF sc(1) assms Inr] by (auto simp: canonical_def)
    with pm sc Inr show ?thesis by (auto simp: check_max_notional_def compare_dec_val)
  qed (use pm in \<open>simp add: check_max_notional_def\<close>)
qed (simp_all add: check_max_notional_def)

lemma check_max_position_None:
  "check_max_position l symbol ord = None \<longleftrightarrow>
    max_position l = []
    \<or> (\<exists>p m. parse_signed_decimal (ro_projected_position ord) = Inr p
         \<and> parse_decimal (max_position l) = Inr m \<and> \<bar>dval p\<bar> \<le> dval m)"
proof (cases "parse_signed_decimal (ro_projected_position ord)"; cases "parse_decimal (max_position l)")
  fix p m
  assume pm: "parse_signed_decimal (ro_projected_position ord) = Inr p" "parse_decimal (max_position l) = Inr m"
  let ?g = "if unscaled p < 0 then negate p else p"
  have sc: "0 \<le> scale p" "0 \<le> scale m" using pm by (auto dest: parse_decimal_spec parse_signed_spec)
  have "dval ?g = \<bar>dval p\<bar>" "0 \<le> scale ?g"
    using sc by (auto simp: dval_def negate_def divide_less_0_iff)
  with pm sc show ?thesis by (auto simp: check_max_position_def Let_def compare_dec_val)
qed (simp_all add: check_max_position_def)

lemma read_limit_validated: "read_limit node nm = Inr v \<Longrightarrow> v = [] \<or> is_ok (parse_decimal v)"
  by (auto simp: read_limit_def split: option.splits json.splits if_splits sum.splits)

lemma limits_from_json_validated: "limits_from_json node = Inr l \<Longrightarrow> validated_limits l"
  by (auto simp: limits_from_json_def validated_limits_def dest: read_limit_validated
      split: if_splits sum.splits)

lemma read_instruments_validated:
  assumes "read_instruments kvs m = Inr m'" "\<And>k l. m k = Some l \<Longrightarrow> validated_limits l"
    "m' k = Some l"
  shows "validated_limits l"
  using assms
proof (induction kvs m rule: read_instruments.induct)
  case (2 k' v kvs m)
  then obtain lv where lv: "limits_from_json v = Inr lv"
    "read_instruments kvs (m(k' \<mapsto> lv)) = Inr m'" by (auto split: sum.splits)
  have upd: "validated_limits l'" if "(m(k' \<mapsto> lv)) k'' = Some l'" for k'' l'
    using that "2.prems"(2) limits_from_json_validated [OF lv(1)] by (auto split: if_splits)
  show ?case by (rule "2.IH" [OF lv(1,2)]) (use upd "2.prems"(3) in auto)
qed auto

lemma check_codes:
  "check_max_qty l symbol ord q = Some e \<Longrightarrow> code e \<in> {''risk_invalid_value'', ''risk_max_qty''}"
  "check_max_notional l symbol ord q = Some e \<Longrightarrow> code e \<in> {''risk_invalid_value'', ''risk_max_notional''}"
  "check_max_position l symbol ord = Some e \<Longrightarrow> code e \<in> {''risk_invalid_value'', ''risk_max_position''}"
proof -
  show "check_max_qty l symbol ord q = Some e \<Longrightarrow> code e \<in> {''risk_invalid_value'', ''risk_max_qty''}"
    unfolding check_max_qty_def risk_invalid_def by (cases "parse_decimal (max_qty l)") (auto split: if_splits)
  show "check_max_notional l symbol ord q = Some e \<Longrightarrow> code e \<in> {''risk_invalid_value'', ''risk_max_notional''}"
    unfolding check_max_notional_def risk_invalid_def by (clarsimp split: if_splits sum.splits)
  show "check_max_position l symbol ord = Some e \<Longrightarrow> code e \<in> {''risk_invalid_value'', ''risk_max_position''}"
    unfolding check_max_position_def risk_invalid_def Let_def by (clarsimp split: if_splits sum.splits)
qed

lemma risk_codes:
  "check_risk limits symbol ord = Some e \<Longrightarrow>
     code e \<in> {''risk_invalid_value'', ''risk_max_qty'', ''risk_max_notional'', ''risk_max_position''}"
  by (cases limits; cases "parse_decimal (ro_quantity ord)")
    (fastforce simp: check_risk_def risk_invalid_def split: option.splits dest: check_codes)+

section \<open>Properties\<close>

text \<open>C32. An order passes \<open>check_risk\<close> exactly when its quantity is a decimal and every limit
  that is configured holds as a number: quantity at most \<open>maxQty\<close>; exact price times quantity
  (representable in 64 bits) at most \<open>maxNotional\<close>, skipped without a price; and the
  magnitude of the projected position at most \<open>maxPosition\<close>. Everything else, including a
  value that does not parse, is rejected with one of the four \<open>risk_\<close> codes.\<close>

theorem check_risk_accepts_iff:
  "(check_risk (Some l) symbol ord = None \<longleftrightarrow>
     (\<exists>q. parse_decimal (ro_quantity ord) = Inr q
       \<and> (max_qty l = [] \<or> (\<exists>m. parse_decimal (max_qty l) = Inr m \<and> dval q \<le> dval m))
       \<and> (max_notional l = [] \<or> ro_price ord = []
          \<or> (\<exists>p m n. parse_decimal (ro_price ord) = Inr p \<and> parse_decimal (max_notional l) = Inr m
               \<and> mul_dec p q = Inr n \<and> dval p * dval q \<le> dval m))
       \<and> (max_position l = []
          \<or> (\<exists>p m. parse_signed_decimal (ro_projected_position ord) = Inr p
               \<and> parse_decimal (max_position l) = Inr m \<and> \<bar>dval p\<bar> \<le> dval m))))
   \<and> (\<forall>e. check_risk (Some l) symbol ord = Some e \<longrightarrow>
        code e \<in> {''risk_invalid_value'', ''risk_max_qty'', ''risk_max_notional'', ''risk_max_position''})"
proof (cases "parse_decimal (ro_quantity ord)")
  case (Inr q)
  then have sc: "0 \<le> scale q" by (rule parse_decimal_spec)
  have "check_risk (Some l) symbol ord = None \<longleftrightarrow> check_max_qty l symbol ord q = None
      \<and> check_max_notional l symbol ord q = None \<and> check_max_position l symbol ord = None"
    using Inr by (auto simp: check_risk_def split: option.splits)
  with Inr sc show ?thesis
    using risk_codes [of "Some l" symbol ord]
    by (simp add: check_max_qty_None check_max_notional_None check_max_position_None)
next
  case (Inl e)
  then show ?thesis using risk_codes [of "Some l" symbol ord] by (simp add: check_risk_def)
qed

theorem check_risk_accepts_iff_witness:
  "check_risk (Some \<lparr>max_qty = ''1.5'', max_notional = ''100'', max_position = ''2''\<rparr>) ''BTC-USDT''
     \<lparr>ro_side = Sell, ro_price = ''50'', ro_quantity = ''1.50'', ro_projected_position = ''-2.00''\<rparr> = None
   \<and> code (the (check_risk (Some \<lparr>max_qty = ''1.5'', max_notional = ''100'', max_position = ''2''\<rparr>) ''BTC-USDT''
     \<lparr>ro_side = Sell, ro_price = ''50'', ro_quantity = ''1.50'', ro_projected_position = ''-2.01''\<rparr>))
     \<in> {''risk_invalid_value'', ''risk_max_qty'', ''risk_max_notional'', ''risk_max_position''}"
proof -
  let ?l = "\<lparr>max_qty = ''1.5'', max_notional = ''100'', max_position = ''2''\<rparr> :: instrument_risk_limits"
  let ?o = "\<lambda>p. \<lparr>ro_side = Sell, ro_price = ''50'', ro_quantity = ''1.50'', ro_projected_position = p\<rparr>"
  have "check_risk (Some ?l) ''BTC-USDT'' (?o ''-2.00'') = None"
    "check_risk (Some ?l) ''BTC-USDT'' (?o ''-2.01'') \<noteq> None" by code_simp+
  then show ?thesis
    using check_risk_accepts_iff [of ?l "''BTC-USDT''" "?o ''-2.01''"] by auto
qed

text \<open>A risk section that \<open>risk_config_from_json\<close> accepts only yields limits whose
  non-empty fields are decimals, whatever instrument is asked for, so at run time a
  \<open>risk_invalid_value\<close> rejection is never caused by the configuration.\<close>

lemma risk_config_validated:
  assumes "risk_config_from_json node = Inr cfg" "limits_for cfg symbol = Some l"
  shows "validated_limits l"
proof -
  have dflt: "rc_defaults cfg = Some l' \<Longrightarrow> validated_limits l'" for l'
    using assms(1)
    by (auto simp: risk_config_from_json_def empty_risk_config_def dest: limits_from_json_validated
        split: if_splits option.splits sum.splits)
  have ins: "rc_instruments cfg k = Some l' \<Longrightarrow> validated_limits l'" for k l'
    using assms(1)
    by (auto simp: risk_config_from_json_def empty_risk_config_def
        dest!: read_instruments_validated [of _ Map.empty _ k l']
        split: if_splits option.splits sum.splits)
  show ?thesis using assms(2) dflt ins by (auto simp: limits_for_def split: option.splits)
qed

end
