(* ===== verification/OMS_State.thy ===== *)
theory OMS_State
  imports OMS_Record Risk
begin

text \<open>
  The state of the order management system (\<^verbatim>\<open>src/core/oms.hpp\<close>, the members of
  \<open>OrderManagementSystem\<close>) and the operations its handlers share: persistence and latency
  stamps, venue lookup, the projected position, and the arbitration of execution reports.

  Each handler of the source is split at its venue call, because \<open>mutex_\<close> is released there:
  every definition below is (part of) one critical section, so runs of the system are
  interleavings of these definitions. A helper that takes an \<open>OrderRecord&\<close> takes and returns
  the record; its caller stores it back. The order in which an \<open>unordered_map\<close> is traversed is
  the argument \<open>ids\<close>.
\<close>

section \<open>State\<close>

record oms_stats =
  known_orders :: nat
  reports_applied :: nat
  reports_stale :: nat
  reports_unknown :: nat
  reports_buffered :: nat
  legs_discovered :: nat
  log_write_failures :: nat

definition empty_stats :: oms_stats where
  "empty_stats = \<lparr>known_orders = 0, reports_applied = 0, reports_stale = 0, reports_unknown = 0,
     reports_buffered = 0, legs_discovered = 0, log_write_failures = 0\<rparr>"

text \<open>The latency log, \<^verbatim>\<open>src/core/latency.cpp\<close>. \<open>lat_clock n\<close> is what the \<open>n\<close>-th clock reading
  returns.\<close>

record latency_log =
  lat_path :: string
  lat_clock :: "nat \<Rightarrow> int"
  lat_reads :: nat
  lat_lines :: "json list"

definition kNoLatencyStamp :: int where "kNoLatencyStamp = - 1"

definition lat_now :: "latency_log \<Rightarrow> int \<times> latency_log" where
  "lat_now l = (lat_clock l (lat_reads l), l\<lparr>lat_reads := lat_reads l + 1\<rparr>)"

definition jnum :: "int \<Rightarrow> json" where
  "jnum i = (if i < 0 then JInt i else JUInt (nat i))"

definition measure_latency :: "string \<Rightarrow> string \<Rightarrow> int \<Rightarrow> int \<Rightarrow> latency_log \<Rightarrow> latency_log" where
  "measure_latency client_order_id phase start_ns end_ns l =
     (if start_ns < 0 \<or> end_ns < start_ns then l
      else l\<lparr>lat_lines := lat_lines l @
        [jobject [(''type'', JStr ''latency''), (''phase'', JStr phase),
           (''clientOrderId'', JStr client_order_id), (''startNs'', jnum start_ns),
           (''endNs'', jnum end_ns), (''elapsedNs'', jnum (end_ns - start_ns))]]\<rparr>)"

text \<open>A connector is known by its venue key: what a venue call returns is an argument of the
  handler that made the call.\<close>

record oms =
  o_connectors :: "string list"
  o_default_venue :: string
  o_log :: "event_sink option"
  o_latency :: "latency_log option"
  o_risk :: risk_config
  o_orders :: "string \<rightharpoonup> order_record"
  o_raced :: "string \<rightharpoonup> execution_report list"
  o_notes :: "(string \<times> string) list"
  o_stats :: oms_stats

definition new_oms :: "string list \<Rightarrow> event_sink option \<Rightarrow> risk_config \<Rightarrow> string
    \<Rightarrow> latency_log option \<Rightarrow> oms" where
  "new_oms venues lg rsk dflt lat =
     \<lparr>o_connectors = venues, o_default_venue = dflt, o_log = lg, o_latency = lat, o_risk = rsk,
      o_orders = Map.empty, o_raced = Map.empty, o_notes = [], o_stats = empty_stats\<rparr>"

section \<open>Venues, statistics, queries\<close>

definition connector_for :: "oms \<Rightarrow> string \<Rightarrow> string option" where
  "connector_for s venue = (if venue \<in> set (o_connectors s) then Some venue else None)"

definition connector_for_record :: "oms \<Rightarrow> order_record \<Rightarrow> string option" where
  "connector_for_record s r =
     (if r_venue r \<noteq> [] then connector_for s (r_venue r) else connector_for s (o_default_venue s))"

fun join_names :: "string list \<Rightarrow> string \<Rightarrow> string" where
  "join_names [] names = names"
| "join_names (k # ks) names = join_names ks ((if names \<noteq> [] then names @ '', '' else names) @ k)"

definition unsupported_venue_error :: "oms \<Rightarrow> string \<Rightarrow> error" where
  "unsupported_venue_error s venue = Error ''invalid_request''
     (''unsupported venue '' @ [quote_char] @ venue @ [quote_char] @ '' (configured: '' @
      join_names (o_connectors s) [] @ '')'')"

definition venues :: "oms \<Rightarrow> string list" where
  "venues s = o_connectors s"

definition stats :: "oms \<Rightarrow> oms_stats" where
  "stats s = (o_stats s)\<lparr>known_orders := card (dom (o_orders s))\<rparr>"

definition not_found :: "string \<Rightarrow> error" where
  "not_found i = Error ''not_found'' (''unknown clientOrderId '' @ i)"

definition query :: "oms \<Rightarrow> string \<Rightarrow> order_record result" where
  "query s i = (case o_orders s i of None \<Rightarrow> Inl (not_found i) | Some r \<Rightarrow> Inr r)"

definition all_orders :: "string list \<Rightarrow> oms \<Rightarrow> order_record list" where
  "all_orders ids s = sort_key r_client_order_id (List.map_filter (o_orders s) ids)"

record price_quote =
  pq_venue :: string
  pq_price :: string

definition get_price :: "(string \<Rightarrow> string \<Rightarrow> string result) \<Rightarrow> oms \<Rightarrow> string \<Rightarrow> string \<Rightarrow> price_quote result" where
  "get_price venue_price s symbol venue_arg =
     (let venue = (if venue_arg = [] then o_default_venue s else venue_arg)
      in case connector_for s venue of
           None \<Rightarrow> Inl (unsupported_venue_error s venue)
         | Some c \<Rightarrow> (case venue_price c symbol of
             Inl e \<Rightarrow> Inl e
           | Inr p \<Rightarrow> Inr \<lparr>pq_venue = venue, pq_price = p\<rparr>))"

section \<open>Persistence and latency\<close>

definition count_write_failure :: "oms \<Rightarrow> oms" where
  "count_write_failure s =
     s\<lparr>o_stats := (o_stats s)\<lparr>log_write_failures := log_write_failures (o_stats s) + 1\<rparr>\<rparr>"

definition append_or_error :: "json \<Rightarrow> oms \<Rightarrow> error option \<times> oms" where
  "append_or_error ev s =
     (case o_log s of
        None \<Rightarrow> (None, s)
      | Some l \<Rightarrow> (case log_append ev l of (e, l') \<Rightarrow> (e, s\<lparr>o_log := Some l'\<rparr>)))"

definition append_event :: "json \<Rightarrow> oms \<Rightarrow> oms" where
  "append_event ev s =
     (case append_or_error ev s of
        (None, s') \<Rightarrow> s'
      | (Some _, s') \<Rightarrow> count_write_failure s')"

definition latency_now :: "oms \<Rightarrow> int \<times> oms" where
  "latency_now s =
     (case o_latency s of
        None \<Rightarrow> (kNoLatencyStamp, s)
      | Some l \<Rightarrow> (case lat_now l of (t, l') \<Rightarrow> (t, s\<lparr>o_latency := Some l'\<rparr>)))"

definition latency_measure :: "string \<Rightarrow> string \<Rightarrow> int \<Rightarrow> int \<Rightarrow> oms \<Rightarrow> oms" where
  "latency_measure i phase start_ns end_ns s =
     (case o_latency s of
        None \<Rightarrow> s
      | Some l \<Rightarrow> s\<lparr>o_latency := Some (measure_latency i phase start_ns end_ns l)\<rparr>)"

section \<open>Projected position\<close>

text \<open>The position is a fold over the registry in its traversal order. \<open>None\<close> is the violated
  precondition of \<open>filled.value()\<close>: a working order of the instrument has a readable
  quantity and an unreadable filled quantity.\<close>

definition add_in :: "decimal \<Rightarrow> decimal \<Rightarrow> decimal" where
  "add_in projected amount = (case add_dec projected amount of Inr added \<Rightarrow> added | Inl _ \<Rightarrow> projected)"

definition signed_amount :: "side \<Rightarrow> decimal \<Rightarrow> decimal" where
  "signed_amount sd magnitude = (if sd = Sell then negate magnitude else magnitude)"

definition project_record :: "string \<Rightarrow> string option \<Rightarrow> string \<Rightarrow> order_record \<Rightarrow> decimal \<Rightarrow> decimal option" where
  "project_record symbol replaced i r projected =
     (if r_symbol r \<noteq> symbol then Some projected
      else
        let filled = parse_decimal (if r_filled_quantity r = [] then ''0'' else r_filled_quantity r);
            projected1 = (case filled of
                Inr f \<Rightarrow> if \<not> is_zero f then add_in projected (signed_amount (r_side r) f) else projected
              | Inl _ \<Rightarrow> projected)
        in if is_terminal (r_state r) \<or> replaced = Some i then Some projected1
           else case parse_decimal (r_quantity r) of
                  Inl _ \<Rightarrow> Some projected1
                | Inr q \<Rightarrow> (case result_value filled of
                    None \<Rightarrow> None
                  | Some f \<Rightarrow> Some (add_in projected1 (signed_amount (r_side r) (sub_clamped_zero q f)))))"

fun project_orders :: "oms \<Rightarrow> string \<Rightarrow> string option \<Rightarrow> string list \<Rightarrow> decimal \<Rightarrow> decimal option" where
  "project_orders s symbol replaced [] projected = Some projected"
| "project_orders s symbol replaced (i # ids) projected =
     (case o_orders s i of
        None \<Rightarrow> project_orders s symbol replaced ids projected
      | Some r \<Rightarrow> (case project_record symbol replaced i r projected of
          None \<Rightarrow> None
        | Some projected' \<Rightarrow> project_orders s symbol replaced ids projected'))"

definition projected_position :: "string list \<Rightarrow> oms \<Rightarrow> string \<Rightarrow> order_record option \<Rightarrow> side \<Rightarrow> string
    \<Rightarrow> string option" where
  "projected_position ids s symbol replaced candidate_side candidate_qty =
     (case project_orders s symbol (map_option r_client_order_id replaced) ids (mk_decimal 0 0) of
        None \<Rightarrow> None
      | Some projected \<Rightarrow>
          (case parse_decimal candidate_qty of
             Inl _ \<Rightarrow> Some (decimal_to_string projected)
           | Inr q \<Rightarrow>
               (case parse_decimal (case replaced of
                        Some r \<Rightarrow> if r_filled_quantity r \<noteq> [] then r_filled_quantity r else ''0''
                      | None \<Rightarrow> ''0'') of
                  Inl _ \<Rightarrow> Some (decimal_to_string projected)
                | Inr f \<Rightarrow> Some (decimal_to_string
                    (add_in projected (signed_amount candidate_side (sub_clamped_zero q f)))))))"

section \<open>Execution reports\<close>

definition kMaxDiscoveredLegNotes :: nat where "kMaxDiscoveredLegNotes = 256"

definition note_discovered_leg :: "string \<Rightarrow> string \<Rightarrow> oms \<Rightarrow> oms" where
  "note_discovered_leg i x s =
     (let notes = o_notes s @ [(i, x)]
      in s\<lparr>o_notes := drop (length notes - kMaxDiscoveredLegNotes) notes\<rparr>)"

definition adopt_unknown_leg :: "order_record \<Rightarrow> string \<Rightarrow> oms \<Rightarrow> oms \<times> order_record" where
  "adopt_unknown_leg r x s =
     (let r' = note_exchange_id r x;
          s' = s\<lparr>o_stats := (o_stats s)\<lparr>legs_discovered := legs_discovered (o_stats s) + 1\<rparr>\<rparr>
      in (note_discovered_leg (r_client_order_id r') x s', r'))"

definition drain_raced_reports :: "string \<Rightarrow> oms \<Rightarrow> execution_report list \<times> oms" where
  "drain_raced_reports i s =
     (case o_raced s i of
        None \<Rightarrow> ([], s)
      | Some raced \<Rightarrow> (raced, s\<lparr>o_raced := (o_raced s)(i := None)\<rparr>))"

definition apply_report :: "order_record \<Rightarrow> execution_report \<Rightarrow> bool \<Rightarrow> oms \<Rightarrow> oms \<times> order_record" where
  "apply_report r rep apply_lifecycle s =
     (let r1 = (if r_exchange_order_id r = [] then note_exchange_id r (er_exchange_order_id rep) else r)
      in case apply_observation r1 (er_state rep) (er_filled_quantity rep)
                (er_average_fill_price rep) [] [] apply_lifecycle of
           (True, r2) \<Rightarrow>
             (append_event (state_event r2)
                (s\<lparr>o_stats := (o_stats s)\<lparr>reports_applied := reports_applied (o_stats s) + 1\<rparr>\<rparr>), r2)
         | (False, r2) \<Rightarrow>
             (s\<lparr>o_stats := (o_stats s)\<lparr>reports_stale := reports_stale (o_stats s) + 1\<rparr>\<rparr>, r2))"

definition apply_arbitrated_report :: "execution_report \<Rightarrow> oms \<times> order_record \<Rightarrow> oms \<times> order_record" where
  "apply_arbitrated_report rep = (\<lambda>(s, r).
     if er_exchange_order_id rep \<noteq> [] \<and> r_legs r \<noteq> [] then
       (case leg_index_of r (er_exchange_order_id rep) of
          None \<Rightarrow> (case adopt_unknown_leg r (er_exchange_order_id rep) s of
                     (s', r') \<Rightarrow> apply_report r' rep True s')
        | Some m \<Rightarrow>
            if m + 1 < length (r_legs r) then apply_report r rep False s
            else apply_report r rep True s)
     else apply_report r rep True s)"

definition apply_raced :: "execution_report list \<Rightarrow> oms \<times> order_record \<Rightarrow> oms \<times> order_record" where
  "apply_raced raced sr = fold apply_arbitrated_report raced sr"

definition store_record :: "string \<Rightarrow> oms \<times> order_record \<Rightarrow> oms" where
  "store_record i sr = (fst sr)\<lparr>o_orders := (o_orders (fst sr))(i \<mapsto> snd sr)\<rparr>"

definition on_execution_report :: "execution_report \<Rightarrow> oms \<Rightarrow> oms" where
  "on_execution_report rep s0 =
     (case latency_now s0 of (received_ns, s) \<Rightarrow>
      case o_raced s (er_client_order_id rep) of
        Some buffered \<Rightarrow>
          s\<lparr>o_raced := (o_raced s)(er_client_order_id rep \<mapsto> buffered @ [rep]),
            o_stats := (o_stats s)\<lparr>reports_buffered := reports_buffered (o_stats s) + 1\<rparr>\<rparr>
      | None \<Rightarrow>
          (case o_orders s (er_client_order_id rep) of
             None \<Rightarrow> s\<lparr>o_stats := (o_stats s)\<lparr>reports_unknown := reports_unknown (o_stats s) + 1\<rparr>\<rparr>
           | Some r \<Rightarrow>
               let s1 = store_record (er_client_order_id rep) (apply_arbitrated_report rep (s, r))
               in if o_latency s1 \<noteq> None \<and> reports_applied (o_stats s1) > reports_applied (o_stats s) then
                    (case latency_now s1 of (end_ns, s2) \<Rightarrow>
                       latency_measure (er_client_order_id rep) ''fill_state_update'' received_ns end_ns s2)
                  else s1))"

section \<open>What the helpers leave alone\<close>

definition log_events :: "oms \<Rightarrow> json list" where
  "log_events s = (case o_log s of None \<Rightarrow> [] | Some l \<Rightarrow> sink_events l)"

text \<open>Where and how well the log can be written; appending does not change it.\<close>

definition log_port :: "oms \<Rightarrow> (string \<times> bool \<times> (nat \<Rightarrow> bool)) option" where
  "log_port s = map_option (\<lambda>l. (sink_path l, sink_open l, sink_write_ok l)) (o_log s)"

lemma log_port_None: "log_port s' = log_port s \<Longrightarrow> o_log s' = None \<longleftrightarrow> o_log s = None"
  by (auto simp: log_port_def)

lemma log_port_upd [simp]:
  "log_port (s\<lparr>o_orders := a\<rparr>) = log_port s" "log_port (s\<lparr>o_raced := b\<rparr>) = log_port s"
  "log_port (s\<lparr>o_stats := c\<rparr>) = log_port s" "log_port (s\<lparr>o_notes := d\<rparr>) = log_port s"
  "log_port (s\<lparr>o_latency := e\<rparr>) = log_port s"
  by (simp_all add: log_port_def)

text \<open>\<open>quiet s s'\<close>: the step from \<open>s\<close> to \<open>s'\<close> touched neither the registry nor the raced buffers
  nor the configuration, and the log was only appended to.\<close>

definition quiet :: "oms \<Rightarrow> oms \<Rightarrow> bool" where
  "quiet s s' \<longleftrightarrow>
     o_orders s' = o_orders s \<and> o_raced s' = o_raced s \<and> o_connectors s' = o_connectors s
     \<and> o_default_venue s' = o_default_venue s \<and> o_risk s' = o_risk s
     \<and> log_port s' = log_port s \<and> (\<exists>new. log_events s' = log_events s @ new)"

lemma quiet_refl [simp, intro]: "quiet s s"
  by (simp add: quiet_def)

lemma quiet_trans [trans]: "quiet s1 s2 \<Longrightarrow> quiet s2 s3 \<Longrightarrow> quiet s1 s3"
  by (auto simp: quiet_def)

lemma quiet_stats [simp, intro]: "quiet s (s\<lparr>o_stats := x\<rparr>)" "quiet s (s\<lparr>o_notes := n\<rparr>)" "quiet s (s\<lparr>o_latency := l\<rparr>)"
  by (simp_all add: quiet_def log_events_def)

lemma quiet_regD:
  "quiet s s' \<Longrightarrow> o_orders s' = o_orders s" "quiet s s' \<Longrightarrow> o_raced s' = o_raced s"
  by (simp_all add: quiet_def)

lemma log_append_events:
  "sink_events (snd (log_append ev l)) = sink_events l @ (if fst (log_append ev l) = None then [ev] else [])"
  by (simp add: log_append_def Let_def)

lemma append_or_error_events:
  "log_events (snd (append_or_error ev s)) =
     log_events s @ (if o_log s \<noteq> None \<and> fst (append_or_error ev s) = None then [ev] else [])"
  by (cases "o_log s")
    (simp_all add: append_or_error_def log_events_def log_append_events case_prod_beta)

lemma quiet_append_or_error [simp, intro]: "quiet s (snd (append_or_error ev s))"
proof -
  have "o_orders (snd (append_or_error ev s)) = o_orders s" "o_raced (snd (append_or_error ev s)) = o_raced s"
    "o_connectors (snd (append_or_error ev s)) = o_connectors s"
    "o_default_venue (snd (append_or_error ev s)) = o_default_venue s"
    "o_risk (snd (append_or_error ev s)) = o_risk s"
    "log_port (snd (append_or_error ev s)) = log_port s"
    by (auto simp: append_or_error_def log_port_def log_append_def Let_def split: option.splits prod.splits if_splits)
  then show ?thesis by (simp add: quiet_def append_or_error_events)
qed

lemma quiet_count [simp, intro]: "quiet s (count_write_failure s)"
  by (simp add: count_write_failure_def)

lemma quiet_append_event [simp, intro]: "quiet s (append_event ev s)"
proof -
  obtain e s' where es: "append_or_error ev s = (e, s')" by fastforce
  then have "quiet s s'" using quiet_append_or_error [of s ev] by simp
  then show ?thesis by (auto simp: append_event_def es split: option.splits intro: quiet_trans)
qed

lemma quiet_latency [simp, intro]:
  "quiet s (snd (latency_now s))" "quiet s (latency_measure i ph a b s)"
  by (auto simp: latency_now_def lat_now_def latency_measure_def split: option.splits)

lemma adopt_unknown_leg_parts:
  "snd (adopt_unknown_leg r x s) = note_exchange_id r x" "quiet s (fst (adopt_unknown_leg r x s))"
  by (simp_all add: adopt_unknown_leg_def note_discovered_leg_def Let_def
      quiet_trans [OF quiet_stats(1) quiet_stats(2)])

section \<open>What a report does to a record\<close>

definition backfilled :: "order_record \<Rightarrow> execution_report \<Rightarrow> order_record" where
  "backfilled r rep = (if r_exchange_order_id r = [] then note_exchange_id r (er_exchange_order_id rep) else r)"

definition reported :: "order_record \<Rightarrow> execution_report \<Rightarrow> bool \<Rightarrow> bool \<times> order_record" where
  "reported r rep lc = apply_observation (backfilled r rep) (er_state rep) (er_filled_quantity rep)
     (er_average_fill_price rep) [] [] lc"

lemma apply_report_parts:
  "snd (apply_report r rep lc s) = snd (reported r rep lc)"
  "quiet s (fst (apply_report r rep lc s))"
  by (auto simp: apply_report_def reported_def backfilled_def Let_def split: prod.splits bool.splits
      intro: quiet_trans)

interpretation backfilling: record_operation "\<lambda>r. backfilled r rep" for rep
  by unfold_locales (simp_all add: backfilled_def noting.upd_evolves noting.upd_legs_ok)

interpretation reporting: record_operation "\<lambda>r. snd (apply_report r rep lc s)" for rep lc s
  unfolding apply_report_parts reported_def
  by unfold_locales
    (blast intro: evolves_trans backfilling.upd_evolves observing.upd_evolves
      backfilling.upd_legs_ok observing.upd_legs_ok)+

lemma apply_arbitrated_parts:
  "snd (apply_arbitrated_report rep (s, r)) =
     (if er_exchange_order_id rep \<noteq> [] \<and> r_legs r \<noteq> [] then
        (case leg_index_of r (er_exchange_order_id rep) of
           None \<Rightarrow> snd (reported (note_exchange_id r (er_exchange_order_id rep)) rep True)
         | Some m \<Rightarrow> snd (reported r rep (\<not> m + 1 < length (r_legs r))))
      else snd (reported r rep True))"
  "quiet s (fst (apply_arbitrated_report rep (s, r)))"
proof -
  let ?x = "er_exchange_order_id rep"
  obtain s' where a: "adopt_unknown_leg r ?x s = (s', note_exchange_id r ?x)" "quiet s s'"
    using adopt_unknown_leg_parts(1) [of r ?x s] adopt_unknown_leg_parts(2) [of s r ?x] by (metis prod.collapse)
  show "snd (apply_arbitrated_report rep (s, r)) =
     (if ?x \<noteq> [] \<and> r_legs r \<noteq> [] then
        (case leg_index_of r ?x of
           None \<Rightarrow> snd (reported (note_exchange_id r ?x) rep True)
         | Some m \<Rightarrow> snd (reported r rep (\<not> m + 1 < length (r_legs r))))
      else snd (reported r rep True))"
    by (simp add: apply_arbitrated_report_def a(1) apply_report_parts(1) split: option.splits)
  show "quiet s (fst (apply_arbitrated_report rep (s, r)))"
    using apply_report_parts(2) quiet_trans [OF a(2) apply_report_parts(2)]
    by (auto simp: apply_arbitrated_report_def a(1) split: option.splits)
qed

interpretation arbitrating: record_operation "\<lambda>r. snd (apply_arbitrated_report rep (s, r))" for rep s
proof
  have step: "evolves r (snd (reported r rep lc))" "legs_ok r \<Longrightarrow> legs_ok (snd (reported r rep lc))" for r lc
    using reporting.upd_evolves [where r = r and rep = rep and lc = lc] reporting.upd_legs_ok [where r = r and rep = rep and lc = lc]
    by (simp_all add: apply_report_parts)
  show "evolves r (snd (apply_arbitrated_report rep (s, r)))" for r
    by (auto simp: apply_arbitrated_parts(1) split: option.splits
        intro: step evolves_trans [OF noting.upd_evolves step(1)])
  show "legs_ok r \<Longrightarrow> legs_ok (snd (apply_arbitrated_report rep (s, r)))" for r
    by (auto simp: apply_arbitrated_parts(1) split: option.splits intro: step(2) noting.upd_legs_ok)
qed

lemma apply_raced_parts:
  "quiet s (fst (apply_raced reps (s, r)))"
  "evolves r (snd (apply_raced reps (s, r)))"
  "legs_ok r \<Longrightarrow> legs_ok (snd (apply_raced reps (s, r)))"
proof -
  have "quiet s (fst (fold apply_arbitrated_report reps (s, r)))
      \<and> evolves r (snd (fold apply_arbitrated_report reps (s, r)))
      \<and> (legs_ok r \<longrightarrow> legs_ok (snd (fold apply_arbitrated_report reps (s, r))))"
  proof (induction reps arbitrary: s r)
    case (Cons rep reps)
    obtain s' r' where sr: "apply_arbitrated_report rep (s, r) = (s', r')" by fastforce
    then have "quiet s s'" "evolves r r'" "legs_ok r \<longrightarrow> legs_ok r'"
      using apply_arbitrated_parts(2) [where s = s and rep = rep and r = r] arbitrating.upd_evolves [where r = r and rep = rep and s = s]
        arbitrating.upd_legs_ok [where r = r and rep = rep and s = s] by simp_all
    with Cons.IH [of s' r'] sr show ?case by (auto intro: quiet_trans evolves_trans)
  qed simp
  then show "quiet s (fst (apply_raced reps (s, r)))" "evolves r (snd (apply_raced reps (s, r)))"
    "legs_ok r \<Longrightarrow> legs_ok (snd (apply_raced reps (s, r)))"
    by (simp_all add: apply_raced_def)
qed

lemma reported_fields:
  assumes "r_exchange_order_id r \<noteq> [] \<or> er_exchange_order_id rep = []"
  shows "r_legs (snd (reported r rep lc)) = r_legs r"
    "r_exchange_order_id (snd (reported r rep lc)) = r_exchange_order_id r"
    "r_price (snd (reported r rep lc)) = r_price r" "r_quantity (snd (reported r rep lc)) = r_quantity r"
    "r_filled_quantity (snd (reported r rep lc)) = amt.raise_mark (r_filled_quantity r) (er_filled_quantity rep)"
    "r_state (snd (reported r rep lc)) = (if lc then ol.move (r_state r) (er_state rep) else r_state r)"
  using assms
  by (auto simp: reported_def backfilled_def note_exchange_id_def apply_observation_record Let_def
      frame_simps observe_fill_mark)

lemma legs_ok_exchange: "legs_ok r \<Longrightarrow> r_legs r \<noteq> [] \<longleftrightarrow> r_exchange_order_id r \<noteq> []"
  by (auto simp: legs_ok_def split: if_splits)

lemma note_unknown:
  assumes "leg_index_of r x = None" "x \<noteq> []" "legs_ok r" "r_legs r \<noteq> []"
  shows "note_exchange_id r x = (push_leg r x)\<lparr>r_exchange_order_id := x\<rparr>"
  using assms leg_index_current [OF assms(3,4)] by (auto simp: note_exchange_id_push)

lemma legs_discovered_apply_report:
  "legs_discovered (o_stats (fst (apply_report r rep lc s))) = legs_discovered (o_stats s)"
proof -
  have "legs_discovered (o_stats (append_event ev s)) = legs_discovered (o_stats s)" for ev s
    by (auto simp: append_event_def append_or_error_def count_write_failure_def split: option.splits prod.splits)
  then show ?thesis by (auto simp: apply_report_def Let_def split: prod.splits bool.splits)
qed

lemma raise_mark_self: "amt.raise_mark t t = t"
  using amt.raise_mark_cases by blast

lemma raise_mark_again: "amt.raise_mark (amt.raise_mark t f) f = amt.raise_mark t f"
  using amt.raise_mark_cases [of t f] raise_mark_self by metis

lemma move_again: "ol.move (ol.move s t) t = ol.move s t"
  by (simp add: ol.move_def)

lemma observe_fill_stale:
  assumes "amt.raise_mark (r_filled_quantity r) filled = r_filled_quantity r"
  shows "observe_fill r filled avg = (False, r)"
proof -
  have "\<not> compare_dec d d > 0" for d by (simp add: compare_dec_def aligned_def Let_def)
  then show ?thesis
    using assms by (auto simp: observe_fill_def amt.raise_mark_def amt.or_zero_def split: sum.splits if_splits)
qed

lemma reported_stale:
  assumes "r_exchange_order_id r \<noteq> [] \<or> er_exchange_order_id rep = []"
    "amt.raise_mark (r_filled_quantity r) (er_filled_quantity rep) = r_filled_quantity r"
    "lc \<Longrightarrow> ol.move (r_state r) (er_state rep) = r_state r"
  shows "reported r rep lc = (False, r)"
  using assms
  by (auto simp: reported_def backfilled_def apply_observation_def observe_fill_stale observe_price_def
      observe_quantity_def observe_state_def apply_transition_def note_exchange_id_def ol.move_def
      split: transition_result.splits if_splits)


lemma raised_twice:
  assumes "r_exchange_order_id r \<noteq> [] \<or> er_exchange_order_id rep = []"
  shows "reported (snd (reported r rep lc)) rep lc = (False, snd (reported r rep lc))"
  by (rule reported_stale)
    (use assms reported_fields [OF assms, of lc] in \<open>simp_all add: raise_mark_again move_again\<close>)

text \<open>Whatever a report finds, it acts on a record \<open>rb\<close> (the one it met, or that with the
  report's id as its newest leg) with a verdict \<open>lc\<close>, and meets the same verdict again on every
  record with that leg table.\<close>

lemma arbitrated_verdict:
  assumes ok: "legs_ok r"
  shows "\<exists>rb lc. snd (apply_arbitrated_report rep (s, r)) = snd (reported rb rep lc)
    \<and> (r_exchange_order_id rb \<noteq> [] \<or> er_exchange_order_id rep = [])
    \<and> (\<forall>s1 r1. r_legs r1 = r_legs rb \<longrightarrow> apply_arbitrated_report rep (s1, r1) = apply_report r1 rep lc s1)"
proof -
  let ?x = "er_exchange_order_id rep" and ?rb = "note_exchange_id r (er_exchange_order_id rep)"
  have okb: "legs_ok ?rb" using ok by (rule noting.upd_legs_ok)
  have adopted: ?thesis
    if x: "?x \<noteq> []" "leg_index_of r ?x = None"
      and rec: "snd (apply_arbitrated_report rep (s, r)) = snd (reported ?rb rep True)"
  proof -
    have cur: "r_exchange_order_id ?rb = ?x" using x(1) by (simp add: note_exchange_id_push)
    then have legs: "r_legs ?rb \<noteq> []" using okb x(1) legs_ok_exchange by metis
    have "leg_index_of r1 ?x = Some (length (r_legs r1) - 1)" if "r_legs r1 = r_legs ?rb" for r1
      using leg_index_current [OF okb legs] that cur by (simp add: leg_index_of_def)
    then have "\<forall>s1 r1. r_legs r1 = r_legs ?rb \<longrightarrow> apply_arbitrated_report rep (s1, r1) = apply_report r1 rep True s1"
      by (simp add: apply_arbitrated_report_def)
    with rec cur x(1) show ?thesis by (intro exI [of _ ?rb] exI [of _ True]) simp
  qed
  consider (blank) "?x = []" | (first) "?x \<noteq> []" "r_legs r = []"
    | (unknown) "?x \<noteq> []" "r_legs r \<noteq> []" "leg_index_of r ?x = None"
    | (known) m where "?x \<noteq> []" "r_legs r \<noteq> []" "leg_index_of r ?x = Some m" by fastforce
  then show ?thesis
  proof cases
    case blank
    then show ?thesis by (intro exI [of _ r] exI [of _ True]) (simp add: apply_report_parts apply_arbitrated_report_def)
  next
    case first
    then have "r_exchange_order_id r = []" using ok legs_ok_exchange by blast
    with first show ?thesis
      by (intro adopted) (simp_all add: leg_index_None apply_arbitrated_parts reported_def backfilled_def note_exchange_id_push)
  next
    case unknown
    then show ?thesis by (intro adopted) (simp_all add: apply_arbitrated_parts)
  next
    case (known m)
    then have "r_exchange_order_id r \<noteq> []" using ok legs_ok_exchange by blast
    moreover have "leg_index_of r1 ?x = Some m" if "r_legs r1 = r_legs r" for r1
      using known(3) that by (simp add: leg_index_of_def)
    ultimately show ?thesis
      using known by (intro exI [of _ r] exI [of _ "\<not> m + 1 < length (r_legs r)"])
        (auto simp: apply_report_parts apply_arbitrated_report_def)
  qed
qed

section \<open>Properties\<close>



text \<open>Duplicate delivery is harmless. Applying the same execution report a second time
  leaves the record and the log exactly as the first application left them and is only
  counted as stale.\<close>

lemma duplicate_report_is_stale:
  assumes "legs_ok r"
    and "apply_arbitrated_report rep (s, r) = (s1, r1)" "apply_arbitrated_report rep (s1, r1) = (s2, r2)"
  shows "r2 = r1 \<and> s2 = s1\<lparr>o_stats := (o_stats s1)\<lparr>reports_stale := reports_stale (o_stats s1) + 1\<rparr>\<rparr>"
proof -
  obtain rb lc where v: "r1 = snd (reported rb rep lc)"
    "r_exchange_order_id rb \<noteq> [] \<or> er_exchange_order_id rep = []"
    "\<And>s1 r1. r_legs r1 = r_legs rb \<Longrightarrow> apply_arbitrated_report rep (s1, r1) = apply_report r1 rep lc s1"
    using arbitrated_verdict [OF assms(1), of rep s] assms(2) by auto
  have "apply_arbitrated_report rep (s1, r1) = apply_report r1 rep lc s1"
    by (rule v(3)) (simp add: v(1) reported_fields [OF v(2)])
  moreover have "reported r1 rep lc = (False, r1)" unfolding v(1) by (rule raised_twice [OF v(2)])
  ultimately show ?thesis
    using assms(3) by (simp add: apply_report_def reported_def backfilled_def Let_def)
qed

end
