(* ===== verification/OMS_Handlers.thy ===== *)
theory OMS_Handlers
  imports OMS_State
begin

text \<open>
  The request handlers of the order management system, \<^verbatim>\<open>src/core/oms.cpp\<close>: \<open>place\<close>, \<open>cancel\<close>
  and \<open>amend\<close>. Each is a pair of critical sections around the venue call: \<open>..._begin\<close> runs up
  to the call (or returns early), \<open>..._finish\<close> takes what the venue answered. The composed
  handlers at the end are what one thread executes when nothing interleaves.
\<close>

section \<open>Place\<close>

record place_outcome =
  po_record :: order_record
  po_replayed :: bool

text \<open>How the first critical section ends: with a result, with a request to send to the
  connector of a venue, or by violating the precondition of a \<open>value()\<close>.\<close>

datatype ('req, 'res) handler_step = Return 'res | Send string 'req | Throw

definition place_candidate :: "order_request \<Rightarrow> string \<Rightarrow> order_record" where
  "place_candidate req venue =
     \<lparr>r_client_order_id = rq_client_order_id req, r_symbol = rq_instrument_id req, r_venue = venue,
      r_exchange_order_id = [], r_side = rq_side req, r_type = rq_type req,
      r_time_in_force = (if rq_time_in_force req = [] then ''GTC'' else rq_time_in_force req),
      r_price = rq_price req, r_quantity = rq_quantity req, r_state = Pending,
      r_filled_quantity = ''0'', r_average_fill_price = [], r_legs = [], r_adopted = False,
      r_rejection = None\<rparr>"

text \<open>The risk stage of \<open>place\<close>: \<open>Inl ()\<close> when a precondition is violated, otherwise the
  rejection, if any. The position is only computed when the instrument has limits.\<close>

definition place_risk :: "string list \<Rightarrow> oms \<Rightarrow> order_request \<Rightarrow> unit + error option" where
  "place_risk ids s req =
     (case limits_for (o_risk s) (rq_instrument_id req) of
        None \<Rightarrow> Inr None
      | Some l \<Rightarrow>
          (case projected_position ids s (rq_instrument_id req) None (rq_side req) (rq_quantity req) of
             None \<Rightarrow> Inl ()
           | Some p \<Rightarrow> Inr (check_risk (Some l) (rq_instrument_id req)
               \<lparr>ro_side = rq_side req, ro_price = rq_price req, ro_quantity = rq_quantity req,
                ro_projected_position = p\<rparr>)))"

definition place_stage :: "string list \<Rightarrow> order_request \<Rightarrow> string \<Rightarrow> oms
    \<Rightarrow> (order_request, place_outcome result) handler_step \<times> oms" where
  "place_stage ids req venue s =
     (case o_orders s (rq_client_order_id req) of
        Some existing \<Rightarrow>
          (case r_rejection existing of
             Some e \<Rightarrow> (Return (Inl e), s)
           | None \<Rightarrow> (Return (Inr \<lparr>po_record = existing, po_replayed = True\<rparr>), s))
      | None \<Rightarrow>
          (case connector_for s venue of
             None \<Rightarrow> (Return (Inl (unsupported_venue_error s venue)), s)
           | Some connector \<Rightarrow>
               let candidate = place_candidate req venue
               in case place_risk ids s req of
                    Inl _ \<Rightarrow> (Throw, s)
                  | Inr (Some rejection) \<Rightarrow>
                      let candidate = candidate\<lparr>r_state := Rejected, r_rejection := Some rejection\<rparr>
                      in (case append_or_error (rejected_event candidate) s of (persist_error, s1) \<Rightarrow>
                          let s2 = store_record (r_client_order_id candidate) (s1, candidate)
                          in case persist_error of
                               Some e \<Rightarrow> (Return (Inl e), count_write_failure s2)
                             | None \<Rightarrow> (Return (Inl rejection), s2))
                  | Inr None \<Rightarrow>
                      (case append_or_error (place_submitted_event candidate) s of
                         (Some e, s1) \<Rightarrow>
                           (Return (Inl (Error ''persistence''
                              (message e @ '' (order was not sent to the venue)''))),
                            count_write_failure s1)
                       | (None, s1) \<Rightarrow>
                           let s2 = store_record (r_client_order_id candidate) (s1, candidate);
                               raced = (case o_raced s2 (rq_client_order_id req) of
                                          None \<Rightarrow> (o_raced s2)(rq_client_order_id req \<mapsto> [])
                                        | Some _ \<Rightarrow> o_raced s2)
                           in (Send connector req, s2\<lparr>o_raced := raced\<rparr>))))"

text \<open>The latency measurements taken between the critical section and the venue call.\<close>

definition place_send_latency :: "order_request \<Rightarrow> int \<Rightarrow> int \<Rightarrow> oms \<Rightarrow> oms" where
  "place_send_latency req rest_hit_ns oms_entry_ns s =
     (if o_latency s = None then s
      else case latency_now s of (send_ns, s1) \<Rightarrow>
        let s2 = (if rest_hit_ns \<noteq> kNoLatencyStamp
                  then latency_measure (rq_client_order_id req) ''place_send_rest'' rest_hit_ns send_ns s1
                  else s1)
        in if oms_entry_ns \<noteq> kNoLatencyStamp
           then latency_measure (rq_client_order_id req) ''place_send_oms'' oms_entry_ns send_ns s2
           else s2)"

definition place_begin :: "string list \<Rightarrow> order_request \<Rightarrow> string \<Rightarrow> int \<Rightarrow> oms
    \<Rightarrow> (order_request, place_outcome result) handler_step \<times> oms" where
  "place_begin ids req venue_arg rest_hit_ns s =
     (case latency_now s of (oms_entry_ns, s1) \<Rightarrow>
      let venue = (if venue_arg = [] then o_default_venue s1 else venue_arg)
      in case place_stage ids req venue s1 of
           (Send c r, s2) \<Rightarrow> (Send c r, place_send_latency req rest_hit_ns oms_entry_ns s2)
         | (other, s2) \<Rightarrow> (other, s2))"

text \<open>The second critical section. On a definitive rejection and when the acceptance cannot be
  persisted the drained reports are not applied.\<close>

definition place_finish :: "order_request \<Rightarrow> order_placement result \<Rightarrow> oms \<Rightarrow> place_outcome result \<times> oms" where
  "place_finish req placement s =
     (let i = rq_client_order_id req
      in case drain_raced_reports i s of (raced, s1) \<Rightarrow>
         case o_orders s1 i of
           None \<Rightarrow> (Inl (Error ''internal'' (''pending place vanished for '' @ i)), s1)
         | Some r \<Rightarrow>
             (case placement of
                Inl e \<Rightarrow>
                  if code e \<noteq> ''transport'' then
                    (case apply_transition (r_state r) Rejected of
                       (Applied, st) \<Rightarrow>
                         let r' = r\<lparr>r_state := st, r_rejection := Some e\<rparr>
                         in (case append_or_error (rejected_event r') s1 of (persist_error, s2) \<Rightarrow>
                             (Inl e, store_record i
                                (case persist_error of Some _ \<Rightarrow> count_write_failure s2 | None \<Rightarrow> s2, r')))
                     | (TransitionRejected, st) \<Rightarrow> (Inl e, store_record i (s1, r\<lparr>r_state := st\<rparr>)))
                  else (Inl e, store_record i (apply_raced raced (s1, r)))
              | Inr p \<Rightarrow>
                  let r1 = note_exchange_id r (pl_exchange_order_id p);
                      r2 = r1\<lparr>r_state := snd (apply_transition (r_state r1) Live)\<rparr>
                  in (case append_or_error (place_accepted_event r2) s1 of
                        (Some e, s2) \<Rightarrow>
                          (Inl (Error ''persistence'' (message e @
                              '' (order was accepted by the venue; retry replays it)'')),
                           store_record i (count_write_failure s2, r2))
                      | (None, s2) \<Rightarrow>
                          (case apply_raced raced (s2, r2) of (s3, r3) \<Rightarrow>
                             (Inr \<lparr>po_record = r3, po_replayed = False\<rparr>, store_record i (s3, r3))))))"

section \<open>Cancel\<close>

definition order_terminal :: "order_record \<Rightarrow> error" where
  "order_terminal r = Error ''order_terminal''
     (''order '' @ r_client_order_id r @ '' is '' @ state_to_string (r_state r))"

definition no_connector :: "order_record \<Rightarrow> error" where
  "no_connector r = Error ''internal''
     (''no connector for venue '' @ [quote_char] @ r_venue r @ [quote_char])"

definition cancel_begin :: "string \<Rightarrow> oms \<Rightarrow> (cancel_request, order_record result) handler_step" where
  "cancel_begin i s =
     (case o_orders s i of
        None \<Rightarrow> Return (Inl (not_found i))
      | Some r \<Rightarrow>
          if r_state r = Pending then
            Return (Inl (Error ''order_pending'' (''order '' @ r_client_order_id r @
              '' is pending venue acknowledgement; cancel after the venue acknowledges it'')))
          else if r_state r = Canceled then Return (Inr r)
          else if is_terminal (r_state r) then Return (Inl (order_terminal r))
          else case connector_for_record s r of
                 None \<Rightarrow> Return (Inl (no_connector r))
               | Some c \<Rightarrow> Send c \<lparr>cx_client_order_id = r_client_order_id r, cx_instrument_id = r_symbol r\<rparr>)"

definition cancel_finish :: "string \<Rightarrow> order_placement result \<Rightarrow> oms \<Rightarrow> order_record result \<times> oms" where
  "cancel_finish i placement s =
     (case o_orders s i of
        None \<Rightarrow> (Inl (not_found i), s)
      | Some r \<Rightarrow>
          (case placement of
             Inl e \<Rightarrow> (Inl e, s)
           | Inr p \<Rightarrow>
               let r1 = note_exchange_id r (pl_exchange_order_id p)
               in (case apply_transition (r_state r1) Canceled of
                     (Applied, st) \<Rightarrow>
                       let r2 = r1\<lparr>r_state := st\<rparr>
                       in (Inr r2, store_record i (append_event (state_event r2) s, r2))
                   | (TransitionRejected, st) \<Rightarrow>
                       let r2 = r1\<lparr>r_state := st\<rparr>
                       in (Inr r2, store_record i (s, r2)))))"

section \<open>Amend\<close>

record amend_command =
  ac_client_order_id :: string
  ac_new_price :: "string option"
  ac_new_quantity :: "string option"

definition amend_risk :: "string list \<Rightarrow> oms \<Rightarrow> order_record \<Rightarrow> string \<Rightarrow> string \<Rightarrow> unit + error option" where
  "amend_risk ids s r new_price new_quantity =
     (case limits_for (o_risk s) (r_symbol r) of
        None \<Rightarrow> Inr None
      | Some l \<Rightarrow>
          (case projected_position ids s (r_symbol r) (Some r) (r_side r) new_quantity of
             None \<Rightarrow> Inl ()
           | Some p \<Rightarrow> Inr (check_risk (Some l) (r_symbol r)
               \<lparr>ro_side = r_side r, ro_price = new_price, ro_quantity = new_quantity,
                ro_projected_position = p\<rparr>)))"

definition amend_wire :: "order_record \<Rightarrow> string \<Rightarrow> string \<Rightarrow> amend_request" where
  "amend_wire r new_price new_quantity =
     \<lparr>am_client_order_id = r_client_order_id r, am_instrument_id = r_symbol r,
      am_new_price = Some new_price, am_new_quantity = Some new_quantity, am_side = Some (r_side r),
      am_type = Some (r_type r), am_time_in_force = r_time_in_force r\<rparr>"

definition amend_begin :: "string list \<Rightarrow> amend_command \<Rightarrow> oms
    \<Rightarrow> (amend_request, order_record result) handler_step \<times> oms" where
  "amend_begin ids cmd s =
     (if ac_new_price cmd = None \<and> ac_new_quantity cmd = None then
        (Return (Inl (Error ''protocol'' ''amend requires a new price and/or quantity'')), s)
      else case o_orders s (ac_client_order_id cmd) of
        None \<Rightarrow> (Return (Inl (not_found (ac_client_order_id cmd))), s)
      | Some r \<Rightarrow>
          if r_state r = Pending then
            (Return (Inl (Error ''order_pending'' (''order '' @ r_client_order_id r @
              '' is pending venue acknowledgement; amend after the venue acknowledges it''))), s)
          else if is_terminal (r_state r) then (Return (Inl (order_terminal r)), s)
          else case connector_for_record s r of
            None \<Rightarrow> (Return (Inl (no_connector r)), s)
          | Some c \<Rightarrow>
              let new_price = opt_or (ac_new_price cmd) (r_price r);
                  new_quantity = opt_or (ac_new_quantity cmd) (r_quantity r)
              in (case amend_risk ids s r new_price new_quantity of
                    Inl _ \<Rightarrow> (Throw, s)
                  | Inr (Some rejection) \<Rightarrow> (Return (Inl rejection), s)
                  | Inr None \<Rightarrow>
                      (case o_raced s (ac_client_order_id cmd) of
                         Some _ \<Rightarrow> (Return (Inl (Error ''order_busy''
                             (''a place/amend for '' @ ac_client_order_id cmd @
                              '' is still in flight; retry once it resolves''))), s)
                       | None \<Rightarrow> (Send c (amend_wire r new_price new_quantity),
                           s\<lparr>o_raced := (o_raced s)(ac_client_order_id cmd \<mapsto> [])\<rparr>))))"

text \<open>The loop that looks for the newest raced report whose id no leg knows.\<close>

fun newest_unknown :: "order_record \<Rightarrow> execution_report list \<Rightarrow> string \<Rightarrow> string" where
  "newest_unknown r [] found = found"
| "newest_unknown r (rep # reps) found =
     newest_unknown r reps
       (if er_exchange_order_id rep \<noteq> [] \<and> leg_index_of r (er_exchange_order_id rep) = None
        then er_exchange_order_id rep else found)"

definition amend_finish :: "amend_command \<Rightarrow> amend_request \<Rightarrow> order_placement result \<Rightarrow> oms
    \<Rightarrow> order_record result \<times> oms" where
  "amend_finish cmd wire placement s =
     (let i = ac_client_order_id cmd
      in case drain_raced_reports i s of (raced, s1) \<Rightarrow>
         case o_orders s1 i of
           None \<Rightarrow> (Inl (not_found i), s1)
         | Some r \<Rightarrow>
             (case placement of
                Inl e \<Rightarrow>
                  let unknown = (if r_legs r \<noteq> [] then newest_unknown r raced [] else []);
                      sr = (if unknown \<noteq> [] then adopt_unknown_leg r unknown s1 else (s1, r))
                  in (Inl e, store_record i (apply_raced raced sr))
              | Inr p \<Rightarrow>
                  let r1 = r\<lparr>r_price := opt_or (am_new_price wire) [],
                             r_quantity := opt_or (am_new_quantity wire) []\<rparr>;
                      r2 = append_amend_leg r1 (pl_exchange_order_id p)
                  in (case append_or_error (amended_event r2) s1 of
                        (Some e, s2) \<Rightarrow>
                          (Inl (Error ''persistence'' (message e @
                              '' (the amend was accepted by the venue; reconcile or an execution report converges it)'')),
                           store_record i (count_write_failure s2, r2))
                      | (None, s2) \<Rightarrow>
                          (case apply_raced raced (s2, r2) of (s3, r3) \<Rightarrow>
                             (Inr r3, store_record i (s3, r3))))))"

section \<open>The handlers in one piece\<close>

text \<open>What a thread executes when no other thread runs in between; the venue is a function
  from the connector's key and the request to its answer. \<open>None\<close> is an exception.\<close>

definition place :: "(string \<Rightarrow> order_request \<Rightarrow> order_placement result) \<Rightarrow> string list \<Rightarrow> order_request
    \<Rightarrow> string \<Rightarrow> int \<Rightarrow> oms \<Rightarrow> place_outcome result option \<times> oms" where
  "place venue_place ids req venue_arg rest_hit_ns s =
     (case place_begin ids req venue_arg rest_hit_ns s of
        (Return res, s1) \<Rightarrow> (Some res, s1)
      | (Throw, s1) \<Rightarrow> (None, s1)
      | (Send c r, s1) \<Rightarrow> (case place_finish req (venue_place c r) s1 of (res, s2) \<Rightarrow> (Some res, s2)))"

definition cancel :: "(string \<Rightarrow> cancel_request \<Rightarrow> order_placement result) \<Rightarrow> string \<Rightarrow> oms
    \<Rightarrow> order_record result option \<times> oms" where
  "cancel venue_cancel i s =
     (case cancel_begin i s of
        Return res \<Rightarrow> (Some res, s)
      | Throw \<Rightarrow> (None, s)
      | Send c r \<Rightarrow> (case cancel_finish i (venue_cancel c r) s of (res, s2) \<Rightarrow> (Some res, s2)))"

definition amend :: "(string \<Rightarrow> amend_request \<Rightarrow> order_placement result) \<Rightarrow> string list \<Rightarrow> amend_command
    \<Rightarrow> oms \<Rightarrow> order_record result option \<times> oms" where
  "amend venue_amend ids cmd s =
     (case amend_begin ids cmd s of
        (Return res, s1) \<Rightarrow> (Some res, s1)
      | (Throw, s1) \<Rightarrow> (None, s1)
      | (Send c r, s1) \<Rightarrow> (case amend_finish cmd r (venue_amend c r) s1 of (res, s2) \<Rightarrow> (Some res, s2)))"

end
