(* ===== verification/OMS_Reconcile.thy ===== *)
theory OMS_Reconcile
  imports OMS_Handlers
begin

text \<open>
  Reconciliation with the venues, \<open>reconcile\<close> of \<^verbatim>\<open>src/core/oms.cpp\<close>. Phase A applies one venue's
  listing of open orders in one critical section; phase B takes a worklist in one critical
  section and then applies one lookup per critical section. Other handlers may run between
  any two of them.
\<close>

section \<open>Definitions\<close>

record reconcile_report =
  rp_adopted :: nat
  rp_updated :: nat
  rp_terminal_resolved :: nat
  rp_absent_rejected :: nat
  rp_unresolved :: nat
  rp_pending_listing_failed :: bool

definition empty_report :: reconcile_report where
  "empty_report = \<lparr>rp_adopted = 0, rp_updated = 0, rp_terminal_resolved = 0, rp_absent_rejected = 0,
     rp_unresolved = 0, rp_pending_listing_failed = False\<rparr>"

definition snapshot_record :: "order_snapshot \<Rightarrow> string \<Rightarrow> bool \<Rightarrow> order_record" where
  "snapshot_record sn venue adopted =
     \<lparr>r_client_order_id = sn_client_order_id sn, r_symbol = sn_instrument_id sn, r_venue = venue,
      r_exchange_order_id = sn_exchange_order_id sn, r_side = sn_side sn, r_type = sn_type sn,
      r_time_in_force = ''GTC'', r_price = sn_price sn, r_quantity = sn_quantity sn,
      r_state = sn_state sn,
      r_filled_quantity = (if sn_filled_quantity sn = [] then ''0'' else sn_filled_quantity sn),
      r_average_fill_price = sn_average_fill_price sn,
      r_legs = (if sn_exchange_order_id sn \<noteq> []
                then [\<lparr>leg_version = 1, leg_exchange_order_id = sn_exchange_order_id sn\<rparr>] else []),
      r_adopted = adopted, r_rejection = None\<rparr>"

definition record_from_snapshot :: "order_snapshot \<Rightarrow> string \<Rightarrow> bool \<Rightarrow> oms \<Rightarrow> oms" where
  "record_from_snapshot sn venue adopted s =
     (let r = snapshot_record sn venue adopted;
          ev = (if adopted then adopted_event r else place_accepted_event r)
      in store_record (r_client_order_id r) (append_event ev s, r))"

definition snapshot_observation :: "order_record \<Rightarrow> order_snapshot \<Rightarrow> bool \<times> order_record" where
  "snapshot_observation r sn =
     apply_observation r (sn_state sn) (sn_filled_quantity sn) (sn_average_fill_price sn)
       (sn_price sn) (sn_quantity sn) True"

text \<open>Phase A, one snapshot of a venue's open orders.\<close>

definition adopt_snapshot :: "string \<Rightarrow> order_snapshot \<Rightarrow> reconcile_report \<times> oms \<Rightarrow> reconcile_report \<times> oms" where
  "adopt_snapshot venue sn = (\<lambda>(report, s).
     if sn_client_order_id sn = [] \<or> o_raced s (sn_client_order_id sn) \<noteq> None then (report, s)
     else case o_orders s (sn_client_order_id sn) of
       None \<Rightarrow> (report\<lparr>rp_adopted := rp_adopted report + 1\<rparr>, record_from_snapshot sn venue True s)
     | Some r \<Rightarrow>
         (case (if r_exchange_order_id r = [] \<and> sn_exchange_order_id sn \<noteq> []
                then (True, note_exchange_id r (sn_exchange_order_id sn)) else (False, r)) of
            (c1, r1) \<Rightarrow>
          case snapshot_observation r1 sn of
            (c2, r2) \<Rightarrow>
              if c1 \<or> c2 then
                (report\<lparr>rp_updated := rp_updated report + 1\<rparr>,
                 store_record (sn_client_order_id sn) (append_event (state_event r2) s, r2))
              else (report, store_record (sn_client_order_id sn) (s, r2))))"

definition reconcile_listing :: "string \<Rightarrow> order_snapshot list result \<Rightarrow> reconcile_report \<times> oms
    \<Rightarrow> reconcile_report \<times> oms" where
  "reconcile_listing venue pending = (\<lambda>(report, s).
     case pending of
       Inl _ \<Rightarrow> (report\<lparr>rp_pending_listing_failed := True\<rparr>, s)
     | Inr snapshots \<Rightarrow> fold (adopt_snapshot venue) snapshots (report, s))"

record work_item =
  wi_id :: string
  wi_venue :: string
  wi_query :: order_query

text \<open>The worklist of phase B (and of \<open>audit\<close>): every non-terminal order without an open
  place or amend call.\<close>

definition work_item_for :: "oms \<Rightarrow> string \<Rightarrow> work_item option" where
  "work_item_for s i =
     (case o_orders s i of
        None \<Rightarrow> None
      | Some r \<Rightarrow>
          if \<not> is_terminal (r_state r) \<and> o_raced s i = None then
            Some \<lparr>wi_id = i, wi_venue = (if r_venue r = [] then o_default_venue s else r_venue r),
                  wi_query = \<lparr>oq_client_order_id = i, oq_instrument_id = r_symbol r\<rparr>\<rparr>
          else None)"

definition worklist :: "string list \<Rightarrow> oms \<Rightarrow> work_item list" where
  "worklist ids s = List.map_filter (work_item_for s) ids"

definition venue_absent :: error where
  "venue_absent = Error ''venue_absent'' ''order is unknown to the venue after reconciliation''"

text \<open>A conclusive absence turns a non-terminal order into \<open>Rejected\<close>.\<close>

definition reject_absent :: "string \<Rightarrow> order_record \<Rightarrow> reconcile_report \<Rightarrow> oms \<Rightarrow> reconcile_report \<times> oms" where
  "reject_absent i r report s =
     (report\<lparr>rp_absent_rejected := rp_absent_rejected report + 1\<rparr>,
      case apply_transition (r_state r) Rejected of
        (Applied, st) \<Rightarrow>
          let r' = r\<lparr>r_state := st, r_rejection := Some venue_absent\<rparr>
          in store_record i (append_event (rejected_event r') (append_event (state_event r') s), r')
      | (TransitionRejected, st) \<Rightarrow> store_record i (s, r\<lparr>r_state := st\<rparr>))"

text \<open>Phase B, the critical section after one lookup.\<close>

definition resolve_item :: "string \<Rightarrow> order_snapshot option result \<Rightarrow> reconcile_report \<times> oms
    \<Rightarrow> reconcile_report \<times> oms" where
  "resolve_item i answer = (\<lambda>(report, s).
     case o_orders s i of
       None \<Rightarrow> (report, s)
     | Some r \<Rightarrow>
         (case answer of
            Inr (Some sn) \<Rightarrow>
              (case (if r_exchange_order_id r = [] \<and> sn_exchange_order_id sn \<noteq> [] then
                       (True, s, note_exchange_id r (sn_exchange_order_id sn))
                     else if sn_exchange_order_id sn \<noteq> [] \<and> leg_index_of r (sn_exchange_order_id sn) = None then
                       (True, adopt_unknown_leg r (sn_exchange_order_id sn) s)
                     else (False, s, r)) of
                 (c1, s1, r1) \<Rightarrow>
               case snapshot_observation r1 sn of
                 (c2, r2) \<Rightarrow>
                   if c1 \<or> c2 then
                     ((if is_terminal (r_state r2)
                       then report\<lparr>rp_terminal_resolved := rp_terminal_resolved report + 1\<rparr>
                       else report\<lparr>rp_updated := rp_updated report + 1\<rparr>),
                      store_record i (append_event (state_event r2) s1, r2))
                   else (report, store_record i (s1, r2)))
          | Inr None \<Rightarrow> reject_absent i r report s
          | Inl e \<Rightarrow>
              if code e = ''venue:51603'' \<or> code e = ''venue:51016'' then reject_absent i r report s
              else (report\<lparr>rp_unresolved := rp_unresolved report + 1\<rparr>, s)))"

text \<open>One thread's \<open>reconcile\<close> when nothing interleaves: every venue's listing in key order, then
  the worklist (in the registry's traversal order \<open>ids\<close>, which is taken after phase A).\<close>

definition resolve_work :: "(string \<Rightarrow> order_query \<Rightarrow> order_snapshot option result) \<Rightarrow> work_item
    \<Rightarrow> reconcile_report \<times> oms \<Rightarrow> reconcile_report \<times> oms" where
  "resolve_work venue_get item = (\<lambda>(report, s).
     case connector_for s (wi_venue item) of
       None \<Rightarrow> (report\<lparr>rp_unresolved := rp_unresolved report + 1\<rparr>, s)
     | Some c \<Rightarrow> resolve_item (wi_id item) (venue_get c (wi_query item)) (report, s))"

definition reconcile :: "(string \<Rightarrow> order_snapshot list result)
    \<Rightarrow> (string \<Rightarrow> order_query \<Rightarrow> order_snapshot option result) \<Rightarrow> (oms \<Rightarrow> string list) \<Rightarrow> oms
    \<Rightarrow> reconcile_report \<times> oms" where
  "reconcile venue_open venue_get ids s =
     (case fold (\<lambda>v. reconcile_listing v (venue_open v)) (o_connectors s) (empty_report, s) of
        (report, s1) \<Rightarrow> fold (resolve_work venue_get) (worklist (ids s1) s1) (report, s1))"

end
