(* ===== verification/OMS_Contract.thy ===== *)
theory OMS_Contract
  imports OMS_Reconcile
begin

text \<open>
  The contract of the registry: what every critical section of the order management system
  keeps, as the locale \<open>registry_operation\<close>, its interpretation on each handler of the model,
  and what follows for any sequence of them.
\<close>

section \<open>The contract\<close>

definition registry_le :: "oms \<Rightarrow> oms \<Rightarrow> bool" where
  "registry_le s s' \<longleftrightarrow>
     (\<forall>i r. o_orders s i = Some r \<longrightarrow> (\<exists>r'. o_orders s' i = Some r' \<and> evolves r r'))"

text \<open>Every entry is filed under its own client order id, and its leg table is a gapless chain
  that ends in the current exchange id.\<close>

definition registry_ok :: "oms \<Rightarrow> bool" where
  "registry_ok s \<longleftrightarrow> (\<forall>i r. o_orders s i = Some r \<longrightarrow> r_client_order_id r = i \<and> legs_ok r)"

definition same_config :: "oms \<Rightarrow> oms \<Rightarrow> bool" where
  "same_config s s' \<longleftrightarrow> o_connectors s' = o_connectors s \<and> o_default_venue s' = o_default_venue s
     \<and> o_risk s' = o_risk s \<and> log_port s' = log_port s"

definition advances :: "oms \<Rightarrow> oms \<Rightarrow> bool" where
  "advances s s' \<longleftrightarrow>
     registry_le s s' \<and> (registry_ok s \<longrightarrow> registry_ok s') \<and> same_config s s'
     \<and> (\<exists>new. log_events s' = log_events s @ new)"

lemma advances_refl [simp, intro]: "advances s s"
  by (auto simp: advances_def registry_le_def same_config_def)

lemma advances_trans [trans]: "advances s1 s2 \<Longrightarrow> advances s2 s3 \<Longrightarrow> advances s1 s3"
  unfolding advances_def registry_le_def same_config_def
  by (intro conjI allI impI; (elim conjE exE)?) (metis evolves_trans, simp_all)

locale registry_operation =
  fixes op :: "oms \<Rightarrow> oms"
  assumes op_advances: "advances s (op s)"
begin

lemma op_keeps:
  "o_orders s i = Some r \<Longrightarrow> \<exists>r'. o_orders (op s) i = Some r' \<and> evolves r r'"
  using op_advances [of s] by (simp add: advances_def registry_le_def)

lemma op_ok: "registry_ok s \<Longrightarrow> registry_ok (op s)"
  using op_advances [of s] by (simp add: advances_def)

text \<open>A terminal order keeps its state and its recorded rejection.\<close>

lemma op_terminal:
  "o_orders s i = Some r \<Longrightarrow> is_terminal (r_state r) \<Longrightarrow>
     \<exists>r'. o_orders (op s) i = Some r' \<and> r_state r' = r_state r \<and> r_rejection r' = r_rejection r"
  using op_keeps evolves_terminal by blast

end

section \<open>Building blocks\<close>

lemma quiet_advances: "quiet s s' \<Longrightarrow> advances s s'"
  by (auto simp: quiet_def advances_def registry_le_def registry_ok_def same_config_def)

lemma log_events_upd [simp]:
  "log_events (s\<lparr>o_orders := a\<rparr>) = log_events s" "log_events (s\<lparr>o_raced := b\<rparr>) = log_events s"
  "log_events (s\<lparr>o_stats := c\<rparr>) = log_events s" "log_events (s\<lparr>o_notes := d\<rparr>) = log_events s"
  "log_events (s\<lparr>o_latency := e\<rparr>) = log_events s"
  by (simp_all add: log_events_def)

lemma advances_raced [simp]:
  "advances s (s'\<lparr>o_raced := x\<rparr>) \<longleftrightarrow> advances s s'" "advances (s\<lparr>o_raced := x\<rparr>) s' \<longleftrightarrow> advances s s'"
  by (simp_all add: advances_def registry_le_def registry_ok_def same_config_def)

lemma advances_count [simp]: "advances s (count_write_failure s') \<longleftrightarrow> advances s s'"
  by (simp add: count_write_failure_def advances_def registry_le_def registry_ok_def same_config_def)

lemma advances_store:
  assumes "quiet s s1" "o_orders s i = Some r" "evolves r r'" "legs_ok r \<Longrightarrow> legs_ok r'"
  shows "advances s (store_record i (s1, r'))"
proof -
  have "registry_le s (store_record i (s1, r'))"
    using assms(1-3) by (auto simp: registry_le_def store_record_def quiet_def)
  moreover have "registry_ok s \<longrightarrow> registry_ok (store_record i (s1, r'))"
    using assms by (auto simp: registry_ok_def store_record_def quiet_def evolves_def same_order_def)
  ultimately show ?thesis
    using assms(1) by (simp add: advances_def store_record_def quiet_def same_config_def)
qed

lemma advances_new:
  assumes "quiet s s1" "o_orders s i = None" "r_client_order_id r = i" "legs_ok r"
  shows "advances s (store_record i (s1, r))"
proof -
  have "registry_le s (store_record i (s1, r))"
    using assms(1,2) by (auto simp: registry_le_def store_record_def quiet_def)
  moreover have "registry_ok s \<longrightarrow> registry_ok (store_record i (s1, r))"
    using assms by (auto simp: registry_ok_def store_record_def quiet_def)
  ultimately show ?thesis
    using assms(1) by (simp add: advances_def store_record_def quiet_def same_config_def)
qed

lemma advances_store_pair:
  assumes "quiet s (fst sr)" "o_orders s i = Some r" "evolves r (snd sr)" "legs_ok r \<Longrightarrow> legs_ok (snd sr)"
  shows "advances s (store_record i sr)"
  using advances_store [OF assms] by simp

text \<open>A guarded transition, possibly together with a recorded rejection.\<close>

lemma evolves_move: "evolves r (r\<lparr>r_state := ol.move (r_state r) st\<rparr>)"
  using move_climbs by (simp add: evolves_def same_order_def fill_grows_def)

lemma evolves_reject:
  "can_transition (r_state r) Rejected \<Longrightarrow> evolves r (r\<lparr>r_state := Rejected, r_rejection := Some e\<rparr>)"
  by (cases "r_state r") (auto simp: evolves_def same_order_def fill_grows_def)

lemma evolves_values: "evolves r (r\<lparr>r_price := p, r_quantity := q\<rparr>)"
  by (simp add: evolves_def same_order_def fill_grows_def)

lemma legs_ok_upd [simp]:
  "legs_ok (r\<lparr>r_state := st\<rparr>) \<longleftrightarrow> legs_ok r" "legs_ok (r\<lparr>r_rejection := e\<rparr>) \<longleftrightarrow> legs_ok r"
  "legs_ok (r\<lparr>r_price := p\<rparr>) \<longleftrightarrow> legs_ok r" "legs_ok (r\<lparr>r_quantity := q\<rparr>) \<longleftrightarrow> legs_ok r"
  by (rule legs_ok_cong; simp)+

lemma quiet_snd: "append_or_error ev s = (e, s') \<Longrightarrow> quiet s s'"
  using quiet_append_or_error [of s ev] by simp

lemma drain_parts:
  "snd (drain_raced_reports i s) = s\<lparr>o_raced := (o_raced s)(i := None)\<rparr>"
  "fst (drain_raced_reports i s) = opt_or (o_raced s i) []"
  by (auto simp: drain_raced_reports_def split: option.splits)
    (metis fun_upd_triv oms.surjective oms.update_convs(7))

section \<open>Every handler keeps it\<close>

interpretation report_op: registry_operation "on_execution_report rep" for rep
proof
  fix s0
  obtain t s where now: "latency_now s0 = (t, s)" by fastforce
  then have q0: "quiet s0 s" using quiet_latency(1) [of s0] by simp
  have step: "advances s (store_record (er_client_order_id rep) (apply_arbitrated_report rep (s, r)))"
    if "o_orders s (er_client_order_id rep) = Some r" for r
    using that by (intro advances_store_pair [where r = r] apply_arbitrated_parts(2)
        arbitrating.upd_evolves arbitrating.upd_legs_ok)
  have lat: "advances a b \<Longrightarrow> advances a (latency_measure i ph x y (snd (latency_now b)))" for a b i ph x y
    by (erule advances_trans) (blast intro: quiet_advances quiet_trans quiet_latency)
  have buf: "advances s (s\<lparr>o_raced := x, o_stats := y\<rparr>)" for x y
    by (simp add: advances_def registry_le_def registry_ok_def same_config_def)
  have "advances s (on_execution_report rep s0)"
    using step lat [OF step] buf
    by (auto simp: on_execution_report_def now Let_def case_prod_beta quiet_advances split: option.splits)
  then show "advances s0 (on_execution_report rep s0)"
    using quiet_advances [OF q0] by (blast intro: advances_trans)
qed

lemma place_stage_advances: "advances s (snd (place_stage ids req venue s))"
proof -
  let ?i = "rq_client_order_id req" and ?c = "place_candidate req venue"
  have c: "r_client_order_id ?c = ?i" "legs_ok ?c" by (simp_all add: place_candidate_def legs_ok_def)
  have staged: "advances s (store_record ?i (s1, c'))"
    if "o_orders s ?i = None" "append_or_error ev s = (e, s1)" "r_client_order_id c' = ?i" "legs_ok c'" for ev e s1 c'
    using that by (intro advances_new) (auto intro: quiet_snd)
  have failed: "advances s s1" if "append_or_error ev s = (e, s1)" for ev e s1
    using that by (intro quiet_advances quiet_snd)
  show ?thesis
    using c by (auto simp: place_stage_def Let_def split: option.splits sum.splits prod.splits
        intro: staged failed)
qed

lemma quiet_send_latency: "quiet s (place_send_latency req a b s)"
  by (auto simp: place_send_latency_def Let_def case_prod_beta intro: quiet_trans [OF quiet_latency(1)]
      quiet_trans [OF quiet_trans [OF quiet_latency(1) quiet_latency(2)]])

interpretation place_begin_op: registry_operation "\<lambda>s. snd (place_begin ids req venue hit s)" for ids req venue hit
proof
  fix s
  obtain t s1 where now: "latency_now s = (t, s1)" by fastforce
  then have "quiet s s1" using quiet_latency(1) [of s] by simp
  moreover have "advances s1 (snd (place_begin ids req venue hit s))"
    using place_stage_advances [of s1 ids req] quiet_advances [OF quiet_send_latency]
    by (auto simp: place_begin_def now Let_def split: prod.splits handler_step.splits)
      (metis snd_conv advances_trans)+
  ultimately show "advances s (snd (place_begin ids req venue hit s))"
    using quiet_advances advances_trans by blast
qed

text \<open>The second halves work on the drained state and one record.\<close>

lemma raced_store_advances:
  assumes "quiet s s1" "o_orders s i = Some r" "evolves r r'" "legs_ok r \<Longrightarrow> legs_ok r'"
  shows "advances s (store_record i (apply_raced reps (s1, r')))"
  using assms
  by (intro advances_store_pair [where r = r])
    (blast intro: quiet_trans evolves_trans apply_raced_parts)+

lemma persist_store_advances:
  assumes "append_or_error ev s = (e, s1)" "o_orders s i = Some r" "evolves r r'" "legs_ok r \<Longrightarrow> legs_ok r'"
  shows "advances s (store_record i (s1, r'))" "advances s (store_record i (count_write_failure s1, r'))"
    "advances s (store_record i (apply_raced reps (s1, r')))"
proof -
  have q: "quiet s s1" using assms(1) by (rule quiet_snd)
  show "advances s (store_record i (s1, r'))" by (rule advances_store [OF q assms(2-4)])
  show "advances s (store_record i (count_write_failure s1, r'))"
    by (rule advances_store [OF quiet_trans [OF q quiet_count] assms(2-4)])
  show "advances s (store_record i (apply_raced reps (s1, r')))"
    by (rule raced_store_advances [OF q assms(2-4)])
qed

lemma acknowledge_evolves:
  "evolves r ((note_exchange_id r x)\<lparr>r_state := ol.move (r_state (note_exchange_id r x)) st\<rparr>)"
  by (rule evolves_trans [OF noting.upd_evolves evolves_move])

interpretation place_finish_op: registry_operation "\<lambda>s. snd (place_finish req placement s)" for req placement
proof
  fix s
  let ?i = "rq_client_order_id req"
  obtain raced s1 where dr: "drain_raced_reports ?i s = (raced, s1)" by fastforce
  then have s1: "s1 = s\<lparr>o_raced := (o_raced s)(?i := None)\<rparr>" using drain_parts(1) [of ?i s] by simp
  have "advances s1 (snd (place_finish req placement s))"
  proof (cases "o_orders s1 ?i")
    case None
    then show ?thesis by (simp add: place_finish_def dr)
  next
    case (Some r)
    show ?thesis
    proof (cases placement)
      case (Inl e)
      have "advances s1 (store_record ?i (apply_raced raced (s1, r)))"
        using Some by (intro raced_store_advances) auto
      moreover have "advances s1 (store_record ?i (s1, r))" using Some by (intro advances_store) auto
      ultimately show ?thesis
        using Some Inl persist_store_advances(1,2) [OF _ Some evolves_reject]
        by (auto simp: place_finish_def dr apply_transition_def Let_def split: prod.splits option.splits)
    next
      case (Inr p)
      let ?r2 = "(note_exchange_id r (pl_exchange_order_id p))
        \<lparr>r_state := ol.move (r_state (note_exchange_id r (pl_exchange_order_id p))) Live\<rparr>"
      have r2: "evolves r ?r2" "legs_ok r \<Longrightarrow> legs_ok ?r2"
        using acknowledge_evolves noting.upd_legs_ok by auto
      obtain e s2 where ap: "append_or_error (place_accepted_event ?r2) s1 = (e, s2)" by fastforce
      show ?thesis
        using Some Inr persist_store_advances(2,3) [OF ap Some r2]
        by (cases e) (simp_all add: place_finish_def dr apply_transition_move ap Let_def case_prod_beta)
    qed
  qed
  then show "advances s (snd (place_finish req placement s))" by (simp add: s1)
qed

interpretation cancel_op: registry_operation "\<lambda>s. snd (cancel_finish i placement s)" for i placement
proof
  fix s
  show "advances s (snd (cancel_finish i placement s))"
  proof (cases "o_orders s i"; cases placement)
    fix r p
    assume rp: "o_orders s i = Some r" "placement = Inr p"
    let ?r = "note_exchange_id r (pl_exchange_order_id p)"
    have "advances s (store_record i (s2, ?r\<lparr>r_state := ol.move (r_state ?r) Canceled\<rparr>))"
      if "quiet s s2" for s2
      using acknowledge_evolves noting.upd_legs_ok by (intro advances_store [OF that rp(1)]) auto
    from this [OF quiet_refl] this [OF quiet_append_event] show ?thesis
      by (cases "can_transition (r_state ?r) Canceled")
        (simp_all add: cancel_finish_def rp Let_def apply_transition_def ol.move_def)
  qed (simp_all add: cancel_finish_def)
qed

interpretation amend_begin_op: registry_operation "\<lambda>s. snd (amend_begin ids cmd s)" for ids cmd
  by unfold_locales (auto simp: amend_begin_def Let_def split: option.splits sum.splits)

interpretation amend_finish_op: registry_operation "\<lambda>s. snd (amend_finish cmd wire placement s)"
  for cmd wire placement
proof
  fix s
  let ?i = "ac_client_order_id cmd"
  obtain raced s1 where dr: "drain_raced_reports ?i s = (raced, s1)" by fastforce
  then have s1: "s1 = s\<lparr>o_raced := (o_raced s)(?i := None)\<rparr>" using drain_parts(1) [of ?i s] by simp
  have "advances s1 (snd (amend_finish cmd wire placement s))"
  proof (cases "o_orders s1 ?i")
    case None
    then show ?thesis by (simp add: amend_finish_def dr)
  next
    case (Some r)
    show ?thesis
    proof (cases placement)
      case (Inl e)
      have "advances s1 (store_record ?i (apply_raced raced (s1, r)))"
        using Some by (intro raced_store_advances) auto
      moreover have "advances s1 (store_record ?i (apply_raced raced (adopt_unknown_leg r x s1)))" for x
      proof -
        obtain s2 where "adopt_unknown_leg r x s1 = (s2, note_exchange_id r x)" "quiet s1 s2"
          using adopt_unknown_leg_parts(1) [of r x s1] adopt_unknown_leg_parts(2) [of s1 r x]
          by (metis prod.collapse)
        then show ?thesis
          using Some noting.upd_evolves noting.upd_legs_ok by (auto intro!: raced_store_advances)
      qed
      ultimately show ?thesis using Some Inl by (simp add: amend_finish_def dr Let_def)
    next
      case (Inr p)
      let ?r2 = "append_amend_leg (r\<lparr>r_price := opt_or (am_new_price wire) [],
          r_quantity := opt_or (am_new_quantity wire) []\<rparr>) (pl_exchange_order_id p)"
      have r2: "evolves r ?r2" "legs_ok r \<Longrightarrow> legs_ok ?r2"
        using evolves_trans [OF evolves_values amending.upd_evolves] by (auto intro: amending.upd_legs_ok)
      obtain e s2 where ap: "append_or_error (amended_event ?r2) s1 = (e, s2)" by fastforce
      show ?thesis
        using Some Inr persist_store_advances(2,3) [OF ap Some r2]
        by (cases e) (simp_all add: amend_finish_def dr ap Let_def case_prod_beta)
    qed
  qed
  then show "advances s (snd (amend_finish cmd wire placement s))" by (simp add: s1)
qed

text \<open>Reconciliation.\<close>

lemma snapshot_step:
  "evolves r (snd (snapshot_observation r sn))" "legs_ok r \<Longrightarrow> legs_ok (snd (snapshot_observation r sn))"
  by (simp_all add: snapshot_observation_def observing.upd_evolves observing.upd_legs_ok)

lemma noted_snapshot_step:
  "evolves r (snd (snapshot_observation (note_exchange_id r x) sn))"
  "legs_ok r \<Longrightarrow> legs_ok (snd (snapshot_observation (note_exchange_id r x) sn))"
  using evolves_trans [OF noting.upd_evolves snapshot_step(1)] noting.upd_legs_ok snapshot_step(2) by blast+

lemma snapshot_record_ok: "legs_ok (snapshot_record sn venue b)" "r_client_order_id (snapshot_record sn venue b) = sn_client_order_id sn"
  by (simp_all add: snapshot_record_def legs_ok_def)

lemma record_from_snapshot_advances:
  "o_orders s (sn_client_order_id sn) = None \<Longrightarrow> advances s (record_from_snapshot sn venue b s)"
  by (auto simp: record_from_snapshot_def Let_def snapshot_record_ok intro!: advances_new)

lemma store_either:
  assumes "o_orders s i = Some r" "quiet s s1" "evolves r r'" "legs_ok r \<Longrightarrow> legs_ok r'"
  shows "advances s (store_record i (s1, r'))" "advances s (store_record i (append_event ev s1, r'))"
  using advances_store [OF assms(2,1,3,4)]
    advances_store [OF quiet_trans [OF assms(2) quiet_append_event] assms(1,3,4)] by blast+

interpretation adopt_op: registry_operation "\<lambda>s. snd (adopt_snapshot venue sn (report, s))" for venue sn report
proof
  fix s
  show "advances s (snd (adopt_snapshot venue sn (report, s)))"
  proof (cases "o_orders s (sn_client_order_id sn)")
    case None
    then show ?thesis by (simp add: adopt_snapshot_def record_from_snapshot_advances)
  next
    case (Some r)
    show ?thesis
      using Some store_either [OF Some quiet_refl snapshot_step] store_either [OF Some quiet_refl noted_snapshot_step]
      by (simp add: adopt_snapshot_def case_prod_beta)
  qed
qed

lemma adopt_snapshots_advance: "advances s (snd (fold (adopt_snapshot venue) sns (report, s)))"
proof (induction sns arbitrary: report s)
  case (Cons sn sns)
  obtain report1 s1 where 1: "adopt_snapshot venue sn (report, s) = (report1, s1)" by fastforce
  then have "advances s s1" using adopt_op.op_advances [of s venue sn report] by simp
  with Cons.IH [of s1 report1] 1 show ?case by (auto intro: advances_trans)
qed simp

interpretation listing_op: registry_operation "\<lambda>s. snd (reconcile_listing venue pending (report, s))"
  for venue pending report
  by unfold_locales (simp add: reconcile_listing_def adopt_snapshots_advance split: sum.splits)

lemma reject_absent_advances:
  assumes "o_orders s i = Some r"
  shows "advances s (snd (reject_absent i r report s))"
  using assms store_either(2) [OF assms quiet_append_event evolves_reject] advances_store [OF quiet_refl assms]
  by (auto simp: reject_absent_def apply_transition_def Let_def)

interpretation resolve_op: registry_operation "\<lambda>s. snd (resolve_item i answer (report, s))" for i answer report
proof
  fix s
  show "advances s (snd (resolve_item i answer (report, s)))"
  proof (cases "o_orders s i")
    case None
    then show ?thesis by (simp add: resolve_item_def)
  next
    case (Some r)
    have absent: "advances s (snd (reject_absent i r report s))" using Some by (rule reject_absent_advances)
    have found: ?thesis if a: "answer = Inr (Some sn)" for sn
    proof -
      let ?x = "sn_exchange_order_id sn"
      obtain s1 where ad: "adopt_unknown_leg r ?x s = (s1, note_exchange_id r ?x)" "quiet s s1"
        using adopt_unknown_leg_parts(1) [of r ?x s] adopt_unknown_leg_parts(2) [of s r ?x]
        by (metis prod.collapse)
      show ?thesis
        using Some store_either [OF Some quiet_refl snapshot_step]
          store_either [OF Some quiet_refl noted_snapshot_step] store_either [OF Some ad(2) noted_snapshot_step]
        by (simp add: a resolve_item_def case_prod_beta ad(1))
    qed
    show ?thesis
      using found absent Some by (cases answer; cases "projr answer") (auto simp: resolve_item_def)
  qed
qed

interpretation work_op: registry_operation "\<lambda>s. snd (resolve_work venue_get item (report, s))"
  for venue_get item report
  by unfold_locales (simp add: resolve_work_def resolve_op.op_advances split: option.splits)

end
