(* ===== verification/OMS_System.thy ===== *)
theory OMS_System
  imports OMS_Contract
begin

text \<open>
  The order management system as a concurrent system: threads of the REST server, the venue
  feeds and the reconciler interleave at the critical sections of \<^verbatim>\<open>src/core/oms.cpp\<close>, and the
  venues may answer anything. A state holds the registry and the calls that are in flight;
  \<open>step\<close> is one critical section; the invariant \<open>sys_inv\<close> holds in every reachable state.
\<close>

section \<open>Frames\<close>

lemma store_record_sel [simp]:
  "o_orders (store_record i (s, r)) = (o_orders s)(i \<mapsto> r)" "o_raced (store_record i (s, r)) = o_raced s"
  "log_events (store_record i (s, r)) = log_events s"
  by (simp_all add: store_record_def)

lemma store_record_pair:
  "o_orders (store_record i sr) = (o_orders (fst sr))(i \<mapsto> snd sr)" "o_raced (store_record i sr) = o_raced (fst sr)"
  by (simp_all add: store_record_def)

lemmas quiet_sel [frame_simps] =
  quiet_append_event [THEN quiet_regD(1)] quiet_append_event [THEN quiet_regD(2)]
  quiet_append_or_error [THEN quiet_regD(1)] quiet_append_or_error [THEN quiet_regD(2)]
  quiet_count [THEN quiet_regD(1)] quiet_count [THEN quiet_regD(2)]
  quiet_latency(1) [THEN quiet_regD(1)] quiet_latency(1) [THEN quiet_regD(2)]
  quiet_latency(2) [THEN quiet_regD(1)] quiet_latency(2) [THEN quiet_regD(2)]
  quiet_send_latency [THEN quiet_regD(1)] quiet_send_latency [THEN quiet_regD(2)]
  adopt_unknown_leg_parts(2) [THEN quiet_regD(1)] adopt_unknown_leg_parts(2) [THEN quiet_regD(2)]
  apply_arbitrated_parts(2) [THEN quiet_regD(1)] apply_arbitrated_parts(2) [THEN quiet_regD(2)]

lemma apply_raced_sel [frame_simps]:
  "o_orders (fst (apply_raced reps sr)) = o_orders (fst sr)" "o_raced (fst (apply_raced reps sr)) = o_raced (fst sr)"
  using apply_raced_parts(1) [of "fst sr" reps "snd sr"] by (simp_all add: quiet_def)

lemma append_or_error_sel:
  assumes "append_or_error ev s = (e, s')"
  shows "o_orders s' = o_orders s" "o_raced s' = o_raced s"
  using quiet_snd [OF assms] by (simp_all add: quiet_def)

text \<open>Each handler touches the entry and the buffer of its own order only.\<close>

lemma place_stage_frame:
  assumes "place_stage ids req venue s = (h, s')"
  shows "case h of
      Send c w \<Rightarrow> w = req \<and> o_orders s (rq_client_order_id req) = None
        \<and> o_orders s' = (o_orders s)(rq_client_order_id req \<mapsto> place_candidate req venue)
        \<and> (o_raced s (rq_client_order_id req) = None \<longrightarrow> o_raced s' = (o_raced s)(rq_client_order_id req \<mapsto> []))
        \<and> (o_log s \<noteq> None \<longrightarrow> place_submitted_event (place_candidate req venue) \<in> set (log_events s'))
    | _ \<Rightarrow> o_raced s' = o_raced s
        \<and> (\<forall>j. (o_orders s j \<noteq> None \<or> j \<noteq> rq_client_order_id req) \<longrightarrow> o_orders s' j = o_orders s j)"
proof -
  have c: "r_client_order_id (place_candidate req venue) = rq_client_order_id req"
    by (simp add: place_candidate_def)
  have logged: "o_log s \<noteq> None \<Longrightarrow> append_or_error ev s = (None, s1) \<Longrightarrow> ev \<in> set (log_events s1)" for ev s1
    using append_or_error_events [of ev s] by auto
  show ?thesis
    using assms
    by (auto simp: place_stage_def Let_def c append_or_error_sel frame_simps logged
        split: option.splits sum.splits prod.splits)
qed

lemma place_begin_frame:
  assumes "place_begin ids req venue hit s = (h, s')"
  shows "case h of
      Send c w \<Rightarrow> w = req \<and> o_orders s (rq_client_order_id req) = None
        \<and> (\<exists>v. o_orders s' = (o_orders s)(rq_client_order_id req \<mapsto> place_candidate req v)
             \<and> (o_log s \<noteq> None \<longrightarrow> place_submitted_event (place_candidate req v) \<in> set (log_events s')))
        \<and> (o_raced s (rq_client_order_id req) = None \<longrightarrow> o_raced s' = (o_raced s)(rq_client_order_id req \<mapsto> []))
    | _ \<Rightarrow> o_raced s' = o_raced s
        \<and> (\<forall>j. (o_orders s j \<noteq> None \<or> j \<noteq> rq_client_order_id req) \<longrightarrow> o_orders s' j = o_orders s j)"
proof -
  obtain t s1 where now: "latency_now s = (t, s1)" by fastforce
  then have q: "quiet s s1" using quiet_latency(1) [of s] by simp
  then have port: "o_log s1 = None \<longleftrightarrow> o_log s = None" by (intro log_port_None) (simp add: quiet_def)
  let ?v = "if venue = [] then o_default_venue s1 else venue"
  obtain h2 s2 where st: "place_stage ids req ?v s1 = (h2, s2)" by fastforce
  have eff: "h = h2 \<and> s' = (case h2 of Send _ _ \<Rightarrow> place_send_latency req hit t s2 | _ \<Rightarrow> s2)"
    using assms st by (auto simp: place_begin_def now Let_def split: handler_step.splits)
  have "quiet s2 (place_send_latency req hit t s2)" by (rule quiet_send_latency)
  then show ?thesis
    using place_stage_frame [OF st] q eff port
    by (auto simp: quiet_def split: handler_step.splits)
qed

lemma place_finish_frame:
  "o_raced (snd (place_finish req placement s)) = (o_raced s)(rq_client_order_id req := None)"
  "j \<noteq> rq_client_order_id req \<Longrightarrow> o_orders (snd (place_finish req placement s)) j = o_orders s j"
  by (auto simp: place_finish_def Let_def case_prod_beta drain_parts store_record_pair frame_simps
      split: option.splits sum.splits transition_result.splits)

lemma cancel_finish_frame:
  "o_raced (snd (cancel_finish i placement s)) = o_raced s"
  "j \<noteq> i \<Longrightarrow> o_orders (snd (cancel_finish i placement s)) j = o_orders s j"
  by (auto simp: cancel_finish_def Let_def case_prod_beta frame_simps
      split: option.splits sum.splits transition_result.splits)

lemma amend_begin_frame:
  assumes "amend_begin ids cmd s = (h, s')"
  shows "o_orders s' = o_orders s \<and> (case h of
      Send c w \<Rightarrow> o_raced s (ac_client_order_id cmd) = None
        \<and> o_raced s' = (o_raced s)(ac_client_order_id cmd \<mapsto> [])
        \<and> (\<exists>r. o_orders s (ac_client_order_id cmd) = Some r)
    | _ \<Rightarrow> s' = s)"
  using assms by (auto simp: amend_begin_def Let_def split: option.splits sum.splits if_splits)

lemma amend_finish_frame:
  "o_raced (snd (amend_finish cmd wire placement s)) = (o_raced s)(ac_client_order_id cmd := None)"
  "j \<noteq> ac_client_order_id cmd \<Longrightarrow> o_orders (snd (amend_finish cmd wire placement s)) j = o_orders s j"
  by (auto simp: amend_finish_def Let_def case_prod_beta drain_parts store_record_pair frame_simps
      split: option.splits sum.splits)

lemma report_frame:
  "dom (o_raced (on_execution_report rep s)) = dom (o_raced s)"
  "o_raced s j \<noteq> None \<or> j \<noteq> er_client_order_id rep \<Longrightarrow> o_orders (on_execution_report rep s) j = o_orders s j"
  by (auto simp: on_execution_report_def Let_def case_prod_beta store_record_pair frame_simps
      split: option.splits)

lemma adopt_frame:
  "o_raced (snd (adopt_snapshot venue sn rs)) = o_raced (snd rs)"
  "o_raced (snd rs) j \<noteq> None \<Longrightarrow> o_orders (snd (adopt_snapshot venue sn rs)) j = o_orders (snd rs) j"
  by (auto simp: adopt_snapshot_def record_from_snapshot_def Let_def case_prod_beta snapshot_record_ok frame_simps
      split: option.splits)

lemma listing_frame:
  "o_raced (snd (reconcile_listing venue pending (report, s))) = o_raced s"
  "o_raced s j \<noteq> None \<Longrightarrow> o_orders (snd (reconcile_listing venue pending (report, s))) j = o_orders s j"
proof -
  have "o_raced (snd (fold (adopt_snapshot venue) sns rs)) = o_raced (snd rs)
      \<and> (o_raced (snd rs) j \<noteq> None \<longrightarrow> o_orders (snd (fold (adopt_snapshot venue) sns rs)) j = o_orders (snd rs) j)"
    for sns rs j
    by (induction sns arbitrary: rs) (simp_all add: adopt_frame)
  then show "o_raced (snd (reconcile_listing venue pending (report, s))) = o_raced s"
    "o_raced s j \<noteq> None \<Longrightarrow> o_orders (snd (reconcile_listing venue pending (report, s))) j = o_orders s j"
    by (simp_all add: reconcile_listing_def split: sum.splits)
qed

lemma resolve_frame:
  "o_raced (snd (resolve_item i answer (report, s))) = o_raced s"
  "j \<noteq> i \<Longrightarrow> o_orders (snd (resolve_item i answer (report, s))) j = o_orders s j"
  by (auto simp: resolve_item_def reject_absent_def Let_def case_prod_beta frame_simps
      split: option.splits sum.splits transition_result.splits)

section \<open>States and steps\<close>

text \<open>In-flight calls: places and amends between their two critical sections, cancels, the
  reconciliation work items taken but not yet resolved. \<open>sys_sent\<close> is the history of place
  requests handed to a connector.\<close>

record system =
  sys_oms :: oms
  sys_places :: "order_request list"
  sys_amends :: "(amend_command \<times> amend_request) list"
  sys_cancels :: "string list"
  sys_work :: "string list"
  sys_sent :: "string list"

definition start_system :: "oms \<Rightarrow> system" where
  "start_system s = \<lparr>sys_oms = s, sys_places = [], sys_amends = [], sys_cancels = [], sys_work = [], sys_sent = []\<rparr>"

inductive step :: "system \<Rightarrow> system \<Rightarrow> bool" where
  place_answer: "place_begin ids req venue hit (sys_oms S) = (h, s') \<Longrightarrow> (\<nexists>c w. h = Send c w) \<Longrightarrow>
     step S (S\<lparr>sys_oms := s'\<rparr>)"
| place_send: "place_begin ids req venue hit (sys_oms S) = (Send c w, s') \<Longrightarrow>
     step S (S\<lparr>sys_oms := s', sys_places := sys_places S @ [req],
               sys_sent := sys_sent S @ [rq_client_order_id req]\<rparr>)"
| place_outcome: "sys_places S = xs @ req # ys \<Longrightarrow> place_finish req placement (sys_oms S) = (res, s') \<Longrightarrow>
     step S (S\<lparr>sys_oms := s', sys_places := xs @ ys\<rparr>)"
| cancel_send: "cancel_begin i (sys_oms S) = Send c w \<Longrightarrow>
     step S (S\<lparr>sys_cancels := sys_cancels S @ [i]\<rparr>)"
| cancel_outcome: "sys_cancels S = xs @ i # ys \<Longrightarrow> cancel_finish i placement (sys_oms S) = (res, s') \<Longrightarrow>
     step S (S\<lparr>sys_oms := s', sys_cancels := xs @ ys\<rparr>)"
| amend_answer: "amend_begin ids cmd (sys_oms S) = (h, s') \<Longrightarrow> (\<nexists>c w. h = Send c w) \<Longrightarrow>
     step S (S\<lparr>sys_oms := s'\<rparr>)"
| amend_send: "amend_begin ids cmd (sys_oms S) = (Send c w, s') \<Longrightarrow>
     step S (S\<lparr>sys_oms := s', sys_amends := sys_amends S @ [(cmd, w)]\<rparr>)"
| amend_outcome: "sys_amends S = xs @ (cmd, w) # ys \<Longrightarrow>
     amend_finish cmd w placement (sys_oms S) = (res, s') \<Longrightarrow>
     step S (S\<lparr>sys_oms := s', sys_amends := xs @ ys\<rparr>)"
| report: "step S (S\<lparr>sys_oms := on_execution_report rep (sys_oms S)\<rparr>)"
| listing: "reconcile_listing venue pending (empty_report, sys_oms S) = (rp, s') \<Longrightarrow>
     step S (S\<lparr>sys_oms := s'\<rparr>)"
| collect: "step S (S\<lparr>sys_work := sys_work S @ map wi_id (worklist ids (sys_oms S))\<rparr>)"
| resolve: "sys_work S = xs @ i # ys \<Longrightarrow> resolve_item i answer (empty_report, sys_oms S) = (rp, s') \<Longrightarrow>
     step S (S\<lparr>sys_oms := s', sys_work := xs @ ys\<rparr>)"
| drain_notes: "step S (S\<lparr>sys_oms := (sys_oms S)\<lparr>o_notes := []\<rparr>\<rparr>)"

text \<open>A run of the system: any interleaving of steps.\<close>

inductive steps :: "system \<Rightarrow> system \<Rightarrow> bool" where
  steps_refl: "steps S S"
| steps_step: "steps S S' \<Longrightarrow> step S' S'' \<Longrightarrow> steps S S''"

text \<open>Every step is an operation of the registry contract.\<close>

lemma step_advances: "step S S' \<Longrightarrow> advances (sys_oms S) (sys_oms S')"
proof (induction rule: step.induct)
  case (place_answer ids req venue hit S h s')
  then show ?case using place_begin_op.op_advances [of "sys_oms S" ids req venue hit] by simp
next
  case (place_send ids req venue hit S c w s')
  then show ?case using place_begin_op.op_advances [of "sys_oms S" ids req venue hit] by simp
next
  case (place_outcome S xs req ys placement res s')
  then show ?case using place_finish_op.op_advances [of "sys_oms S" req placement] by simp
next
  case (cancel_outcome S xs i ys placement res s')
  then show ?case using cancel_op.op_advances [of "sys_oms S" i placement] by simp
next
  case (amend_answer ids cmd S h s')
  then show ?case using amend_begin_op.op_advances [of "sys_oms S" ids cmd] by simp
next
  case (amend_send ids cmd S c w s')
  then show ?case using amend_begin_op.op_advances [of "sys_oms S" ids cmd] by simp
next
  case (amend_outcome S xs cmd w ys placement res s')
  then show ?case using amend_finish_op.op_advances [of "sys_oms S" cmd w placement] by simp
next
  case (report S rep)
  then show ?case by (simp add: report_op.op_advances)
next
  case (listing venue pending S rp s')
  then show ?case using listing_op.op_advances [of "sys_oms S" venue pending empty_report] by simp
next
  case (resolve S xs i ys answer rp s')
  then show ?case using resolve_op.op_advances [of "sys_oms S" i answer empty_report] by simp
qed (simp_all add: quiet_advances)

section \<open>The invariant\<close>

text \<open>The client order ids with an open place or amend call.\<close>

definition flying_places :: "system \<Rightarrow> string list" where
  "flying_places S = map rq_client_order_id (sys_places S)"

definition flying_amends :: "system \<Rightarrow> string list" where
  "flying_amends S = map (\<lambda>a. ac_client_order_id (fst a)) (sys_amends S)"

text \<open>
  The raced-report buffers belong to the open place and amend calls, one each; the record of
  an open place is exactly what was staged; nothing else in flight concerns an open place;
  everything in flight and everything ever sent is in the registry.
\<close>

definition buffers_inv :: "system \<Rightarrow> bool" where
  "buffers_inv S \<longleftrightarrow> distinct (flying_places S @ flying_amends S)
     \<and> dom (o_raced (sys_oms S)) = set (flying_places S) \<union> set (flying_amends S)"

definition staged_inv :: "system \<Rightarrow> bool" where
  "staged_inv S \<longleftrightarrow> (\<forall>req \<in> set (sys_places S).
     \<exists>v. o_orders (sys_oms S) (rq_client_order_id req) = Some (place_candidate req v))"

definition owned_inv :: "system \<Rightarrow> bool" where
  "owned_inv S \<longleftrightarrow> set (flying_places S) \<inter> (set (sys_cancels S) \<union> set (sys_work S)) = {}
     \<and> set (flying_amends S) \<union> set (sys_cancels S) \<union> set (sys_work S) \<union> set (sys_sent S)
        \<subseteq> dom (o_orders (sys_oms S))"

definition sent_inv :: "system \<Rightarrow> bool" where
  "sent_inv S \<longleftrightarrow> distinct (sys_sent S) \<and> (o_log (sys_oms S) \<noteq> None \<longrightarrow>
     (\<forall>i \<in> set (sys_sent S). \<exists>r. r_client_order_id r = i
        \<and> place_submitted_event r \<in> set (log_events (sys_oms S))))"

definition sys_inv :: "system \<Rightarrow> bool" where
  "sys_inv S \<longleftrightarrow> buffers_inv S \<and> staged_inv S \<and> owned_inv S \<and> sent_inv S"

lemma advances_dom: "advances s s' \<Longrightarrow> dom (o_orders s) \<subseteq> dom (o_orders s')"
  by (fastforce simp: advances_def registry_le_def)

lemma advances_log: "advances s s' \<Longrightarrow> set (log_events s) \<subseteq> set (log_events s') \<and> (o_log s' = None \<longleftrightarrow> o_log s = None)"
  by (auto simp: advances_def same_config_def dest: log_port_None)

lemma staged_dom: "staged_inv S \<Longrightarrow> set (flying_places S) \<subseteq> dom (o_orders (sys_oms S))"
  by (fastforce simp: staged_inv_def flying_places_def)

text \<open>A step that keeps the open calls and leaves the entries of open places alone.\<close>

lemma inv_same_calls:
  assumes "sys_inv S" "advances (sys_oms S) s'" "dom (o_raced s') = dom (o_raced (sys_oms S))"
    and "\<And>j. j \<in> set (flying_places S) \<Longrightarrow> o_orders s' j = o_orders (sys_oms S) j"
  shows "sys_inv (S\<lparr>sys_oms := s'\<rparr>)"
proof -
  have "staged_inv (S\<lparr>sys_oms := s'\<rparr>)"
    using assms(1,4) by (auto simp: sys_inv_def staged_inv_def flying_places_def)
  moreover have "owned_inv (S\<lparr>sys_oms := s'\<rparr>)"
    using assms(1) advances_dom [OF assms(2)]
    by (simp add: sys_inv_def owned_inv_def flying_places_def flying_amends_def, blast)
  moreover have "sent_inv (S\<lparr>sys_oms := s'\<rparr>)"
    using assms(1) advances_log [OF assms(2)] unfolding sys_inv_def sent_inv_def by fastforce
  ultimately show ?thesis
    using assms(1-3) by (simp add: sys_inv_def buffers_inv_def flying_places_def flying_amends_def advances_def)
qed

lemma flying_upd [simp]:
  "flying_places (S\<lparr>sys_oms := a\<rparr>) = flying_places S" "flying_amends (S\<lparr>sys_oms := a\<rparr>) = flying_amends S"
  "flying_places (S\<lparr>sys_places := p\<rparr>) = map rq_client_order_id p" "flying_amends (S\<lparr>sys_places := p\<rparr>) = flying_amends S"
  "flying_places (S\<lparr>sys_amends := m\<rparr>) = flying_places S"
  "flying_amends (S\<lparr>sys_amends := m\<rparr>) = map (\<lambda>a. ac_client_order_id (fst a)) m"
  "flying_places (S\<lparr>sys_cancels := c\<rparr>) = flying_places S" "flying_amends (S\<lparr>sys_cancels := c\<rparr>) = flying_amends S"
  "flying_places (S\<lparr>sys_work := w\<rparr>) = flying_places S" "flying_amends (S\<lparr>sys_work := w\<rparr>) = flying_amends S"
  "flying_places (S\<lparr>sys_sent := n\<rparr>) = flying_places S" "flying_amends (S\<lparr>sys_sent := n\<rparr>) = flying_amends S"
  by (simp_all add: flying_places_def flying_amends_def)

lemma in_flying: "req \<in> set (sys_places S) \<Longrightarrow> rq_client_order_id req \<in> set (flying_places S)"
  by (simp add: flying_places_def)

lemma owned_weaken:
  assumes "owned_inv S" "set (flying_places S') \<subseteq> set (flying_places S)" "set (flying_amends S') \<subseteq> set (flying_amends S)"
    "sys_cancels S' = sys_cancels S" "sys_work S' = sys_work S" "sys_sent S' = sys_sent S"
    "advances (sys_oms S) (sys_oms S')"
  shows "owned_inv S'"
  using assms(1-3) advances_dom [OF assms(7)] unfolding owned_inv_def assms(4-6) by blast

lemma sent_weaken:
  assumes "sent_inv S" "sys_sent S' = sys_sent S" "advances (sys_oms S) (sys_oms S')"
  shows "sent_inv S'"
  using assms(1) advances_log [OF assms(3)] unfolding sent_inv_def assms(2) by fastforce

lemma inv_calls:
  assumes "sys_inv S"
  shows "sys_inv (S\<lparr>sys_cancels := cs\<rparr>) \<longleftrightarrow>
      set cs \<inter> set (flying_places S) = {} \<and> set cs \<subseteq> dom (o_orders (sys_oms S))"
    "sys_inv (S\<lparr>sys_work := ws\<rparr>) \<longleftrightarrow>
      set ws \<inter> set (flying_places S) = {} \<and> set ws \<subseteq> dom (o_orders (sys_oms S))"
  using assms
  by (auto simp: sys_inv_def buffers_inv_def staged_inv_def owned_inv_def sent_inv_def flying_places_def
      flying_amends_def)

lemma inv_owned:
  assumes "sys_inv S"
  shows "set (sys_cancels S) \<inter> set (flying_places S) = {}" "set (sys_work S) \<inter> set (flying_places S) = {}"
    "set (sys_cancels S) \<subseteq> dom (o_orders (sys_oms S))" "set (sys_work S) \<subseteq> dom (o_orders (sys_oms S))"
  using assms by (auto simp: sys_inv_def owned_inv_def)

text \<open>An open place is \<open>Pending\<close> in the registry and has its buffer.\<close>

lemma open_place:
  assumes "sys_inv S" "i \<in> set (flying_places S)"
  shows "\<exists>r. o_orders (sys_oms S) i = Some r \<and> r_state r = Pending" "o_raced (sys_oms S) i \<noteq> None"
proof -
  show "\<exists>r. o_orders (sys_oms S) i = Some r \<and> r_state r = Pending"
    using assms by (fastforce simp: sys_inv_def staged_inv_def flying_places_def place_candidate_def)
  show "o_raced (sys_oms S) i \<noteq> None"
    using assms by (auto simp: sys_inv_def buffers_inv_def)
qed

lemma cancel_send_id:
  "cancel_begin i s = Send c w \<Longrightarrow> \<exists>r. o_orders s i = Some r \<and> r_state r \<noteq> Pending"
  by (auto simp: cancel_begin_def split: option.splits if_splits)

lemma inv_cancel_send:
  assumes "sys_inv S" "cancel_begin i (sys_oms S) = Send c w"
  shows "sys_inv (S\<lparr>sys_cancels := sys_cancels S @ [i]\<rparr>)"
proof -
  obtain r where r: "o_orders (sys_oms S) i = Some r" "r_state r \<noteq> Pending"
    using cancel_send_id [OF assms(2)] by blast
  then have "i \<notin> set (flying_places S)" using open_place(1) [OF assms(1), of i] by auto
  with r show ?thesis using inv_owned [OF assms(1)] by (auto simp: inv_calls [OF assms(1)])
qed

lemma worklist_ids: "i \<in> set (map wi_id (worklist ids s)) \<Longrightarrow> o_raced s i = None \<and> i \<in> dom (o_orders s)"
  by (auto simp: worklist_def map_filter_def work_item_for_def split: option.splits if_splits)

lemma inv_collect:
  assumes "sys_inv S"
  shows "sys_inv (S\<lparr>sys_work := sys_work S @ map wi_id (worklist ids (sys_oms S))\<rparr>)"
proof -
  have "i \<notin> set (flying_places S) \<and> i \<in> dom (o_orders (sys_oms S))"
    if "i \<in> set (map wi_id (worklist ids (sys_oms S)))" for i
    using worklist_ids [OF that] open_place(2) [OF assms, of i] by auto
  then show ?thesis using inv_owned [OF assms] unfolding inv_calls(2) [OF assms] set_append by blast
qed

lemma inv_place_send:
  assumes inv: "sys_inv S" and sent: "place_begin ids req venue hit (sys_oms S) = (Send c w, s')"
  shows "sys_inv (S\<lparr>sys_oms := s', sys_places := sys_places S @ [req],
      sys_sent := sys_sent S @ [rq_client_order_id req]\<rparr>)"
proof -
  let ?i = "rq_client_order_id req" and ?s = "sys_oms S"
  obtain v where fr: "o_orders ?s ?i = None" "o_orders s' = (o_orders ?s)(?i \<mapsto> place_candidate req v)"
    "o_log ?s \<noteq> None \<Longrightarrow> place_submitted_event (place_candidate req v) \<in> set (log_events s')"
    "o_raced ?s ?i = None \<Longrightarrow> o_raced s' = (o_raced ?s)(?i \<mapsto> [])"
    using place_begin_frame [OF sent] by auto
  have adv: "advances ?s s'" using place_begin_op.op_advances [of ?s ids req venue hit] sent by simp
  have fresh: "?i \<notin> set (flying_places S)" "?i \<notin> set (flying_amends S)" "?i \<notin> set (sys_cancels S)"
    "?i \<notin> set (sys_work S)" "?i \<notin> set (sys_sent S)"
    using fr(1) inv staged_dom [of S] by (auto simp: sys_inv_def owned_inv_def)
  then have "o_raced ?s ?i = None" using inv by (auto simp: sys_inv_def buffers_inv_def)
  then have raced: "o_raced s' = (o_raced ?s)(?i \<mapsto> [])" by (rule fr(4))
  let ?S = "S\<lparr>sys_oms := s', sys_places := sys_places S @ [req], sys_sent := sys_sent S @ [?i]\<rparr>"
  have "buffers_inv ?S"
    using inv fresh raced by (auto simp: sys_inv_def buffers_inv_def flying_places_def flying_amends_def)
  moreover have "staged_inv ?S"
    using inv fresh(1) fr(2) in_flying [of _ S] by (fastforce simp: sys_inv_def staged_inv_def)
  moreover have "owned_inv ?S"
    using inv fresh fr(2) by (auto simp: sys_inv_def owned_inv_def flying_places_def flying_amends_def)
  moreover have "sent_inv ?S"
  proof -
    have "sent_inv (S\<lparr>sys_oms := s'\<rparr>)"
      by (rule sent_weaken [of S]) (use inv adv in \<open>simp_all add: sys_inv_def\<close>)
    moreover have "r_client_order_id (place_candidate req v) = ?i" by (simp add: place_candidate_def)
    ultimately show ?thesis
      using fresh(5) fr(3) advances_log [OF adv] by (auto simp: sent_inv_def)
  qed
  ultimately show ?thesis using inv adv by (simp add: sys_inv_def advances_def)
qed

text \<open>When an open call ends, its buffer goes with it.\<close>

lemma inv_place_outcome:
  assumes inv: "sys_inv S" and open_call: "sys_places S = xs @ req # ys"
    and out: "place_finish req placement (sys_oms S) = (res, s')"
  shows "sys_inv (S\<lparr>sys_oms := s', sys_places := xs @ ys\<rparr>)"
proof -
  let ?i = "rq_client_order_id req" and ?s = "sys_oms S"
  have s': "s' = snd (place_finish req placement ?s)" using out by simp
  have adv: "advances ?s s'" unfolding s' by (rule place_finish_op.op_advances)
  have raced: "o_raced s' = (o_raced ?s)(?i := None)"
    and other: "\<And>j. j \<noteq> ?i \<Longrightarrow> o_orders s' j = o_orders ?s j"
    unfolding s' by (simp_all add: place_finish_frame)
  have only: "rq_client_order_id r \<noteq> ?i" if "r \<in> set (xs @ ys)" for r
    using inv that by (auto simp: sys_inv_def buffers_inv_def flying_places_def open_call) (metis imageI)+
  let ?S = "S\<lparr>sys_oms := s', sys_places := xs @ ys\<rparr>"
  have "buffers_inv ?S"
    using inv raced by (auto simp: sys_inv_def buffers_inv_def flying_places_def flying_amends_def open_call)
  moreover have "staged_inv ?S"
    using inv only other by (auto simp: sys_inv_def staged_inv_def open_call)
  moreover have "owned_inv ?S"
    by (rule owned_weaken [of S]) (use inv adv in \<open>auto simp: sys_inv_def flying_places_def flying_amends_def open_call\<close>)
  moreover have "sent_inv ?S"
    by (rule sent_weaken [of S]) (use inv adv in \<open>simp_all add: sys_inv_def\<close>)
  ultimately show ?thesis using inv adv by (simp add: sys_inv_def advances_def)
qed

lemma inv_amend_send:
  assumes inv: "sys_inv S" and sent: "amend_begin ids cmd (sys_oms S) = (Send c w, s')"
  shows "sys_inv (S\<lparr>sys_oms := s', sys_amends := sys_amends S @ [(cmd, w)]\<rparr>)"
proof -
  let ?i = "ac_client_order_id cmd" and ?s = "sys_oms S"
  have fr: "o_orders s' = o_orders ?s" "o_raced ?s ?i = None" "o_raced s' = (o_raced ?s)(?i \<mapsto> [])"
    "?i \<in> dom (o_orders ?s)" using amend_begin_frame [OF sent] by auto
  have adv: "advances ?s s'" using amend_begin_op.op_advances [of ?s ids cmd] sent by simp
  let ?S = "S\<lparr>sys_oms := s', sys_amends := sys_amends S @ [(cmd, w)]\<rparr>"
  have "?i \<notin> set (flying_places S) \<union> set (flying_amends S)"
    using inv fr(2) by (auto simp: sys_inv_def buffers_inv_def)
  then have "buffers_inv ?S"
    using inv fr(3) by (auto simp: sys_inv_def buffers_inv_def flying_amends_def [of S])
  moreover have "staged_inv ?S" "owned_inv ?S"
    using inv fr(1,4) by (auto simp: sys_inv_def staged_inv_def owned_inv_def flying_places_def flying_amends_def)
  moreover have "sent_inv ?S"
    by (rule sent_weaken [of S]) (use inv adv in \<open>simp_all add: sys_inv_def\<close>)
  ultimately show ?thesis using inv adv by (simp add: sys_inv_def advances_def)
qed

lemma inv_amend_outcome:
  assumes inv: "sys_inv S" and open_call: "sys_amends S = xs @ (cmd, w) # ys"
    and out: "amend_finish cmd w placement (sys_oms S) = (res, s')"
  shows "sys_inv (S\<lparr>sys_oms := s', sys_amends := xs @ ys\<rparr>)"
proof -
  let ?i = "ac_client_order_id cmd" and ?s = "sys_oms S"
  have s': "s' = snd (amend_finish cmd w placement ?s)" using out by simp
  have adv: "advances ?s s'" unfolding s' by (rule amend_finish_op.op_advances)
  have raced: "o_raced s' = (o_raced ?s)(?i := None)"
    and other: "\<And>j. j \<noteq> ?i \<Longrightarrow> o_orders s' j = o_orders ?s j"
    unfolding s' by (simp_all add: amend_finish_frame)
  have only: "rq_client_order_id r \<noteq> ?i" if "r \<in> set (sys_places S)" for r
    using inv in_flying [OF that] by (auto simp: sys_inv_def buffers_inv_def flying_amends_def open_call)
  let ?S = "S\<lparr>sys_oms := s', sys_amends := xs @ ys\<rparr>"
  have "buffers_inv ?S"
    using inv raced by (auto simp: sys_inv_def buffers_inv_def flying_places_def flying_amends_def open_call)
  moreover have "staged_inv ?S"
    using inv only other by (auto simp: sys_inv_def staged_inv_def)
  moreover have "owned_inv ?S"
    by (rule owned_weaken [of S]) (use inv adv in \<open>auto simp: sys_inv_def flying_places_def flying_amends_def open_call\<close>)
  moreover have "sent_inv ?S"
    by (rule sent_weaken [of S]) (use inv adv in \<open>simp_all add: sys_inv_def\<close>)
  ultimately show ?thesis using inv adv by (simp add: sys_inv_def advances_def)
qed

lemma inv_step:
  assumes "step S S'" "sys_inv S"
  shows "sys_inv S'"
  using assms
proof (induction rule: step.induct)
  case (place_answer ids req venue hit S h s')
  have fr: "o_raced s' = o_raced (sys_oms S)"
    "\<And>j. o_orders (sys_oms S) j \<noteq> None \<Longrightarrow> o_orders s' j = o_orders (sys_oms S) j"
    using place_begin_frame [OF place_answer(1)] place_answer(2) by (auto split: handler_step.splits)
  have "advances (sys_oms S) s'"
    using place_begin_op.op_advances [of "sys_oms S" ids req venue hit] place_answer(1) by simp
  then show ?case
    using fr open_place(1) [OF place_answer(3)] by (intro inv_same_calls [OF place_answer(3)]) fastforce+
next
  case (place_send ids req venue hit S c w s')
  then show ?case by (intro inv_place_send)
next
  case (place_outcome S xs req ys placement res s')
  then show ?case by (intro inv_place_outcome)
next
  case (cancel_send i S c w)
  then show ?case by (intro inv_cancel_send)
next
  case (cancel_outcome S xs i ys placement res s')
  note inv = cancel_outcome(3)
  have i: "i \<notin> set (flying_places S)" using inv_owned(1) [OF inv] cancel_outcome(1) by auto
  have s': "s' = snd (cancel_finish i placement (sys_oms S))" using cancel_outcome(2) by simp
  have inv': "sys_inv (S\<lparr>sys_oms := s'\<rparr>)"
    unfolding s' using i
    by (intro inv_same_calls [OF inv cancel_op.op_advances]) (simp add: cancel_finish_frame, metis cancel_finish_frame(2))
  have "sys_inv (S\<lparr>sys_oms := s'\<rparr>\<lparr>sys_cancels := xs @ ys\<rparr>)"
    unfolding inv_calls(1) [OF inv'] using inv_owned(1,3) [OF inv'] cancel_outcome(1) by auto
  then show ?case by simp
next
  case (amend_answer ids cmd S h s')
  then have "s' = sys_oms S" using amend_begin_frame [OF amend_answer(1)] by (auto split: handler_step.splits)
  then show ?case using amend_answer(3) by simp
next
  case (amend_send ids cmd S c w s')
  then show ?case by (intro inv_amend_send)
next
  case (amend_outcome S xs cmd w ys placement res s')
  then show ?case by (intro inv_amend_outcome)
next
  case (report S rep)
  then show ?case
    using open_place(2) [OF report] by (intro inv_same_calls report_op.op_advances) (auto simp: report_frame)
next
  case (listing venue pending S rp s')
  have s': "s' = snd (reconcile_listing venue pending (empty_report, sys_oms S))" using listing(1) by simp
  show ?case
    unfolding s' using open_place(2) [OF listing(2)]
    by (intro inv_same_calls [OF listing(2) listing_op.op_advances]) (auto simp: listing_frame)
next
  case (collect S ids)
  then show ?case by (intro inv_collect)
next
  case (resolve S xs i ys answer rp s')
  note inv = resolve(3)
  have i: "i \<notin> set (flying_places S)" using inv_owned(2) [OF inv] resolve(1) by auto
  have s': "s' = snd (resolve_item i answer (empty_report, sys_oms S))" using resolve(2) by simp
  have inv': "sys_inv (S\<lparr>sys_oms := s'\<rparr>)"
    unfolding s' using i
    by (intro inv_same_calls [OF inv resolve_op.op_advances]) (simp add: resolve_frame, metis resolve_frame(2))
  have "sys_inv (S\<lparr>sys_oms := s'\<rparr>\<lparr>sys_work := xs @ ys\<rparr>)"
    unfolding inv_calls(2) [OF inv'] using inv_owned(2,4) [OF inv'] resolve(1) by auto
  then show ?case by simp
next
  case (drain_notes S)
  then show ?case by (intro inv_same_calls quiet_advances) auto
qed

text \<open>The system starts with no call in flight, from a fresh registry or one that was replayed from a
  log. A registry replayed from a log that this system wrote is also filed correctly.\<close>

definition startable :: "oms \<Rightarrow> bool" where
  "startable s \<longleftrightarrow> registry_ok s \<and> o_raced s = Map.empty"

lemma steps_advances: "steps S S' \<Longrightarrow> advances (sys_oms S) (sys_oms S')"
  by (induction rule: steps.induct) (auto intro: advances_trans step_advances)

lemma steps_inv: "steps S S' \<Longrightarrow> sys_inv S \<Longrightarrow> sys_inv S'"
  by (induction rule: steps.induct) (auto intro: inv_step)

text \<open>Only orders the registry does not know are sent, and what it knows it keeps.\<close>

lemma step_sent: "step S S' \<Longrightarrow> set (sys_sent S') \<subseteq> set (sys_sent S) \<union> - dom (o_orders (sys_oms S))"
proof (induction rule: step.induct)
  case (place_send ids req venue hit S c w s')
  then show ?case using place_begin_frame [OF place_send] by auto
qed auto

lemma steps_sent: "steps S S' \<Longrightarrow> set (sys_sent S') \<subseteq> set (sys_sent S) \<union> - dom (o_orders (sys_oms S))"
proof (induction rule: steps.induct)
  case (steps_step S S' S'')
  then show ?case using step_sent [OF steps_step(2)] advances_dom [OF steps_advances [OF steps_step(1)]] by blast
qed auto

lemma steps_trans: "steps S' S'' \<Longrightarrow> steps S S' \<Longrightarrow> steps S S''"
  by (induction rule: steps.induct) (auto intro: steps_step)

subsection \<open>A whole reconciliation and an audit are runs\<close>

text \<open>The counters of the report do not influence the registry.\<close>

lemma adopt_report: "snd (adopt_snapshot venue sn (report, s)) = snd (adopt_snapshot venue sn (report', s))"
  by (simp add: adopt_snapshot_def case_prod_beta Let_def split: option.splits)

lemma listing_report: "snd (reconcile_listing venue pending (report, s)) = snd (reconcile_listing venue pending (report', s))"
proof -
  have "snd (fold (adopt_snapshot venue) sns (report, s)) = snd (fold (adopt_snapshot venue) sns (report', s))" for sns report report' s
  proof (induction sns arbitrary: report report' s)
    case (Cons sn sns)
    obtain r1 s1 r2 s2 where "adopt_snapshot venue sn (report, s) = (r1, s1)" "adopt_snapshot venue sn (report', s) = (r2, s2)"
      by (meson prod.exhaust)
    then show ?case using adopt_report [of venue sn report s report'] Cons.IH [of r1 s1 r2] by simp
  qed simp
  then show ?thesis by (simp add: reconcile_listing_def split: sum.splits)
qed

lemma resolve_report: "snd (resolve_item i answer (report, s)) = snd (resolve_item i answer (report', s))"
  by (simp add: resolve_item_def reject_absent_def case_prod_beta Let_def split: option.splits sum.splits)

lemma listing_steps:
  "steps S (S\<lparr>sys_oms := snd (fold (\<lambda>v. reconcile_listing v (venue_open v)) vs (report, sys_oms S))\<rparr>)"
proof (induction vs arbitrary: S report)
  case Nil
  then show ?case by (simp add: steps_refl)
next
  case (Cons v vs)
  obtain r1 s1 where one: "reconcile_listing v (venue_open v) (report, sys_oms S) = (r1, s1)" by (rule prod.exhaust)
  obtain r2 where "reconcile_listing v (venue_open v) (empty_report, sys_oms S) = (r2, s1)"
    using listing_report [of v "venue_open v" report "sys_oms S" empty_report] one by (metis prod.collapse snd_conv)
  then have "steps S (S\<lparr>sys_oms := s1\<rparr>)" using steps_step [OF steps_refl step.listing] by blast
  with Cons.IH [of "S\<lparr>sys_oms := s1\<rparr>" r1] steps_trans one show ?case by fastforce
qed

lemma resolve_work_step:
  assumes "sys_work S = xs @ wi_id item # ys" "resolve_work venue_get item (report, sys_oms S) = (r1, s1)"
  shows "steps S (S\<lparr>sys_oms := s1, sys_work := xs @ ys\<rparr>)"
proof -
  obtain answer r2 where "resolve_item (wi_id item) answer (empty_report, sys_oms S) = (r2, s1)"
  proof (cases "connector_for (sys_oms S) (wi_venue item)")
    case None
    then have "snd (resolve_item (wi_id item) (Inl (Error [] [])) (empty_report, sys_oms S)) = s1"
      using assms(2) by (simp add: resolve_work_def resolve_item_def split: option.splits)
    then show thesis using that by (metis prod.collapse)
  next
    case (Some c)
    then have "snd (resolve_item (wi_id item) (venue_get c (wi_query item)) (empty_report, sys_oms S)) = s1"
      using assms(2) resolve_report [of _ _ empty_report _ report] by (simp add: resolve_work_def)
    then show thesis using that by (metis prod.collapse)
  qed
  with assms(1) show ?thesis using steps_step [OF steps_refl step.resolve] by blast
qed

lemma work_steps:
  assumes "sys_work S = xs @ map wi_id items"
  shows "steps S (S\<lparr>sys_oms := snd (fold (resolve_work venue_get) items (report, sys_oms S)), sys_work := xs\<rparr>)"
  using assms
proof (induction items arbitrary: S report)
  case Nil
  then have "S\<lparr>sys_oms := sys_oms S, sys_work := xs\<rparr> = S" by simp
  then show ?case by (simp add: steps_refl)
next
  case (Cons item items)
  obtain r1 s1 where one: "resolve_work venue_get item (report, sys_oms S) = (r1, s1)" by (rule prod.exhaust)
  have "sys_work S = xs @ wi_id item # map wi_id items" using Cons.prems by simp
  from resolve_work_step [OF this one] have "steps S (S\<lparr>sys_oms := s1, sys_work := xs @ map wi_id items\<rparr>)" .
  with Cons.IH [of "S\<lparr>sys_oms := s1, sys_work := xs @ map wi_id items\<rparr>" r1] steps_trans one show ?case by fastforce
qed

lemma reconcile_steps: "steps S (S\<lparr>sys_oms := snd (reconcile venue_open venue_get ids (sys_oms S))\<rparr>)"
proof -
  obtain rep s1 where listed: "fold (\<lambda>v. reconcile_listing v (venue_open v)) (o_connectors (sys_oms S)) (empty_report, sys_oms S) = (rep, s1)"
    by (rule prod.exhaust)
  let ?S1 = "S\<lparr>sys_oms := s1\<rparr>" and ?items = "worklist (ids s1) s1"
  let ?S2 = "?S1\<lparr>sys_work := sys_work ?S1 @ map wi_id (worklist (ids s1) (sys_oms ?S1))\<rparr>"
  have "steps S ?S1" using listing_steps [of S venue_open "o_connectors (sys_oms S)" empty_report] listed by simp
  then have "steps S ?S2" by (rule steps_step) (rule step.collect)
  moreover have "steps ?S2 (?S2\<lparr>sys_oms := snd (fold (resolve_work venue_get) ?items (rep, sys_oms ?S2)), sys_work := sys_work S\<rparr>)"
    by (rule work_steps) simp
  ultimately show ?thesis using steps_trans listed by (fastforce simp: reconcile_def)
qed

lemma start_inv: "o_raced s = Map.empty \<Longrightarrow> sys_inv (start_system s)"
  by (simp add: start_system_def sys_inv_def buffers_inv_def staged_inv_def owned_inv_def
      sent_inv_def flying_places_def flying_amends_def)

lemma new_oms_startable: "startable (new_oms vs lg rsk dflt lat)"
  by (simp add: startable_def new_oms_def registry_ok_def)

text \<open>A concrete run, used to instantiate the properties: one venue, no log, no limits, one
  order placed and still open at the venue, with a fill already reported.\<close>

definition demo_request :: order_request where
  "demo_request = \<lparr>rq_client_order_id = ''c1'', rq_instrument_id = ''BTC-USDT'', rq_side = Buy,
     rq_type = Limit, rq_price = ''100'', rq_quantity = ''2'', rq_time_in_force = []\<rparr>"

definition demo_oms :: oms where
  "demo_oms = new_oms [''okx''] None empty_risk_config ''okx'' None"

definition demo_report :: execution_report where
  "demo_report = \<lparr>er_client_order_id = ''c1'', er_exchange_order_id = ''x1'', er_state = PartiallyFilled,
     er_side = Buy, er_filled_quantity = ''1'', er_average_fill_price = ''99''\<rparr>"

lemma demo_run:
  "\<exists>S. steps (start_system demo_oms) S \<and> sys_sent S = [''c1''] \<and> sys_places S = [demo_request]
     \<and> o_raced (sys_oms S) ''c1'' = Some [demo_report]"
proof -
  let ?S = "start_system demo_oms"
  have "\<exists>s'. place_begin [] demo_request [] (- 1) (sys_oms ?S) = (Send ''okx'' demo_request, s')
      \<and> o_raced s' ''c1'' = Some []"
    by (simp add: start_system_def demo_oms_def new_oms_def place_begin_def latency_now_def place_stage_def
        connector_for_def place_risk_def limits_for_def empty_risk_config_def append_or_error_def
        demo_request_def store_record_def place_send_latency_def Let_def)
  then obtain s' where s': "place_begin [] demo_request [] (- 1) (sys_oms ?S) = (Send ''okx'' demo_request, s')"
    "o_raced s' ''c1'' = Some []" by blast
  let ?S1 = "?S\<lparr>sys_oms := s', sys_places := sys_places ?S @ [demo_request],
      sys_sent := sys_sent ?S @ [rq_client_order_id demo_request]\<rparr>"
  let ?S2 = "?S1\<lparr>sys_oms := on_execution_report demo_report (sys_oms ?S1)\<rparr>"
  have "steps ?S ?S2" by (rule steps_step [OF steps_step [OF steps_refl step.place_send [OF s'(1)]] step.report])
  moreover have "o_raced (sys_oms ?S2) ''c1'' = Some [demo_report]"
    using s'(2) by (simp add: on_execution_report_def case_prod_beta quiet_sel demo_report_def)
  ultimately show ?thesis by (intro exI [of _ ?S2]) (simp add: start_system_def demo_request_def)
qed

lemma demo_startable: "startable demo_oms"
  by (simp add: demo_oms_def new_oms_startable)

section \<open>Properties\<close>

text \<open>C1. At most one place per client order id, restarts included. In every run, from any registry
  (fresh, or replayed from whatever log) and under any interleaving, venue answers, write failures
  and reconciliations, the place requests handed to a connector have pairwise different client
  order ids, none of which the registry knew at the start; each of these orders is in the
  registry, and if there is a log, its \<open>place_submitted\<close> event is in it.\<close>

theorem each_order_sent_at_most_once:
  assumes "o_raced s0 = Map.empty" "steps (start_system s0) S"
  shows "distinct (sys_sent S)
    \<and> (\<forall>i \<in> set (sys_sent S). o_orders s0 i = None \<and> o_orders (sys_oms S) i \<noteq> None
        \<and> (o_log s0 \<noteq> None \<longrightarrow> (\<exists>r. r_client_order_id r = i
             \<and> place_submitted_event r \<in> set (log_events (sys_oms S)))))"
proof -
  have "sys_inv S" using assms start_inv steps_inv by blast
  moreover have "o_log (sys_oms S) = None \<longleftrightarrow> o_log s0 = None"
    using advances_log [OF steps_advances [OF assms(2)]] by (simp add: start_system_def)
  moreover have "set (sys_sent S) \<inter> dom (o_orders s0) = {}" using steps_sent [OF assms(2)] by (auto simp: start_system_def)
  ultimately show ?thesis by (auto simp: sys_inv_def owned_inv_def sent_inv_def)
qed

theorem each_order_sent_at_most_once_witness:
  "\<exists>S. steps (start_system demo_oms) S \<and> sys_sent S = [''c1''] \<and> distinct (sys_sent S)
     \<and> o_orders (sys_oms S) ''c1'' \<noteq> None"
proof -
  obtain S where S: "steps (start_system demo_oms) S" "sys_sent S = [''c1'']" using demo_run by blast
  from each_order_sent_at_most_once [OF _ S(1)] demo_startable S show ?thesis by (auto simp: startable_def)
qed

text \<open>C9. An open place owns its entry. In every run, while the venue call of a place is open its
  registry entry is exactly the staged candidate (\<open>Pending\<close>, no exchange id, no legs), its
  raced-report buffer exists, no other place or amend of that id is open, and no cancel or
  reconciliation item concerns it; so its second critical section finds the entry and never
  answers \<open>internal\<close>.\<close>

theorem open_place_owns_entry:
  assumes "o_raced s0 = Map.empty" "steps (start_system s0) S" "sys_places S = xs @ req # ys"
  shows "(\<exists>v. o_orders (sys_oms S) (rq_client_order_id req) = Some (place_candidate req v))
    \<and> o_raced (sys_oms S) (rq_client_order_id req) \<noteq> None
    \<and> rq_client_order_id req \<notin> set (map rq_client_order_id (xs @ ys))
    \<and> rq_client_order_id req \<notin> set (flying_amends S) \<union> set (sys_cancels S) \<union> set (sys_work S)
    \<and> (\<forall>placement e. fst (place_finish req placement (sys_oms S)) = Inl e \<longrightarrow>
          code e = ''internal'' \<longrightarrow> placement = Inl e)"
proof -
  have inv: "sys_inv S" using assms start_inv steps_inv by blast
  let ?i = "rq_client_order_id req"
  have mem: "?i \<in> set (flying_places S)" by (simp add: flying_places_def assms(3))
  obtain v where v: "o_orders (sys_oms S) ?i = Some (place_candidate req v)"
    using inv assms(3) by (auto simp: sys_inv_def staged_inv_def)
  have "placement = Inl e"
    if "fst (place_finish req placement (sys_oms S)) = Inl e" "code e = ''internal''" for placement e
    using that v by (auto simp: place_finish_def Let_def case_prod_beta drain_parts split: sum.splits option.splits
        if_splits transition_result.splits)
  moreover have "?i \<notin> set (map rq_client_order_id (xs @ ys))" "?i \<notin> set (flying_amends S)"
    using inv assms(3) by (auto simp: sys_inv_def buffers_inv_def flying_places_def)
  moreover have "?i \<notin> set (sys_cancels S) \<union> set (sys_work S)"
    using inv_owned(1,2) [OF inv] mem by blast
  ultimately show ?thesis using v open_place(2) [OF inv mem] by blast
qed

theorem open_place_owns_entry_witness:
  "\<exists>S v. steps (start_system demo_oms) S \<and> sys_places S = [demo_request]
     \<and> o_orders (sys_oms S) ''c1'' = Some (place_candidate demo_request v)"
proof -
  obtain S where S: "steps (start_system demo_oms) S" "sys_places S = [] @ demo_request # []"
    using demo_run by auto
  from open_place_owns_entry [OF _ S] demo_startable S show ?thesis by (auto simp: demo_request_def startable_def)
qed

text \<open>C10. Records only move forward. Between any two states of a run, every registry entry is
  still there and has evolved: identity fields fixed, lifecycle state the same or of a higher
  rank, terminal state and recorded rejection kept, fill mark never lower, leg table only
  extended; the log has only been appended to; and a registry that was filed correctly (each
  entry under its own id with a gapless leg chain ending in the current exchange id) still is.\<close>

theorem records_only_evolve:
  assumes "steps S S'"
  shows "(\<forall>i r. o_orders (sys_oms S) i = Some r \<longrightarrow>
           (\<exists>r'. o_orders (sys_oms S') i = Some r' \<and> evolves r r'
              \<and> (is_terminal (r_state r) \<longrightarrow> r_state r' = r_state r \<and> r_rejection r' = r_rejection r)))
    \<and> (registry_ok (sys_oms S) \<longrightarrow> registry_ok (sys_oms S'))
    \<and> (\<exists>new. log_events (sys_oms S') = log_events (sys_oms S) @ new)"
  using steps_advances [OF assms] evolves_terminal unfolding advances_def registry_le_def by blast

theorem records_only_evolve_witness:
  "\<exists>S. steps (start_system demo_oms) S \<and> sys_sent S = [''c1''] \<and> registry_ok (sys_oms S)"
proof -
  obtain S where S: "steps (start_system demo_oms) S" "sys_sent S = [''c1'']" using demo_run by blast
  have "registry_ok (sys_oms (start_system demo_oms))"
    using demo_startable by (simp add: startable_def start_system_def)
  with records_only_evolve [OF S(1)] S show ?thesis by blast
qed

end
