(* ===== verification/OMS_Audit.thy ===== *)
theory OMS_Audit
  imports OMS_System
begin

text \<open>
  The consistency audit, \<open>audit\<close> of \<^verbatim>\<open>src/core/oms.cpp\<close>: the local checks on every record, the
  comparison of every working order with its venue's snapshot, and the report. The first
  critical section checks the registry and takes the worklist; each venue answer is compared
  in a critical section of its own. The lemmas show what the alerts mean, that the audit
  changes nothing but the list of discovered legs, and that reconciliation removes the drift
  the audit reports.
\<close>

section \<open>Definitions\<close>

record consistency_alert =
  al_client_order_id :: string
  al_check :: string
  al_detail :: string

definition alert :: "string \<Rightarrow> string \<Rightarrow> string \<Rightarrow> consistency_alert" where
  "alert i chk detail = \<lparr>al_client_order_id = i, al_check = chk, al_detail = detail\<rparr>"

record audit_report =
  ar_alerts :: "consistency_alert list"
  ar_orders_checked :: nat
  ar_venue_lookups :: nat
  ar_lookup_failures :: nat

text \<open>The scan for the first leg whose version is not its position; \<open>n\<close> is \<open>legs.size()\<close>.\<close>

fun version_gap_loop :: "order_leg list \<Rightarrow> nat \<Rightarrow> nat \<Rightarrow> string \<Rightarrow> consistency_alert list" where
  "version_gap_loop [] index n i = []"
| "version_gap_loop (l # ls) index n i =
     (if leg_version l \<noteq> index + 1 then
        [alert i ''version_gap'' (''leg '' @ nat_to_string (index + 1) @ '' carries version '' @
           nat_to_string (leg_version l) @ ''; expected a contiguous 1..'' @ nat_to_string n @ '' chain'')]
      else version_gap_loop ls (index + 1) n i)"

definition newest_leg_alerts :: "order_record \<Rightarrow> consistency_alert list" where
  "newest_leg_alerts r =
     (if r_legs r \<noteq> [] \<and> leg_exchange_order_id (last (r_legs r)) \<noteq> r_exchange_order_id r then
        [alert (r_client_order_id r) ''version_gap'' (''current exchangeOrderId '' @ r_exchange_order_id r @
           '' != newest leg id '' @ leg_exchange_order_id (last (r_legs r)))]
      else [])"

definition fill_state_alerts :: "order_record \<Rightarrow> consistency_alert list" where
  "fill_state_alerts r =
     (case parse_decimal (if r_filled_quantity r = [] then ''0'' else r_filled_quantity r) of
        Inl _ \<Rightarrow> []
      | Inr filled \<Rightarrow>
          (case parse_decimal (r_quantity r) of
             Inl _ \<Rightarrow> []
           | Inr quantity \<Rightarrow>
               if is_zero quantity then []
               else let relation = compare_dec filled quantity
                    in if r_state r \<noteq> Filled \<and> relation \<ge> 0 then
                         [alert (r_client_order_id r) ''fill_state_mismatch''
                            (''filledQuantity '' @ r_filled_quantity r @ '' reached quantity '' @
                             r_quantity r @ '' but state is '' @ state_to_string (r_state r))]
                       else if r_state r = Filled \<and> relation < 0 then
                         [alert (r_client_order_id r) ''fill_state_mismatch''
                            (''state is filled but filledQuantity '' @ r_filled_quantity r @
                             '' is below quantity '' @ r_quantity r)]
                       else []))"

definition audit_record_local :: "order_record \<Rightarrow> consistency_alert list \<Rightarrow> consistency_alert list" where
  "audit_record_local r alerts =
     alerts @ version_gap_loop (r_legs r) 0 (length (r_legs r)) (r_client_order_id r)
       @ newest_leg_alerts r @ fill_state_alerts r"

definition compare_decimal :: "string \<Rightarrow> string \<Rightarrow> int option" where
  "compare_decimal l v =
     (case parse_decimal (if l = [] then ''0'' else l) of
        Inl _ \<Rightarrow> None
      | Inr loc \<Rightarrow> (case parse_decimal (if v = [] then ''0'' else v) of
          Inl _ \<Rightarrow> None
        | Inr ven \<Rightarrow> Some (compare_dec loc ven)))"

definition drifted :: "string \<Rightarrow> string \<Rightarrow> bool" where
  "drifted l v \<longleftrightarrow> (case compare_decimal l v of None \<Rightarrow> False | Some rel \<Rightarrow> rel \<noteq> 0)"

definition audit_record_vs_snapshot :: "order_record \<Rightarrow> order_snapshot \<Rightarrow> consistency_alert list
    \<Rightarrow> consistency_alert list" where
  "audit_record_vs_snapshot r sn alerts =
     alerts
     @ (if sn_exchange_order_id sn \<noteq> [] \<and> leg_index_of r (sn_exchange_order_id sn) = None then
          [alert (r_client_order_id r) ''unknown_leg_report''
             (''venue snapshot carries exchangeOrderId '' @ sn_exchange_order_id sn @
              '' absent from the leg table (reconcile adopts it on the next pass)'')] else [])
     @ (if sn_state sn \<noteq> r_state r then
          [alert (r_client_order_id r) ''state_mismatch''
             (''local '' @ state_to_string (r_state r) @ '', venue '' @ state_to_string (sn_state sn))] else [])
     @ (if drifted (r_filled_quantity r) (sn_filled_quantity sn) then
          [alert (r_client_order_id r) ''fill_mismatch''
             (''local filledQuantity '' @ r_filled_quantity r @ '', venue '' @ sn_filled_quantity sn)] else [])
     @ (if drifted (r_price r) (sn_price sn) then
          [alert (r_client_order_id r) ''price_qty_mismatch''
             (''local price '' @ r_price r @ '', venue '' @ sn_price sn)] else [])
     @ (if drifted (r_quantity r) (sn_quantity sn) then
          [alert (r_client_order_id r) ''price_qty_mismatch''
             (''local quantity '' @ r_quantity r @ '', venue '' @ sn_quantity sn)] else [])"

text \<open>Its last two alerts.\<close>

definition price_alert :: "order_record \<Rightarrow> order_snapshot \<Rightarrow> consistency_alert" where
  "price_alert r sn = alert (r_client_order_id r) ''price_qty_mismatch'' (''local price '' @ r_price r @ '', venue '' @ sn_price sn)"

definition quantity_alert :: "order_record \<Rightarrow> order_snapshot \<Rightarrow> consistency_alert" where
  "quantity_alert r sn =
     alert (r_client_order_id r) ''price_qty_mismatch'' (''local quantity '' @ r_quantity r @ '', venue '' @ sn_quantity sn)"

definition discovered_leg_alert :: "string \<times> string \<Rightarrow> consistency_alert" where
  "discovered_leg_alert note = alert (fst note) ''unknown_leg_report''
     (''execution report carried exchangeOrderId '' @ snd note @
      '' absent from the leg table; adopted as a new leg (lost amend ack?)'')"

text \<open>The first critical section: local checks in traversal order, the discovered legs (reported
  once, then cleared) and the worklist.\<close>

definition audit_begin :: "string list \<Rightarrow> oms \<Rightarrow> (work_item list \<times> audit_report) \<times> oms" where
  "audit_begin ids s =
     ((worklist ids s,
       \<lparr>ar_alerts = foldl (\<lambda>alerts i. case o_orders s i of Some r \<Rightarrow> audit_record_local r alerts | None \<Rightarrow> alerts)
                      [] ids @ map discovered_leg_alert (o_notes s),
        ar_orders_checked = card (dom (o_orders s)), ar_venue_lookups = 0, ar_lookup_failures = 0\<rparr>),
      s\<lparr>o_notes := []\<rparr>)"

text \<open>The critical section after one venue lookup.\<close>

definition audit_answer :: "string \<Rightarrow> order_snapshot option result \<Rightarrow> oms \<Rightarrow> audit_report \<Rightarrow> audit_report" where
  "audit_answer i answer s report =
     (let report1 = report\<lparr>ar_venue_lookups := ar_venue_lookups report + 1\<rparr>
      in case o_orders s i of
           None \<Rightarrow> report1
         | Some r \<Rightarrow>
             (case answer of
                Inl e \<Rightarrow> report1\<lparr>ar_lookup_failures := ar_lookup_failures report1 + 1,
                   ar_alerts := ar_alerts report1 @ [alert i ''lookup_failed'' (code e @ '': '' @ message e)]\<rparr>
              | Inr None \<Rightarrow> report1\<lparr>ar_alerts := ar_alerts report1 @
                   [alert i ''venue_unknown'' (''non-terminal locally ('' @ state_to_string (r_state r) @
                      '') but the venue does not know the order'')]\<rparr>
              | Inr (Some sn) \<Rightarrow>
                  report1\<lparr>ar_alerts := audit_record_vs_snapshot r sn (ar_alerts report1)\<rparr>))"

definition audit_item :: "(string \<Rightarrow> order_query \<Rightarrow> order_snapshot option result) \<Rightarrow> oms \<Rightarrow> work_item
    \<Rightarrow> audit_report \<Rightarrow> audit_report" where
  "audit_item venue_get s item report =
     (case connector_for s (wi_venue item) of
        None \<Rightarrow> report\<lparr>ar_lookup_failures := ar_lookup_failures report + 1,
           ar_alerts := ar_alerts report @ [alert (wi_id item) ''lookup_failed''
             (''no connector for venue '' @ [quote_char] @ wi_venue item @ [quote_char])]\<rparr>
      | Some c \<Rightarrow> audit_answer (wi_id item) (venue_get c (wi_query item)) s report)"

text \<open>One thread's \<open>audit\<close> when nothing interleaves.\<close>

definition audit :: "(string \<Rightarrow> order_query \<Rightarrow> order_snapshot option result) \<Rightarrow> string list \<Rightarrow> oms
    \<Rightarrow> audit_report \<times> oms" where
  "audit venue_get ids s =
     (case audit_begin ids s of ((items, report), s1) \<Rightarrow>
        (fold (audit_item venue_get s1) items report, s1))"

section \<open>What the alerts mean\<close>

lemma alert_sel [simp]:
  "al_check (alert i chk d) = chk" "al_client_order_id (alert i chk d) = i"
  by (simp_all add: alert_def)

lemma version_gap_loop_Nil:
  "version_gap_loop ls k n i = [] \<longleftrightarrow> map leg_version ls = [k + 1..<k + 1 + length ls]"
proof (induction ls arbitrary: k)
  case (Cons l ls)
  have "[k + 1..<k + 1 + length (l # ls)] = (k + 1) # [k + 2..<k + 2 + length ls]"
    using upt_rec [of "k + 1" "k + 1 + length (l # ls)"] by simp
  with Cons.IH [of "k + 1"] show ?case by (auto simp: eq_commute [of "Suc k"])
qed simp

lemma version_gap_loop_check: "a \<in> set (version_gap_loop ls k n i) \<Longrightarrow> al_check a = ''version_gap''"
  by (induction ls k n i rule: version_gap_loop.induct) (auto split: if_splits)

text \<open>Two readable amounts that differ.\<close>

definition same_amount :: "string \<Rightarrow> string \<Rightarrow> bool" where
  "same_amount a b \<longleftrightarrow> (\<forall>v w. amt.reading a = Some v \<longrightarrow> amt.reading b = Some w \<longrightarrow> v = w)"

lemma drifted_iff: "drifted a b \<longleftrightarrow> \<not> same_amount a b"
proof -
  have "compare_dec x y \<noteq> 0 \<longleftrightarrow> dval x \<noteq> dval y"
    if "parse_decimal u = Inr x" "parse_decimal w = Inr y" for u w x y
    using parse_decimal_spec(4) [OF that(1)] parse_decimal_spec(4) [OF that(2)]
    by (auto simp: compare_dec_val)
  then show ?thesis
    by (auto simp: drifted_def compare_decimal_def same_amount_def amt.reading_def amt.or_zero_def split: sum.splits)
qed

text \<open>A record whose leg chain is intact and whose fill agrees with its state.\<close>

definition chain_ok :: "order_record \<Rightarrow> bool" where
  "chain_ok r \<longleftrightarrow> map leg_version (r_legs r) = [1..<length (r_legs r) + 1]
     \<and> (r_legs r \<noteq> [] \<longrightarrow> leg_exchange_order_id (last (r_legs r)) = r_exchange_order_id r)"

definition fill_agrees :: "order_record \<Rightarrow> bool" where
  "fill_agrees r \<longleftrightarrow> (\<forall>f q. amt.reading (r_filled_quantity r) = Some f \<longrightarrow> r_quantity r \<noteq> [] \<longrightarrow>
     amt.reading (r_quantity r) = Some q \<longrightarrow> q > 0 \<longrightarrow> (r_state r = Filled \<longleftrightarrow> q \<le> f))"

lemma parse_decimal_Nil: "parse_decimal [] = Inl (invalid_decimal [])"
  by (simp add: parse_decimal_def parse_signed_decimal_def)

lemma is_zero_dval: "parse_decimal t = Inr d \<Longrightarrow> is_zero d \<longleftrightarrow> \<not> dval d > 0"
  using parse_decimal_spec(3,5) [of t d] by (auto simp: is_zero_def dval_def zero_less_divide_iff)

lemma fill_state_alerts_Nil: "fill_state_alerts r = [] \<longleftrightarrow> fill_agrees r"
proof (cases "parse_decimal (if r_filled_quantity r = [] then ''0'' else r_filled_quantity r)")
  case (Inr f)
  show ?thesis
  proof (cases "parse_decimal (r_quantity r)")
    case q: (Inr q)
    have "compare_dec f q \<ge> 0 \<longleftrightarrow> dval q \<le> dval f"
      using parse_decimal_spec(4) [OF Inr] parse_decimal_spec(4) [OF q] by (auto simp: compare_dec_val)
    moreover have "r_quantity r \<noteq> []" using q by (auto simp: parse_decimal_Nil)
    ultimately show ?thesis
      using Inr q is_zero_dval [OF q]
      by (auto simp: fill_state_alerts_def fill_agrees_def amt.reading_def amt.or_zero_def Let_def not_le [symmetric])
  qed (auto simp: fill_state_alerts_def fill_agrees_def amt.reading_def amt.or_zero_def Inr split: if_splits)
qed (auto simp: fill_state_alerts_def fill_agrees_def amt.reading_def amt.or_zero_def)

lemma local_alerts:
  "audit_record_local r [] = [] \<longleftrightarrow> chain_ok r \<and> fill_agrees r"
  "chain_ok r \<Longrightarrow> audit_record_local r [] = fill_state_alerts r"
  using version_gap_loop_Nil [of "r_legs r" 0 "length (r_legs r)" "r_client_order_id r"]
  by (auto simp: audit_record_local_def chain_ok_def newest_leg_alerts_def fill_state_alerts_Nil)

lemma audit_record_local_acc: "audit_record_local r alerts = alerts @ audit_record_local r []"
  by (simp add: audit_record_local_def)

lemma legs_ok_chain: "legs_ok r \<Longrightarrow> chain_ok r"
  by (auto simp: legs_ok_def chain_ok_def)

text \<open>A record and a venue snapshot that tell the same story.\<close>

definition agrees_with :: "order_record \<Rightarrow> order_snapshot \<Rightarrow> bool" where
  "agrees_with r sn \<longleftrightarrow>
     (sn_exchange_order_id sn = [] \<or> sn_exchange_order_id sn \<in> leg_exchange_order_id ` set (r_legs r))
     \<and> sn_state sn = r_state r \<and> same_amount (r_filled_quantity r) (sn_filled_quantity sn)
     \<and> same_amount (r_price r) (sn_price sn) \<and> same_amount (r_quantity r) (sn_quantity sn)"

lemma snapshot_alerts_Nil:
  "audit_record_vs_snapshot r sn alerts = [] \<longleftrightarrow> alerts = [] \<and> agrees_with r sn"
  by (simp add: audit_record_vs_snapshot_def agrees_with_def drifted_iff leg_index_None)

section \<open>The whole pass\<close>

text \<open>The venue confirms the order: its connector is there, and it answers with a snapshot that
  agrees.\<close>

definition confirmed :: "(string \<Rightarrow> order_query \<Rightarrow> order_snapshot option result) \<Rightarrow> oms \<Rightarrow> string
    \<Rightarrow> order_record \<Rightarrow> bool" where
  "confirmed venue_get s i r \<longleftrightarrow>
     (\<exists>c sn. connector_for_record s r = Some c
        \<and> venue_get c \<lparr>oq_client_order_id = i, oq_instrument_id = r_symbol r\<rparr> = Inr (Some sn)
        \<and> agrees_with r sn)"

lemma foldl_alerts_Nil:
  "foldl (\<lambda>alerts i. case o_orders s i of Some r \<Rightarrow> audit_record_local r alerts | None \<Rightarrow> alerts) acc ids = []
     \<longleftrightarrow> acc = [] \<and> (\<forall>i \<in> set ids. \<forall>r. o_orders s i = Some r \<longrightarrow> chain_ok r \<and> fill_agrees r)"
proof (induction ids arbitrary: acc)
  case (Cons i ids)
  then show ?case
    by (cases "o_orders s i")
      (auto simp: audit_record_local_acc [of _ acc] local_alerts(1))
qed simp

lemma audit_item_alerts:
  assumes "work_item_for s i = Some item" "o_orders s i = Some r"
  shows "ar_alerts (audit_item venue_get (s\<lparr>o_notes := n\<rparr>) item report) = []
     \<longleftrightarrow> ar_alerts report = [] \<and> confirmed venue_get s i r"
proof -
  have item: "item = \<lparr>wi_id = i, wi_venue = (if r_venue r = [] then o_default_venue s else r_venue r),
      wi_query = \<lparr>oq_client_order_id = i, oq_instrument_id = r_symbol r\<rparr>\<rparr>"
    using assms by (simp add: work_item_for_def split: if_splits)
  have "connector_for (s\<lparr>o_notes := n\<rparr>) (wi_venue item) = connector_for_record s r"
    by (simp add: item connector_for_def connector_for_record_def)
  then show ?thesis
    by (auto simp: audit_item_def audit_answer_def confirmed_def item assms(2) snapshot_alerts_Nil Let_def
        split: option.splits sum.splits)
qed

lemma audit_items_alerts:
  "ar_alerts (fold (audit_item venue_get (s\<lparr>o_notes := n\<rparr>)) (worklist ids s) report) = []
     \<longleftrightarrow> ar_alerts report = []
       \<and> (\<forall>i \<in> set ids. \<forall>r. o_orders s i = Some r \<longrightarrow> \<not> is_terminal (r_state r) \<longrightarrow> o_raced s i = None
            \<longrightarrow> confirmed venue_get s i r)"
proof (induction ids arbitrary: report)
  case (Cons i ids)
  show ?case
  proof (cases "work_item_for s i")
    case None
    then have "\<And>r. o_orders s i = Some r \<Longrightarrow> is_terminal (r_state r) \<or> o_raced s i \<noteq> None"
      by (auto simp: work_item_for_def split: if_splits)
    with None Cons.IH show ?thesis by (auto simp: worklist_def List.map_filter_simps)
  next
    case (Some item)
    then obtain r where r: "o_orders s i = Some r" "\<not> is_terminal (r_state r)" "o_raced s i = None"
      by (auto simp: work_item_for_def split: option.splits if_splits)
    from Some Cons.IH audit_item_alerts [OF Some r(1)] r show ?thesis
      by (auto simp: worklist_def List.map_filter_simps)
  qed
qed (simp add: worklist_def List.map_filter_simps)

lemma audit_answer_counts:
  "ar_orders_checked (audit_item venue_get s item report) = ar_orders_checked report"
  "ar_venue_lookups (audit_item venue_get s item report) =
     ar_venue_lookups report + (if connector_for s (wi_venue item) = None then 0 else 1)"
  by (auto simp: audit_item_def audit_answer_def Let_def split: option.splits sum.splits)

lemma audit_items_counts:
  "ar_orders_checked (fold (audit_item venue_get s) items report) = ar_orders_checked report"
  "ar_venue_lookups (fold (audit_item venue_get s) items report) =
     ar_venue_lookups report + length (filter (\<lambda>item. connector_for s (wi_venue item) \<noteq> None) items)"
  by (induction items arbitrary: report) (auto simp: audit_answer_counts)

text \<open>The record that reconciliation stores for a venue snapshot.\<close>

definition known_leg :: "order_record \<Rightarrow> string \<Rightarrow> bool" where
  "known_leg r x \<longleftrightarrow> x = [] \<or> x \<in> leg_exchange_order_id ` set (r_legs r)"

definition learned :: "order_record \<Rightarrow> string \<Rightarrow> order_record" where
  "learned r x = (if known_leg r x then r else note_exchange_id r x)"

lemma learned_known:
  assumes "legs_ok r"
  shows "known_leg (learned r x) x"
proof (cases "known_leg r x")
  case False
  have "r_exchange_order_id r = [] \<or> r_exchange_order_id r \<in> leg_exchange_order_id ` set (r_legs r)"
    using assms by (auto simp: legs_ok_def split: if_splits)
  with False have "x \<noteq> r_exchange_order_id r" "x \<noteq> []" by (auto simp: known_leg_def)
  with False show ?thesis by (simp add: learned_def note_exchange_id_def push_leg_def known_leg_def)
qed (simp add: learned_def)

lemma learned_frame [frame_simps]:
  "r_state (learned r x) = r_state r" "r_filled_quantity (learned r x) = r_filled_quantity r"
  "r_price (learned r x) = r_price r" "r_quantity (learned r x) = r_quantity r"
  by (simp_all add: learned_def note_exchange_id_def push_leg_def)

lemma resolve_item_learns:
  assumes "legs_ok r" "o_orders s i = Some r"
  shows "o_orders (snd (resolve_item i (Inr (Some sn)) (report, s))) i =
     Some (snd (snapshot_observation (learned r (sn_exchange_order_id sn)) sn))"
proof -
  let ?x = "sn_exchange_order_id sn"
  have "r_exchange_order_id r = [] \<Longrightarrow> r_legs r = []" using assms(1) by (auto simp: legs_ok_def split: if_splits)
  then have l: "learned r ?x = (if r_exchange_order_id r = [] \<and> ?x \<noteq> [] then note_exchange_id r ?x
      else if ?x \<noteq> [] \<and> leg_index_of r ?x = None then note_exchange_id r ?x else r)"
    by (auto simp: learned_def known_leg_def leg_index_None)
  show ?thesis
    using adopt_unknown_leg_parts(1) [of r ?x s]
    by (auto simp: resolve_item_def assms(2) l case_prod_beta)
qed

lemma snapshot_observation_values:
  "r_filled_quantity (snd (snapshot_observation r sn)) = amt.raise_mark (r_filled_quantity r) (sn_filled_quantity sn)"
  "r_state (snd (snapshot_observation r sn)) = ol.move (r_state r) (sn_state sn)"
  "r_price (snd (snapshot_observation r sn)) = (if sn_price sn \<noteq> [] then sn_price sn else r_price r)"
  "r_quantity (snd (snapshot_observation r sn)) = (if sn_quantity sn \<noteq> [] then sn_quantity sn else r_quantity r)"
  "r_legs (snd (snapshot_observation r sn)) = r_legs r"
  by (simp_all add: snapshot_observation_def apply_observation_record Let_def frame_simps observe_fill_mark)

lemma raise_mark_drift:
  assumes "\<not> same_amount (amt.raise_mark cur new) new"
  shows "\<exists>v w. amt.reading cur = Some v \<and> amt.reading new = Some w \<and> w < v"
proof -
  obtain v w where vw: "amt.reading (amt.raise_mark cur new) = Some v" "amt.reading new = Some w" "v \<noteq> w"
    using assms by (auto simp: same_amount_def)
  have cur: "amt.raise_mark cur new = cur" using vw amt.raise_mark_cases [of cur new] by auto
  show ?thesis
  proof (cases "new = []")
    case True
    have "amt.reading [] = Some 0"
    proof -
      have "parse_decimal ''0'' = Inr (mk_decimal 0 0)" by code_simp
      then show ?thesis by (simp add: amt.reading_def amt.or_zero_def dval_def mk_decimal_def)
    qed
    with True vw cur amt.reading_nonneg [of cur v] show ?thesis by auto
  next
    case False
    from amt.raise_mark_max [of cur v new w] vw cur False have "max v w = v" by simp
    with vw cur show ?thesis by auto
  qed
qed

section \<open>Properties\<close>

text \<open>In every state of every run the leg chain of every order is intact, so the audit's
  \<open>version_gap\<close> check can never fire: the only local alert is a \<open>fill_state_mismatch\<close>, and it is
  raised exactly when fill and quantity are readable, the quantity is positive, and \<open>Filled\<close>
  does not coincide with the fill having reached the quantity.\<close>

lemma local_audit_in_runs:
  assumes "startable s" "steps (start_system s) S" "o_orders (sys_oms S) i = Some r"
  shows "(\<forall>a \<in> set (audit_record_local r []). al_check a = ''fill_state_mismatch'')
    \<and> (audit_record_local r [] = [] \<longleftrightarrow> fill_agrees r)"
proof -
  have "registry_ok (sys_oms S)"
    using steps_advances [OF assms(2)] assms(1) by (simp add: startable_def start_system_def advances_def)
  then have "chain_ok r" using assms(3) by (auto simp: registry_ok_def intro: legs_ok_chain)
  then have "audit_record_local r [] = fill_state_alerts r" by (rule local_alerts(2))
  moreover have "\<forall>a \<in> set (fill_state_alerts r). al_check a = ''fill_state_mismatch''"
    by (auto simp: fill_state_alerts_def Let_def split: sum.splits if_splits)
  ultimately show ?thesis by (simp add: fill_state_alerts_Nil)
qed

text \<open>C24. A consistency pass changes nothing but the list of discovered legs, which it
  empties; it counts every registered order; it asks the venue once per working order that
  has a connector and no open place or amend; and it raises no alert exactly when no leg was
  discovered, every record is locally consistent, and every such working order is confirmed
  by its venue (found, same state, same amounts, a known exchange id).\<close>

theorem audit_clean_iff:
  assumes "distinct ids" "set ids = dom (o_orders s)" "audit venue_get ids s = (report, s')"
  shows "s' = s\<lparr>o_notes := []\<rparr> \<and> ar_orders_checked report = length ids
    \<and> ar_venue_lookups report = length (filter (\<lambda>item. connector_for s (wi_venue item) \<noteq> None) (worklist ids s))
    \<and> (ar_alerts report = [] \<longleftrightarrow>
         o_notes s = []
         \<and> (\<forall>i r. o_orders s i = Some r \<longrightarrow> chain_ok r \<and> fill_agrees r
              \<and> (\<not> is_terminal (r_state r) \<longrightarrow> o_raced s i = None \<longrightarrow> confirmed venue_get s i r)))"
proof -
  have s': "s' = s\<lparr>o_notes := []\<rparr>"
    and rep: "report = fold (audit_item venue_get (s\<lparr>o_notes := []\<rparr>)) (worklist ids s) (snd (fst (audit_begin ids s)))"
    using assms(3) by (auto simp: audit_def audit_begin_def)
  have c: "connector_for (s\<lparr>o_notes := []\<rparr>) = connector_for s" by (simp add: fun_eq_iff connector_for_def)
  have len: "card (dom (o_orders s)) = length ids" using assms(1,2) distinct_card by metis
  have dom: "i \<in> set ids \<longleftrightarrow> (\<exists>r. o_orders s i = Some r)" for i using assms(2) by auto
  have "ar_alerts report = [] \<longleftrightarrow> o_notes s = []
      \<and> (\<forall>i \<in> set ids. \<forall>r. o_orders s i = Some r \<longrightarrow> chain_ok r \<and> fill_agrees r)
      \<and> (\<forall>i \<in> set ids. \<forall>r. o_orders s i = Some r \<longrightarrow> \<not> is_terminal (r_state r) \<longrightarrow> o_raced s i = None
            \<longrightarrow> confirmed venue_get s i r)"
    unfolding rep audit_items_alerts by (auto simp: audit_begin_def foldl_alerts_Nil)
  then show ?thesis
    using s' by (auto simp: rep audit_items_counts audit_begin_def len c dom)
qed

text \<open>C23. Reconciliation removes the drift the audit reports. Once a lookup's snapshot has been
  applied, comparing the stored record with the same snapshot raises no
  \<open>unknown_leg_report\<close>; a state mismatch remains only if the lifecycle forbids the venue's
  state, a fill mismatch only if the local fill was ahead of the venue's, a price mismatch
  only if the snapshot's price is empty, and a quantity mismatch only if its quantity is.\<close>

theorem reconcile_repairs_drift:
  assumes "registry_ok s" "o_orders s i = Some r"
  shows "\<exists>r'. o_orders (snd (resolve_item i (Inr (Some sn)) (report, s))) i = Some r'
    \<and> (\<forall>a \<in> set (audit_record_vs_snapshot r' sn []).
         al_check a = ''state_mismatch'' \<and> \<not> can_transition (r_state r) (sn_state sn)
       \<or> al_check a = ''fill_mismatch'' \<and> (\<exists>v w. amt.reading (r_filled_quantity r) = Some v
            \<and> amt.reading (sn_filled_quantity sn) = Some w \<and> w < v)
       \<or> a = price_alert r' sn \<and> sn_price sn = [] \<or> a = quantity_alert r' sn \<and> sn_quantity sn = [])"
proof -
  let ?x = "sn_exchange_order_id sn"
  let ?r' = "snd (snapshot_observation (learned r ?x) sn)"
  have ok: "legs_ok r" using assms by (auto simp: registry_ok_def)
  have "known_leg ?r' ?x"
    using learned_known [OF ok, of ?x] by (simp add: known_leg_def snapshot_observation_values)
  then have leg: "\<not> (?x \<noteq> [] \<and> leg_index_of ?r' ?x = None)" by (auto simp: known_leg_def leg_index_None)
  have st: "sn_state sn \<noteq> r_state ?r' \<Longrightarrow> \<not> can_transition (r_state r) (sn_state sn)"
    by (auto simp: snapshot_observation_values ol.move_def frame_simps)
  have fill: "drifted (r_filled_quantity ?r') (sn_filled_quantity sn) \<Longrightarrow>
      \<exists>v w. amt.reading (r_filled_quantity r) = Some v \<and> amt.reading (sn_filled_quantity sn) = Some w \<and> w < v"
    using raise_mark_drift [of "r_filled_quantity r" "sn_filled_quantity sn"]
    by (simp add: drifted_iff snapshot_observation_values frame_simps)
  have vals: "drifted (r_price ?r') (sn_price sn) \<Longrightarrow> sn_price sn = []"
    "drifted (r_quantity ?r') (sn_quantity sn) \<Longrightarrow> sn_quantity sn = []"
    by (auto simp: drifted_iff snapshot_observation_values same_amount_def split: if_splits)
  have "a \<in> set (audit_record_vs_snapshot ?r' sn []) \<Longrightarrow>
         al_check a = ''state_mismatch'' \<and> \<not> can_transition (r_state r) (sn_state sn)
       \<or> al_check a = ''fill_mismatch'' \<and> (\<exists>v w. amt.reading (r_filled_quantity r) = Some v
            \<and> amt.reading (sn_filled_quantity sn) = Some w \<and> w < v)
       \<or> a = price_alert ?r' sn \<and> sn_price sn = [] \<or> a = quantity_alert ?r' sn \<and> sn_quantity sn = []" for a
    using leg st fill vals
    by (simp add: audit_record_vs_snapshot_def price_alert_def quantity_alert_def split: if_splits) (elim disjE; simp)+
  then show ?thesis using resolve_item_learns [OF ok assms(2), of sn report] by blast
qed

definition demo_resting :: order_record where
  "demo_resting = default_record\<lparr>r_client_order_id := ''c1'', r_symbol := ''BTC-USDT'', r_venue := ''okx'',
     r_exchange_order_id := ''x1'', r_legs := [\<lparr>leg_version = 1, leg_exchange_order_id = ''x1''\<rparr>],
     r_state := Live, r_price := ''100'', r_quantity := ''2''\<rparr>"

definition demo_snapshot :: order_snapshot where
  "demo_snapshot = \<lparr>sn_client_order_id = ''c1'', sn_exchange_order_id = ''x2'', sn_instrument_id = ''BTC-USDT'',
     sn_state = PartiallyFilled, sn_side = Buy, sn_type = Limit, sn_price = ''101'', sn_quantity = ''2'',
     sn_filled_quantity = ''1'', sn_average_fill_price = ''99''\<rparr>"

theorem audit_clean_iff_witness:
  "ar_alerts (fst (audit (\<lambda>_ _. Inr None) [''c1''] (demo_oms\<lparr>o_orders := [''c1'' \<mapsto> demo_resting]\<rparr>))) \<noteq> []
   \<and> ar_venue_lookups (fst (audit (\<lambda>_ _. Inr None) [''c1''] (demo_oms\<lparr>o_orders := [''c1'' \<mapsto> demo_resting]\<rparr>))) = 1"
proof -
  let ?s = "demo_oms\<lparr>o_orders := [''c1'' \<mapsto> demo_resting]\<rparr>"
  obtain rep s' where a: "audit (\<lambda>_ _. Inr None) [''c1''] ?s = (rep, s')" by fastforce
  have orders: "o_orders ?s ''c1'' = Some demo_resting" "\<not> is_terminal (r_state demo_resting)"
    "o_raced ?s ''c1'' = None" "\<not> confirmed (\<lambda>_ _. Inr None) ?s ''c1'' demo_resting" "set [''c1''] = dom (o_orders ?s)"
    by (simp_all add: confirmed_def demo_resting_def demo_oms_def new_oms_def)
  have "length (filter (\<lambda>item. connector_for ?s (wi_venue item) \<noteq> None) (worklist [''c1''] ?s)) = 1"
    by (simp add: worklist_def work_item_for_def demo_resting_def demo_oms_def new_oms_def connector_for_def
        List.map_filter_simps)
  moreover have "ar_alerts rep \<noteq> []" "ar_venue_lookups rep =
      length (filter (\<lambda>item. connector_for ?s (wi_venue item) \<noteq> None) (worklist [''c1''] ?s))"
    using audit_clean_iff [OF _ orders(5) a] orders(1-4) by auto
  ultimately show ?thesis by (simp add: a)
qed

theorem reconcile_repairs_drift_witness:
  "\<exists>r'. o_orders (snd (resolve_item ''c1'' (Inr (Some demo_snapshot))
          (empty_report, demo_oms\<lparr>o_orders := [''c1'' \<mapsto> demo_resting]\<rparr>))) ''c1'' = Some r'
     \<and> audit_record_vs_snapshot r' demo_snapshot [] = []"
proof -
  let ?s = "demo_oms\<lparr>o_orders := [''c1'' \<mapsto> demo_resting]\<rparr>"
  have ok: "registry_ok ?s" by (simp add: registry_ok_def demo_resting_def legs_ok_def)
  have "parse_decimal ''0'' = Inr (mk_decimal 0 0)" "parse_decimal ''1'' = Inr (mk_decimal 1 0)" by code_simp+
  then have rd: "amt.reading ''0'' = Some 0" "amt.reading ''1'' = Some 1"
    by (simp_all add: amt.reading_def amt.or_zero_def dval_def mk_decimal_def)
  obtain r' where r': "o_orders (snd (resolve_item ''c1'' (Inr (Some demo_snapshot)) (empty_report, ?s))) ''c1'' = Some r'"
    "\<forall>a \<in> set (audit_record_vs_snapshot r' demo_snapshot []).
         al_check a = ''state_mismatch'' \<and> \<not> can_transition (r_state demo_resting) (sn_state demo_snapshot)
       \<or> al_check a = ''fill_mismatch'' \<and> (\<exists>v w. amt.reading (r_filled_quantity demo_resting) = Some v
            \<and> amt.reading (sn_filled_quantity demo_snapshot) = Some w \<and> w < v)
       \<or> a = price_alert r' demo_snapshot \<and> sn_price demo_snapshot = [] \<or> a = quantity_alert r' demo_snapshot \<and> sn_quantity demo_snapshot = []"
    using reconcile_repairs_drift [OF ok, of "''c1''" demo_resting demo_snapshot empty_report] by auto
  then have "set (audit_record_vs_snapshot r' demo_snapshot []) = {}"
    using rd by (fastforce simp: demo_resting_def demo_snapshot_def default_record_def)
  with r'(1) show ?thesis by simp
qed

end
