(* ===== verification/Rest_Support.thy ===== *)
theory Rest_Support
  imports Decimal Json OMS_State
begin

text \<open>
  The helpers the routes share, \<^verbatim>\<open>src/rest/route_support.hpp\<close>. Two pieces of third-party code are
  arguments: the JSON parser (\<open>None\<close> for a discarded value) and \<open>dump\<close>, which throws on a
  string that is not UTF-8 (\<open>None\<close>). A handler that throws has no response, \<open>None\<close>.
\<close>

section \<open>Definitions\<close>

record http_response =
  rs_status :: int
  rs_content_type :: string
  rs_body :: string

type_synonym dumper = "json \<Rightarrow> string option"

definition json_response :: "dumper \<Rightarrow> int \<Rightarrow> json \<Rightarrow> http_response option" where
  "json_response dump status body =
     (case dump body of
        None \<Rightarrow> None
      | Some text \<Rightarrow> Some \<lparr>rs_status = status, rs_content_type = ''application/json'', rs_body = text\<rparr>)"

definition error_body :: "string \<Rightarrow> string \<Rightarrow> string \<Rightarrow> json" where
  "error_body cd reason i = jobject [(''error'', jobject
     [(''code'', JStr cd), (''reason'', JStr reason), (''clientOrderId'', JStr i)])]"

definition error_response :: "dumper \<Rightarrow> int \<Rightarrow> string \<Rightarrow> string \<Rightarrow> string \<Rightarrow> http_response option" where
  "error_response dump status cd reason i = json_response dump status (error_body cd reason i)"

definition internal_error_response :: "dumper \<Rightarrow> string \<Rightarrow> http_response option" where
  "internal_error_response dump i = error_response dump 500 ''internal'' ''unexpected server error'' i"

text \<open>The scan of \<open>is_decimal\<close>. A byte above 127 is a negative \<open>char\<close> and fails \<open>c < '0'\<close>.\<close>

fun decimal_scan :: "bool \<Rightarrow> string \<Rightarrow> bool" where
  "decimal_scan dot_seen [] = True"
| "decimal_scan dot_seen (c # cs) =
     (if c = CHR ''.'' then (if dot_seen then False else decimal_scan True cs)
      else if \<not> is_digit_char c then False
      else decimal_scan dot_seen cs)"

definition is_decimal :: "string \<Rightarrow> bool" where
  "is_decimal t =
     (if t = [] \<or> hd t = CHR ''.'' then False
      else if \<not> decimal_scan False t then False
      else last t \<noteq> CHR ''.'')"

definition unknown_fields :: "json \<Rightarrow> string list \<Rightarrow> string" where
  "unknown_fields body allowed = join_names (filter (\<lambda>k. k \<notin> set allowed) (map fst (members body))) []"

definition rest_string_field :: "json \<Rightarrow> string \<Rightarrow> string" where
  "rest_string_field body nm = (case jfind body nm of Some (JStr s) \<Rightarrow> s | _ \<Rightarrow> [])"

definition optional_string_field :: "json \<Rightarrow> string \<Rightarrow> string option" where
  "optional_string_field body nm = (case jfind body nm of Some (JStr s) \<Rightarrow> Some s | _ \<Rightarrow> None)"

text \<open>\<open>Inl\<close> is the 400 response for a body that is not a JSON object.\<close>

definition parse_json_body :: "(string \<Rightarrow> json option) \<Rightarrow> dumper \<Rightarrow> string \<Rightarrow> http_response option + json" where
  "parse_json_body parse dump text =
     (case parse text of
        None \<Rightarrow> Inl (error_response dump 400 ''invalid_request'' ''request body must be a JSON object'' [])
      | Some body \<Rightarrow>
          if \<not> is_object body
          then Inl (error_response dump 400 ''invalid_request'' ''request body must be a JSON object'' [])
          else Inr body)"

definition has_prefix :: "string \<Rightarrow> string \<Rightarrow> bool" where
  "has_prefix prefix s \<longleftrightarrow> take (length prefix) s = prefix"

text \<open>Status, code and reason of an error.\<close>

definition mapped_error :: "error \<Rightarrow> int \<times> string \<times> string" where
  "mapped_error e =
     (if code e = ''invalid_request'' then (400, ''invalid_request'', message e)
      else if code e = ''not_found'' \<or> code e = ''venue:51016'' \<or> code e = ''venue:-2013'' \<or> code e = ''venue:51603''
      then (404, ''not_found'', message e)
      else if code e = ''order_terminal'' then (409, ''order_terminal'', message e)
      else if code e = ''order_pending'' then (409, ''order_pending'', message e)
      else if has_prefix ''risk_'' (code e) then (400, code e, message e)
      else if code e = ''venue_absent'' then (409, ''venue_rejected'', message e)
      else if code e = ''transport'' then (502, ''venue_unavailable'', ''cannot reach the venue'')
      else if has_prefix ''venue:'' (code e) then (409, ''venue_rejected'', message e)
      else if code e = ''persistence'' then (500, ''persistence'', message e)
      else (500, ''internal'', message e))"

definition map_error :: "dumper \<Rightarrow> error \<Rightarrow> string \<Rightarrow> http_response option" where
  "map_error dump e i = (case mapped_error e of (status, cd, reason) \<Rightarrow> error_response dump status cd reason i)"

text \<open>\<open>try { ... } catch (...)\<close> around a handler, and the application's exception handler behind it.\<close>

definition guarded :: "dumper \<Rightarrow> string \<Rightarrow> http_response option \<Rightarrow> http_response option" where
  "guarded dump i response = (case response of Some r \<Rightarrow> Some r | None \<Rightarrow> internal_error_response dump i)"

definition exception_handler :: "dumper \<Rightarrow> http_response option \<Rightarrow> http_response option" where
  "exception_handler dump response = (case response of Some r \<Rightarrow> Some r | None \<Rightarrow> internal_error_response dump [])"

section \<open>Decimals\<close>

lemma decimal_scan_True: "decimal_scan True t \<longleftrightarrow> list_all is_digit_char t"
  by (induction t) auto

lemma decimal_scan_False_point:
  "list_all is_digit_char ip \<Longrightarrow> decimal_scan False (ip @ CHR ''.'' # fp) \<longleftrightarrow> list_all is_digit_char fp"
  by (induction ip) (auto simp: decimal_scan_True)

lemma decimal_scan_False:
  "decimal_scan False t \<longleftrightarrow> list_all is_digit_char t
     \<or> (\<exists>ip fp. t = ip @ CHR ''.'' # fp \<and> list_all is_digit_char ip \<and> list_all is_digit_char fp)"
    (is "_ \<longleftrightarrow> ?lit t")
proof
  show "?lit t" if "decimal_scan False t"
    using that
  proof (induction t)
    case (Cons c cs)
    show ?case
    proof (cases "c = CHR ''.''")
      case True
      then have "list_all is_digit_char cs" using Cons.prems by (simp add: decimal_scan_True)
      with True have "c # cs = [] @ CHR ''.'' # cs" "list_all is_digit_char []" "list_all is_digit_char cs" by simp_all
      then show ?thesis by blast
    next
      case False
      then have c: "is_digit_char c" and "?lit cs" using Cons by (simp_all split: if_splits)
      from this(2) show ?thesis
      proof (elim disjE exE conjE)
        fix ip fp
        assume "cs = ip @ CHR ''.'' # fp" "list_all is_digit_char ip" "list_all is_digit_char fp"
        with c have "c # cs = (c # ip) @ CHR ''.'' # fp" "list_all is_digit_char (c # ip)" "list_all is_digit_char fp" by simp_all
        then show ?thesis by blast
      qed (use c in simp)
    qed
  qed simp
  have "decimal_scan False t" if "list_all is_digit_char t" using that by (induction t) auto
  then show "decimal_scan False t" if "?lit t" using that by (auto simp: decimal_scan_False_point)
qed

lemma is_decimal_literal:
  "is_decimal t \<longleftrightarrow> (\<exists>ip fp. t = dec_literal ip fp \<and> ip \<noteq> [] \<and> list_all is_digit_char ip \<and> list_all is_digit_char fp)"
proof
  assume "is_decimal t"
  then have t: "t \<noteq> []" "hd t \<noteq> CHR ''.''" "decimal_scan False t" "last t \<noteq> CHR ''.''"
    by (auto simp: is_decimal_def split: if_splits)
  from t(3) show "\<exists>ip fp. t = dec_literal ip fp \<and> ip \<noteq> [] \<and> list_all is_digit_char ip \<and> list_all is_digit_char fp"
    unfolding decimal_scan_False
  proof (elim disjE exE conjE)
    assume "list_all is_digit_char t"
    with t(1) show ?thesis by (intro exI [of _ t] exI [of _ "[]"]) (simp add: dec_literal_def)
  next
    fix ip fp
    assume "t = ip @ CHR ''.'' # fp" "list_all is_digit_char ip" "list_all is_digit_char fp"
    with t show ?thesis
      by (intro exI [of _ ip] exI [of _ fp]) (auto simp: dec_literal_def hd_append split: if_splits)
  qed
next
  assume "\<exists>ip fp. t = dec_literal ip fp \<and> ip \<noteq> [] \<and> list_all is_digit_char ip \<and> list_all is_digit_char fp"
  then obtain ip fp where l: "t = dec_literal ip fp" "ip \<noteq> []" "list_all is_digit_char ip" "list_all is_digit_char fp" by blast
  then have "decimal_scan False t" by (auto simp: decimal_scan_False dec_literal_def)
  moreover have "is_digit_char (hd t)" using l by (cases ip) (auto simp: dec_literal_def)
  moreover have "is_digit_char (last t)" using l by (auto simp: dec_literal_def list_all_iff)
  ultimately show "is_decimal t" using l(1,2) by (auto simp: is_decimal_def dec_literal_def)
qed

lemma literal_parts:
  assumes "list_all is_digit_char ip" "list_all is_digit_char fp"
  shows "tl (dropWhile (\<lambda>c. c \<noteq> CHR ''.'') (dec_literal ip fp)) = fp" "filter is_digit_char (dec_literal ip fp) = ip @ fp"
proof -
  have ip: "c \<noteq> CHR ''.''" if "c \<in> set ip" for c using that assms(1) digit_not_punct(1) unfolding list_all_iff by blast
  have "dropWhile (\<lambda>c. c \<noteq> CHR ''.'') (ip @ ys) = dropWhile (\<lambda>c. c \<noteq> CHR ''.'') ys" for ys
    by (rule dropWhile_append2) (erule ip)
  then show "tl (dropWhile (\<lambda>c. c \<noteq> CHR ''.'') (dec_literal ip fp)) = fp"
    by (cases "fp = []") (simp_all add: dec_literal_def dropWhile_eq_Nil_conv [THEN iffD2] ip)
  have "\<not> is_digit_char (CHR ''.'')" by (simp add: is_digit_char_def ascii_def)
  then show "filter is_digit_char (dec_literal ip fp) = ip @ fp"
    using assms by (simp add: dec_literal_def list_all_iff)
qed

section \<open>Properties\<close>

text \<open>C37. The two decimal checks of the gateway agree. The routes' \<open>is_decimal\<close> accepts exactly the
  texts \<open>digits[.digits]\<close>, and the core's \<open>parse_decimal\<close> accepts exactly those of them with at
  most eight fractional digits and a magnitude, point dropped, of at most \<open>2^63 - 1\<close>: a text the
  routes refuse would never have been parsed.\<close>

theorem decimal_checks_agree:
  "(is_decimal t \<longleftrightarrow> (\<exists>ip fp. t = ip @ (if fp = [] then [] else CHR ''.'' # fp) \<and> ip \<noteq> []
       \<and> list_all is_digit_char ip \<and> list_all is_digit_char fp))
   \<and> (is_ok (parse_decimal t) \<longleftrightarrow> is_decimal t \<and> length (tl (dropWhile (\<lambda>c. c \<noteq> CHR ''.'') t)) \<le> 8
       \<and> digits_val (filter is_digit_char t) \<le> kLlMax)"
proof -
  have lit: "is_decimal t \<longleftrightarrow> (\<exists>ip fp. t = ip @ (if fp = [] then [] else CHR ''.'' # fp) \<and> ip \<noteq> []
       \<and> list_all is_digit_char ip \<and> list_all is_digit_char fp)"
    using is_decimal_literal [of t] by (simp add: dec_literal_def)
  have "is_ok (parse_decimal t) \<longleftrightarrow> (\<exists>ip fp. t = dec_literal ip fp \<and> literal_ok ip fp)"
  proof
    assume "is_ok (parse_decimal t)"
    then obtain d where "parse_signed_decimal t = Inr d" "\<not> (t \<noteq> [] \<and> hd t = CHR ''-'')"
      by (auto simp: is_ok_iff parse_decimal_def split: if_splits)
    from parse_literal_sound [OF this(1)] this(2) show "\<exists>ip fp. t = dec_literal ip fp \<and> literal_ok ip fp"
      by (auto split: if_splits)
  next
    assume "\<exists>ip fp. t = dec_literal ip fp \<and> literal_ok ip fp"
    then obtain ip fp where l: "t = dec_literal ip fp" "literal_ok ip fp" by blast
    then have "hd t \<noteq> CHR ''-''" using hd_dec_literal digit_not_punct(2) by metis
    with parse_literal_complete [OF l(2), of False] l(1) show "is_ok (parse_decimal t)"
      by (simp add: parse_decimal_def)
  qed
  also have "\<dots> \<longleftrightarrow> is_decimal t \<and> length (tl (dropWhile (\<lambda>c. c \<noteq> CHR ''.'') t)) \<le> 8 \<and> digits_val (filter is_digit_char t) \<le> kLlMax"
    unfolding is_decimal_literal literal_ok_def kMaxDecimalScale_def using literal_parts by fastforce
  finally show ?thesis using lit by blast
qed

end
