(* ===== verification/OMS_Outcomes.thy ===== *)
theory OMS_Outcomes
  imports OMS_System
begin

text \<open>
  What the handlers of the order management system answer, branch by branch: idempotent
  placing, the outcomes of a venue call, the guards of cancel and amend, the treatment of
  reports that race a call, and the verdicts of reconciliation.
\<close>

section \<open>Lemmas\<close>

lemma place_known:
  assumes "o_orders s (rq_client_order_id req) = Some r"
  shows "place_begin ids req venue hit s =
    (Return (case r_rejection r of Some e \<Rightarrow> Inl e | None \<Rightarrow> Inr \<lparr>po_record = r, po_replayed = True\<rparr>),
     snd (latency_now s))"
  using assms by (simp add: place_begin_def place_stage_def case_prod_beta Let_def frame_simps split: option.splits)

text \<open>A log whose writes succeed.\<close>

definition log_ready :: "oms \<Rightarrow> bool" where
  "log_ready s \<longleftrightarrow> (case o_log s of None \<Rightarrow> True | Some l \<Rightarrow> sink_open l \<and> (\<forall>n. sink_write_ok l n))"

lemma log_ready_append:
  assumes "log_ready s"
  shows "fst (append_or_error ev s) = None" "log_ready (snd (append_or_error ev s))"
    "append_event ev s = snd (append_or_error ev s)"
proof -
  show ok: "fst (append_or_error ev s) = None" and "log_ready (snd (append_or_error ev s))"
    using assms by (auto simp: log_ready_def append_or_error_def log_append_def Let_def split: option.splits)
  obtain s' where "append_or_error ev s = (None, s')" using ok by (metis prod.collapse)
  then show "append_event ev s = snd (append_or_error ev s)" by (simp add: append_event_def)
qed

lemma log_ready_log: "log_ready s \<Longrightarrow> o_log s' = o_log s \<Longrightarrow> log_ready s'"
  by (simp add: log_ready_def)

lemma place_stage_send:
  assumes "place_stage ids req venue s = (Send c w, s')"
  shows "c = venue" "w = req" "o_orders s (rq_client_order_id req) = None" "venue \<in> set (o_connectors s)"
    "place_risk ids s req = Inr None" "fst (append_or_error (place_submitted_event (place_candidate req venue)) s) = None"
  using assms
  by (auto simp: place_stage_def Let_def connector_for_def split: option.splits sum.splits prod.splits if_splits)

lemma buffer_reports:
  assumes "o_raced s i = Some buf" "\<forall>rep \<in> set reps. er_client_order_id rep = i"
  shows "o_raced (fold on_execution_report reps s) i = Some (buf @ reps)
    \<and> o_orders (fold on_execution_report reps s) = o_orders s \<and> o_log (fold on_execution_report reps s) = o_log s"
  using assms
proof (induction reps arbitrary: s buf)
  case (Cons rep reps)
  let ?s = "on_execution_report rep s"
  have "o_log (snd (latency_now s)) = o_log s"
    by (simp add: latency_now_def lat_now_def split: option.splits)
  then have "o_raced ?s i = Some (buf @ [rep])" "o_orders ?s = o_orders s" "o_log ?s = o_log s"
    using Cons.prems by (simp_all add: on_execution_report_def case_prod_beta frame_simps)
  with Cons.IH [of ?s "buf @ [rep]"] Cons.prems(2) show ?case by simp
qed simp

text \<open>Applying reports logs \<open>state\<close> events of the record only.\<close>

lemma append_event_logs: "\<exists>evs. log_events (append_event ev s) = log_events s @ evs \<and> set evs \<subseteq> {ev}"
proof -
  obtain e s' where es: "append_or_error ev s = (e, s')" by fastforce
  then have "log_events (append_event ev s) = log_events s'"
    by (simp add: append_event_def count_write_failure_def log_events_def split: option.splits)
  with es append_or_error_events [of ev s] show ?thesis by auto
qed

lemma apply_report_logs:
  "\<exists>evs. log_events (fst (apply_report r rep lc s)) = log_events s @ evs
     \<and> set evs \<subseteq> {state_event (snd (apply_report r rep lc s))}"
proof -
  obtain b r2 where r2: "reported r rep lc = (b, r2)" by fastforce
  have "apply_report r rep lc s =
      (if b then (append_event (state_event r2)
              (s\<lparr>o_stats := (o_stats s)\<lparr>reports_applied := reports_applied (o_stats s) + 1\<rparr>\<rparr>), r2)
       else (s\<lparr>o_stats := (o_stats s)\<lparr>reports_stale := reports_stale (o_stats s) + 1\<rparr>\<rparr>, r2))"
    using r2 by (simp add: apply_report_def reported_def backfilled_def Let_def split: bool.splits)
  then show ?thesis
    using append_event_logs [of "state_event r2"
        "s\<lparr>o_stats := (o_stats s)\<lparr>reports_applied := reports_applied (o_stats s) + 1\<rparr>\<rparr>"] by simp
qed

lemma apply_arbitrated_logs:
  "\<exists>evs. log_events (fst (apply_arbitrated_report rep (s, r))) = log_events s @ evs
     \<and> (\<forall>ev \<in> set evs. \<exists>r'. ev = state_event r' \<and> r_client_order_id r' = r_client_order_id r)"
proof -
  have rep: "\<exists>evs. log_events (fst (apply_report r1 rep lc s1)) = log_events s1 @ evs
     \<and> (\<forall>ev \<in> set evs. \<exists>r'. ev = state_event r' \<and> r_client_order_id r' = r_client_order_id r1)" for r1 lc s1
    using apply_report_logs [of r1 rep lc s1] reporting.id_kept [where rep = rep and lc = lc and s = s1 and r = r1] by blast
  obtain s1 where a: "adopt_unknown_leg r (er_exchange_order_id rep) s = (s1, note_exchange_id r (er_exchange_order_id rep))"
    "log_events s1 = log_events s"
    by (simp add: adopt_unknown_leg_def note_discovered_leg_def Let_def)
  show ?thesis
    using rep [of r _ s] rep [of "note_exchange_id r (er_exchange_order_id rep)" True s1] a
    by (simp add: apply_arbitrated_report_def split: option.splits)
qed

lemma apply_raced_logs:
  "\<exists>evs. log_events (fst (apply_raced reps (s, r))) = log_events s @ evs
     \<and> (\<forall>ev \<in> set evs. \<exists>r'. ev = state_event r' \<and> r_client_order_id r' = r_client_order_id r)"
proof (induction reps arbitrary: s r)
  case (Cons rep reps)
  obtain s1 r1 where 1: "apply_arbitrated_report rep (s, r) = (s1, r1)" by fastforce
  then have "r_client_order_id r1 = r_client_order_id r" using arbitrating.id_kept [where rep = rep and s = s and r = r] by simp
  moreover obtain evs1 where "log_events s1 = log_events s @ evs1"
    "\<forall>ev \<in> set evs1. \<exists>r'. ev = state_event r' \<and> r_client_order_id r' = r_client_order_id r"
    using apply_arbitrated_logs [of rep s r] 1 by auto
  moreover obtain evs2 where "log_events (fst (apply_raced reps (s1, r1))) = log_events s1 @ evs2"
    "\<forall>ev \<in> set evs2. \<exists>r'. ev = state_event r' \<and> r_client_order_id r' = r_client_order_id r1"
    using Cons.IH by blast
  ultimately show ?case by (intro exI [of _ "evs1 @ evs2"]) (auto simp: apply_raced_def 1)
qed (simp add: apply_raced_def)

text \<open>An acknowledged order for the concrete instances below.\<close>

definition demo_live :: order_record where
  "demo_live = (place_candidate demo_request ''okx'')\<lparr>r_state := Live, r_exchange_order_id := ''x1'',
     r_legs := [\<lparr>leg_version = 1, leg_exchange_order_id = ''x1''\<rparr>]\<rparr>"

text \<open>The outcome of a venue place on a staged record without raced reports.\<close>

lemma place_outcome_law:
  assumes "o_orders s (rq_client_order_id req) = Some (place_candidate req v)"
    and "o_raced s (rq_client_order_id req) = Some []" "log_ready s"
    and "place_finish req placement s = (res, s')"
  shows "case placement of
      Inr p \<Rightarrow> (pl_exchange_order_id p \<noteq> [] \<longrightarrow>
        res = Inr \<lparr>po_record = (place_candidate req v)\<lparr>r_exchange_order_id := pl_exchange_order_id p,
            r_state := Live, r_legs := [\<lparr>leg_version = 1, leg_exchange_order_id = pl_exchange_order_id p\<rparr>]\<rparr>,
            po_replayed = False\<rparr>
        \<and> o_orders s' (rq_client_order_id req) = Some (po_record (projr res)))
    | Inl e \<Rightarrow> res = Inl e \<and> o_orders s' (rq_client_order_id req) =
        Some (if code e = ''transport'' then place_candidate req v
              else (place_candidate req v)\<lparr>r_state := Rejected, r_rejection := Some e\<rparr>)"
proof -
  let ?i = "rq_client_order_id req" and ?s1 = "s\<lparr>o_raced := (o_raced s)(rq_client_order_id req := None)\<rparr>"
  have dr: "drain_raced_reports ?i s = ([], ?s1)" using assms(2) by (simp add: drain_raced_reports_def)
  have ready: "log_ready ?s1" using assms(3) by (rule log_ready_log) simp
  then have ap: "append_or_error ev ?s1 = (None, snd (append_or_error ev ?s1))" for ev
    using log_ready_append(1) by (metis prod.collapse)
  show ?thesis
  proof (cases placement)
    case (Inl e)
    then show ?thesis
      using assms(1,4) ap
      by (auto simp: place_finish_def dr Let_def case_prod_beta apply_transition_def apply_raced_def
          place_candidate_def log_ready_append(1) [OF ready])
  next
    case (Inr p)
    then show ?thesis
      using assms(1,4) ap
      by (auto simp: place_finish_def dr Let_def case_prod_beta apply_transition_def apply_raced_def
          place_candidate_def note_exchange_id_def push_leg_def log_ready_append(1) [OF ready] split: option.splits)
  qed
qed

text \<open>An acknowledgement without a venue id, and the buffer.\<close>

lemma place_finish_ready:
  assumes "o_raced s (rq_client_order_id req) = Some []" "log_ready s"
  obtains s1 where "drain_raced_reports (rq_client_order_id req) s = ([], s1)" "log_ready s1" "o_orders s1 = o_orders s"
    "o_raced s1 (rq_client_order_id req) = None" "\<And>ev. fst (append_or_error ev s1) = None"
proof
  let ?s1 = "s\<lparr>o_raced := (o_raced s)(rq_client_order_id req := None)\<rparr>"
  show "drain_raced_reports (rq_client_order_id req) s = ([], ?s1)" using assms(1) by (simp add: drain_raced_reports_def)
  show ready: "log_ready ?s1" using assms(2) by (rule log_ready_log) simp
  show "fst (append_or_error ev ?s1) = None" for ev using log_ready_append(1) [OF ready] .
qed simp_all

lemma place_finish_closes:
  assumes "o_orders s (rq_client_order_id req) = Some (place_candidate req v)"
    and "o_raced s (rq_client_order_id req) = Some []" "log_ready s"
    and "place_finish req placement s = (res, s')"
  shows "o_raced s' (rq_client_order_id req) = None"
proof -
  obtain s1 where s1: "drain_raced_reports (rq_client_order_id req) s = ([], s1)" "o_orders s1 = o_orders s"
      "o_raced s1 (rq_client_order_id req) = None"
    using place_finish_ready [OF assms(2,3)] by metis
  have "o_raced (snd (append_or_error ev s1)) = o_raced s1" for ev
    using append_or_error_sel(2) by (metis prod.collapse)
  then show ?thesis using assms(1,4) s1
    by (cases placement)
      (auto simp: place_finish_def Let_def case_prod_beta apply_transition_def place_candidate_def apply_raced_def store_record_def frame_simps
        split: if_splits option.splits)
qed

lemma place_ack_without_id:
  assumes "o_orders s (rq_client_order_id req) = Some (place_candidate req v)"
    and "o_raced s (rq_client_order_id req) = Some []" "log_ready s" "pl_exchange_order_id p = []"
    and "place_finish req (Inr p) s = (res, s')"
  shows "res = Inr \<lparr>po_record = (place_candidate req v)\<lparr>r_state := Live\<rparr>, po_replayed = False\<rparr>
    \<and> o_orders s' (rq_client_order_id req) = Some ((place_candidate req v)\<lparr>r_state := Live\<rparr>)"
proof -
  obtain s1 where s1: "drain_raced_reports (rq_client_order_id req) s = ([], s1)" "o_orders s1 = o_orders s"
      "\<And>ev. fst (append_or_error ev s1) = None"
    using place_finish_ready [OF assms(2,3)] by metis
  then show ?thesis using assms(1,4,5)
    by (auto simp: place_finish_def Let_def case_prod_beta apply_transition_def apply_raced_def place_candidate_def note_exchange_id_def
        store_record_def split: option.splits)
qed

definition demo_sink :: event_sink where
  "demo_sink = \<lparr>sink_path = ''log'', sink_open = True, sink_events = [], sink_write_ok = \<lambda>_. True, sink_writes = 0\<rparr>"

section \<open>Properties\<close>

text \<open>Placing is idempotent. Once a client order id is in the registry, every later place
  with that id, whatever its other fields, venue and the state of the venue, is answered from
  the registry (the recorded rejection, or the record marked as replayed), sends nothing and
  leaves registry, buffers and log alone.\<close>

lemma place_known_id_replays:
  assumes "o_orders s (rq_client_order_id req) = Some r"
    and "place venue_place ids req venue hit s = (res, s')"
  shows "res = Some (case r_rejection r of Some e \<Rightarrow> Inl e | None \<Rightarrow> Inr \<lparr>po_record = r, po_replayed = True\<rparr>)
    \<and> o_orders s' = o_orders s \<and> o_raced s' = o_raced s \<and> log_events s' = log_events s"
proof -
  have "log_events (snd (latency_now s)) = log_events s"
    by (simp add: latency_now_def lat_now_def log_events_def split: option.splits)
  then show ?thesis
    using assms(2) by (auto simp: place_def place_known [OF assms(1)] frame_simps)
qed

text \<open>C17. The outcome of a venue place. For an order that was staged and that no execution report has
  raced, when the log accepts writes: an acknowledgement with a venue id makes the record \<open>Live\<close>
  under that id as leg 1; one without makes it \<open>Live\<close> with no leg; an error other than \<open>transport\<close>
  makes it terminal \<open>Rejected\<close> with exactly that error, and as long as the registry holds this
  record, every later place with the same client order id, whatever else it says, gets exactly
  that error back and stages nothing; a \<open>transport\<close> error leaves the record \<open>Pending\<close> as it was
  staged. In each case the caller gets the record or the error, and the buffer is closed.\<close>

theorem place_outcome_recorded:
  assumes "o_orders s (rq_client_order_id req) = Some (place_candidate req v)"
    and "o_raced s (rq_client_order_id req) = Some []" "log_ready s"
    and "place_finish req placement s = (res, s')"
  shows "o_raced s' (rq_client_order_id req) = None \<and> (case placement of
      Inr p \<Rightarrow> \<exists>r. res = Inr \<lparr>po_record = r, po_replayed = False\<rparr> \<and> o_orders s' (rq_client_order_id req) = Some r
        \<and> r = (place_candidate req v)\<lparr>r_exchange_order_id := pl_exchange_order_id p, r_state := Live,
            r_legs := (if pl_exchange_order_id p = [] then []
                       else [\<lparr>leg_version = 1, leg_exchange_order_id = pl_exchange_order_id p\<rparr>])\<rparr>
    | Inl e \<Rightarrow> res = Inl e \<and> o_orders s' (rq_client_order_id req) =
          Some (if code e = ''transport'' then place_candidate req v
                else (place_candidate req v)\<lparr>r_state := Rejected, r_rejection := Some e\<rparr>)
        \<and> (code e \<noteq> ''transport'' \<longrightarrow> (\<forall>venue_place ids req' venue hit s1 s2 res'.
             rq_client_order_id req' = rq_client_order_id req \<longrightarrow> o_orders s1 (rq_client_order_id req) = o_orders s' (rq_client_order_id req)
             \<longrightarrow> place venue_place ids req' venue hit s1 = (res', s2) \<longrightarrow> res' = Some (Inl e) \<and> o_orders s2 = o_orders s1)))"
proof (cases placement)
  case (Inl e)
  let ?i = "rq_client_order_id req"
  have law: "res = Inl e" "o_orders s' ?i = Some (if code e = ''transport'' then place_candidate req v
      else (place_candidate req v)\<lparr>r_state := Rejected, r_rejection := Some e\<rparr>)"
    using place_outcome_law [OF assms] by (simp_all add: Inl)
  have again: "res' = Some (Inl e) \<and> o_orders s2 = o_orders s1"
    if "code e \<noteq> ''transport''" "rq_client_order_id req' = ?i" "o_orders s1 ?i = o_orders s' ?i"
      "place venue_place ids req' venue hit s1 = (res', s2)" for venue_place ids req' venue hit s1 s2 res'
  proof -
    have "o_orders s1 (rq_client_order_id req') = Some ((place_candidate req v)\<lparr>r_state := Rejected, r_rejection := Some e\<rparr>)"
      unfolding that(2,3) law(2) using that(1) by (simp only: if_False)
    from place_known_id_replays [OF this that(4)] show ?thesis by simp
  qed
  show ?thesis unfolding Inl sum.case
    by (intro conjI impI allI) (rule place_finish_closes [OF assms] law | (drule (3) again, blast))+
next
  case (Inr p)
  let ?c = "place_candidate req v"
  have bare: "?c\<lparr>r_exchange_order_id := [], r_state := Live, r_legs := []\<rparr> = ?c\<lparr>r_state := Live\<rparr>" by (simp add: place_candidate_def default_record_def)
  have closed: "o_raced s' (rq_client_order_id req) = None" using place_finish_closes [OF assms] .
  show ?thesis
  proof (cases "pl_exchange_order_id p = []")
    case True
    note ack = place_ack_without_id [OF assms(1-3) this assms(4) [unfolded Inr]]
    show ?thesis unfolding Inr sum.case True
      by (intro conjI exI [of _ "?c\<lparr>r_state := Live\<rparr>"] closed ack [THEN conjunct1] ack [THEN conjunct2]) (simp add: bare)
  next
    case False
    then have "res = Inr \<lparr>po_record = ?c\<lparr>r_exchange_order_id := pl_exchange_order_id p, r_state := Live,
          r_legs := [\<lparr>leg_version = 1, leg_exchange_order_id = pl_exchange_order_id p\<rparr>]\<rparr>, po_replayed = False\<rparr>
        \<and> o_orders s' (rq_client_order_id req) = Some (po_record (projr res))"
      using place_outcome_law [OF assms, unfolded Inr sum.case] by (metis (no_types))
    then show ?thesis unfolding Inr sum.case using closed False by simp
  qed
qed

theorem place_outcome_recorded_witness:
  "\<exists>res s'. place_finish demo_request (Inl (Error ''venue:51008'' ''insufficient balance''))
       (demo_oms\<lparr>o_orders := [''c1'' \<mapsto> place_candidate demo_request ''okx''], o_raced := [''c1'' \<mapsto> []]\<rparr>) = (res, s')
     \<and> o_orders s' ''c1'' = Some ((place_candidate demo_request ''okx'')\<lparr>r_state := Rejected,
          r_rejection := Some (Error ''venue:51008'' ''insufficient balance'')\<rparr>)"
proof -
  let ?s = "demo_oms\<lparr>o_orders := [''c1'' \<mapsto> place_candidate demo_request ''okx''], o_raced := [''c1'' \<mapsto> []]\<rparr>"
  let ?e = "Error ''venue:51008'' ''insufficient balance''"
  obtain res s' where p: "place_finish demo_request (Inl ?e) ?s = (res, s')" by fastforce
  have "o_orders ?s (rq_client_order_id demo_request) = Some (place_candidate demo_request ''okx'')"
    "o_raced ?s (rq_client_order_id demo_request) = Some []" "log_ready ?s"
    by (simp_all add: demo_request_def demo_oms_def new_oms_def log_ready_def)
  from place_outcome_recorded [OF this p] p show ?thesis by (auto simp: demo_request_def)
qed

text \<open>C15. Reports that race the acknowledgement. Execution reports that arrive while a place is
  open are buffered in arrival order without touching registry or log; when the
  acknowledgement lands and the log accepts writes, \<open>place_accepted\<close> is logged first, then the
  buffered reports are applied in arrival order to the acknowledged record, and everything
  they log is a \<open>state\<close> event of this order.\<close>

theorem raced_reports_apply_after_ack:
  assumes "o_orders s i = Some r" "o_raced s i = Some []" "log_ready s" "o_log s \<noteq> None"
    and "i = rq_client_order_id req" "\<forall>rep \<in> set reps. er_client_order_id rep = i"
    and "acked = (note_exchange_id r (pl_exchange_order_id p))\<lparr>r_state := snd (apply_transition (r_state r) Live)\<rparr>"
    and "place_finish req (Inr p) (fold on_execution_report reps s) = (res, s')"
  shows "o_orders (fold on_execution_report reps s) = o_orders s
    \<and> log_events (fold on_execution_report reps s) = log_events s
    \<and> (\<exists>evs s1. log_events s' = log_events s @ place_accepted_event acked # evs
        \<and> (\<forall>ev \<in> set evs. \<exists>r'. ev = state_event r' \<and> r_client_order_id r' = r_client_order_id r)
        \<and> o_orders s' i = Some (snd (fold apply_arbitrated_report reps (s1, acked)))
        \<and> o_raced s' i = None)"
proof -
  let ?b = "fold on_execution_report reps s"
  let ?s1 = "?b\<lparr>o_raced := (o_raced ?b)(i := None)\<rparr>"
  have b: "o_raced ?b i = Some reps" "o_orders ?b = o_orders s" "o_log ?b = o_log s"
    using buffer_reports [OF assms(2,6)] by simp_all
  have dr: "drain_raced_reports i ?b = (reps, ?s1)" using b(1) by (simp add: drain_raced_reports_def)
  have ready: "log_ready ?s1" using assms(3) by (rule log_ready_log) (simp add: b(3))
  obtain s2 where s2: "append_or_error (place_accepted_event acked) ?s1 = (None, s2)"
    using log_ready_append(1) [OF ready] by (metis prod.collapse)
  have acked: "acked = (let r1 = note_exchange_id r (pl_exchange_order_id p)
      in r1\<lparr>r_state := snd (apply_transition (r_state r1) Live)\<rparr>)"
    by (simp add: assms(7) note_exchange_id_push push_leg_def)
  have "log_events s2 = log_events s @ [place_accepted_event acked]"
    using append_or_error_events [of "place_accepted_event acked" ?s1] s2 assms(4) b(3)
    by (simp add: log_events_def)
  moreover have "s' = store_record i (apply_raced reps (s2, acked))"
    using assms(1,8) b(2) s2 by (simp add: place_finish_def dr acked Let_def case_prod_beta flip: assms(5))
  moreover obtain evs where "log_events (fst (apply_raced reps (s2, acked))) = log_events s2 @ evs"
    "\<forall>ev \<in> set evs. \<exists>r'. ev = state_event r' \<and> r_client_order_id r' = r_client_order_id acked"
    using apply_raced_logs by blast
  moreover have "r_client_order_id acked = r_client_order_id r" by (simp add: assms(7))
  moreover have "o_raced (fst (apply_raced reps (s2, acked))) i = None"
    using append_or_error_sel(2) [OF s2] by (simp add: frame_simps)
  ultimately show ?thesis
    using b by (auto simp: store_record_pair frame_simps apply_raced_def log_events_def store_record_def)
qed

theorem raced_reports_apply_after_ack_witness:
  "\<exists>res s' evs acked. place_finish demo_request (Inr \<lparr>pl_client_order_id = ''c1'', pl_exchange_order_id = ''x1''\<rparr>)
       (fold on_execution_report [demo_report]
         (demo_oms\<lparr>o_orders := [''c1'' \<mapsto> place_candidate demo_request ''okx''], o_raced := [''c1'' \<mapsto> []],
            o_log := Some \<lparr>sink_path = ''log'', sink_open = True, sink_events = [], sink_write_ok = \<lambda>_. True,
              sink_writes = 0\<rparr>\<rparr>)) = (res, s')
     \<and> log_events s' = place_accepted_event acked # evs"
proof -
  let ?s = "demo_oms\<lparr>o_orders := [''c1'' \<mapsto> place_candidate demo_request ''okx''], o_raced := [''c1'' \<mapsto> []],
            o_log := Some \<lparr>sink_path = ''log'', sink_open = True, sink_events = [], sink_write_ok = \<lambda>_. True,
              sink_writes = 0\<rparr>\<rparr>"
  let ?p = "\<lparr>pl_client_order_id = ''c1'', pl_exchange_order_id = ''x1''\<rparr> :: order_placement"
  obtain res s' where p: "place_finish demo_request (Inr ?p) (fold on_execution_report [demo_report] ?s) = (res, s')"
    by fastforce
  have "o_orders ?s ''c1'' = Some (place_candidate demo_request ''okx'')" "o_raced ?s ''c1'' = Some []"
    "log_ready ?s" "o_log ?s \<noteq> None" "''c1'' = rq_client_order_id demo_request"
    "\<forall>rep \<in> set [demo_report]. er_client_order_id rep = ''c1''"
    by (simp_all add: log_ready_def demo_request_def demo_report_def)
  from raced_reports_apply_after_ack [OF this refl p] p show ?thesis by (auto simp: log_events_def [of ?s])
qed

text \<open>C18. Guards of cancel and amend. A cancel or amend reaches a venue only for an order that is
  in the registry, acknowledged and not terminal, through the connector of the order's own
  venue and with the order's own id and symbol; an amend in addition only when no other place
  or amend of that order is open, when it changes something, and when the pre-trade checks
  accept the new values. Everything else is answered without touching the state.\<close>

theorem cancel_amend_only_working_orders:
  "(\<forall>c w. cancel_begin i s = Send c w \<longrightarrow>
      (\<exists>r. o_orders s i = Some r \<and> r_state r \<in> {Live, PartiallyFilled} \<and> connector_for_record s r = Some c
         \<and> w = \<lparr>cx_client_order_id = r_client_order_id r, cx_instrument_id = r_symbol r\<rparr>))
   \<and> (\<forall>c w s'. amend_begin ids cmd s = (Send c w, s') \<longrightarrow>
      (\<exists>r. o_orders s (ac_client_order_id cmd) = Some r \<and> r_state r \<in> {Live, PartiallyFilled}
         \<and> connector_for_record s r = Some c \<and> o_raced s (ac_client_order_id cmd) = None
         \<and> (ac_new_price cmd \<noteq> None \<or> ac_new_quantity cmd \<noteq> None)
         \<and> amend_risk ids s r (opt_or (ac_new_price cmd) (r_price r)) (opt_or (ac_new_quantity cmd) (r_quantity r))
             = Inr None
         \<and> w = amend_wire r (opt_or (ac_new_price cmd) (r_price r)) (opt_or (ac_new_quantity cmd) (r_quantity r))))
   \<and> (\<forall>h s'. amend_begin ids cmd s = (h, s') \<longrightarrow> (\<nexists>c w. h = Send c w) \<longrightarrow> s' = s)"
proof -
  have working: "r_state r \<in> {Live, PartiallyFilled}"
    if "r_state r \<noteq> Pending" "\<not> is_terminal (r_state r)" for r :: order_record
    using that by (cases "r_state r") simp_all
  show ?thesis
    by (intro conjI allI impI)
      (auto simp: cancel_begin_def amend_begin_def Let_def split: option.splits sum.splits if_splits
        dest!: working)
qed

theorem cancel_amend_only_working_orders_witness:
  "\<exists>w. cancel_begin ''c1'' (demo_oms\<lparr>o_orders := [''c1'' \<mapsto> demo_live]\<rparr>) = Send ''okx'' w
     \<and> r_state demo_live \<in> {Live, PartiallyFilled}"
proof -
  have "\<exists>w. cancel_begin ''c1'' (demo_oms\<lparr>o_orders := [''c1'' \<mapsto> demo_live]\<rparr>) = Send ''okx'' w"
    by (simp add: cancel_begin_def demo_live_def connector_for_record_def connector_for_def demo_oms_def
        new_oms_def place_candidate_def)
  then show ?thesis
    using cancel_amend_only_working_orders [of "''c1''" "demo_oms\<lparr>o_orders := [''c1'' \<mapsto> demo_live]\<rparr>"] by auto
qed

text \<open>C19. Verdicts of reconciliation on one order. An inconclusive answer (an error other than
  the two venue codes for an unknown order) changes nothing; a conclusive absence turns every
  order that is not terminal into \<open>Rejected\<close> with the \<open>venue_absent\<close> error, which a later place
  of that id then returns, and leaves terminal orders alone.\<close>

theorem reconcile_verdicts:
  assumes "o_orders s i = Some r" "resolve_item i answer (report, s) = (report', s')"
  shows "(\<forall>e. answer = Inl e \<longrightarrow> code e \<notin> {''venue:51603'', ''venue:51016''} \<longrightarrow>
            s' = s \<and> report' = report\<lparr>rp_unresolved := rp_unresolved report + 1\<rparr>)
    \<and> (answer = Inr None \<or> (\<exists>e. answer = Inl e \<and> code e \<in> {''venue:51603'', ''venue:51016''}) \<longrightarrow>
         report' = report\<lparr>rp_absent_rejected := rp_absent_rejected report + 1\<rparr>
         \<and> o_orders s' i = Some (if is_terminal (r_state r) then r
              else r\<lparr>r_state := Rejected, r_rejection := Some venue_absent\<rparr>)
         \<and> (\<not> is_terminal (r_state r) \<longrightarrow> (\<forall>venue_place ids req venue hit.
              rq_client_order_id req = i \<longrightarrow>
                fst (place venue_place ids req venue hit s') = Some (Inl venue_absent))))"
proof -
  have absent: "resolve_item i answer (report, s) = reject_absent i r report s"
    if "answer = Inr None \<or> (\<exists>e. answer = Inl e \<and> code e \<in> {''venue:51603'', ''venue:51016''})"
    using that assms(1) by (auto simp: resolve_item_def)
  have st: "o_orders (snd (reject_absent i r report s)) i = Some (if is_terminal (r_state r) then r
      else r\<lparr>r_state := Rejected, r_rejection := Some venue_absent\<rparr>)"
    by (cases "r_state r") (simp_all add: reject_absent_def apply_transition_def Let_def)
  have again: "fst (place venue_place ids req venue hit s'') = Some (Inl venue_absent)"
    if "o_orders s'' i = Some r'" "r_rejection r' = Some venue_absent" "rq_client_order_id req = i"
    for venue_place ids req venue hit s'' r'
    using that by (simp add: place_def place_known)
  have keep: "s' = s \<and> report' = report\<lparr>rp_unresolved := rp_unresolved report + 1\<rparr>"
    if "answer = Inl e" "code e \<notin> {''venue:51603'', ''venue:51016''}" for e
    using assms that by (simp add: resolve_item_def)
  have "report' = report\<lparr>rp_absent_rejected := rp_absent_rejected report + 1\<rparr>"
    "o_orders s' i = Some (if is_terminal (r_state r) then r
       else r\<lparr>r_state := Rejected, r_rejection := Some venue_absent\<rparr>)"
    if "answer = Inr None \<or> (\<exists>e. answer = Inl e \<and> code e \<in> {''venue:51603'', ''venue:51016''})"
    using absent [OF that] st assms(2) by (auto simp: reject_absent_def)
  then show ?thesis using keep again [of s'] by auto
qed

theorem reconcile_verdicts_witness:
  "\<exists>report' s'. resolve_item ''c1'' (Inr None) (empty_report, demo_oms\<lparr>o_orders := [''c1'' \<mapsto> demo_live]\<rparr>) = (report', s')
     \<and> o_orders s' ''c1'' = Some (demo_live\<lparr>r_state := Rejected, r_rejection := Some venue_absent\<rparr>)"
proof -
  let ?s = "demo_oms\<lparr>o_orders := [''c1'' \<mapsto> demo_live]\<rparr>"
  obtain report' s' where p: "resolve_item ''c1'' (Inr None) (empty_report, ?s) = (report', s')" by fastforce
  from reconcile_verdicts [OF _ p, of demo_live] p show ?thesis by (auto simp: demo_live_def)
qed

text \<open>An amend does not own its order. While the venue call of an amend is open, a cancel of
  the same order can be sent and land: there is a run in which the order of an open amend is
  already \<open>Canceled\<close>, and in which the acknowledgement of that amend then changes price,
  quantity and leg table of the canceled record.\<close>

lemma amend_can_land_on_canceled_order:
  "\<exists>S r cmd w r'. steps (start_system (demo_oms\<lparr>o_orders := [''c1'' \<mapsto> demo_live]\<rparr>)) S
     \<and> sys_amends S = [(cmd, w)] \<and> ac_client_order_id cmd = ''c1''
     \<and> o_orders (sys_oms S) ''c1'' = Some r \<and> r_state r = Canceled
     \<and> fst (amend_finish cmd w (Inr \<lparr>pl_client_order_id = ''c1'', pl_exchange_order_id = ''x2''\<rparr>) (sys_oms S)) = Inr r'
     \<and> r_state r' = Canceled \<and> r_price r' \<noteq> r_price r \<and> length (r_legs r') = 2"
proof -
  let ?s = "demo_oms\<lparr>o_orders := [''c1'' \<mapsto> demo_live]\<rparr>"
  let ?cmd = "\<lparr>ac_client_order_id = ''c1'', ac_new_price = Some ''101'', ac_new_quantity = None\<rparr>"
  let ?w = "amend_wire demo_live ''101'' ''2''"
  let ?s1 = "?s\<lparr>o_raced := [''c1'' \<mapsto> []]\<rparr>"
  let ?r = "demo_live\<lparr>r_state := Canceled\<rparr>"
  let ?s2 = "?s1\<lparr>o_orders := [''c1'' \<mapsto> ?r]\<rparr>"
  let ?ack = "Inr \<lparr>pl_client_order_id = ''c1'', pl_exchange_order_id = ''x1''\<rparr> :: order_placement result"
  note evals = demo_live_def demo_oms_def new_oms_def place_candidate_def demo_request_def connector_for_record_def
    connector_for_def
  have a: "amend_begin [] ?cmd ?s = (Send ''okx'' ?w, ?s1)"
    by (simp add: amend_begin_def evals amend_risk_def limits_for_def empty_risk_config_def)
  have b: "\<exists>w. cancel_begin ''c1'' ?s1 = Send ''okx'' w" by (simp add: cancel_begin_def evals)
  have c: "cancel_finish ''c1'' ?ack ?s1 = (Inr ?r, ?s2)"
    by (simp add: cancel_finish_def evals note_exchange_id_def apply_transition_def append_event_def
        append_or_error_def store_record_def Let_def)
  let ?S0 = "start_system ?s"
  let ?S1 = "?S0\<lparr>sys_oms := ?s1, sys_amends := [(?cmd, ?w)]\<rparr>"
  let ?S2 = "?S1\<lparr>sys_cancels := [''c1'']\<rparr>"
  let ?S3 = "?S2\<lparr>sys_oms := ?s2, sys_cancels := []\<rparr>"
  have "step ?S0 ?S1" using step.amend_send [of "[]" ?cmd ?S0] a by (simp add: start_system_def)
  moreover have "step ?S1 ?S2" using b step.cancel_send [of "''c1''" ?S1] by (auto simp: start_system_def)
  moreover have "step ?S2 ?S3" using step.cancel_outcome [of ?S2 "[]" "''c1''" "[]" ?ack] c by simp
  ultimately have "steps ?S0 ?S3" by (meson steps_refl steps_step)
  moreover have "\<exists>r'. fst (amend_finish ?cmd ?w (Inr \<lparr>pl_client_order_id = ''c1'', pl_exchange_order_id = ''x2''\<rparr>) ?s2) = Inr r'
      \<and> r_state r' = Canceled \<and> r_price r' \<noteq> r_price ?r \<and> length (r_legs r') = 2"
    by (simp add: amend_finish_def drain_raced_reports_def amend_wire_def append_amend_leg_def push_leg_def
        append_or_error_def apply_raced_def evals Let_def)
  then obtain r' where "fst (amend_finish ?cmd ?w (Inr \<lparr>pl_client_order_id = ''c1'', pl_exchange_order_id = ''x2''\<rparr>) ?s2) = Inr r'
      \<and> r_state r' = Canceled \<and> r_price r' \<noteq> r_price ?r \<and> length (r_legs r') = 2" by blast
  ultimately show ?thesis
    by (intro exI [of _ ?S3] exI [of _ ?r] exI [of _ ?cmd] exI [of _ ?w] exI [of _ r']) simp
qed

end
