(* ===== verification/Rest_Orders.thy ===== *)
theory Rest_Orders
  imports Rest_Support OMS_Outcomes
begin

text \<open>
  The order routes, \<^verbatim>\<open>src/rest/order_routes.cpp\<close>, and the read-only risk and consistency routes,
  \<^verbatim>\<open>risk_routes.cpp\<close> and \<^verbatim>\<open>consistency_routes.cpp\<close>, over the handlers of the order management
  system. A route maps the request and the system to a response and the system after it;
  \<open>None\<close> is a response that was never built because an exception left the handler.
\<close>

section \<open>Fields\<close>

definition kMaxClientOrderIdLength :: nat where "kMaxClientOrderIdLength = 32"

definition to_lower :: "string \<Rightarrow> string" where
  "to_lower t = map to_lower_char t"

definition is_alnum_char :: "char \<Rightarrow> bool" where
  "is_alnum_char c \<longleftrightarrow> (48 \<le> ascii c \<and> ascii c \<le> 57) \<or> (97 \<le> ascii c \<and> ascii c \<le> 122) \<or> (65 \<le> ascii c \<and> ascii c \<le> 90)"

definition is_valid_client_order_id :: "string \<Rightarrow> bool" where
  "is_valid_client_order_id i =
     (if i = [] \<or> length i > kMaxClientOrderIdLength then False else list_all is_alnum_char i)"

definition parse_time_in_force :: "string \<Rightarrow> string option" where
  "parse_time_in_force t =
     (let upper = map to_upper_char (to_lower t)
      in if upper = ''GTC'' \<or> upper = ''IOC'' \<or> upper = ''FOK'' then Some upper else None)"

definition record_json :: "order_record \<Rightarrow> json" where
  "record_json r =
     (let body = jobject
        [(''clientOrderId'', JStr (r_client_order_id r)), (''exchangeOrderId'', JStr (r_exchange_order_id r)),
         (''symbol'', JStr (r_symbol r)), (''venue'', JStr (r_venue r)), (''side'', JStr (side_to_string (r_side r))),
         (''type'', JStr (type_to_string (r_type r))), (''timeInForce'', JStr (r_time_in_force r)),
         (''state'', JStr (state_to_string (r_state r))), (''price'', JStr (r_price r)), (''quantity'', JStr (r_quantity r)),
         (''filledQuantity'', JStr (r_filled_quantity r)), (''averageFillPrice'', JStr (r_average_fill_price r))]
      in case r_rejection r of
           None \<Rightarrow> body
         | Some e \<Rightarrow> jset body ''rejection'' (jobject [(''code'', JStr (code e)), (''reason'', JStr (message e))]))"

section \<open>POST /orders\<close>

text \<open>The validation of a place body: \<open>Inl (reason, clientOrderId)\<close> is the 400 \<open>invalid_request\<close>,
  \<open>Inr\<close> the request with the venue it names (empty for the default).\<close>

definition place_fields :: "string list" where
  "place_fields = [''clientOrderId'', ''venue'', ''symbol'', ''side'', ''type'', ''price'', ''quantity'', ''timeInForce'']"

definition place_venue :: "string list \<Rightarrow> json \<Rightarrow> string + string" where
  "place_venue supported body =
     (case optional_string_field body ''venue'' of
        None \<Rightarrow> Inr []
      | Some field \<Rightarrow>
          let venue = to_lower field
          in if venue \<notin> set supported then
               Inl (''unsupported venue '' @ [quote_char] @ field @ [quote_char] @ '' (supported: '' @
                    join_names (map (map to_upper_char) supported) [] @ '')'')
             else Inr venue)"

definition place_tif :: "order_type \<Rightarrow> json \<Rightarrow> string + string" where
  "place_tif ty body =
     (case optional_string_field body ''timeInForce'' of
        None \<Rightarrow> Inr []
      | Some tif \<Rightarrow> (case parse_time_in_force tif of
          None \<Rightarrow> Inl ''timeInForce must be GTC, IOC or FOK''
        | Some normalized_tif \<Rightarrow>
            if ty = Market then Inl ''timeInForce only applies to limit orders'' else Inr normalized_tif))"

definition amounts_problem :: "order_type \<Rightarrow> string \<Rightarrow> string \<Rightarrow> string option" where
  "amounts_problem ty price quantity =
     (if quantity = [] \<or> \<not> is_decimal quantity then Some ''quantity must be a positive decimal''
      else if price \<noteq> [] \<and> \<not> is_decimal price then Some ''price must be a positive decimal''
      else if ty = Limit \<and> price = [] then Some ''price is required for limit orders''
      else if ty = Market \<and> price \<noteq> [] then Some ''price is not allowed for market orders''
      else None)"

definition validate_place :: "string list \<Rightarrow> json \<Rightarrow> (string \<times> string) + (order_request \<times> string)" where
  "validate_place supported body =
     (let unknown = unknown_fields body place_fields;
          i = rest_string_field body ''clientOrderId'';
          symbol = rest_string_field body ''symbol'';
          price = rest_string_field body ''price'';
          quantity = rest_string_field body ''quantity''
      in if unknown \<noteq> [] then
           Inl (''unsupported field(s): '' @ unknown @ '' (exchange-specific fields are rejected; use the common schema)'', i)
         else if i = [] then Inl (''clientOrderId is required'', [])
         else if \<not> is_valid_client_order_id i then Inl (''clientOrderId must be 1-32 alphanumeric characters'', i)
         else case place_venue supported body of
           Inl reason \<Rightarrow> Inl (reason, i)
         | Inr venue \<Rightarrow>
             if symbol = [] then Inl (''symbol is required'', i)
             else case parse_side (rest_string_field body ''side'') of
               None \<Rightarrow> Inl (''side must be buy or sell'', i)
             | Some sd \<Rightarrow> (case parse_order_type (rest_string_field body ''type'') of
                 None \<Rightarrow> Inl (''type must be limit or market'', i)
               | Some ty \<Rightarrow> (case place_tif ty body of
                   Inl reason \<Rightarrow> Inl (reason, i)
                 | Inr tif \<Rightarrow> (case amounts_problem ty price quantity of
                     Some reason \<Rightarrow> Inl (reason, i)
                   | None \<Rightarrow>
                       Inr (\<lparr>rq_client_order_id = i, rq_instrument_id = symbol, rq_side = sd, rq_type = ty,
                              rq_price = price, rq_quantity = quantity, rq_time_in_force = tif\<rparr>, venue)))))"

definition place_response_json :: "place_outcome \<Rightarrow> json" where
  "place_response_json outcome =
     (let r = po_record outcome
      in jobject [(''clientOrderId'', JStr (r_client_order_id r)), (''exchangeOrderId'', JStr (r_exchange_order_id r)),
           (''symbol'', JStr (r_symbol r)), (''venue'', JStr (r_venue r)), (''state'', JStr (state_to_string (r_state r))),
           (''replayed'', JBool (po_replayed outcome))])"

definition place_status :: "place_outcome \<Rightarrow> int" where
  "place_status outcome = (if r_state (po_record outcome) = Pending then 202 else 201)"

definition place_response :: "dumper \<Rightarrow> string \<Rightarrow> place_outcome result \<Rightarrow> http_response option" where
  "place_response dump i res =
     (case res of
        Inl e \<Rightarrow> map_error dump e i
      | Inr outcome \<Rightarrow> json_response dump (place_status outcome) (place_response_json outcome))"

definition post_orders :: "(string \<Rightarrow> json option) \<Rightarrow> dumper \<Rightarrow> (string \<Rightarrow> order_request \<Rightarrow> order_placement result)
    \<Rightarrow> string list \<Rightarrow> string \<Rightarrow> oms \<Rightarrow> http_response option \<times> oms" where
  "post_orders parse dump venue_place ids text s =
     (case latency_now s of (rest_hit_ns, s1) \<Rightarrow>
      case parse_json_body parse dump text of
        Inl response \<Rightarrow> (guarded dump [] response, s1)
      | Inr body \<Rightarrow> (case validate_place (venues s1) body of
          Inl (reason, i) \<Rightarrow> (guarded dump [] (error_response dump 400 ''invalid_request'' reason i), s1)
        | Inr (req, venue) \<Rightarrow> (case place venue_place ids req venue rest_hit_ns s1 of
            (None, s2) \<Rightarrow> (guarded dump [] None, s2)
          | (Some res, s2) \<Rightarrow> (guarded dump [] (place_response dump (rq_client_order_id req) res), s2))))"

section \<open>The other order routes\<close>

definition get_orders :: "dumper \<Rightarrow> string list \<Rightarrow> oms \<Rightarrow> http_response option" where
  "get_orders dump ids s =
     guarded dump [] (json_response dump 200 (jobject [(''orders'', JArr (map record_json (all_orders ids s)))]))"

definition get_order_route :: "dumper \<Rightarrow> string \<Rightarrow> oms \<Rightarrow> http_response option" where
  "get_order_route dump i s =
     guarded dump i
       (case query s i of
          Inl e \<Rightarrow> map_error dump e i
        | Inr r \<Rightarrow> json_response dump 200 (record_json r))"

definition cancel_response_json :: "order_record \<Rightarrow> json" where
  "cancel_response_json r = jobject
     [(''clientOrderId'', JStr (r_client_order_id r)), (''exchangeOrderId'', JStr (r_exchange_order_id r)),
      (''symbol'', JStr (r_symbol r)), (''venue'', JStr (r_venue r)), (''state'', JStr (state_to_string (r_state r)))]"

definition delete_order :: "dumper \<Rightarrow> (string \<Rightarrow> cancel_request \<Rightarrow> order_placement result) \<Rightarrow> string \<Rightarrow> oms
    \<Rightarrow> http_response option \<times> oms" where
  "delete_order dump venue_cancel i s =
     (case cancel venue_cancel i s of
        (None, s1) \<Rightarrow> (guarded dump i None, s1)
      | (Some (Inl e), s1) \<Rightarrow> (guarded dump i (map_error dump e i), s1)
      | (Some (Inr r), s1) \<Rightarrow> (guarded dump i (json_response dump 200 (cancel_response_json r)), s1))"

text \<open>The validation of an amend body: \<open>Inl\<close> is the reason of the 400.\<close>

definition validate_amend :: "string \<Rightarrow> json \<Rightarrow> string + amend_command" where
  "validate_amend i body =
     (let unknown = unknown_fields body [''price'', ''quantity''];
          price = optional_string_field body ''price'';
          quantity = optional_string_field body ''quantity''
      in if unknown \<noteq> [] then Inl (''unsupported field(s): '' @ unknown @ '' (amend accepts price and/or quantity)'')
         else if price = None \<and> quantity = None then Inl ''amend requires price and/or quantity''
         else if (case price of Some p \<Rightarrow> p = [] \<or> \<not> is_decimal p | None \<Rightarrow> False) then Inl ''price must be a positive decimal''
         else if (case quantity of Some q \<Rightarrow> q = [] \<or> \<not> is_decimal q | None \<Rightarrow> False) then Inl ''quantity must be a positive decimal''
         else Inr \<lparr>ac_client_order_id = i, ac_new_price = price, ac_new_quantity = quantity\<rparr>)"

definition amend_response_json :: "order_record \<Rightarrow> json" where
  "amend_response_json r = jobject
     [(''clientOrderId'', JStr (r_client_order_id r)), (''exchangeOrderId'', JStr (r_exchange_order_id r)),
      (''symbol'', JStr (r_symbol r)), (''state'', JStr (state_to_string (r_state r))), (''price'', JStr (r_price r)),
      (''quantity'', JStr (r_quantity r))]"

definition put_order :: "(string \<Rightarrow> json option) \<Rightarrow> dumper \<Rightarrow> (string \<Rightarrow> amend_request \<Rightarrow> order_placement result)
    \<Rightarrow> string list \<Rightarrow> string \<Rightarrow> string \<Rightarrow> oms \<Rightarrow> http_response option \<times> oms" where
  "put_order parse dump venue_amend ids i text s =
     (case parse_json_body parse dump text of
        Inl response \<Rightarrow> (guarded dump i response, s)
      | Inr body \<Rightarrow> (case validate_amend i body of
          Inl reason \<Rightarrow> (guarded dump i (error_response dump 400 ''invalid_request'' reason i), s)
        | Inr cmd \<Rightarrow> (case amend venue_amend ids cmd s of
            (None, s1) \<Rightarrow> (guarded dump i None, s1)
          | (Some (Inl e), s1) \<Rightarrow> (guarded dump i (map_error dump e i), s1)
          | (Some (Inr r), s1) \<Rightarrow> (guarded dump i (json_response dump 200 (amend_response_json r)), s1))))"

definition get_health :: "dumper \<Rightarrow> oms \<Rightarrow> http_response option" where
  "get_health dump s =
     (let st = stats s
      in json_response dump 200 (jobject
           [(''status'', JStr ''ok''), (''knownOrders'', JUInt (known_orders st)), (''reportsApplied'', JUInt (reports_applied st)),
            (''reportsStale'', JUInt (reports_stale st)), (''reportsBuffered'', JUInt (reports_buffered st))]))"

definition get_price_route :: "dumper \<Rightarrow> (string \<Rightarrow> string \<Rightarrow> string result) \<Rightarrow> string \<Rightarrow> string option \<Rightarrow> oms
    \<Rightarrow> http_response option" where
  "get_price_route dump venue_price symbol venue_param s =
     guarded dump []
       (case get_price venue_price s symbol (case venue_param of Some v \<Rightarrow> to_lower v | None \<Rightarrow> []) of
          Inl e \<Rightarrow> map_error dump e []
        | Inr quote \<Rightarrow> json_response dump 200 (jobject
            [(''symbol'', JStr symbol), (''venue'', JStr (pq_venue quote)), (''price'', JStr (pq_price quote))]))"

section \<open>Read-only routes\<close>

definition limits_json :: "instrument_risk_limits \<Rightarrow> json" where
  "limits_json l = jobject [(''maxQty'', JStr (max_qty l)), (''maxNotional'', JStr (max_notional l)),
     (''maxPosition'', JStr (max_position l))]"

text \<open>\<open>symbols\<close> enumerates the configured instruments.\<close>

definition risk_json :: "string list \<Rightarrow> risk_config \<Rightarrow> json" where
  "risk_json symbols cfg = jobject
     [(''default'', case rc_defaults cfg of Some l \<Rightarrow> limits_json l | None \<Rightarrow> JNull),
      (''instruments'', foldl (\<lambda>j sym. case rc_instruments cfg sym of Some l \<Rightarrow> jset j sym (limits_json l) | None \<Rightarrow> j) (JObj []) symbols)]"

definition get_risk :: "dumper \<Rightarrow> string list \<Rightarrow> oms \<Rightarrow> http_response option" where
  "get_risk dump symbols s = guarded dump [] (json_response dump 200 (risk_json symbols (o_risk s)))"

text \<open>The cache behind \<open>GET /consistency\<close>.\<close>

record consistency_cache =
  cc_last :: json

definition fresh_cache :: consistency_cache where
  "fresh_cache = \<lparr>cc_last = jobject [(''status'', JStr ''not_run_yet'')]\<rparr>"

definition cache_store :: "json \<Rightarrow> consistency_cache \<Rightarrow> consistency_cache" where
  "cache_store snapshot c = c\<lparr>cc_last := snapshot\<rparr>"

definition get_consistency :: "dumper \<Rightarrow> consistency_cache \<Rightarrow> http_response option" where
  "get_consistency dump c = guarded dump [] (json_response dump 200 (cc_last c))"

section \<open>What a place body may say\<close>

lemma join_names_empty: "join_names ks names = [] \<longleftrightarrow> names = [] \<and> (\<forall>k \<in> set ks. k = [])"
  by (induction ks names rule: join_names.induct) auto

text \<open>A member with an empty name leaves the list of unknown names empty.\<close>

lemma unknown_fields_empty: "unknown_fields body allowed = [] \<longleftrightarrow> fst ` set (members body) \<subseteq> set allowed \<union> {[]}"
  by (auto simp: unknown_fields_def join_names_empty)

definition well_formed_request :: "string list \<Rightarrow> order_request \<Rightarrow> string \<Rightarrow> bool" where
  "well_formed_request supported req venue \<longleftrightarrow>
     rq_client_order_id req \<noteq> [] \<and> length (rq_client_order_id req) \<le> 32 \<and> list_all is_alnum_char (rq_client_order_id req)
     \<and> rq_instrument_id req \<noteq> [] \<and> (venue = [] \<or> venue \<in> set supported) \<and> is_decimal (rq_quantity req)
     \<and> (case rq_type req of
          Limit \<Rightarrow> is_decimal (rq_price req) \<and> rq_time_in_force req \<in> {[], ''GTC'', ''IOC'', ''FOK''}
        | Market \<Rightarrow> rq_price req = [] \<and> rq_time_in_force req = [])"

text \<open>The body a client writes for a request.\<close>

definition place_body :: "order_request \<Rightarrow> string \<Rightarrow> json" where
  "place_body req venue = jobject (
     [(''clientOrderId'', JStr (rq_client_order_id req)), (''symbol'', JStr (rq_instrument_id req)),
      (''side'', JStr (side_to_string (rq_side req))), (''type'', JStr (type_to_string (rq_type req))),
      (''quantity'', JStr (rq_quantity req))]
     @ (if venue = [] then [] else [(''venue'', JStr venue)])
     @ (if rq_price req = [] then [] else [(''price'', JStr (rq_price req))])
     @ (if rq_time_in_force req = [] then [] else [(''timeInForce'', JStr (rq_time_in_force req))]))"

lemma is_decimal_Nil [simp]: "\<not> is_decimal []"
  by (simp add: is_decimal_def)

lemma amounts_ok_iff:
  "amounts_problem ty price quantity = None \<longleftrightarrow> is_decimal quantity
     \<and> (case ty of Limit \<Rightarrow> is_decimal price | Market \<Rightarrow> price = [])"
  by (cases ty) (auto simp: amounts_problem_def)

lemma place_tif_ok:
  "place_tif ty body = Inr tif \<Longrightarrow> tif \<in> {[], ''GTC'', ''IOC'', ''FOK''} \<and> (ty = Market \<longrightarrow> tif = [])"
  by (auto simp: place_tif_def parse_time_in_force_def Let_def split: option.splits if_splits)

lemma place_venue_ok: "place_venue supported body = Inr venue \<Longrightarrow> venue = [] \<or> venue \<in> set supported"
  by (auto simp: place_venue_def Let_def split: option.splits if_splits)

lemma validate_place_sound:
  assumes "validate_place supported body = Inr (req, venue)"
  shows "well_formed_request supported req venue" "fst ` set (members body) \<subseteq> set place_fields \<union> {[]}"
proof -
  note v = assms [unfolded validate_place_def Let_def]
  show "well_formed_request supported req venue"
    using v place_venue_ok [of supported body venue] place_tif_ok [of "rq_type req" body "rq_time_in_force req"]
      amounts_ok_iff [of "rq_type req" "rq_price req" "rq_quantity req"]
    by (auto simp: well_formed_request_def is_valid_client_order_id_def kMaxClientOrderIdLength_def
        split: if_splits sum.splits option.splits order_type.splits)
  show "fst ` set (members body) \<subseteq> set place_fields \<union> {[]}"
    using v unfolding unknown_fields_empty [symmetric] by (simp split: if_splits)
qed

lemma jobject_find: "jfind (jobject kvs) = map_of (rev kvs)"
proof (induction kvs rule: rev_induct)
  case Nil
  then show ?case by (auto simp: jobject_def jfind_def)
next
  case (snoc kv kvs)
  have "jobject (kvs @ [kv]) = jset (jobject kvs) (fst kv) (snd kv)" by (simp add: jobject_def)
  with snoc show ?case by (auto simp: fun_eq_iff)
qed

lemma jset_keys: "fst ` set (members (jset j k v)) = insert k (fst ` set (members j))"
proof -
  have "fst ` set (jset_members kvs k v) = insert k (fst ` set kvs)" for kvs
    by (induction kvs k v rule: jset_members.induct) auto
  then show ?thesis by (simp add: jset_def)
qed

lemma jobject_keys: "fst ` set (members (jobject kvs)) = fst ` set kvs"
proof (induction kvs rule: rev_induct)
  case (snoc kv kvs)
  have "jobject (kvs @ [kv]) = jset (jobject kvs) (fst kv) (snd kv)" by (simp add: jobject_def)
  with snoc show ?case by (simp add: jset_keys)
qed (simp add: jobject_def)

lemma place_body_fields:
  "rest_string_field (place_body req venue) ''clientOrderId'' = rq_client_order_id req"
  "rest_string_field (place_body req venue) ''symbol'' = rq_instrument_id req"
  "rest_string_field (place_body req venue) ''side'' = side_to_string (rq_side req)"
  "rest_string_field (place_body req venue) ''type'' = type_to_string (rq_type req)"
  "rest_string_field (place_body req venue) ''quantity'' = rq_quantity req"
  "rest_string_field (place_body req venue) ''price'' = rq_price req"
  "optional_string_field (place_body req venue) ''venue'' = (if venue = [] then None else Some venue)"
  "optional_string_field (place_body req venue) ''timeInForce''
     = (if rq_time_in_force req = [] then None else Some (rq_time_in_force req))"
  by (simp_all add: rest_string_field_def optional_string_field_def place_body_def jobject_find)

lemma place_body_known: "unknown_fields (place_body req venue) place_fields = []"
  unfolding unknown_fields_empty place_body_def jobject_keys by (auto simp: place_fields_def)

lemma parse_tif_id:
  "parse_time_in_force ''GTC'' = Some ''GTC''" "parse_time_in_force ''IOC'' = Some ''IOC''" "parse_time_in_force ''FOK'' = Some ''FOK''"
  by code_simp+

section \<open>Properties\<close>

text \<open>C36. \<open>POST /orders\<close> accepts exactly the well-formed requests. A body that passes the validation
  yields an identifier of 1 to 32 letters and digits, a symbol, a configured venue or none,
  a plain decimal quantity, and a price and time in force that fit the order type, and has no
  member outside the schema except one with an empty name; conversely every well-formed
  request whose venue, if it names one, is in lower case (as all configured venue names are),
  written as a body, is accepted and read back unchanged.\<close>

theorem place_validation_exact:
  "(validate_place supported body = Inr (req, venue) \<longrightarrow>
      well_formed_request supported req venue \<and> fst ` set (members body) \<subseteq> set place_fields \<union> {[]})
   \<and> (well_formed_request supported req venue \<and> to_lower venue = venue \<longrightarrow>
      validate_place supported (place_body req venue) = Inr (req, venue))"
proof (intro conjI impI)
  show "well_formed_request supported req venue" "fst ` set (members body) \<subseteq> set place_fields \<union> {[]}"
    if "validate_place supported body = Inr (req, venue)"
    using validate_place_sound [OF that] by simp_all
  assume wf: "well_formed_request supported req venue \<and> to_lower venue = venue"
  have "place_venue supported (place_body req venue) = Inr venue"
    using wf by (auto simp: place_venue_def place_body_fields well_formed_request_def)
  moreover have "place_tif (rq_type req) (place_body req venue) = Inr (rq_time_in_force req)"
    using wf
    by (cases "rq_type req") (auto simp: place_tif_def place_body_fields well_formed_request_def parse_tif_id)
  moreover have "amounts_problem (rq_type req) (rq_price req) (rq_quantity req) = None"
    using wf by (cases "rq_type req") (auto simp: amounts_ok_iff well_formed_request_def)
  ultimately show "validate_place supported (place_body req venue) = Inr (req, venue)"
    using wf by (simp add: validate_place_def place_body_known place_body_fields well_formed_request_def
        is_valid_client_order_id_def kMaxClientOrderIdLength_def)
qed

theorem place_validation_exact_witness:
  "validate_place [''okx''] (place_body \<lparr>rq_client_order_id = ''a1'', rq_instrument_id = ''BTC-USDT'', rq_side = Buy, rq_type = Limit,
       rq_price = ''10.5'', rq_quantity = ''2'', rq_time_in_force = ''IOC''\<rparr> ''okx'')
     = Inr (\<lparr>rq_client_order_id = ''a1'', rq_instrument_id = ''BTC-USDT'', rq_side = Buy, rq_type = Limit,
       rq_price = ''10.5'', rq_quantity = ''2'', rq_time_in_force = ''IOC''\<rparr>, ''okx'')"
proof -
  have "well_formed_request [''okx''] \<lparr>rq_client_order_id = ''a1'', rq_instrument_id = ''BTC-USDT'', rq_side = Buy, rq_type = Limit,
       rq_price = ''10.5'', rq_quantity = ''2'', rq_time_in_force = ''IOC''\<rparr> ''okx'' \<and> to_lower ''okx'' = ''okx''" by code_simp
  then show ?thesis using place_validation_exact by blast
qed

lemma evolves_not_pending: "evolves r r' \<Longrightarrow> r_state r \<noteq> Pending \<Longrightarrow> r_state r' \<noteq> Pending"
  by (cases "r_state r") (auto simp: evolves_def)

lemma live_not_pending: "snd (apply_transition st Live) \<noteq> Pending"
  by (cases st) (simp_all add: apply_transition_def can_transition_iff kLegalTransitions_def)

lemma place_finish_success:
  assumes "place_finish req placement s = (Inr outcome, s')"
  shows "\<not> po_replayed outcome" "o_orders s' (rq_client_order_id req) = Some (po_record outcome)"
    "r_state (po_record outcome) \<noteq> Pending"
proof -
  obtain raced s1 where d: "drain_raced_reports (rq_client_order_id req) s = (raced, s1)" by (rule prod.exhaust)
  obtain r where r: "o_orders s1 (rq_client_order_id req) = Some r"
    using assms d by (auto simp: place_finish_def Let_def split: option.splits)
  obtain p where p: "placement = Inr p"
    using assms d r by (auto simp: place_finish_def Let_def split: sum.splits if_splits prod.splits transition_result.splits option.splits)
  define r2 where "r2 = (note_exchange_id r (pl_exchange_order_id p))
     \<lparr>r_state := snd (apply_transition (r_state (note_exchange_id r (pl_exchange_order_id p))) Live)\<rparr>"
  obtain e s2 where a: "append_or_error (place_accepted_event r2) s1 = (e, s2)" by (rule prod.exhaust)
  obtain s3 r3 where raced: "apply_raced raced (s2, r2) = (s3, r3)" by (rule prod.exhaust)
  have fin: "e = None" "outcome = \<lparr>po_record = r3, po_replayed = False\<rparr>" "s' = store_record (rq_client_order_id req) (s3, r3)"
    using assms d r p a raced by (auto simp: place_finish_def Let_def r2_def split: option.splits)
  have "r_state r2 \<noteq> Pending" by (simp add: r2_def live_not_pending)
  moreover have "evolves r2 r3" using apply_raced_parts(2) [of r2 raced s2] raced by simp
  ultimately show "r_state (po_record outcome) \<noteq> Pending" using evolves_not_pending fin(2) by simp
  show "\<not> po_replayed outcome" "o_orders s' (rq_client_order_id req) = Some (po_record outcome)"
    using fin by (simp_all add: store_record_def)
qed

lemma place_stage_return:
  assumes "place_stage ids req venue s = (Return (Inr outcome), s')"
  shows "po_replayed outcome \<and> o_orders s (rq_client_order_id req) = Some (po_record outcome) \<and> s' = s"
  using assms by (auto simp: place_stage_def Let_def split: option.splits sum.splits prod.splits)

lemma place_success:
  assumes "place venue_place ids req venue_arg hit s = (Some (Inr outcome), s')"
  shows "o_orders s' (rq_client_order_id req) = Some (po_record outcome)
    \<and> (if po_replayed outcome then o_orders s' = o_orders s
       else o_orders s (rq_client_order_id req) = None \<and> r_state (po_record outcome) \<noteq> Pending)"
proof -
  let ?s1 = "snd (latency_now s)"
  let ?venue = "if venue_arg = [] then o_default_venue ?s1 else venue_arg"
  have reg: "o_orders ?s1 = o_orders s" by (simp add: frame_simps)
  obtain nxt s2 where st: "place_stage ids req ?venue ?s1 = (nxt, s2)" by (rule prod.exhaust)
  show ?thesis
  proof (cases nxt)
    case (Return res)
    then have "res = Inr outcome" "s' = s2" using assms st by (auto simp: place_def place_begin_def case_prod_beta Let_def)
    with Return st place_stage_return [of ids req ?venue ?s1 outcome s2] reg show ?thesis by simp
  next
    case (Send c w)
    from place_stage_send [OF st [unfolded Send]] have "o_orders s (rq_client_order_id req) = None" by (simp add: reg)
    moreover have "place_finish req (venue_place c w) (place_send_latency req hit (fst (latency_now s)) s2) = (Inr outcome, s')"
      using assms st Send by (simp add: place_def place_begin_def case_prod_beta Let_def prod_eq_iff)
    ultimately show ?thesis using place_finish_success by auto
  next
    case Throw
    with assms st show ?thesis by (simp add: place_def place_begin_def case_prod_beta Let_def)
  qed
qed

lemma mapped_error_status: "fst (mapped_error e) \<in> {400, 404, 409, 500, 502}"
  by (simp add: mapped_error_def)

lemma map_error_status: "map_error dump e i = Some resp \<Longrightarrow> rs_status resp \<in> {400, 404, 409, 500, 502}"
  using mapped_error_status [of e]
  by (auto simp: map_error_def error_response_def json_response_def case_prod_beta split: option.splits)

lemma error_response_status: "error_response dump status cd reason i = Some resp \<Longrightarrow> rs_status resp = status"
  by (auto simp: error_response_def json_response_def split: option.splits)

lemma guarded_success:
  "guarded dump i response = Some resp \<Longrightarrow> rs_status resp \<noteq> 500 \<Longrightarrow> response = Some resp"
  by (auto simp: guarded_def internal_error_response_def dest: error_response_status split: option.splits)

text \<open>C16. What a client may conclude from a success. For a handler that runs alone, with no other thread
  between its two critical sections: when \<open>POST /orders\<close> answers 201 or 202, the body
  was a valid request, the registry holds the order and the answer describes that record.
  The status is 202 exactly when the venue has not acknowledged it, which is always a replay:
  a new order is answered with 201 only once it is no longer pending; a replay changes
  nothing in the registry.\<close>

theorem place_success_response:
  assumes "post_orders parse dump venue_place ids text s = (Some resp, s')" "rs_status resp \<in> {201, 202}"
  shows "\<exists>body req venue outcome. parse text = Some body \<and> validate_place (venues s) body = Inr (req, venue)
    \<and> o_orders s' (rq_client_order_id req) = Some (po_record outcome)
    \<and> dump (place_response_json outcome) = Some (rs_body resp)
    \<and> (rs_status resp = 202 \<longleftrightarrow> r_state (po_record outcome) = Pending)
    \<and> (r_state (po_record outcome) = Pending \<longrightarrow> po_replayed outcome)
    \<and> (if po_replayed outcome then o_orders s' = o_orders s else o_orders s (rq_client_order_id req) = None)"
proof -
  let ?s1 = "snd (latency_now s)"
  have s1: "venues ?s1 = venues s" "o_orders ?s1 = o_orders s"
    by (simp_all add: venues_def latency_now_def lat_now_def frame_simps split: option.splits)
  have not500: "rs_status resp \<noteq> 500" using assms(2) by auto
  note run = assms(1) [unfolded post_orders_def]
  have "\<exists>body. parse_json_body parse dump text = Inr body"
    using run assms(2) guarded_success [OF _ not500] error_response_status
    by (fastforce simp: case_prod_beta parse_json_body_def split: option.splits if_splits)
  then obtain body where body: "parse_json_body parse dump text = Inr body" by blast
  have "\<exists>req venue. validate_place (venues s) body = Inr (req, venue)"
    using run assms(2) guarded_success [OF _ not500] error_response_status
    by (fastforce simp: case_prod_beta body s1 split: sum.splits)
  then obtain req venue where v: "validate_place (venues s) body = Inr (req, venue)" by blast
  obtain pres s2 where pl: "place venue_place ids req venue (fst (latency_now s)) ?s1 = (pres, s2)" by (rule prod.exhaust)
  have s2: "s' = s2" and g: "guarded dump [] (case pres of None \<Rightarrow> None | Some res \<Rightarrow> place_response dump (rq_client_order_id req) res) = Some resp"
    using run body v pl by (auto simp: case_prod_beta s1 split: option.splits)
  from guarded_success [OF g not500] obtain res where res: "pres = Some res" "place_response dump (rq_client_order_id req) res = Some resp"
    by (cases pres) auto
  with assms(2) obtain outcome where o: "res = Inr outcome" "json_response dump (place_status outcome) (place_response_json outcome) = Some resp"
    using map_error_status by (cases res) (fastforce simp: place_response_def)+
  note succ = place_success [OF pl [unfolded res(1) o(1)]]
  have "parse text = Some body" using body by (auto simp: parse_json_body_def split: option.splits if_splits)
  moreover have "dump (place_response_json outcome) = Some (rs_body resp)" "rs_status resp = place_status outcome"
    using o(2) by (auto simp: json_response_def split: option.splits)
  ultimately show ?thesis
    using v succ s2 s1 by (intro exI [of _ body] exI [of _ req] exI [of _ venue] exI [of _ outcome])
      (auto simp: place_status_def split: if_splits)
qed

text \<open>A text for every value, enough to run the routes.\<close>

definition demo_dump :: dumper where
  "demo_dump j = Some ''{}''"

abbreviation demo_rest_request :: order_request where
  "demo_rest_request \<equiv> \<lparr>rq_client_order_id = ''a1'', rq_instrument_id = ''I'', rq_side = Buy, rq_type = Market,
     rq_price = [], rq_quantity = ''2'', rq_time_in_force = []\<rparr>"

theorem place_success_response_witness:
  "\<exists>resp s'. post_orders (\<lambda>_. Some (place_body demo_rest_request [])) demo_dump
       (\<lambda>_ _. Inr \<lparr>pl_client_order_id = ''a1'', pl_exchange_order_id = ''x1''\<rparr>) [] []
       (new_oms [''okx''] None empty_risk_config ''okx'' None) = (Some resp, s')
     \<and> rs_status resp = 201 \<and> (\<exists>r. o_orders s' ''a1'' = Some r \<and> r_state r \<noteq> Pending)"
proof -
  let ?run = "post_orders (\<lambda>_. Some (place_body demo_rest_request [])) demo_dump
       (\<lambda>_ _. Inr \<lparr>pl_client_order_id = ''a1'', pl_exchange_order_id = ''x1''\<rparr>) [] []
       (new_oms [''okx''] None empty_risk_config ''okx'' None)"
  have st: "map_option rs_status (fst ?run) = Some 201" by code_simp
  then obtain resp s' where run: "?run = (Some resp, s')" by (cases ?run) auto
  with st have "rs_status resp = 201" by simp
  then have in2: "rs_status resp \<in> {201, 202}" by simp
  have v: "validate_place [''okx''] (place_body demo_rest_request []) = Inr (demo_rest_request, [])" by code_simp
  have "venues (new_oms [''okx''] None empty_risk_config ''okx'' None) = [''okx'']" by (simp add: venues_def new_oms_def)
  with place_success_response [OF run in2] v \<open>rs_status resp = 201\<close> have "\<exists>r. o_orders s' ''a1'' = Some r \<and> r_state r \<noteq> Pending"
    by auto
  with run \<open>rs_status resp = 201\<close> show ?thesis by blast
qed

section \<open>Where the routes surprise\<close>

text \<open>An amend that meets an amend still in flight is told \<open>order_busy\<close> by the core; no case of
  \<open>map_error\<close> knows that code, so the client gets 500 \<open>internal\<close>.\<close>

lemma busy_amend_is_internal_error:
  assumes "o_orders s i = Some r" "r_state r \<in> {Live, PartiallyFilled}" "connector_for_record s r = Some c"
    and "validate_amend i body = Inr cmd"
    and "amend_risk ids s r (opt_or (ac_new_price cmd) (r_price r)) (opt_or (ac_new_quantity cmd) (r_quantity r)) = Inr None"
    and "o_raced s i = Some buf" "parse text = Some body" "is_object body"
  shows "\<exists>reason. put_order parse dump venue_amend ids i text s
    = (guarded dump i (error_response dump 500 ''internal'' reason i), s)"
proof -
  have cmd: "ac_client_order_id cmd = i" "\<not> (ac_new_price cmd = None \<and> ac_new_quantity cmd = None)"
    using assms(4) by (auto simp: validate_amend_def Let_def split: if_splits)
  have "r_state r \<noteq> Pending" "\<not> is_terminal (r_state r)" using assms(2) by auto
  then have "amend venue_amend ids cmd s = (Some (Inl (Error ''order_busy''
      (''a place/amend for '' @ i @ '' is still in flight; retry once it resolves''))), s)"
    using assms cmd by (simp add: amend_def amend_begin_def Let_def)
  then show ?thesis
    using assms(4,7,8) by (auto simp: put_order_def parse_json_body_def map_error_def mapped_error_def has_prefix_def)
qed

text \<open>A member of the wrong JSON type is treated as absent: a numeric \<open>venue\<close> selects the default
  venue, a numeric \<open>timeInForce\<close> is dropped, a numeric \<open>price\<close> turns into none, so that a market
  order with a price is accepted.\<close>

lemma wrong_type_is_absent:
  assumes "jfind body nm = Some j" "\<And>t. j \<noteq> JStr t"
  shows "optional_string_field body nm = None" "rest_string_field body nm = []"
    "nm = ''venue'' \<Longrightarrow> place_venue supported body = Inr []" "nm = ''timeInForce'' \<Longrightarrow> place_tif ty body = Inr []"
proof -
  show o: "optional_string_field body nm = None" and "rest_string_field body nm = []"
    using assms by (auto simp: optional_string_field_def rest_string_field_def split: json.splits)
  show "nm = ''venue'' \<Longrightarrow> place_venue supported body = Inr []" "nm = ''timeInForce'' \<Longrightarrow> place_tif ty body = Inr []"
    using o by (simp_all add: place_venue_def place_tif_def)
qed

end
