(* ===== verification/OKX_Wire.thy ===== *)
theory OKX_Wire
  imports Json Connector_Types
begin

text \<open>
  The OKX wire format, \<^verbatim>\<open>src/exchange/okx/okx_wire.hpp\<close> and \<^verbatim>\<open>okx_wire.cpp\<close>: request and reply
  structures, request bodies, query strings and the decoding of replies. \<open>dump\<close> is the JSON
  library's printer, which only matters for reply fields that are not strings.
\<close>

section \<open>Definitions\<close>

record okx_place_request =
  op_cl_ord_id :: string
  op_inst_id :: string
  op_side :: string
  op_ord_type :: string
  op_px :: string
  op_sz :: string
  op_td_if :: string
  op_td_mode :: string

record okx_cxl_request =
  oc_inst_id :: string
  oc_cl_ord_id :: string

record okx_amend_request =
  oa_inst_id :: string
  oa_cl_ord_id :: string
  oa_new_px :: "string option"
  oa_new_sz :: "string option"

record okx_query =
  okq_inst_id :: string
  okq_cl_ord_id :: string

record okx_demo_balance_adjustment =
  ob_ccy :: string
  ob_amt :: string

record okx_demo_balance_request =
  ob_type :: string
  ob_adjustments :: "okx_demo_balance_adjustment list"

record okx_order_ack =
  ack_ord_id :: string
  ack_cl_ord_id :: string
  ack_s_code :: string
  ack_s_msg :: string

record okx_order_info =
  oi_ord_id :: string
  oi_cl_ord_id :: string
  oi_inst_id :: string
  oi_state :: string
  oi_side :: string
  oi_ord_type :: string
  oi_px :: string
  oi_sz :: string
  oi_avg_px :: string
  oi_acc_fill_sz :: string

text \<open>A value-initialized \<open>OkxOrderInfo\<close>.\<close>

definition empty_order_info :: okx_order_info where
  "empty_order_info = \<lparr>oi_ord_id = [], oi_cl_ord_id = [], oi_inst_id = [], oi_state = [], oi_side = [],
     oi_ord_type = [], oi_px = [], oi_sz = [], oi_avg_px = [], oi_acc_fill_sz = []\<rparr>"

definition field_string :: "(json \<Rightarrow> string) \<Rightarrow> json \<Rightarrow> string \<Rightarrow> string" where
  "field_string dump item nm =
     (case jfind item nm of
        None \<Rightarrow> []
      | Some JNull \<Rightarrow> []
      | Some (JStr s) \<Rightarrow> s
      | Some j \<Rightarrow> dump j)"

definition map_okx_state :: "string \<Rightarrow> order_state option" where
  "map_okx_state s =
     (if s = ''live'' then Some Live
      else if s = ''partially_filled'' then Some PartiallyFilled
      else if s = ''filled'' then Some Filled
      else if s = ''canceled'' then Some Canceled
      else None)"

definition map_okx_side :: "string \<Rightarrow> side option" where
  "map_okx_side s = (if s = ''buy'' then Some Buy else if s = ''sell'' then Some Sell else None)"

definition place_to_json :: "okx_place_request \<Rightarrow> json" where
  "place_to_json r =
     (let body = jobject [(''clOrdId'', JStr (op_cl_ord_id r)), (''instId'', JStr (op_inst_id r)),
            (''tdMode'', JStr (op_td_mode r)), (''side'', JStr (op_side r)),
            (''ordType'', JStr (op_ord_type r)), (''px'', JStr (op_px r)), (''sz'', JStr (op_sz r))];
          body1 = (if op_px r = [] then jerase body ''px'' else body)
      in if op_td_if r \<noteq> [] then jset body1 ''tdIf'' (JStr (op_td_if r)) else body1)"

definition cancel_to_json :: "okx_cxl_request \<Rightarrow> json" where
  "cancel_to_json r = jobject [(''instId'', JStr (oc_inst_id r)), (''clOrdId'', JStr (oc_cl_ord_id r))]"

definition amend_to_json :: "okx_amend_request \<Rightarrow> json result" where
  "amend_to_json r =
     (if oa_new_px r = None \<and> oa_new_sz r = None then Inl (Error ''protocol'' ''amend requires newPx and/or newSz'')
      else
        let body = jobject [(''instId'', JStr (oa_inst_id r)), (''clOrdId'', JStr (oa_cl_ord_id r))];
            body1 = (case oa_new_px r of Some px \<Rightarrow> jset body ''newPx'' (JStr px) | None \<Rightarrow> body);
            body2 = (case oa_new_sz r of Some sz \<Rightarrow> jset body1 ''newSz'' (JStr sz) | None \<Rightarrow> body1)
        in Inr body2)"

text \<open>\<open>kHex[n]\<close> and the percent encoding.\<close>

definition hex_digit :: "nat \<Rightarrow> char" where
  "hex_digit n = ''0123456789ABCDEF'' ! n"

definition unreserved :: "char \<Rightarrow> bool" where
  "unreserved c \<longleftrightarrow> (65 \<le> ascii c \<and> ascii c \<le> 90) \<or> (97 \<le> ascii c \<and> ascii c \<le> 122)
     \<or> (48 \<le> ascii c \<and> ascii c \<le> 57) \<or> c = CHR ''-'' \<or> c = CHR ''_'' \<or> c = CHR ''.'' \<or> c = CHR ''~''"

fun url_encode :: "string \<Rightarrow> string" where
  "url_encode [] = []"
| "url_encode (c # cs) =
     (if unreserved c then c # url_encode cs
      else CHR ''%'' # hex_digit (ascii c div 16) # hex_digit (ascii c mod 16) # url_encode cs)"

definition to_query :: "okx_query \<Rightarrow> string" where
  "to_query q = ''instId='' @ url_encode (okq_inst_id q) @ ''&clOrdId='' @ url_encode (okq_cl_ord_id q)"

definition demo_balance_to_json :: "okx_demo_balance_request \<Rightarrow> json" where
  "demo_balance_to_json r = jobject
     [(''type'', JStr (ob_type r)),
      (''adjustments'', JArr (map (\<lambda>a. jobject [(''ccy'', JStr (ob_ccy a)), (''amt'', JStr (ob_amt a))])
         (ob_adjustments r)))]"

definition parse_order_ack :: "(json \<Rightarrow> string) \<Rightarrow> json \<Rightarrow> okx_order_ack" where
  "parse_order_ack dump item =
     \<lparr>ack_ord_id = field_string dump item ''ordId'', ack_cl_ord_id = field_string dump item ''clOrdId'',
      ack_s_code = field_string dump item ''sCode'', ack_s_msg = field_string dump item ''sMsg''\<rparr>"

definition parse_order_info :: "(json \<Rightarrow> string) \<Rightarrow> json \<Rightarrow> okx_order_info" where
  "parse_order_info dump item =
     \<lparr>oi_ord_id = field_string dump item ''ordId'', oi_cl_ord_id = field_string dump item ''clOrdId'',
      oi_inst_id = field_string dump item ''instId'', oi_state = field_string dump item ''state'',
      oi_side = field_string dump item ''side'', oi_ord_type = field_string dump item ''ordType'',
      oi_px = field_string dump item ''px'', oi_sz = field_string dump item ''sz'',
      oi_avg_px = field_string dump item ''avgPx'', oi_acc_fill_sz = field_string dump item ''accFillSz''\<rparr>"

section \<open>Query strings can be read back\<close>

text \<open>The reader a server applies to a query component.\<close>

definition hex_value :: "char \<Rightarrow> nat" where
  "hex_value c = (if ascii c < 58 then ascii c - 48 else ascii c - 55)"

fun url_decode :: "string \<Rightarrow> string" where
  "url_decode (c # a # b # cs) =
     (if c = CHR ''%'' then char_of (hex_value a * 16 + hex_value b) # url_decode cs
      else c # url_decode (a # b # cs))"
| "url_decode cs = cs"

lemma hex_digit_cases: "(n::nat) < 16 \<Longrightarrow> n \<in> {0,1,2,3,4,5,6,7,8,9,10,11,12,13,14,15}"
  by simp presburger

lemma hex_value_digit: "n < 16 \<Longrightarrow> hex_value (hex_digit n) = n"
  by (drule hex_digit_cases) (auto simp: hex_value_def hex_digit_def ascii_def)

lemma hex_digit_alnum: "n < 16 \<Longrightarrow> hex_digit n \<noteq> CHR ''&'' \<and> hex_digit n \<noteq> CHR ''='' \<and> hex_digit n \<noteq> CHR ''%''"
  by (drule hex_digit_cases) (auto simp: hex_digit_def)

lemma ascii_less: "ascii c < 256"
  by (simp add: ascii_def)

lemma url_decode_plain: "c \<noteq> CHR ''%'' \<Longrightarrow> url_decode (c # cs) = c # url_decode cs"
  by (cases cs; cases "tl cs") auto

lemma unreserved_plain: "unreserved c \<Longrightarrow> c \<noteq> CHR ''%'' \<and> c \<noteq> CHR ''&'' \<and> c \<noteq> CHR ''=''"
  by (auto simp: unreserved_def ascii_def)

lemma url_decode_encode: "url_decode (url_encode s) = s"
proof (induction s)
  case (Cons c s)
  show ?case
  proof (cases "unreserved c")
    case True
    with Cons show ?thesis by (simp add: url_decode_plain unreserved_plain)
  next
    case False
    have "ascii c div 16 < 16" using ascii_less [of c] by simp
    then have "hex_value (hex_digit (ascii c div 16)) * 16 + hex_value (hex_digit (ascii c mod 16)) = ascii c"
      by (simp add: hex_value_digit)
    with False Cons show ?thesis by (simp add: ascii_def)
  qed
qed simp

lemma url_encode_safe: "c \<in> set (url_encode s) \<Longrightarrow> c \<noteq> CHR ''&'' \<and> c \<noteq> CHR ''=''"
proof (induction s)
  case (Cons d s)
  have "ascii d div 16 < 16" using ascii_less [of d] by simp
  with Cons show ?case
    using hex_digit_alnum [of "ascii d div 16"] hex_digit_alnum [of "ascii d mod 16"] unreserved_plain [of d]
    by (auto split: if_splits)
qed simp

lemma split_at_separator:
  assumes "xs @ s # ys = xs' @ s # ys'" "s \<notin> set xs" "s \<notin> set xs'"
  shows "xs = xs' \<and> ys = ys'"
  using assms by (induction xs arbitrary: xs') (case_tac xs'; auto)+

section \<open>Properties\<close>

text \<open>The query string of an order lookup names exactly one order: percent-decoding undoes
  \<open>url_encode\<close> on every byte string, an encoded component never contains a separator, and
  two queries with the same query string are the same query.\<close>

lemma okx_query_roundtrip:
  "url_decode (url_encode s) = s \<and> CHR ''&'' \<notin> set (url_encode s) \<and> CHR ''='' \<notin> set (url_encode s)
   \<and> (to_query q = to_query q' \<longleftrightarrow> q = q')"
proof -
  have inj: "url_encode a = url_encode b \<Longrightarrow> a = b" for a b by (metis url_decode_encode)
  have "q = q'" if "to_query q = to_query q'"
  proof -
    have "url_encode (okq_inst_id q) @ CHR ''&'' # (''clOrdId='' @ url_encode (okq_cl_ord_id q))
        = url_encode (okq_inst_id q') @ CHR ''&'' # (''clOrdId='' @ url_encode (okq_cl_ord_id q'))"
      using that by (simp add: to_query_def)
    from split_at_separator [OF this] have "url_encode (okq_inst_id q) = url_encode (okq_inst_id q')"
      "url_encode (okq_cl_ord_id q) = url_encode (okq_cl_ord_id q')"
      using url_encode_safe by auto
    then show ?thesis using inj by (simp add: okx_query.equality)
  qed
  then show ?thesis using url_decode_encode url_encode_safe by blast
qed

end
