(* ===== verification/Double.thy ===== *)
theory Double
  imports Prelude
begin

text \<open>
  The C++ type \<open>double\<close> where the gateway computes with it (retry delays): a finite value is its
  exact rational, and every operation rounds its exact result to 53 significant bits, ties to
  even, as IEEE 754 prescribes. The exponent is unbounded here. The sources only compare a
  product with a bound or subtract it from 1 after an operation that could leave the range of
  normal numbers, and both give the same answer for an infinite or a subnormal operand.
\<close>

function bit_length :: "int \<Rightarrow> nat" where
  "bit_length n = (if n \<le> 0 then 0 else Suc (bit_length (n div 2)))"
  by pat_completeness auto
termination
  by (relation "measure nat") (auto simp: nat_less_eq_zless)

declare bit_length.simps [simp del]

text \<open>\<open>magnitude x\<close> is the exponent \<open>m\<close> with \<open>2\<^sup>m \<le> x < 2\<^sup>m\<^sup>+\<^sup>1\<close>, for positive \<open>x\<close>.\<close>

definition magnitude :: "rat \<Rightarrow> int" where
  "magnitude x = (case quotient_of x of (p, q) \<Rightarrow>
     let k = int (bit_length p) - int (bit_length q)
     in if 2 powi k \<le> x then k else k - 1)"

definition round_half_even :: "rat \<Rightarrow> int" where
  "round_half_even x =
     (let f = \<lfloor>x\<rfloor>; d = x - of_int f
      in if d < 1 / 2 then f else if d > 1 / 2 then f + 1 else if even f then f else f + 1)"

definition dbl_pos :: "rat \<Rightarrow> rat" where
  "dbl_pos x = (let e = magnitude x - 52 in of_int (round_half_even (x / 2 powi e)) * 2 powi e)"

definition dbl :: "rat \<Rightarrow> rat" where
  "dbl x = (if x = 0 then 0 else if x < 0 then - dbl_pos (- x) else dbl_pos x)"

text \<open>Conversion to an integer type and \<open>duration_cast\<close> to coarser ticks: towards zero.\<close>

definition truncate_toward_zero :: "rat \<Rightarrow> int" where
  "truncate_toward_zero x = (if x < 0 then \<lceil>x\<rceil> else \<lfloor>x\<rfloor>)"

section \<open>Rounding is monotone and keeps small integers\<close>

lemma bit_length_bounds: "0 < n \<Longrightarrow> 2 ^ (bit_length n - 1) \<le> n \<and> n < 2 ^ bit_length n \<and> 0 < bit_length n"
proof (induction n rule: bit_length.induct)
  case (1 n)
  show ?case
  proof (cases "n div 2 = 0")
    case True
    with 1 have "n = 1" by linarith
    then show ?thesis by (simp add: bit_length.simps [of 1] bit_length.simps [of 0])
  next
    case False
    with 1 have b: "2 ^ (bit_length (n div 2) - 1) \<le> n div 2" "n div 2 < 2 ^ bit_length (n div 2)"
      "0 < bit_length (n div 2)" by (simp_all add: pos_imp_zdiv_pos_iff)
    obtain k where k: "bit_length (n div 2) = Suc k" using b(3) by (cases "bit_length (n div 2)") simp_all
    have "2 ^ k * 2 \<le> n" using b(1) k by simp
    moreover have "n < 2 ^ Suc k * 2" using b(2) k by simp
    moreover have "bit_length n = Suc (Suc k)" using 1(2) k by (subst bit_length.simps) simp
    ultimately show ?thesis by simp
  qed
qed

lemma magnitude_bounds:
  assumes "0 < x"
  shows "2 powi magnitude x \<le> x" "x < 2 powi (magnitude x + 1)"
proof -
  obtain p q where pq: "quotient_of x = (p, q)" by fastforce
  have q: "0 < q" using quotient_of_denom_pos [OF pq] .
  have x: "x = of_int p / of_int q" using quotient_of_div [OF pq] .
  have p: "0 < p" using assms q unfolding x by (simp add: zero_less_divide_iff)
  let ?a = "bit_length p" and ?b = "bit_length q"
  have bp: "2 ^ (?a - 1) \<le> p" "p < 2 ^ ?a" "0 < ?a" using bit_length_bounds [of p] p by simp_all
  have bq: "2 ^ (?b - 1) \<le> q" "q < 2 ^ ?b" "0 < ?b" using bit_length_bounds [of q] q by simp_all
  have up: "(2::rat) ^ (?a - 1) \<le> of_int p" "of_int p < (2::rat) ^ ?a" using bp(1,2) by simp_all
  have uq: "(2::rat) ^ (?b - 1) \<le> of_int q" "of_int q < (2::rat) ^ ?b" using bq(1,2) by simp_all
  let ?k = "int ?a - int ?b"
  have "x \<le> of_int p / 2 ^ (?b - 1)" unfolding x using uq(1) p q by (intro divide_left_mono) auto
  also have "\<dots> < 2 ^ ?a / 2 ^ (?b - 1)" using up(2) by (intro divide_strict_right_mono) auto
  also have "\<dots> = 2 powi int ?a / 2 powi (int ?b - 1)" using bq(3) by (simp add: power_int_def nat_diff_distrib)
  also have "\<dots> = 2 powi (int ?a - (int ?b - 1))" by (rule power_int_diff [symmetric]) simp
  also have "int ?a - (int ?b - 1) = ?k + 1" by simp
  finally have hi: "x < 2 powi (?k + 1)" .
  have "?k - 1 = int ?a - 1 - int ?b" by simp
  then have "(2::rat) powi (?k - 1) = 2 powi (int ?a - 1) / 2 powi int ?b" by (simp only:) (rule power_int_diff, simp)
  also have "\<dots> = 2 ^ (?a - 1) / 2 ^ ?b" using bp(3) by (simp add: power_int_def nat_diff_distrib)
  also have "\<dots> \<le> of_int p / 2 ^ ?b" using up(1) by (intro divide_right_mono) auto
  also have "\<dots> \<le> x" unfolding x using uq(2) p q by (intro divide_left_mono) auto
  finally have lo: "2 powi (?k - 1) \<le> x" .
  have m: "magnitude x = (if 2 powi ?k \<le> x then ?k else ?k - 1)" by (simp add: magnitude_def pq Let_def)
  show "2 powi magnitude x \<le> x" "x < 2 powi (magnitude x + 1)" using lo hi by (auto simp: m not_le)
qed

lemma magnitude_mono:
  assumes "0 < x" "x \<le> y"
  shows "magnitude x \<le> magnitude y"
proof (rule ccontr)
  assume "\<not> magnitude x \<le> magnitude y"
  then have "(2::rat) powi (magnitude y + 1) \<le> 2 powi magnitude x" by (intro power_int_increasing) auto
  then show False using magnitude_bounds [of x] magnitude_bounds [of y] assms by linarith
qed

lemma round_half_even_mono: "x \<le> y \<Longrightarrow> round_half_even x \<le> round_half_even y"
proof -
  assume "x \<le> y"
  then have f: "\<lfloor>x\<rfloor> \<le> \<lfloor>y\<rfloor>" by (rule floor_mono)
  have b: "\<lfloor>z\<rfloor> \<le> round_half_even z" "round_half_even z \<le> \<lfloor>z\<rfloor> + 1" for z by (auto simp: round_half_even_def Let_def)
  show ?thesis
  proof (cases "\<lfloor>x\<rfloor> = \<lfloor>y\<rfloor>")
    case True
    with \<open>x \<le> y\<close> show ?thesis by (auto simp: round_half_even_def Let_def)
  next
    case False
    with f b(2) [of x] b(1) [of y] show ?thesis by linarith
  qed
qed

lemma round_half_even_int [simp]: "round_half_even (of_int n) = n"
  by (simp add: round_half_even_def)

text \<open>A multiple of the unit in the last place is kept.\<close>

lemma dbl_pos_multiple:
  assumes "x = of_int n * 2 powi (magnitude x - 52)"
  shows "dbl_pos x = x"
proof -
  have "x / 2 powi (magnitude x - 52) = of_int n" using assms by (metis nonzero_mult_div_cancel_right power_int_eq_0_iff zero_neq_numeral)
  then show ?thesis using assms by (simp add: dbl_pos_def Let_def)
qed

lemma dbl_pos_bounds:
  assumes "0 < x"
  shows "2 powi magnitude x \<le> dbl_pos x" "dbl_pos x \<le> 2 powi (magnitude x + 1)"
proof -
  let ?e = "magnitude x - 52" and ?u = "(2::rat) powi (magnitude x - 52)"
  have u: "0 < ?u" by simp
  have lo: "2 powi magnitude x = of_int (2 ^ 52) * ?u" and hi: "2 powi (magnitude x + 1) = of_int (2 ^ 53) * ?u"
    by (simp_all add: power_int_diff power_int_add)
  have "of_int (2 ^ 52) \<le> x / ?u" "x / ?u \<le> of_int (2 ^ 53)"
    using magnitude_bounds [OF assms] u unfolding lo hi by (simp_all add: pos_le_divide_eq pos_divide_le_eq)
  then have "2 ^ 52 \<le> round_half_even (x / ?u)" "round_half_even (x / ?u) \<le> 2 ^ 53"
    using round_half_even_mono [of "of_int (2 ^ 52)" "x / ?u"] round_half_even_mono [of "x / ?u" "of_int (2 ^ 53)"]
    by (simp_all only: round_half_even_int)
  then have "of_int (2 ^ 52) * ?u \<le> of_int (round_half_even (x / ?u)) * ?u"
    "of_int (round_half_even (x / ?u)) * ?u \<le> of_int (2 ^ 53) * ?u"
    using u by (auto intro!: mult_right_mono simp del: of_int_power simp: of_int_le_iff)
  then show "2 powi magnitude x \<le> dbl_pos x" "dbl_pos x \<le> 2 powi (magnitude x + 1)"
    unfolding lo hi by (simp_all add: dbl_pos_def Let_def)
qed

lemma dbl_pos_mono:
  assumes "0 < x" "x \<le> y"
  shows "dbl_pos x \<le> dbl_pos y"
proof (cases "magnitude x = magnitude y")
  case True
  have "round_half_even (x / 2 powi (magnitude y - 52)) \<le> round_half_even (y / 2 powi (magnitude y - 52))"
    using assms by (intro round_half_even_mono divide_right_mono) auto
  with True show ?thesis by (simp add: dbl_pos_def Let_def)
next
  case False
  then have "(2::rat) powi (magnitude x + 1) \<le> 2 powi magnitude y"
    using magnitude_mono [OF assms] by (intro power_int_increasing) auto
  then show ?thesis using dbl_pos_bounds(2) [of x] dbl_pos_bounds(1) [of y] assms by linarith
qed

lemma dbl_pos_positive: "0 < x \<Longrightarrow> 0 < dbl_pos x"
  using dbl_pos_bounds(1) [of x] by (meson less_le_trans zero_less_numeral zero_less_power_int)

lemma dbl_mono: "x \<le> y \<Longrightarrow> dbl x \<le> dbl y"
  using dbl_pos_mono [of x y] dbl_pos_mono [of "- y" "- x"] dbl_pos_positive [of y] dbl_pos_positive [of "- x"]
  by (auto simp: dbl_def intro: order_less_imp_le)

lemma dbl_zero [simp]: "dbl 0 = 0"
  by (simp add: dbl_def)

lemma dbl_of_int:
  assumes "\<bar>n\<bar> \<le> 2 ^ 53"
  shows "dbl (of_int n) = of_int n"
proof -
  have pos: "dbl_pos (of_int m) = of_int m" if m: "0 < m" "m \<le> 2 ^ 53" for m
  proof (cases "magnitude (of_int m) \<le> 52")
    case True
    then have "(of_int m :: rat) = of_int (m * 2 ^ nat (52 - magnitude (of_int m))) * 2 powi (magnitude (of_int m) - 52)"
      by (simp add: power_int_def power_mult_distrib [symmetric])
    then show ?thesis by (rule dbl_pos_multiple)
  next
    case False
    have "(2::rat) powi 53 \<le> 2 powi magnitude (of_int m)" using False by (intro power_int_increasing) auto
    also have "\<dots> \<le> of_int m" using magnitude_bounds(1) [of "of_int m"] m by simp
    finally have "of_int (2 ^ 53) \<le> (of_int m :: rat)" by (simp add: power_int_def)
    then have m53: "m = 2 ^ 53" using m(2) by (simp only: of_int_le_iff)
    have "magnitude (of_int m) = 53"
    proof (rule ccontr)
      assume "magnitude (of_int m) \<noteq> 53"
      then have "(2::rat) powi 54 \<le> 2 powi magnitude (of_int m)" using False by (intro power_int_increasing) auto
      also have "\<dots> \<le> of_int m" using magnitude_bounds(1) [of "of_int m"] m by simp
      finally show False by (simp add: m53 power_int_def)
    qed
    then show ?thesis using dbl_pos_multiple [of "of_int m" "2 ^ 52"] by (simp add: m53)
  qed
  show ?thesis using pos [of n] pos [of "- n"] assms by (auto simp: dbl_def)
qed

lemma dbl_1 [simp]: "dbl 1 = 1"
  using dbl_of_int [of 1] by simp

lemma dbl_nonneg: "0 \<le> x \<Longrightarrow> 0 \<le> dbl x"
  using dbl_mono [of 0 x] by simp

lemma dbl_le_int: "x \<le> of_int n \<Longrightarrow> \<bar>n\<bar> \<le> 2 ^ 53 \<Longrightarrow> dbl x \<le> of_int n"
  using dbl_mono [of x "of_int n"] by (simp add: dbl_of_int)

lemma dbl_ge_int: "of_int n \<le> x \<Longrightarrow> \<bar>n\<bar> \<le> 2 ^ 53 \<Longrightarrow> of_int n \<le> dbl x"
  using dbl_mono [of "of_int n" x] by (simp add: dbl_of_int)

end
