(* ===== verification/Retry.thy ===== *)
theory Retry
  imports Double Json
begin

text \<open>
  The retry engine, \<^verbatim>\<open>src/core/retry.hpp\<close> and \<^verbatim>\<open>src/core/retry.cpp\<close>. What an attempt, the clock
  and the random source do is described by functions on the state \<^typ>\<open>'w\<close> of their surroundings,
  which the loop threads from call to call. Clock readings are nanoseconds, policy
  durations milliseconds. The loop ends for every such environment because the attempt counter
  climbs to \<open>max_attempts\<close>.
\<close>

section \<open>Definitions\<close>

record retry_policy =
  rp_max_attempts :: int
  rp_initial_backoff :: int
  rp_max_backoff :: int
  rp_multiplier :: rat
  rp_jitter :: rat
  rp_budget :: int

definition default_policy :: retry_policy where
  "default_policy = \<lparr>rp_max_attempts = 3, rp_initial_backoff = 100, rp_max_backoff = 2000,
     rp_multiplier = 2, rp_jitter = 1 / 2, rp_budget = 5000\<rparr>"

record 'w retry_clock =
  rc_now :: "'w \<Rightarrow> int \<times> 'w"
  rc_sleep :: "int \<Rightarrow> 'w \<Rightarrow> 'w"
  rc_random01 :: "'w \<Rightarrow> rat \<times> 'w"

definition kMaxAttemptsLimit :: nat where "kMaxAttemptsLimit = 100"

definition kMaxDurationMs :: int where "kMaxDurationMs = 3600000"

definition unsigned_ms_field :: "json \<Rightarrow> string \<Rightarrow> int \<Rightarrow> string + int" where
  "unsigned_ms_field node nm dflt =
     (case jfind node nm of
        None \<Rightarrow> Inr dflt
      | Some (JUInt v) \<Rightarrow>
          if int v > kMaxDurationMs then Inl (''retry field '' @ [quote_char] @ nm @ [quote_char] @ '' is out of range'')
          else Inr (int v)
      | Some _ \<Rightarrow> Inl (''retry field '' @ [quote_char] @ nm @ [quote_char] @ '' must be an unsigned number''))"

text \<open>\<open>is_number()\<close> and \<open>get<double>()\<close>.\<close>

fun number_of :: "json \<Rightarrow> rat option" where
  "number_of (JInt i) = Some (dbl (of_int i))"
| "number_of (JUInt n) = Some (dbl (of_nat n))"
| "number_of (JFloat x) = Some x"
| "number_of _ = None"

definition max_attempts_field :: "json \<Rightarrow> int \<Rightarrow> int result" where
  "max_attempts_field node dflt =
     (case jfind node ''maxAttempts'' of
        None \<Rightarrow> Inr dflt
      | Some (JUInt v) \<Rightarrow>
          if v < 1 \<or> v > kMaxAttemptsLimit then
            Inl (Error ''protocol'' (''retry field '' @ [quote_char] @ ''maxAttempts'' @ [quote_char] @ '' must be in [1, 100]''))
          else Inr (int v)
      | Some _ \<Rightarrow>
          Inl (Error ''protocol'' (''retry field '' @ [quote_char] @ ''maxAttempts'' @ [quote_char] @ '' must be an unsigned number'')))"

definition multiplier_field :: "json \<Rightarrow> rat \<Rightarrow> rat result" where
  "multiplier_field node dflt =
     (case jfind node ''multiplier'' of
        None \<Rightarrow> Inr dflt
      | Some v \<Rightarrow> (case number_of v of
          None \<Rightarrow> Inl (Error ''protocol'' (''retry field '' @ [quote_char] @ ''multiplier'' @ [quote_char] @ '' must be a number''))
        | Some x \<Rightarrow>
            if \<not> x \<ge> 1 then
              Inl (Error ''protocol'' (''retry field '' @ [quote_char] @ ''multiplier'' @ [quote_char] @ '' must be >= 1.0''))
            else Inr x))"

definition jitter_field :: "json \<Rightarrow> rat \<Rightarrow> rat result" where
  "jitter_field node dflt =
     (case jfind node ''jitter'' of
        None \<Rightarrow> Inr dflt
      | Some v \<Rightarrow> (case number_of v of
          None \<Rightarrow> Inl (Error ''protocol'' (''retry field '' @ [quote_char] @ ''jitter'' @ [quote_char] @ '' must be a number''))
        | Some x \<Rightarrow>
            if \<not> (x \<ge> 0 \<and> x \<le> 1) then
              Inl (Error ''protocol'' (''retry field '' @ [quote_char] @ ''jitter'' @ [quote_char] @ '' must be in [0, 1]''))
            else Inr x))"

definition backoff_fields :: "json \<Rightarrow> retry_policy \<Rightarrow> (int \<times> int \<times> int) result" where
  "backoff_fields node defaults =
     (case unsigned_ms_field node ''initialBackoffMs'' (rp_initial_backoff defaults) of
        Inl e \<Rightarrow> Inl (Error ''protocol'' e)
      | Inr initial \<Rightarrow>
     (case unsigned_ms_field node ''maxBackoffMs'' (rp_max_backoff defaults) of
        Inl e \<Rightarrow> Inl (Error ''protocol'' e)
      | Inr max_backoff \<Rightarrow>
     (case unsigned_ms_field node ''budgetMs'' (rp_budget defaults) of
        Inl e \<Rightarrow> Inl (Error ''protocol'' e)
      | Inr budget \<Rightarrow>
          if max_backoff < initial then
            Inl (Error ''protocol'' ''retry maxBackoffMs must be >= initialBackoffMs'')
          else Inr (initial, max_backoff, budget))))"

definition retry_policy_from_json :: "json \<Rightarrow> retry_policy \<Rightarrow> retry_policy result" where
  "retry_policy_from_json node defaults =
     (if \<not> is_object node then Inl (Error ''protocol'' ''retry config must be a JSON object'')
      else case max_attempts_field node (rp_max_attempts defaults) of
        Inl e \<Rightarrow> Inl e
      | Inr attempts \<Rightarrow> (case backoff_fields node defaults of
        Inl e \<Rightarrow> Inl e
      | Inr (initial, max_backoff, budget) \<Rightarrow> (case multiplier_field node (rp_multiplier defaults) of
        Inl e \<Rightarrow> Inl e
      | Inr multiplier \<Rightarrow> (case jitter_field node (rp_jitter defaults) of
        Inl e \<Rightarrow> Inl e
      | Inr jitter \<Rightarrow>
          Inr \<lparr>rp_max_attempts = attempts, rp_initial_backoff = initial, rp_max_backoff = max_backoff,
               rp_multiplier = multiplier, rp_jitter = jitter, rp_budget = budget\<rparr>))))"

text \<open>The loop of \<open>backoff_for\<close>: \<open>n\<close> multiplications are left, \<open>None\<close> is the early return.\<close>

fun backoff_loop :: "retry_policy \<Rightarrow> nat \<Rightarrow> rat \<Rightarrow> rat option" where
  "backoff_loop policy 0 raw = Some raw"
| "backoff_loop policy (Suc n) raw =
     (let raw' = dbl (raw * rp_multiplier policy)
      in if raw' \<ge> dbl (of_int (rp_max_backoff policy)) then None else backoff_loop policy n raw')"

definition backoff_for :: "retry_policy \<Rightarrow> int \<Rightarrow> int" where
  "backoff_for policy retry_index =
     (let index = max retry_index 1
      in case backoff_loop policy (nat (index - 1)) (dbl (of_int (rp_initial_backoff policy))) of
           None \<Rightarrow> rp_max_backoff policy
         | Some raw \<Rightarrow> max (min (truncate_toward_zero raw) (rp_max_backoff policy)) 0)"

definition apply_jitter :: "retry_policy \<Rightarrow> int \<Rightarrow> rat \<Rightarrow> int" where
  "apply_jitter policy raw u01 =
     (let clamped = (if u01 < 0 then 0 else if dbl (999999 / 1000000) < u01 then dbl (999999 / 1000000) else u01);
          factor = dbl (1 - dbl (rp_jitter policy * clamped));
          jittered = truncate_toward_zero (dbl (dbl (of_int raw) * factor))
      in max jittered 0)"

definition retry_exhausted :: error where
  "retry_exhausted = Error ''protocol'' ''retry driver exhausted attempts''"

text \<open>The delay before the next attempt, cut at the deadline (nanoseconds against milliseconds).\<close>

definition retry_delay :: "retry_policy \<Rightarrow> int \<Rightarrow> int \<Rightarrow> rat \<Rightarrow> int" where
  "retry_delay policy attempt_index remaining u01 =
     (let delay = apply_jitter policy (backoff_for policy (attempt_index + 1)) u01
      in if delay * 1000000 > remaining then truncate_toward_zero (of_int remaining / 1000000) else delay)"

function retry_loop :: "retry_policy \<Rightarrow> 'w retry_clock \<Rightarrow> ('w \<Rightarrow> 'a result \<times> 'w)
    \<Rightarrow> (error \<Rightarrow> 'w \<Rightarrow> bool) \<Rightarrow> int \<Rightarrow> int \<Rightarrow> 'w \<Rightarrow> 'a result \<times> 'w" where
  "retry_loop policy clk attempt retryable deadline attempt_index w =
     (if \<not> attempt_index < rp_max_attempts policy then (Inl retry_exhausted, w)
      else case attempt w of (result, w1) \<Rightarrow>
        case result of
          Inr v \<Rightarrow> (Inr v, w1)
        | Inl e \<Rightarrow>
            if attempt_index + 1 \<ge> rp_max_attempts policy \<or> \<not> retryable e w1 then (Inl e, w1)
            else case rc_now clk w1 of (failed_at, w2) \<Rightarrow>
              if failed_at \<ge> deadline then (Inl e, w2)
              else case rc_random01 clk w2 of (u01, w3) \<Rightarrow>
                retry_loop policy clk attempt retryable deadline (attempt_index + 1)
                  (rc_sleep clk (retry_delay policy attempt_index (deadline - failed_at) u01) w3))"
  by pat_completeness auto
termination
  by (relation "measure (\<lambda>(policy, clk, attempt, retryable, deadline, k, w). nat (rp_max_attempts policy - k))") auto

declare retry_loop.simps [simp del]

definition with_retries :: "retry_policy \<Rightarrow> 'w retry_clock \<Rightarrow> ('w \<Rightarrow> 'a result \<times> 'w)
    \<Rightarrow> (error \<Rightarrow> 'w \<Rightarrow> bool) \<Rightarrow> 'w \<Rightarrow> 'a result \<times> 'w" where
  "with_retries policy clk attempt retryable w =
     (case rc_now clk w of (t, w1) \<Rightarrow>
        retry_loop policy clk attempt retryable (t + rp_budget policy * 1000000) 0 w1)"

section \<open>Bounds of the delays\<close>

definition policy_ok :: "retry_policy \<Rightarrow> bool" where
  "policy_ok p \<longleftrightarrow> 1 \<le> rp_max_attempts p \<and> rp_max_attempts p \<le> int kMaxAttemptsLimit
     \<and> 0 \<le> rp_initial_backoff p \<and> rp_initial_backoff p \<le> rp_max_backoff p
     \<and> rp_max_backoff p \<le> kMaxDurationMs \<and> 0 \<le> rp_budget p \<and> rp_budget p \<le> kMaxDurationMs
     \<and> 1 \<le> rp_multiplier p \<and> 0 \<le> rp_jitter p \<and> rp_jitter p \<le> 1"

lemma truncate_bounds:
  "0 \<le> x \<Longrightarrow> 0 \<le> truncate_toward_zero x" "x \<le> of_int n \<Longrightarrow> 0 \<le> x \<Longrightarrow> truncate_toward_zero x \<le> n"
  "0 \<le> x \<Longrightarrow> x \<le> y \<Longrightarrow> truncate_toward_zero x \<le> truncate_toward_zero y"
  "truncate_toward_zero (of_int n) = n"
  by (auto simp: truncate_toward_zero_def floor_le_iff floor_mono) linarith

lemma clamp_range: "0 \<le> dbl (999999 / 1000000)" "dbl (999999 / 1000000) \<le> 1"
  using dbl_nonneg [of "999999 / 1000000"] dbl_le_int [of "999999 / 1000000" 1] by simp_all

lemma apply_jitter_range:
  assumes "0 \<le> rp_jitter p" "rp_jitter p \<le> 1" "0 \<le> raw" "raw \<le> 2 ^ 53"
  shows "0 \<le> apply_jitter p raw u" "apply_jitter p raw u \<le> raw"
proof -
  define c where "c = (if u < 0 then 0 else if dbl (999999 / 1000000) < u then dbl (999999 / 1000000) else u)"
  define f where "f = dbl (1 - dbl (rp_jitter p * c))"
  have c: "0 \<le> c" "c \<le> 1" using clamp_range by (auto simp: c_def)
  have "rp_jitter p * c \<le> of_int 1" using assms(1,2) c by (simp add: mult_le_one)
  then have "0 \<le> dbl (rp_jitter p * c)" "dbl (rp_jitter p * c) \<le> 1"
    using dbl_nonneg [of "rp_jitter p * c"] dbl_le_int [of "rp_jitter p * c" 1] assms(1) c by simp_all
  then have f: "0 \<le> f" "f \<le> 1"
    unfolding f_def using dbl_nonneg [of "1 - dbl (rp_jitter p * c)"] dbl_le_int [of "1 - dbl (rp_jitter p * c)" 1] by simp_all
  have raw: "dbl (of_int raw) = of_int raw" using assms by (intro dbl_of_int) simp
  have "of_int raw * f \<le> of_int raw" using f assms(3) by (simp add: mult_left_le)
  then have d: "dbl (of_int raw * f) \<le> of_int raw" "0 \<le> dbl (of_int raw * f)"
    using dbl_le_int [of "of_int raw * f" raw] dbl_nonneg [of "of_int raw * f"] assms f by simp_all
  have "apply_jitter p raw u = max (truncate_toward_zero (dbl (of_int raw * f))) 0"
    by (simp add: apply_jitter_def c_def f_def raw Let_def)
  then show "0 \<le> apply_jitter p raw u" "apply_jitter p raw u \<le> raw"
    using truncate_bounds(2) [OF d] assms(3) by simp_all
qed

text \<open>The backoff sequence before it is capped.\<close>

definition raw_backoff :: "retry_policy \<Rightarrow> nat \<Rightarrow> rat" where
  "raw_backoff p n = ((\<lambda>x. dbl (x * rp_multiplier p)) ^^ n) (dbl (of_int (rp_initial_backoff p)))"

lemma raw_backoff_simps [simp]:
  "raw_backoff p 0 = dbl (of_int (rp_initial_backoff p))"
  "raw_backoff p (Suc n) = dbl (raw_backoff p n * rp_multiplier p)"
  by (simp_all add: raw_backoff_def)

lemma policy_ok_ints:
  assumes "policy_ok p"
  shows "dbl (of_int (rp_initial_backoff p)) = of_int (rp_initial_backoff p)"
    "dbl (of_int (rp_max_backoff p)) = of_int (rp_max_backoff p)"
  using assms by (auto simp: policy_ok_def kMaxDurationMs_def intro!: dbl_of_int)

lemma raw_backoff_mono:
  assumes "policy_ok p"
  shows "0 \<le> raw_backoff p n" "raw_backoff p n \<le> raw_backoff p (Suc n)"
proof -
  have m: "1 \<le> rp_multiplier p" using assms by (simp add: policy_ok_def)
  have nn: "0 \<le> raw_backoff p k" for k
  proof (induction k)
    case 0
    then show ?case using assms by (simp add: policy_ok_ints policy_ok_def)
  next
    case (Suc k)
    then show ?case using m by (simp add: dbl_nonneg)
  qed
  then show "0 \<le> raw_backoff p n" .
  show "raw_backoff p n \<le> raw_backoff p (Suc n)"
  proof (induction n)
    case 0
    have "of_int (rp_initial_backoff p) \<le> of_int (rp_initial_backoff p) * rp_multiplier p"
      using m nn [of 0] assms by (simp add: policy_ok_ints mult_le_cancel_left1)
    from dbl_mono [OF this] show ?case using assms by (simp add: policy_ok_ints)
  next
    case (Suc n)
    then have "raw_backoff p n * rp_multiplier p \<le> raw_backoff p (Suc n) * rp_multiplier p"
      using m by (intro mult_right_mono) auto
    from dbl_mono [OF this] show ?case by simp
  qed
qed

lemma raw_backoff_le: "policy_ok p \<Longrightarrow> m \<le> n \<Longrightarrow> raw_backoff p m \<le> raw_backoff p n"
  using lift_Suc_mono_le [of "raw_backoff p" m n] raw_backoff_mono(2) by blast

text \<open>Without intermediate caps, the loop stops early exactly when the last product would be
  capped.\<close>

lemma backoff_loop_raw:
  assumes "policy_ok p"
  shows "backoff_loop p n (raw_backoff p k) =
    (if n \<noteq> 0 \<and> of_int (rp_max_backoff p) \<le> raw_backoff p (k + n) then None else Some (raw_backoff p (k + n)))"
proof (induction n arbitrary: k)
  case (Suc n)
  have step: "backoff_loop p (Suc n) (raw_backoff p k) =
      (if of_int (rp_max_backoff p) \<le> raw_backoff p (Suc k) then None else backoff_loop p n (raw_backoff p (Suc k)))"
    using assms by (simp add: policy_ok_ints Let_def)
  show ?case
    unfolding step Suc.IH using raw_backoff_le [OF assms, of "Suc k" "Suc k + n"] by auto
qed simp

lemma backoff_for_raw:
  assumes "policy_ok p"
  shows "backoff_for p (int n + 1) =
    (if n \<noteq> 0 \<and> of_int (rp_max_backoff p) \<le> raw_backoff p n then rp_max_backoff p
     else min \<lfloor>raw_backoff p n\<rfloor> (rp_max_backoff p))"
proof -
  have "nat (max (int n + 1) 1 - 1) = n" by simp
  then have "backoff_for p (int n + 1) = (case backoff_loop p n (raw_backoff p 0) of
      None \<Rightarrow> rp_max_backoff p
    | Some raw \<Rightarrow> max (min (truncate_toward_zero raw) (rp_max_backoff p)) 0)"
    by (simp add: backoff_for_def Let_def)
  also have "\<dots> = (if n \<noteq> 0 \<and> of_int (rp_max_backoff p) \<le> raw_backoff p n then rp_max_backoff p
     else min \<lfloor>raw_backoff p n\<rfloor> (rp_max_backoff p))"
    unfolding backoff_loop_raw [OF assms] using raw_backoff_mono(1) [OF assms, of n] assms
    by (auto simp: truncate_toward_zero_def policy_ok_def)
  finally show ?thesis .
qed

lemma backoff_for_index: "backoff_for p k = backoff_for p (int (nat (k - 1)) + 1)"
proof -
  have "max k 1 = max (int (nat (k - 1)) + 1) 1" by auto
  then show ?thesis by (simp only: backoff_for_def)
qed

lemma backoff_for_range:
  assumes "policy_ok p"
  shows "0 \<le> backoff_for p k" "backoff_for p k \<le> rp_max_backoff p"
proof -
  have "0 \<le> rp_max_backoff p" using assms by (simp add: policy_ok_def)
  then show "0 \<le> backoff_for p k" "backoff_for p k \<le> rp_max_backoff p"
    using backoff_for_raw [OF assms, of "nat (k - 1)"] raw_backoff_mono(1) [OF assms, of "nat (k - 1)"]
    by (auto simp: backoff_for_index [of p k])
qed

lemma backoff_for_mono:
  assumes "policy_ok p" "k \<le> l"
  shows "backoff_for p k \<le> backoff_for p l"
proof -
  define m n where mn: "m = nat (k - 1)" "n = nat (l - 1)"
  have "m \<le> n" using assms(2) by (simp add: mn)
  then have le: "raw_backoff p m \<le> raw_backoff p n" using assms by (intro raw_backoff_le) auto
  have "backoff_for p (int m + 1) \<le> backoff_for p (int n + 1)"
  proof (cases "n \<noteq> 0 \<and> of_int (rp_max_backoff p) \<le> raw_backoff p n")
    case True
    then have "backoff_for p (int n + 1) = rp_max_backoff p" using backoff_for_raw [OF assms(1), of n] by simp
    then show ?thesis using backoff_for_range(2) [OF assms(1)] by simp
  next
    case False
    then have "\<not> (m \<noteq> 0 \<and> of_int (rp_max_backoff p) \<le> raw_backoff p m)" using le \<open>m \<le> n\<close> by auto
    with False show ?thesis using floor_mono [OF le] backoff_for_raw [OF assms(1), of m] backoff_for_raw [OF assms(1), of n] by auto
  qed
  then show ?thesis by (simp only: mn backoff_for_index [symmetric])
qed

lemma retry_delay_range:
  assumes "policy_ok p" "0 < remaining"
  shows "0 \<le> retry_delay p k remaining u" "retry_delay p k remaining u \<le> rp_max_backoff p"
    "retry_delay p k remaining u * 1000000 \<le> remaining"
proof -
  let ?d = "apply_jitter p (backoff_for p (k + 1)) u" and ?q = "truncate_toward_zero (of_int remaining / 1000000)"
  have "backoff_for p (k + 1) \<le> 2 ^ 53"
    using backoff_for_range(2) [OF assms(1), of "k + 1"] assms(1) by (simp add: policy_ok_def kMaxDurationMs_def)
  then have d: "0 \<le> ?d" "?d \<le> rp_max_backoff p"
    using apply_jitter_range [of p "backoff_for p (k + 1)" u] backoff_for_range [OF assms(1), of "k + 1"] assms(1)
    by (auto simp: policy_ok_def)
  have q: "?q = remaining div 1000000" using assms(2) floor_divide_of_int_eq [where ?'a = rat, of remaining 1000000]
    by (simp add: truncate_toward_zero_def)
  have "0 \<le> ?q" "?q * 1000000 \<le> remaining" using assms(2) unfolding q by (simp_all add: pos_imp_zdiv_nonneg_iff)
  moreover have "?d * 1000000 > remaining \<Longrightarrow> ?q \<le> ?d" unfolding q by linarith
  ultimately show "0 \<le> retry_delay p k remaining u" "retry_delay p k remaining u \<le> rp_max_backoff p"
    "retry_delay p k remaining u * 1000000 \<le> remaining"
    using d by (auto simp: retry_delay_def Let_def)
qed

section \<open>Runs of the loop\<close>

text \<open>What holds before every attempt (\<open>I\<close>) and what an attempt leaves behind (\<open>Q\<close>): the rule by
  which clients of the engine are verified.\<close>

definition clock_keeps :: "'w retry_clock \<Rightarrow> ('w \<Rightarrow> bool) \<Rightarrow> bool" where
  "clock_keeps clk P \<longleftrightarrow> (\<forall>w. P w \<longrightarrow> P (snd (rc_now clk w)) \<and> P (snd (rc_random01 clk w)) \<and> (\<forall>d. P (rc_sleep clk d w)))"

lemma retry_loop_rule:
  fixes Q :: "'a result \<Rightarrow> 'w \<Rightarrow> bool"
  assumes att: "\<And>w r w1. I w \<Longrightarrow> attempt w = (r, w1) \<Longrightarrow> Q r w1"
    and ret: "\<And>e w. Q (Inl e) w \<Longrightarrow> retryable e w \<Longrightarrow> I w"
    and clk: "clock_keeps clk I" "\<And>e. clock_keeps clk (Q (Inl e))"
  shows "I w \<Longrightarrow> k < rp_max_attempts policy \<Longrightarrow>
    retry_loop policy clk attempt retryable deadline k w = (res, w') \<Longrightarrow> Q res w'"
proof (induction "nat (rp_max_attempts policy - k)" arbitrary: k w)
  case (Suc n)
  obtain r w1 where a: "attempt w = (r, w1)" by fastforce
  have q: "Q r w1" by (rule att [OF Suc.prems(1) a])
  obtain t w2 where t: "rc_now clk w1 = (t, w2)" by fastforce
  obtain u w3 where u: "rc_random01 clk w2 = (u, w3)" by fastforce
  show ?case
  proof (cases r)
    case (Inr v)
    with Suc.prems(2,3) a q show ?thesis by (simp add: retry_loop.simps [of policy clk attempt retryable deadline k])
  next
    case (Inl e)
    consider (stop) "k + 1 \<ge> rp_max_attempts policy \<or> \<not> retryable e w1"
      | (late) "k + 1 < rp_max_attempts policy" "retryable e w1" "t \<ge> deadline"
      | (again) "k + 1 < rp_max_attempts policy" "retryable e w1" "t < deadline" by linarith
    then show ?thesis
    proof cases
      case stop
      with Suc.prems(2,3) a q Inl show ?thesis by (auto simp: retry_loop.simps [of policy clk attempt retryable deadline k])
    next
      case late
      with Suc.prems(2,3) a t Inl have "res = Inl e" "w' = w2"
        by (auto simp: retry_loop.simps [of policy clk attempt retryable deadline k])
      with q Inl t clk(2) [of e] show ?thesis by (auto simp: clock_keeps_def dest: spec [of _ w1])
    next
      case again
      let ?w4 = "rc_sleep clk (retry_delay policy k (deadline - t) u) w3"
      have "I w1" using ret q Inl again(2) by blast
      then have "I w2" using t clk(1) by (auto simp: clock_keeps_def dest: spec [of _ w1])
      then have "I w3" using u clk(1) by (auto simp: clock_keeps_def dest: spec [of _ w2])
      then have i: "I ?w4" using clk(1) by (auto simp: clock_keeps_def)
      have rl: "retry_loop policy clk attempt retryable deadline (k + 1) ?w4 = (res, w')"
        using Suc.prems(2,3) a t u Inl again by (simp add: retry_loop.simps [of policy clk attempt retryable deadline k])
      show ?thesis using Suc.hyps(2) again(1) by (intro Suc.hyps(1) [OF _ i again(1) rl]) linarith
    qed
  qed
qed simp

lemma with_retries_rule:
  fixes Q :: "'a result \<Rightarrow> 'w \<Rightarrow> bool"
  assumes "with_retries policy clk attempt retryable w = (res, w')" "I w"
    and att: "\<And>w r w1. I w \<Longrightarrow> attempt w = (r, w1) \<Longrightarrow> Q r w1"
    and ret: "\<And>e w. Q (Inl e) w \<Longrightarrow> retryable e w \<Longrightarrow> I w"
    and clk: "clock_keeps clk I" "\<And>e. clock_keeps clk (Q (Inl e))"
  shows "if 1 \<le> rp_max_attempts policy then Q res w' else res = Inl retry_exhausted \<and> I w'"
proof -
  obtain t w1 where t: "rc_now clk w = (t, w1)" by fastforce
  then have i: "I w1" using assms(2) clk(1) by (auto simp: clock_keeps_def dest: spec [of _ w])
  have l: "retry_loop policy clk attempt retryable (t + rp_budget policy * 1000000) 0 w1 = (res, w')"
    using assms(1) t by (simp add: with_retries_def)
  show ?thesis
  proof (cases "1 \<le> rp_max_attempts policy")
    case True
    have "Q res w'" by (rule retry_loop_rule [where I = I and Q = Q, OF att ret clk i _ l]) (use True in auto)
    with True show ?thesis by simp
  next
    case False
    with l have "res = Inl retry_exhausted" "w' = w1"
      by (auto simp: retry_loop.simps [of policy clk attempt retryable _ 0])
    with i False show ?thesis by simp
  qed
qed

text \<open>A run on a larger state projects to the run on the part of it that attempts, clock and
  retry decision look at.\<close>

definition clock_projects :: "('v \<Rightarrow> 'w) \<Rightarrow> 'v retry_clock \<Rightarrow> 'w retry_clock \<Rightarrow> bool" where
  "clock_projects \<pi> clk' clk \<longleftrightarrow>
     (\<forall>v. map_prod id \<pi> (rc_now clk' v) = rc_now clk (\<pi> v)
        \<and> map_prod id \<pi> (rc_random01 clk' v) = rc_random01 clk (\<pi> v)
        \<and> (\<forall>d. \<pi> (rc_sleep clk' d v) = rc_sleep clk d (\<pi> v)))"

lemma retry_loop_project:
  assumes att: "\<And>v. map_prod id \<pi> (att' v) = att (\<pi> v)" and ret: "\<And>e v. ret' e v = ret e (\<pi> v)"
    and clk: "clock_projects \<pi> clk' clk"
  shows "map_prod id \<pi> (retry_loop policy clk' att' ret' deadline k v) = retry_loop policy clk att ret deadline k (\<pi> v)"
proof (induction "nat (rp_max_attempts policy - k)" arbitrary: k v)
  case 0
  then show ?case by (simp add: retry_loop.simps)
next
  case (Suc n)
  then have n: "n = nat (rp_max_attempts policy - (k + 1))" by simp
  obtain r v1 where a: "att' v = (r, v1)" by fastforce
  obtain t v2 where t: "rc_now clk' v1 = (t, v2)" by fastforce
  obtain u v3 where u: "rc_random01 clk' v2 = (u, v3)" by fastforce
  have "att (\<pi> v) = (r, \<pi> v1)" "rc_now clk (\<pi> v1) = (t, \<pi> v2)" "rc_random01 clk (\<pi> v2) = (u, \<pi> v3)"
    "\<And>d. rc_sleep clk d (\<pi> v3) = \<pi> (rc_sleep clk' d v3)"
    using att [of v] a clk t u by (auto simp: clock_projects_def) (metis id_apply map_prod_simp)+
  with a t u show ?case
    by (subst (1 2) retry_loop.simps) (simp add: ret Suc.hyps(1) [OF n] split: sum.splits)
qed

lemma with_retries_project:
  assumes att: "\<And>v. map_prod id \<pi> (att' v) = att (\<pi> v)" and ret: "\<And>e v. ret' e v = ret e (\<pi> v)"
    and clk: "clock_projects \<pi> clk' clk"
  shows "map_prod id \<pi> (with_retries policy clk' att' ret' v) = with_retries policy clk att ret (\<pi> v)"
proof -
  obtain t v1 where t: "rc_now clk' v = (t, v1)" by fastforce
  then have "rc_now clk (\<pi> v) = (t, \<pi> v1)" using clk unfolding clock_projects_def by (metis id_apply map_prod_simp)
  with t show ?thesis by (simp add: with_retries_def retry_loop_project [where \<pi> = \<pi> and att = att and att' = att' and ret = ret and ret' = ret' and clk = clk and clk' = clk', OF att ret clk])
qed

text \<open>A run with its history written down: the results of the attempts, the clock readings and
  the sleeps. Recording does not influence the run (\<open>with_retries_traced\<close>).\<close>

record ('w, 'a) traced =
  tw_world :: 'w
  tw_tried :: "'a result list"
  tw_times :: "int list"
  tw_naps :: "int list"

definition traced_attempt :: "('w \<Rightarrow> 'a result \<times> 'w) \<Rightarrow> ('w, 'a) traced \<Rightarrow> 'a result \<times> ('w, 'a) traced" where
  "traced_attempt attempt t = (case attempt (tw_world t) of (r, w) \<Rightarrow>
     (r, t\<lparr>tw_world := w, tw_tried := tw_tried t @ [r]\<rparr>))"

definition traced_clock :: "'w retry_clock \<Rightarrow> ('w, 'a) traced retry_clock" where
  "traced_clock clk =
     \<lparr>rc_now = (\<lambda>t. case rc_now clk (tw_world t) of (x, w) \<Rightarrow> (x, t\<lparr>tw_world := w, tw_times := tw_times t @ [x]\<rparr>)),
      rc_sleep = (\<lambda>d t. t\<lparr>tw_world := rc_sleep clk d (tw_world t), tw_naps := tw_naps t @ [d]\<rparr>),
      rc_random01 = (\<lambda>t. case rc_random01 clk (tw_world t) of (u, w) \<Rightarrow> (u, t\<lparr>tw_world := w\<rparr>))\<rparr>"

definition traced_run :: "retry_policy \<Rightarrow> 'w retry_clock \<Rightarrow> ('w \<Rightarrow> 'a result \<times> 'w)
    \<Rightarrow> (error \<Rightarrow> 'w \<Rightarrow> bool) \<Rightarrow> 'w \<Rightarrow> 'a result \<times> ('w, 'a) traced" where
  "traced_run policy clk attempt retryable w =
     with_retries policy (traced_clock clk) (traced_attempt attempt) (\<lambda>e t. retryable e (tw_world t))
       \<lparr>tw_world = w, tw_tried = [], tw_times = [], tw_naps = []\<rparr>"

lemma retry_loop_traced:
  "map_prod id tw_world (retry_loop policy (traced_clock clk) (traced_attempt attempt)
     (\<lambda>e t. retryable e (tw_world t)) deadline k t) =
   retry_loop policy clk attempt retryable deadline k (tw_world t)"
  by (rule retry_loop_project)
    (auto simp: clock_projects_def traced_attempt_def traced_clock_def split: prod.splits)

text \<open>What one stretch of the loop adds to the history: every attempt but the last failed before
  the deadline and was followed by a sleep within the bounds; a run that ends in an error had
  no attempt left, was told not to retry, or had missed the deadline.\<close>

definition stretch_ok :: "retry_policy \<Rightarrow> int \<Rightarrow> nat \<Rightarrow> bool \<Rightarrow> 'a result \<Rightarrow> 'a result list \<Rightarrow> int list \<Rightarrow> int list \<Rightarrow> bool" where
  "stretch_ok policy deadline budgeted may_retry res tried reads naps \<longleftrightarrow>
     tried \<noteq> [] \<and> last tried = res \<and> length tried \<le> budgeted \<and> length tried = Suc (length naps)
     \<and> (\<forall>j < length naps. \<not> is_ok (tried ! j) \<and> reads ! j < deadline \<and> 0 \<le> naps ! j
          \<and> naps ! j \<le> rp_max_backoff policy \<and> naps ! j * 1000000 \<le> deadline - reads ! j)
     \<and> (length reads = length naps \<or> length reads = Suc (length naps) \<and> deadline \<le> last reads)
     \<and> (is_ok res \<or> length tried = budgeted \<or> \<not> may_retry \<or> reads \<noteq> [] \<and> deadline \<le> last reads)"

lemma stretch_ok_single:
  assumes "0 < n" "is_ok r \<or> n = 1 \<or> \<not> m"
  shows "stretch_ok policy deadline n m r [r] [] []"
  using assms by (auto simp: stretch_ok_def)

lemma stretch_ok_Cons:
  assumes "stretch_ok policy deadline n m r tried reads naps" "t < deadline" "0 \<le> d" "d \<le> rp_max_backoff policy"
    "d * 1000000 \<le> deadline - t"
  shows "stretch_ok policy deadline (Suc n) m r (Inl e # tried) (t # reads) (d # naps)"
  using assms by (auto simp: stretch_ok_def nth_Cons split: nat.splits)

lemma retry_loop_history:
  assumes "policy_ok policy"
  shows "k < rp_max_attempts policy \<Longrightarrow>
    retry_loop policy (traced_clock clk) (traced_attempt attempt) (\<lambda>e t. retryable e (tw_world t)) deadline k t
      = (res, t') \<Longrightarrow>
    \<exists>tried reads naps. tw_tried t' = tw_tried t @ tried \<and> tw_times t' = tw_times t @ reads
      \<and> tw_naps t' = tw_naps t @ naps
      \<and> stretch_ok policy deadline (nat (rp_max_attempts policy - k))
          (case res of Inl e \<Rightarrow> retryable e (tw_world t') | Inr _ \<Rightarrow> True) res tried reads naps"
proof (induction "nat (rp_max_attempts policy - k)" arbitrary: k t)
  case (Suc n)
  obtain r w1 where a: "attempt (tw_world t) = (r, w1)" by fastforce
  let ?t1 = "t\<lparr>tw_world := w1, tw_tried := tw_tried t @ [r]\<rparr>"
  obtain x w2 where x: "rc_now clk w1 = (x, w2)" by fastforce
  obtain u w3 where u: "rc_random01 clk w2 = (u, w3)" by fastforce
  let ?d = "retry_delay policy k (deadline - x) u"
  let ?t4 = "t\<lparr>tw_tried := tw_tried t @ [r], tw_times := tw_times t @ [x],
      tw_world := rc_sleep clk ?d w3, tw_naps := tw_naps t @ [?d]\<rparr>"
  have lt: "0 < nat (rp_max_attempts policy - k)" using Suc.prems(1) by simp
  note loop = Suc.prems(2) [unfolded retry_loop.simps [of policy "traced_clock clk" _ _ deadline k]]
  show ?case
  proof (cases r)
    case (Inr v)
    with loop Suc.prems(1) a have "res = r" "t' = ?t1" by (auto simp: traced_attempt_def)
    with Inr lt show ?thesis
      by (intro exI [of _ "[r]"] exI [of _ "[]"]) (simp add: stretch_ok_single)
  next
    case (Inl e)
    consider (stop) "k + 1 \<ge> rp_max_attempts policy \<or> \<not> retryable e w1"
      | (late) "k + 1 < rp_max_attempts policy" "retryable e w1" "x \<ge> deadline"
      | (again) "k + 1 < rp_max_attempts policy" "retryable e w1" "x < deadline" by linarith
    then show ?thesis
    proof cases
      case stop
      with loop Suc.prems(1) a Inl have "res = r" "t' = ?t1" by (auto simp: traced_attempt_def)
      with Inl lt stop show ?thesis
        by (intro exI [of _ "[r]"] exI [of _ "[]"]) (auto intro!: stretch_ok_single)
    next
      case late
      with loop Suc.prems(1) a x Inl
      have "res = r" "t' = ?t1\<lparr>tw_world := w2, tw_times := tw_times t @ [x]\<rparr>"
        by (auto simp: traced_attempt_def traced_clock_def)
      with Inl lt late show ?thesis
        by (intro exI [of _ "[r]"] exI [of _ "[x]"] exI [of _ "[]"]) (simp add: stretch_ok_def)
    next
      case again
      have rest: "retry_loop policy (traced_clock clk) (traced_attempt attempt) (\<lambda>e t. retryable e (tw_world t))
          deadline (k + 1) ?t4 = (res, t')"
        using loop Suc.prems(1) a x u Inl again by (simp add: traced_attempt_def traced_clock_def)
      have n: "n = nat (rp_max_attempts policy - (k + 1))" using Suc.hyps(2) by simp
      from Suc.hyps(1) [OF n again(1) rest] obtain tried reads naps where h:
        "tw_tried t' = tw_tried ?t4 @ tried" "tw_times t' = tw_times ?t4 @ reads" "tw_naps t' = tw_naps ?t4 @ naps"
        "stretch_ok policy deadline (nat (rp_max_attempts policy - (k + 1)))
          (case res of Inl e \<Rightarrow> retryable e (tw_world t') | Inr _ \<Rightarrow> True) res tried reads naps" by blast
      have "nat (rp_max_attempts policy - k) = Suc (nat (rp_max_attempts policy - (k + 1)))" using again(1) by simp
      with stretch_ok_Cons [OF h(4) again(3) retry_delay_range [OF assms, of "deadline - x" k u]] h Inl again(3)
      show ?thesis by (intro exI [of _ "r # tried"] exI [of _ "x # reads"] exI [of _ "?d # naps"]) simp
    qed
  qed
qed simp

section \<open>Properties\<close>

text \<open>C21. The retry loop always returns. With a valid policy it makes at least one and at most
  \<open>max_attempts\<close> attempts, returns the result of the last one unchanged, and every earlier
  attempt failed before the deadline \<open>start + budget\<close> and was followed by one sleep between
  zero and \<open>max_backoff\<close> that does not reach past the deadline. It ends with an error only when
  the attempts are used up, the error is not retryable, or the last failure was not before the
  deadline. Recording the history does not change the run.\<close>

theorem with_retries_returns:
  assumes "policy_ok policy" "traced_run policy clk attempt retryable w = (res, t)"
  shows "with_retries policy clk attempt retryable w = (res, tw_world t)
    \<and> (\<exists>start reads. tw_times t = start # reads
        \<and> stretch_ok policy (start + rp_budget policy * 1000000) (nat (rp_max_attempts policy))
            (case res of Inl e \<Rightarrow> retryable e (tw_world t) | Inr _ \<Rightarrow> True) res (tw_tried t) reads (tw_naps t))"
proof -
  let ?t0 = "\<lparr>tw_world = w, tw_tried = [], tw_times = [], tw_naps = []\<rparr>"
  obtain x w1 where x: "rc_now clk w = (x, w1)" by fastforce
  let ?t1 = "\<lparr>tw_world = w1, tw_tried = [], tw_times = [x], tw_naps = []\<rparr>"
  have run: "retry_loop policy (traced_clock clk) (traced_attempt attempt) (\<lambda>e t. retryable e (tw_world t))
      (x + rp_budget policy * 1000000) 0 ?t1 = (res, t)"
    using assms(2) x by (simp add: traced_run_def with_retries_def traced_clock_def)
  have "with_retries policy clk attempt retryable w = (res, tw_world t)"
    using retry_loop_traced [of policy clk attempt retryable "x + rp_budget policy * 1000000" 0 ?t1] run x
    by (simp add: with_retries_def)
  moreover have "0 < rp_max_attempts policy" using assms(1) by (simp add: policy_ok_def)
  ultimately show ?thesis using retry_loop_history [OF assms(1) _ run] by auto
qed

definition demo_retry_clock :: "nat retry_clock" where
  "demo_retry_clock = \<lparr>rc_now = (\<lambda>w. (0, w)), rc_sleep = (\<lambda>d w. w), rc_random01 = (\<lambda>w. (1 / 2, w))\<rparr>"

text \<open>Two transport failures, then an answer.\<close>

definition demo_attempt :: "nat \<Rightarrow> nat result \<times> nat" where
  "demo_attempt w = (if w < 2 then (Inl (Error ''transport'' ''timeout''), w + 1) else (Inr 7, w + 1))"

lemma default_policy_ok: "policy_ok default_policy"
  by (simp add: policy_ok_def default_policy_def kMaxAttemptsLimit_def kMaxDurationMs_def)

theorem with_retries_returns_witness:
  "policy_ok default_policy
   \<and> with_retries default_policy demo_retry_clock demo_attempt (\<lambda>e w. code e = ''transport'') 0 = (Inr 7, 3)
   \<and> tw_naps (snd (traced_run default_policy demo_retry_clock demo_attempt (\<lambda>e w. code e = ''transport'') 0)) = [75, 150]"
proof -
  have run: "traced_run default_policy demo_retry_clock demo_attempt (\<lambda>e w. code e = ''transport'') 0
      = (Inr 7, \<lparr>tw_world = 3, tw_tried = [Inl (Error ''transport'' ''timeout''), Inl (Error ''transport'' ''timeout''), Inr 7],
          tw_times = [0, 0, 0], tw_naps = [75, 150]\<rparr>)"
    by code_simp
  from with_retries_returns [OF default_policy_ok run] show ?thesis by (simp add: default_policy_ok run)
qed

text \<open>A policy read from the configuration is valid whenever the defaults are; anything else is a
  \<open>protocol\<close> error.\<close>

lemma retry_policy_validity:
  assumes "policy_ok defaults"
  shows "retry_policy_from_json node defaults = Inr p \<Longrightarrow> policy_ok p \<and> is_object node"
    "retry_policy_from_json node defaults = Inl e \<Longrightarrow> code e = ''protocol''"
proof -
  have ms: "0 \<le> v \<and> v \<le> kMaxDurationMs"
    if "unsigned_ms_field node nm d = Inr v" "0 \<le> d" "d \<le> kMaxDurationMs" for nm d v
    using that by (auto simp: unsigned_ms_field_def split: option.splits json.splits if_splits)
  have att: "1 \<le> v \<and> v \<le> int kMaxAttemptsLimit"
    if "max_attempts_field node (rp_max_attempts defaults) = Inr v" for v
    using that assms by (auto simp: max_attempts_field_def policy_ok_def split: option.splits json.splits if_splits)
  have mul: "1 \<le> v" if "multiplier_field node (rp_multiplier defaults) = Inr v" for v
    using that assms by (auto simp: multiplier_field_def policy_ok_def split: option.splits if_splits)
  have jit: "0 \<le> v \<and> v \<le> 1" if "jitter_field node (rp_jitter defaults) = Inr v" for v
    using that assms by (auto simp: jitter_field_def policy_ok_def split: option.splits if_splits)
  have bk: "0 \<le> a \<and> a \<le> b \<and> b \<le> kMaxDurationMs \<and> 0 \<le> c \<and> c \<le> kMaxDurationMs"
    if "backoff_fields node defaults = Inr (a, b, c)" for a b c
    using that assms ms by (fastforce simp: backoff_fields_def policy_ok_def split: sum.splits if_splits)
  have err: "max_attempts_field node d = Inl e \<Longrightarrow> code e = ''protocol''"
    "multiplier_field node m = Inl e \<Longrightarrow> code e = ''protocol''"
    "jitter_field node m = Inl e \<Longrightarrow> code e = ''protocol''"
    "backoff_fields node defaults = Inl e \<Longrightarrow> code e = ''protocol''" for d m e
    by (auto simp: max_attempts_field_def multiplier_field_def jitter_field_def backoff_fields_def
        split: option.splits json.splits if_splits sum.splits)
  show "retry_policy_from_json node defaults = Inr p \<Longrightarrow> policy_ok p \<and> is_object node"
    using att mul jit bk by (auto simp: retry_policy_from_json_def policy_ok_def split: sum.splits if_splits)
  show "retry_policy_from_json node defaults = Inl e \<Longrightarrow> code e = ''protocol''"
    using err by (auto simp: retry_policy_from_json_def split: sum.splits if_splits)
qed

lemma backoff_for_small: "policy_ok p \<Longrightarrow> backoff_for p k \<le> 2 ^ 53"
  using backoff_for_range(2) [of p k] by (simp add: policy_ok_def kMaxDurationMs_def)

lemma backoff_for_first: "policy_ok p \<Longrightarrow> backoff_for p 1 = rp_initial_backoff p"
  using backoff_for_raw [of p 0] by (simp add: policy_ok_ints policy_ok_def)

lemma jittered_range:
  assumes "policy_ok p"
  shows "0 \<le> apply_jitter p (backoff_for p k) u \<and> apply_jitter p (backoff_for p k) u \<le> backoff_for p k"
  using apply_jitter_range [of p "backoff_for p k" u] backoff_for_range(1) [OF assms, of k] backoff_for_small [OF assms, of k] assms
  by (simp add: policy_ok_def)

text \<open>The delays of a valid policy: the first retry waits \<open>initial_backoff\<close>, later ones never
  less, none more than \<open>max_backoff\<close>; jitter only shortens a delay and keeps it non-negative,
  and no jitter draw (0) leaves it unchanged, all in double arithmetic.\<close>

lemma backoff_and_jitter_bounds:
  assumes "policy_ok p"
  shows "backoff_for p 1 = rp_initial_backoff p
    \<and> (\<forall>k. 0 \<le> backoff_for p k \<and> backoff_for p k \<le> rp_max_backoff p)
    \<and> (\<forall>k l. k \<le> l \<longrightarrow> backoff_for p k \<le> backoff_for p l)
    \<and> (\<forall>k u. 0 \<le> apply_jitter p (backoff_for p k) u \<and> apply_jitter p (backoff_for p k) u \<le> backoff_for p k)
    \<and> (\<forall>k. apply_jitter p (backoff_for p k) 0 = backoff_for p k)"
proof -
  have "apply_jitter p (backoff_for p k) 0 = backoff_for p k" for k
  proof -
    have "\<bar>backoff_for p k\<bar> \<le> 2 ^ 53" using backoff_for_small [OF assms, of k] backoff_for_range(1) [OF assms, of k] by simp
    then have "dbl (dbl (of_int (backoff_for p k))) = of_int (backoff_for p k)" by (simp add: dbl_of_int)
    then show ?thesis
      using clamp_range(1) backoff_for_range(1) [OF assms, of k]
      by (simp add: apply_jitter_def truncate_bounds(4) Let_def not_less)
  qed
  then show ?thesis
    using backoff_for_range [OF assms] backoff_for_mono [OF assms] backoff_for_first [OF assms] jittered_range [OF assms] by blast
qed

end
