(* ===== verification/Resend.thy ===== *)
theory Resend
  imports Retry
begin

text \<open>
  Resolve-then-retry, the discipline both venue engines follow: an attempt sends the request
  once and, when the outcome is unknown, looks the order up; only an attempt that sets the
  captured flag \<open>safe_to_resend\<close> may be followed by another. The locale \<open>guarded_resend\<close> states
  what the retry loop needs to know of an attempt, over a state that records every venue call
  with its answer, and derives what follows for the whole run. The two engines interpret it
  for each of their operations.
\<close>

section \<open>Captured variables and recorded calls\<close>

text \<open>The clock on a larger state: the captured flag, and the record of calls, are not its
  business.\<close>

definition lift_clock :: "'w retry_clock \<Rightarrow> ('w \<times> 'x) retry_clock" where
  "lift_clock clk =
     \<lparr>rc_now = (\<lambda>(w, x). case rc_now clk w of (t, w') \<Rightarrow> (t, w', x)),
      rc_sleep = (\<lambda>d (w, x). (rc_sleep clk d w, x)),
      rc_random01 = (\<lambda>(w, x). case rc_random01 clk w of (u, w') \<Rightarrow> (u, w', x))\<rparr>"

text \<open>A call that is written down together with its answer.\<close>

definition recording :: "('a \<Rightarrow> 'c) \<Rightarrow> ('w \<Rightarrow> 'a \<times> 'w) \<Rightarrow> 'w \<times> 'c list \<Rightarrow> 'a \<times> 'w \<times> 'c list" where
  "recording note f = (\<lambda>(w, calls). case f w of (a, w') \<Rightarrow> (a, w', calls @ [note a]))"

lemma lift_clock_keeps [simp]: "clock_keeps (lift_clock clk) (\<lambda>wx. P (snd wx))"
  by (auto simp: clock_keeps_def lift_clock_def split: prod.splits)

lemma lift_clock_keeps2 [simp]: "clock_keeps (lift_clock (lift_clock clk)) (\<lambda>s. P (snd (fst s)) (snd s))"
  by (auto simp: clock_keeps_def lift_clock_def split: prod.splits)

lemma recording_eq: "recording note f (w, calls) = (a, wc) \<longleftrightarrow> (\<exists>w'. f w = (a, w') \<and> wc = (w', calls @ [note a]))"
  by (auto simp: recording_def split: prod.splits)

lemma lift_clock_projects:
  "clock_projects fst (lift_clock clk) clk"
  "clock_projects (map_prod fst id) (lift_clock (lift_clock clk)) (lift_clock clk)"
  by (auto simp: clock_projects_def lift_clock_def split: prod.splits)

lemma recording_fst: "map_prod id fst (recording note f wc) = f (fst wc)"
  by (auto simp: recording_def split: prod.splits)

text \<open>Recording the calls of an engine does not influence it.\<close>

lemma engine_recorded:
  assumes "\<And>v. map_prod id (map_prod fst id) (att' v) = att (map_prod fst id v)"
    and "with_retries policy (lift_clock (lift_clock clk)) att' (\<lambda>_ s. snd s) ((w, calls), b) = (res, (w', calls'), b')"
  shows "with_retries policy (lift_clock clk) att (\<lambda>_ s. snd s) (w, b) = (res, w', b')"
  using with_retries_project [where \<pi> = "map_prod fst id" and att' = att' and att = att and ret' = "\<lambda>_ s. snd s"
      and ret = "\<lambda>_ s. snd s", OF assms(1) _ lift_clock_projects(2)] assms(2)
  by (metis id_apply map_prod_simp snd_map_prod fst_conv)

section \<open>Retried lookups\<close>

text \<open>An attempt that asks the venue once and judges its answer.\<close>

definition judged :: "('a \<Rightarrow> 'b result) \<Rightarrow> ('w \<Rightarrow> 'a \<times> 'w) \<Rightarrow> 'w \<Rightarrow> 'b result \<times> 'w" where
  "judged verdict ask w = (case ask w of (answer, w') \<Rightarrow> (verdict answer, w'))"

text \<open>Retried, it makes one call per answer: every answer but the last was judged retryable, and the
  result is the verdict on the last.\<close>

lemma judged_retries_calls:
  assumes run: "with_retries policy (lift_clock clk) (judged verdict (recording note ask)) (\<lambda>e _. retryable e) (w, calls) = (r, w', calls')"
  shows "\<exists>answers. calls' = calls @ map note answers
    \<and> (\<forall>a \<in> set (butlast answers). \<exists>e. verdict a = Inl e \<and> retryable e)
    \<and> (if answers = [] then r = Inl retry_exhausted else r = verdict (last answers))"
proof -
  let ?pending = "\<lambda>answers. \<forall>a \<in> set answers. \<exists>e. verdict a = Inl e \<and> retryable e"
  let ?I = "\<lambda>wc. \<exists>answers. snd wc = calls @ map note answers \<and> ?pending answers"
  let ?Q = "\<lambda>r wc. \<exists>answers a. snd wc = calls @ map note (answers @ [a]) \<and> ?pending answers \<and> r = verdict a"
  have "if 1 \<le> rp_max_attempts policy then ?Q r (w', calls') else r = Inl retry_exhausted \<and> snd (w', calls') = calls"
  proof (cases "1 \<le> rp_max_attempts policy")
    case True
    have "if 1 \<le> rp_max_attempts policy then ?Q r (w', calls') else r = Inl retry_exhausted \<and> ?I (w', calls')"
    proof (rule with_retries_rule [OF run])
      show "?I (w, calls)" by (auto intro: exI [of _ "[]"])
      show "?Q r wc'" if i: "?I wc" and a: "judged verdict (recording note ask) wc = (r, wc')" for wc r wc'
      proof -
        obtain w0 calls0 where wc: "wc = (w0, calls0)" by fastforce
        obtain a w1 where "ask w0 = (a, w1)" by fastforce
        then have "r = verdict a" "snd wc' = calls0 @ [note a]"
          using a by (auto simp: judged_def recording_def wc)
        with i wc show ?thesis by auto
      qed
      show "?I wc" if q: "?Q (Inl e) wc" and t: "retryable e" for e wc
      proof -
        obtain answers a where l: "snd wc = calls @ map note (answers @ [a])" "Inl e = verdict a" "?pending answers"
          using q by blast
        then have "?pending (answers @ [a])" using t by (metis Un_iff empty_set list.set(2) set_append singletonD)
        with l(1) show ?thesis by blast
      qed
      show "clock_keeps (lift_clock clk) ?I"
        by (rule lift_clock_keeps [where P = "\<lambda>x. \<exists>answers. x = calls @ map note answers \<and> ?pending answers"])
      show "clock_keeps (lift_clock clk) (?Q (Inl e))" for e
        by (rule lift_clock_keeps [where P = "\<lambda>x. \<exists>answers a. x = calls @ map note (answers @ [a]) \<and> ?pending answers \<and> Inl e = verdict a"])
    qed
    with True show ?thesis by simp
  next
    case False
    with run show ?thesis by (auto simp: with_retries_def lift_clock_def retry_loop.simps split: prod.splits)
  qed
  then show ?thesis
  proof (cases "1 \<le> rp_max_attempts policy")
    case True
    with \<open>if _ then _ else _\<close> obtain answers a where
      "calls' = calls @ map note (answers @ [a])" "?pending answers" "r = verdict a" by auto
    then show ?thesis by (intro exI [of _ "answers @ [a]"]) simp
  next
    case False
    with \<open>if _ then _ else _\<close> show ?thesis by (intro exI [of _ "[]"]) simp
  qed
qed

lemma judged_recorded:
  "map_prod id fst (with_retries policy (lift_clock clk) (judged verdict (recording note ask)) (\<lambda>e _. retryable e) wc)
     = with_retries policy clk (judged verdict ask) (\<lambda>e _. retryable e) (fst wc)"
proof (rule with_retries_project [OF _ _ lift_clock_projects(1)])
  show "map_prod id fst (judged verdict (recording note ask) v) = judged verdict ask (fst v)" for v
    by (auto simp: judged_def recording_def split: prod.splits)
qed simp

section \<open>The contract\<close>

text \<open>In a list of calls, every send that is not the first call is immediately preceded by a
  call that licenses it.\<close>

fun licensed :: "('c \<Rightarrow> bool) \<Rightarrow> ('c \<Rightarrow> bool) \<Rightarrow> 'c list \<Rightarrow> bool" where
  "licensed is_send licence (c # d # cs) = ((is_send d \<longrightarrow> licence c) \<and> licensed is_send licence (d # cs))"
| "licensed is_send licence _ = True"

lemma licensed_append:
  "licensed is_send licence (xs @ ys) \<longleftrightarrow> licensed is_send licence xs \<and> licensed is_send licence ys
     \<and> (xs \<noteq> [] \<longrightarrow> ys \<noteq> [] \<longrightarrow> is_send (hd ys) \<longrightarrow> licence (last xs))"
proof (induction xs)
  case (Cons x xs)
  then show ?case by (cases xs; cases ys) auto
qed simp

lemma licensed_no_send: "\<forall>c \<in> set cs. \<not> is_send c \<Longrightarrow> licensed is_send licence cs"
  by (induction is_send licence cs rule: licensed.induct) auto

lemma licensed_Cons_no_send:
  "\<forall>c \<in> set cs. \<not> is_send c \<Longrightarrow> licensed is_send licence (c # cs)"
  using licensed_append [of is_send licence "[c]" cs] licensed_no_send [of cs is_send licence]
  by (cases cs) auto

text \<open>\<open>explains r group\<close> says what a result means in terms of the calls of its own attempt: the
  send and the lookups after it; \<open>own c\<close> that a call concerns the very request of the run.\<close>

locale guarded_resend =
  fixes attempt :: "('w \<times> 'c list) \<times> bool \<Rightarrow> 'a result \<times> ('w \<times> 'c list) \<times> bool"
    and is_send licence own :: "'c \<Rightarrow> bool"
    and explains :: "'a result \<Rightarrow> 'c \<Rightarrow> 'c list \<Rightarrow> bool"
  assumes attempt_calls: "attempt ((w, calls), b) = (r, (w', calls'), b') \<Longrightarrow>
    \<exists>c looked. calls' = calls @ c # looked \<and> is_send c \<and> (\<forall>l \<in> set looked. \<not> is_send l) \<and> (\<forall>x \<in> set (c # looked). own x)
      \<and> (b' \<longrightarrow> looked \<noteq> [] \<and> licence (last looked)) \<and> explains r c looked"
begin

definition explained :: "'a result \<Rightarrow> 'c list \<Rightarrow> bool" where
  "explained r calls \<longleftrightarrow> (\<exists>earlier c looked. calls = earlier @ c # looked \<and> is_send c
     \<and> (\<forall>l \<in> set looked. \<not> is_send l) \<and> explains r c looked)"

lemma attempt_licensed:
  assumes "attempt s = (r, s')" "licensed is_send licence (snd (fst s))" "snd (fst s) \<noteq> [] \<longrightarrow> licence (last (snd (fst s)))"
    and "\<forall>x \<in> set (snd (fst s)). own x"
  shows "explained r (snd (fst s')) \<and> licensed is_send licence (snd (fst s')) \<and> (snd s' \<longrightarrow> licence (last (snd (fst s'))))
    \<and> (\<forall>x \<in> set (snd (fst s')). own x)"
proof -
  obtain w calls b where s: "s = ((w, calls), b)" by (metis prod.collapse)
  obtain w' calls' b' where s': "s' = ((w', calls'), b')" by (metis prod.collapse)
  from attempt_calls [of w calls b r w' calls' b'] assms(1) s s' obtain c looked where
    l: "calls' = calls @ c # looked" "is_send c" "\<forall>l \<in> set looked. \<not> is_send l"
      "b' \<longrightarrow> looked \<noteq> [] \<and> licence (last looked)" "explains r c looked" "\<forall>x \<in> set (c # looked). own x" by auto
  then have "explained r calls'" by (auto simp: explained_def)
  with l show ?thesis
    using assms(2-4) s s' licensed_Cons_no_send [OF l(3), of licence c]
    by (auto simp: licensed_append)
qed

lemma explained_calls:
  assumes "explained r calls"
  obtains c looked where "c \<in> set calls" "set looked \<subseteq> set calls" "explains r c looked"
  using assms unfolding explained_def by (metis in_set_conv_decomp set_append set_subset_Cons subset_trans sup_ge2)

lemma explained_ne: "explained r calls \<Longrightarrow> calls \<noteq> []"
  by (auto simp: explained_def)

text \<open>Whatever the venue answers and whatever the clock says: no request of a run is sent again
  without its licence, the result is explained by the last send and its lookups, and every call
  of the run concerns its request.\<close>

lemma run_licensed:
  assumes "with_retries policy (lift_clock (lift_clock clk)) attempt (\<lambda>e s. snd s) ((w, []), b) = (r, s')"
    and "1 \<le> rp_max_attempts policy"
  shows "licensed is_send licence (snd (fst s'))" "explained r (snd (fst s'))" "\<forall>x \<in> set (snd (fst s')). own x"
proof -
  let ?P = "\<lambda>calls. licensed is_send licence calls \<and> (\<forall>x \<in> set calls. own x)"
  let ?I = "\<lambda>s. ?P (snd (fst s)) \<and> (snd (fst s) \<noteq> [] \<longrightarrow> licence (last (snd (fst s))))"
  let ?Q = "\<lambda>(r :: 'a result) s. explained r (snd (fst s)) \<and> ?P (snd (fst s)) \<and> (snd s \<longrightarrow> licence (last (snd (fst s))))"
  have "if 1 \<le> rp_max_attempts policy then ?Q r s' else r = Inl retry_exhausted \<and> ?I s'"
  proof (rule with_retries_rule [OF assms(1)])
    show "?I ((w, []), b)" by simp
    show "?I s \<Longrightarrow> attempt s = (r, s1) \<Longrightarrow> ?Q r s1" for s r s1
      using attempt_licensed by blast
    show "?Q (Inl e) s \<Longrightarrow> snd s \<Longrightarrow> ?I s" for e s by simp
    show "clock_keeps (lift_clock (lift_clock clk)) ?I"
      using lift_clock_keeps2 [where P = "\<lambda>calls b. ?P calls \<and> (calls \<noteq> [] \<longrightarrow> licence (last calls))"] .
    show "clock_keeps (lift_clock (lift_clock clk)) (?Q (Inl e))" for e
      using lift_clock_keeps2 [where P = "\<lambda>calls b. explained (Inl e) calls \<and> ?P calls \<and> (b \<longrightarrow> licence (last calls))"] .
  qed
  with assms(2) show "licensed is_send licence (snd (fst s'))" "explained r (snd (fst s'))" "\<forall>x \<in> set (snd (fst s')). own x"
    by simp_all
qed

end

end
