(* ===== verification/OKX_Resilient.thy ===== *)
theory OKX_Resilient
  imports OKX_Wire Resend
begin

text \<open>
  The OKX engine of resolve-then-retry, \<^verbatim>\<open>src/exchange/okx/okx_resilient.hpp\<close>, over an arbitrary
  client (\<open>ClientT\<close> is a template parameter there). The captured variable \<open>safe_to_resend\<close> is
  the second component of the state the retry loop threads.
\<close>

section \<open>Definitions\<close>

record 'w okx_client =
  cl_place_order :: "okx_place_request \<Rightarrow> 'w \<Rightarrow> okx_order_ack result \<times> 'w"
  cl_cancel_order :: "okx_cxl_request \<Rightarrow> 'w \<Rightarrow> okx_order_ack result \<times> 'w"
  cl_amend_order :: "okx_amend_request \<Rightarrow> 'w \<Rightarrow> okx_order_ack result \<times> 'w"
  cl_get_order :: "okx_query \<Rightarrow> 'w \<Rightarrow> okx_order_info option result \<times> 'w"

datatype lookup_outcome = LookupFound | LookupAbsent | LookupInconclusive

record lookup_result =
  lk_outcome :: lookup_outcome
  lk_info :: okx_order_info
  lk_error :: "error option"

text \<open>The body of the lookup's attempt after the venue's answer.\<close>

definition lookup_verdict :: "okx_order_info option result \<Rightarrow> lookup_result result" where
  "lookup_verdict answer =
     (case answer of
        Inr (Some info) \<Rightarrow> Inr \<lparr>lk_outcome = LookupFound, lk_info = info, lk_error = None\<rparr>
      | Inr None \<Rightarrow> Inr \<lparr>lk_outcome = LookupAbsent, lk_info = empty_order_info, lk_error = None\<rparr>
      | Inl e \<Rightarrow>
          if code e = ''venue:51603'' then Inr \<lparr>lk_outcome = LookupAbsent, lk_info = empty_order_info, lk_error = None\<rparr>
          else if code e = ''transport'' then Inl e
          else Inr \<lparr>lk_outcome = LookupInconclusive, lk_info = empty_order_info, lk_error = Some e\<rparr>)"

definition lookup_attempt :: "'w okx_client \<Rightarrow> okx_query \<Rightarrow> 'w \<Rightarrow> lookup_result result \<times> 'w" where
  "lookup_attempt client q = judged lookup_verdict (cl_get_order client q)"

definition lookup_order :: "'w okx_client \<Rightarrow> okx_query \<Rightarrow> retry_policy \<Rightarrow> 'w retry_clock \<Rightarrow> 'w
    \<Rightarrow> lookup_result \<times> 'w" where
  "lookup_order client q policy clk w =
     (case with_retries policy clk (lookup_attempt client q) (\<lambda>e _. code e = ''transport'') w of
        (Inr found, w') \<Rightarrow> (found, w')
      | (Inl e, w') \<Rightarrow> (\<lparr>lk_outcome = LookupInconclusive, lk_info = empty_order_info, lk_error = Some e\<rparr>, w'))"

definition synthesized_ack :: "okx_order_info \<Rightarrow> okx_order_ack" where
  "synthesized_ack info =
     \<lparr>ack_ord_id = oi_ord_id info, ack_cl_ord_id = oi_cl_ord_id info, ack_s_code = ''0'', ack_s_msg = []\<rparr>"

definition unresolved :: "string \<Rightarrow> string \<Rightarrow> lookup_result \<Rightarrow> error \<Rightarrow> error" where
  "unresolved what cl_ord_id lookup e = Error ''transport''
     (what @ '' outcome unresolved for clOrdId '' @ cl_ord_id @ '': '' @ message (opt_or (lk_error lookup) e))"

definition place_attempt :: "'w okx_client \<Rightarrow> okx_place_request \<Rightarrow> retry_policy \<Rightarrow> 'w retry_clock
    \<Rightarrow> 'w \<times> bool \<Rightarrow> okx_order_ack result \<times> 'w \<times> bool" where
  "place_attempt client r policy clk = (\<lambda>(w, _).
     case cl_place_order client r w of
       (Inr ack, w1) \<Rightarrow> (Inr ack, w1, False)
     | (Inl e, w1) \<Rightarrow>
         if code e = ''transport'' \<or> code e = ''venue:51000'' then
           (case lookup_order client \<lparr>okq_inst_id = op_inst_id r, okq_cl_ord_id = op_cl_ord_id r\<rparr> policy clk w1 of
              (lookup, w2) \<Rightarrow>
                if lk_outcome lookup = LookupFound then (Inr (synthesized_ack (lk_info lookup)), w2, False)
                else if code e = ''venue:51000'' then (Inl e, w2, False)
                else if lk_outcome lookup = LookupAbsent then (Inl e, w2, True)
                else (Inl (unresolved ''place'' (op_cl_ord_id r) lookup e), w2, False))
         else (Inl e, w1, False))"

definition resilient_place :: "'w okx_client \<Rightarrow> okx_place_request \<Rightarrow> retry_policy \<Rightarrow> 'w retry_clock
    \<Rightarrow> 'w \<Rightarrow> okx_order_ack result \<times> 'w" where
  "resilient_place client r policy clk w =
     (case with_retries policy (lift_clock clk) (place_attempt client r policy clk) (\<lambda>_ s. snd s) (w, False) of
        (res, w', _) \<Rightarrow> (res, w'))"

definition cancel_attempt :: "'w okx_client \<Rightarrow> okx_cxl_request \<Rightarrow> retry_policy \<Rightarrow> 'w retry_clock
    \<Rightarrow> 'w \<times> bool \<Rightarrow> okx_order_ack result \<times> 'w \<times> bool" where
  "cancel_attempt client r policy clk = (\<lambda>(w, _).
     case cl_cancel_order client r w of
       (Inr ack, w1) \<Rightarrow> (Inr ack, w1, False)
     | (Inl e, w1) \<Rightarrow>
         if code e = ''transport'' then
           (case lookup_order client \<lparr>okq_inst_id = oc_inst_id r, okq_cl_ord_id = oc_cl_ord_id r\<rparr> policy clk w1 of
              (lookup, w2) \<Rightarrow>
                if lk_outcome lookup = LookupFound then
                  (if oi_state (lk_info lookup) = ''canceled'' then (Inr (synthesized_ack (lk_info lookup)), w2, False)
                   else (Inl e, w2, True))
                else if lk_outcome lookup = LookupAbsent then
                  (Inl (Error ''venue:51603'' ''cancel target not found on the venue''), w2, False)
                else (Inl (unresolved ''cancel'' (oc_cl_ord_id r) lookup e), w2, False))
         else if code e = ''venue:51017'' then
           (case lookup_order client \<lparr>okq_inst_id = oc_inst_id r, okq_cl_ord_id = oc_cl_ord_id r\<rparr> policy clk w1 of
              (lookup, w2) \<Rightarrow>
                if lk_outcome lookup = LookupFound \<and> oi_state (lk_info lookup) = ''canceled''
                then (Inr (synthesized_ack (lk_info lookup)), w2, False)
                else (Inl e, w2, False))
         else (Inl e, w1, False))"

definition resilient_cancel :: "'w okx_client \<Rightarrow> okx_cxl_request \<Rightarrow> retry_policy \<Rightarrow> 'w retry_clock
    \<Rightarrow> 'w \<Rightarrow> okx_order_ack result \<times> 'w" where
  "resilient_cancel client r policy clk w =
     (case with_retries policy (lift_clock clk) (cancel_attempt client r policy clk) (\<lambda>_ s. snd s) (w, False) of
        (res, w', _) \<Rightarrow> (res, w'))"

definition matches_request :: "okx_order_info \<Rightarrow> okx_amend_request \<Rightarrow> bool" where
  "matches_request info r =
     (if (case oa_new_px r of Some px \<Rightarrow> oi_px info \<noteq> px | None \<Rightarrow> False) then False
      else if (case oa_new_sz r of Some sz \<Rightarrow> oi_sz info \<noteq> sz | None \<Rightarrow> False) then False
      else True)"

definition amend_attempt :: "'w okx_client \<Rightarrow> okx_amend_request \<Rightarrow> retry_policy \<Rightarrow> 'w retry_clock
    \<Rightarrow> 'w \<times> bool \<Rightarrow> okx_order_ack result \<times> 'w \<times> bool" where
  "amend_attempt client r policy clk = (\<lambda>(w, _).
     case cl_amend_order client r w of
       (Inr ack, w1) \<Rightarrow> (Inr ack, w1, False)
     | (Inl e, w1) \<Rightarrow>
         if code e = ''transport'' then
           (case lookup_order client \<lparr>okq_inst_id = oa_inst_id r, okq_cl_ord_id = oa_cl_ord_id r\<rparr> policy clk w1 of
              (lookup, w2) \<Rightarrow>
                if lk_outcome lookup = LookupFound then
                  (if matches_request (lk_info lookup) r then (Inr (synthesized_ack (lk_info lookup)), w2, False)
                   else (Inl e, w2, True))
                else if lk_outcome lookup = LookupAbsent then
                  (Inl (Error ''venue:51603'' ''amend target not found on the venue''), w2, False)
                else (Inl (unresolved ''amend'' (oa_cl_ord_id r) lookup e), w2, False))
         else (Inl e, w1, False))"

definition resilient_amend :: "'w okx_client \<Rightarrow> okx_amend_request \<Rightarrow> retry_policy \<Rightarrow> 'w retry_clock
    \<Rightarrow> 'w \<Rightarrow> okx_order_ack result \<times> 'w" where
  "resilient_amend client r policy clk w =
     (case with_retries policy (lift_clock clk) (amend_attempt client r policy clk) (\<lambda>_ s. snd s) (w, False) of
        (res, w', _) \<Rightarrow> (res, w'))"

section \<open>Recorded runs\<close>

text \<open>Every venue call with its request and its answer.\<close>

datatype okx_call =
    PlaceCall okx_place_request "okx_order_ack result"
  | CancelCall okx_cxl_request "okx_order_ack result"
  | AmendCall okx_amend_request "okx_order_ack result"
  | LookupCall okx_query "okx_order_info option result"

definition recorded :: "'w okx_client \<Rightarrow> ('w \<times> okx_call list) okx_client" where
  "recorded client =
     \<lparr>cl_place_order = (\<lambda>r. recording (PlaceCall r) (cl_place_order client r)),
      cl_cancel_order = (\<lambda>r. recording (CancelCall r) (cl_cancel_order client r)),
      cl_amend_order = (\<lambda>r. recording (AmendCall r) (cl_amend_order client r)),
      cl_get_order = (\<lambda>q. recording (LookupCall q) (cl_get_order client q))\<rparr>"

fun is_lookup :: "okx_call \<Rightarrow> bool" where
  "is_lookup (LookupCall _ _) = True"
| "is_lookup _ = False"

fun asks_about :: "okx_query \<Rightarrow> okx_call \<Rightarrow> bool" where
  "asks_about q (LookupCall q' _) = (q' = q)"
| "asks_about _ _ = False"

text \<open>What the venue's answer to a lookup establishes.\<close>

fun answered_absent :: "okx_call \<Rightarrow> bool" where
  "answered_absent (LookupCall _ (Inr None)) = True"
| "answered_absent (LookupCall _ (Inl e)) = (code e = ''venue:51603'')"
| "answered_absent _ = False"

text \<open>The lookups and sends that concern one order.\<close>

abbreviation place_query :: "okx_place_request \<Rightarrow> okx_query" where
  "place_query r \<equiv> \<lparr>okq_inst_id = op_inst_id r, okq_cl_ord_id = op_cl_ord_id r\<rparr>"

abbreviation cancel_query :: "okx_cxl_request \<Rightarrow> okx_query" where
  "cancel_query r \<equiv> \<lparr>okq_inst_id = oc_inst_id r, okq_cl_ord_id = oc_cl_ord_id r\<rparr>"

abbreviation amend_query :: "okx_amend_request \<Rightarrow> okx_query" where
  "amend_query r \<equiv> \<lparr>okq_inst_id = oa_inst_id r, okq_cl_ord_id = oa_cl_ord_id r\<rparr>"

fun place_concerns :: "okx_place_request \<Rightarrow> okx_call \<Rightarrow> bool" where
  "place_concerns r (PlaceCall r' _) = (r' = r)"
| "place_concerns r (LookupCall q _) = (q = place_query r)"
| "place_concerns _ _ = False"

fun cancel_concerns :: "okx_cxl_request \<Rightarrow> okx_call \<Rightarrow> bool" where
  "cancel_concerns r (CancelCall r' _) = (r' = r)"
| "cancel_concerns r (LookupCall q _) = (q = cancel_query r)"
| "cancel_concerns _ _ = False"

fun amend_concerns :: "okx_amend_request \<Rightarrow> okx_call \<Rightarrow> bool" where
  "amend_concerns r (AmendCall r' _) = (r' = r)"
| "amend_concerns r (LookupCall q _) = (q = amend_query r)"
| "amend_concerns _ _ = False"

text \<open>A lookup of the order that was answered with its absence.\<close>

definition answered_absent_for :: "okx_query \<Rightarrow> okx_call \<Rightarrow> bool" where
  "answered_absent_for q c \<longleftrightarrow> asks_about q c \<and> answered_absent c"

fun answered_found :: "okx_call \<Rightarrow> okx_order_info option" where
  "answered_found (LookupCall _ (Inr (Some info))) = Some info"
| "answered_found _ = None"

text \<open>A lookup that is retried: transport failures, then the answer that decides. \<open>looked\<close> is the
  list of its calls.\<close>

definition looked_up :: "okx_query \<Rightarrow> lookup_result \<Rightarrow> okx_call list \<Rightarrow> bool" where
  "looked_up q lookup looked \<longleftrightarrow>
     (\<forall>l \<in> set looked. asks_about q l) \<and> (\<forall>l \<in> set (butlast looked). answered_found l = None \<and> \<not> answered_absent l)
     \<and> (lk_outcome lookup = LookupFound \<longrightarrow> looked \<noteq> [] \<and> answered_found (last looked) = Some (lk_info lookup))
     \<and> (lk_outcome lookup = LookupAbsent \<longrightarrow> looked \<noteq> [] \<and> answered_absent (last looked))
     \<and> (lk_outcome lookup = LookupInconclusive \<longrightarrow>
          (\<forall>l \<in> set looked. answered_found l = None \<and> \<not> answered_absent l))"

lemma lookup_attempt_recorded:
  "lookup_attempt (recorded client) q = judged lookup_verdict (recording (LookupCall q) (cl_get_order client q))"
  by (simp add: lookup_attempt_def recorded_def)

lemma retryable_answer:
  "lookup_verdict a = Inl e \<Longrightarrow> answered_found (LookupCall q a) = None"
  "lookup_verdict a = Inl e \<Longrightarrow> code e = ''transport'' \<Longrightarrow> \<not> answered_absent (LookupCall q a)"
  by (auto simp: lookup_verdict_def split: sum.splits option.splits if_splits)

lemma lookup_order_calls:
  assumes "lookup_order (recorded client) q policy (lift_clock clk) (w, calls) = (lookup, w', calls')"
  shows "\<exists>looked. calls' = calls @ looked \<and> looked_up q lookup looked"
proof -
  obtain r where run: "with_retries policy (lift_clock clk) (lookup_attempt (recorded client) q) (\<lambda>e _. code e = ''transport'') (w, calls)
      = (r, w', calls')" and lookup: "lookup = (case r of Inr found \<Rightarrow> found
      | Inl e \<Rightarrow> \<lparr>lk_outcome = LookupInconclusive, lk_info = empty_order_info, lk_error = Some e\<rparr>)"
    using assms by (auto simp: lookup_order_def split: prod.splits sum.splits)
  from judged_retries_calls [OF run [unfolded lookup_attempt_recorded]] obtain answers where
    a: "calls' = calls @ map (LookupCall q) answers"
      "\<forall>a \<in> set (butlast answers). \<exists>e. lookup_verdict a = Inl e \<and> code e = ''transport''"
      "if answers = [] then r = Inl retry_exhausted else r = lookup_verdict (last answers)" by blast
  have pending: "\<forall>a \<in> set (butlast answers). answered_found (LookupCall q a) = None \<and> \<not> answered_absent (LookupCall q a)"
    using a(2) retryable_answer by blast
  have "looked_up q lookup (map (LookupCall q) answers)"
  proof (cases answers rule: rev_cases)
    case Nil
    with a(3) lookup show ?thesis by (simp add: looked_up_def)
  next
    case (snoc before a)
    then have "r = lookup_verdict a" using a(3) by simp
    with snoc pending lookup show ?thesis
      by (cases a) (auto simp: looked_up_def lookup_verdict_def split: option.splits if_splits)
  qed
  with a(1) show ?thesis by blast
qed

lemma lookup_order_recorded:
  "map_prod id fst (lookup_order (recorded client) q policy (lift_clock clk) wc) = lookup_order client q policy clk (fst wc)"
  using judged_recorded [of policy clk lookup_verdict "LookupCall q" "cl_get_order client q" "\<lambda>e. code e = ''transport''" wc]
  unfolding lookup_order_def lookup_attempt_recorded lookup_attempt_def [of client, symmetric]
  by (auto simp: lookup_attempt_def split: prod.splits sum.splits)

section \<open>The engine keeps the contract\<close>

text \<open>What the result of a place means in terms of its last send and the lookups after it.\<close>

fun place_explains :: "okx_place_request \<Rightarrow> okx_order_ack result \<Rightarrow> okx_call \<Rightarrow> okx_call list \<Rightarrow> bool" where
  "place_explains r (Inr ack) (PlaceCall r' answer) looked =
     (r' = r \<and> (\<forall>l \<in> set looked. asks_about \<lparr>okq_inst_id = op_inst_id r, okq_cl_ord_id = op_cl_ord_id r\<rparr> l) \<and> (answer = Inr ack \<and> looked = []
      \<or> looked \<noteq> [] \<and> map_option synthesized_ack (answered_found (last looked)) = Some ack))"
| "place_explains r (Inl e) (PlaceCall r' answer) looked =
     (r' = r \<and> (\<forall>l \<in> set looked. asks_about \<lparr>okq_inst_id = op_inst_id r, okq_cl_ord_id = op_cl_ord_id r\<rparr> l) \<and> (answer = Inl e
       \<or> code e = ''transport'' \<and> (case answer of Inl e0 \<Rightarrow> code e0 = ''transport'' | Inr _ \<Rightarrow> False))
      \<and> (\<forall>l \<in> set looked. answered_found l = None))"
| "place_explains _ _ _ _ = False"

lemma looked_up_not_found:
  "looked_up q lookup looked \<Longrightarrow> lk_outcome lookup \<noteq> LookupFound \<Longrightarrow> \<forall>l \<in> set looked. answered_found l = None"
proof -
  assume l: "looked_up q lookup looked" and n: "lk_outcome lookup \<noteq> LookupFound"
  show ?thesis
  proof (cases "lk_outcome lookup")
    case LookupAbsent
    then have "looked \<noteq> []" "answered_absent (last looked)" using l by (auto simp: looked_up_def)
    moreover from this have "answered_found (last looked) = None" by (cases "last looked" rule: answered_absent.cases) auto
    ultimately show ?thesis using l unfolding looked_up_def
      by (metis append_butlast_last_id insert_iff list.simps(15) set_append Un_iff empty_set empty_iff)
  qed (use l n in \<open>auto simp: looked_up_def\<close>)
qed

lemma asks_about_lookup: "asks_about q l \<Longrightarrow> is_lookup l"
  by (cases l) simp_all

lemma asks_about_concerns:
  "asks_about (place_query pr) l \<Longrightarrow> place_concerns pr l" "asks_about (cancel_query cr) l \<Longrightarrow> cancel_concerns cr l"
  "asks_about (amend_query ar) l \<Longrightarrow> amend_concerns ar l"
  by (cases l; auto)+

lemma looked_up_lookups:
  "looked_up q lookup looked \<Longrightarrow> \<forall>l \<in> set looked. \<not> \<not> is_lookup l"
  "looked_up q lookup looked \<Longrightarrow> \<forall>l \<in> set looked. asks_about q l"
  by (auto simp: looked_up_def intro: asks_about_lookup)

lemma looked_up_ends:
  "looked_up q lookup looked \<Longrightarrow> lk_outcome lookup = LookupFound \<Longrightarrow> looked \<noteq> [] \<and> answered_found (last looked) = Some (lk_info lookup)"
  "looked_up q lookup looked \<Longrightarrow> lk_outcome lookup = LookupAbsent \<Longrightarrow> looked \<noteq> [] \<and> answered_absent (last looked)"
  "looked_up q lookup looked \<Longrightarrow> looked \<noteq> [] \<Longrightarrow> asks_about q (last looked)"
  by (simp_all add: looked_up_def)

text \<open>The lookups after a send.\<close>

lemma lookup_after_send:
  obtains lookup w2 looked where
    "lookup_order (recorded client) q policy (lift_clock clk) (w1, calls @ [c]) = (lookup, w2, calls @ c # looked)"
    "looked_up q lookup looked"
proof -
  obtain lookup w2 calls2 where lk: "lookup_order (recorded client) q policy (lift_clock clk) (w1, calls @ [c]) = (lookup, w2, calls2)"
    by (metis prod.collapse)
  from lookup_order_calls [OF lk] lk show ?thesis using that by auto
qed

lemmas resilient_simps = recorded_def recording_def unresolved_def

interpretation okx_place: guarded_resend "place_attempt (recorded client) r policy (lift_clock clk)"
    "\<lambda>c. \<not> is_lookup c" "answered_absent_for (place_query r)" "place_concerns r" "place_explains r"
  for client :: "'w okx_client" and r policy and clk :: "'w retry_clock"
proof
  fix w :: 'w and calls b res w' calls' b'
  assume a: "place_attempt (recorded client) r policy (lift_clock clk) ((w, calls), b) = (res, (w', calls'), b')"
  obtain ans w1 where s: "cl_place_order client r w = (ans, w1)" by fastforce
  let ?q = "\<lparr>okq_inst_id = op_inst_id r, okq_cl_ord_id = op_cl_ord_id r\<rparr>"
  obtain lookup w2 looked where l:
    "lookup_order (recorded client) ?q policy (lift_clock clk)
       (w1, calls @ [PlaceCall r ans]) = (lookup, w2, calls @ PlaceCall r ans # looked)" "looked_up ?q lookup looked"
    by (rule lookup_after_send)
  show "\<exists>c looked. calls' = calls @ c # looked \<and> \<not> is_lookup c \<and> (\<forall>l \<in> set looked. \<not> \<not> is_lookup l)
      \<and> (\<forall>x \<in> set (c # looked). place_concerns r x)
      \<and> (b' \<longrightarrow> looked \<noteq> [] \<and> answered_absent_for (place_query r) (last looked)) \<and> place_explains r res c looked"
  proof (cases "\<exists>e. ans = Inl e \<and> (code e = ''transport'' \<or> code e = ''venue:51000'')")
    case True
    with a s l show ?thesis
      using looked_up_not_found [OF l(2)] looked_up_lookups [OF l(2)] looked_up_ends [OF l(2)] asks_about_concerns
      by (intro exI [of _ "PlaceCall r ans"] exI [of _ looked])
        (auto simp: place_attempt_def resilient_simps answered_absent_for_def split: if_splits)
  next
    case False
    with a s show ?thesis
      by (intro exI [of _ "PlaceCall r ans"] exI [of _ "[]"])
        (auto simp: place_attempt_def resilient_simps split: sum.splits if_splits)
  qed
qed

text \<open>A cancel is sent again only after a lookup found the order not canceled.\<close>

definition answered_uncanceled :: "okx_query \<Rightarrow> okx_call \<Rightarrow> bool" where
  "answered_uncanceled q c \<longleftrightarrow> asks_about q c
     \<and> (case answered_found c of Some info \<Rightarrow> oi_state info \<noteq> ''canceled'' | None \<Rightarrow> False)"

fun cancel_explains :: "okx_cxl_request \<Rightarrow> okx_order_ack result \<Rightarrow> okx_call \<Rightarrow> okx_call list \<Rightarrow> bool" where
  "cancel_explains r (Inr ack) (CancelCall r' answer) looked =
     (r' = r \<and> (\<forall>l \<in> set looked. asks_about \<lparr>okq_inst_id = oc_inst_id r, okq_cl_ord_id = oc_cl_ord_id r\<rparr> l) \<and> (answer = Inr ack \<and> looked = []
      \<or> looked \<noteq> [] \<and> (case answered_found (last looked) of
            Some info \<Rightarrow> oi_state info = ''canceled'' \<and> ack = synthesized_ack info | None \<Rightarrow> False)))"
| "cancel_explains r (Inl e) (CancelCall r' answer) looked =
     (r' = r \<and> (\<forall>l \<in> set looked. asks_about \<lparr>okq_inst_id = oc_inst_id r, okq_cl_ord_id = oc_cl_ord_id r\<rparr> l) \<and> (answer = Inl e
       \<or> code e = ''transport'' \<and> (case answer of Inl e0 \<Rightarrow> code e0 = ''transport'' | Inr _ \<Rightarrow> False)
       \<or> code e = ''venue:51603'' \<and> looked \<noteq> [] \<and> answered_absent (last looked))
      \<and> (\<forall>l \<in> set looked. \<forall>info. answered_found l = Some info \<longrightarrow> oi_state info \<noteq> ''canceled''))"
| "cancel_explains _ _ _ _ = False"

lemma looked_up_found_last:
  assumes "looked_up q lookup looked" "lk_outcome lookup = LookupFound" "l \<in> set looked" "answered_found l = Some info"
  shows "info = lk_info lookup"
proof -
  have "l \<notin> set (butlast looked)" using assms by (auto simp: looked_up_def)
  then have "l = last looked" using assms(3) by (metis append_butlast_last_id emptyE empty_set in_set_conv_decomp
      rotate1.simps(2) set_ConsD set_append set_rotate1 UnE list.set(1))
  then show ?thesis using looked_up_ends(1) [OF assms(1,2)] assms(4) by simp
qed

interpretation okx_cancel: guarded_resend "cancel_attempt (recorded client) r policy (lift_clock clk)"
    "\<lambda>c. \<not> is_lookup c" "answered_uncanceled (cancel_query r)" "cancel_concerns r" "cancel_explains r"
  for client :: "'w okx_client" and r policy and clk :: "'w retry_clock"
proof
  fix w :: 'w and calls b res w' calls' b'
  assume a: "cancel_attempt (recorded client) r policy (lift_clock clk) ((w, calls), b) = (res, (w', calls'), b')"
  obtain ans w1 where s: "cl_cancel_order client r w = (ans, w1)" by fastforce
  let ?q = "\<lparr>okq_inst_id = oc_inst_id r, okq_cl_ord_id = oc_cl_ord_id r\<rparr>"
  obtain lookup w2 looked where l:
    "lookup_order (recorded client) ?q policy (lift_clock clk)
       (w1, calls @ [CancelCall r ans]) = (lookup, w2, calls @ CancelCall r ans # looked)" "looked_up ?q lookup looked"
    by (rule lookup_after_send)
  show "\<exists>c looked. calls' = calls @ c # looked \<and> \<not> is_lookup c \<and> (\<forall>l \<in> set looked. \<not> \<not> is_lookup l)
      \<and> (\<forall>x \<in> set (c # looked). cancel_concerns r x)
      \<and> (b' \<longrightarrow> looked \<noteq> [] \<and> answered_uncanceled (cancel_query r) (last looked)) \<and> cancel_explains r res c looked"
  proof (cases "\<exists>e. ans = Inl e \<and> (code e = ''transport'' \<or> code e = ''venue:51017'')")
    case True
    with a s l show ?thesis
      using looked_up_not_found [OF l(2)] looked_up_lookups [OF l(2)] looked_up_ends [OF l(2)] asks_about_concerns
        looked_up_found_last [OF l(2)]
      by (intro exI [of _ "CancelCall r ans"] exI [of _ looked])
        (cases "lk_outcome lookup"; auto simp: cancel_attempt_def resilient_simps answered_uncanceled_def split: if_splits)
  next
    case False
    with a s show ?thesis
      by (intro exI [of _ "CancelCall r ans"] exI [of _ "[]"])
        (auto simp: cancel_attempt_def resilient_simps split: sum.splits if_splits)
  qed
qed

text \<open>An amend is sent again only after a lookup found the order without the requested values.\<close>

definition answered_unmatched :: "okx_amend_request \<Rightarrow> okx_call \<Rightarrow> bool" where
  "answered_unmatched r c \<longleftrightarrow> asks_about (amend_query r) c
     \<and> (case answered_found c of Some info \<Rightarrow> \<not> matches_request info r | None \<Rightarrow> False)"

fun amend_explains :: "okx_amend_request \<Rightarrow> okx_order_ack result \<Rightarrow> okx_call \<Rightarrow> okx_call list \<Rightarrow> bool" where
  "amend_explains r (Inr ack) (AmendCall r' answer) looked =
     (r' = r \<and> (\<forall>l \<in> set looked. asks_about \<lparr>okq_inst_id = oa_inst_id r, okq_cl_ord_id = oa_cl_ord_id r\<rparr> l) \<and> (answer = Inr ack \<and> looked = []
      \<or> looked \<noteq> [] \<and> (case answered_found (last looked) of
            Some info \<Rightarrow> matches_request info r \<and> ack = synthesized_ack info | None \<Rightarrow> False)))"
| "amend_explains r (Inl e) (AmendCall r' answer) looked =
     (r' = r \<and> (\<forall>l \<in> set looked. asks_about \<lparr>okq_inst_id = oa_inst_id r, okq_cl_ord_id = oa_cl_ord_id r\<rparr> l) \<and> (answer = Inl e
       \<or> code e = ''transport'' \<and> (case answer of Inl e0 \<Rightarrow> code e0 = ''transport'' | Inr _ \<Rightarrow> False)
       \<or> code e = ''venue:51603'' \<and> looked \<noteq> [] \<and> answered_absent (last looked))
      \<and> (\<forall>l \<in> set looked. \<forall>info. answered_found l = Some info \<longrightarrow> \<not> matches_request info r))"
| "amend_explains _ _ _ _ = False"

interpretation okx_amend: guarded_resend "amend_attempt (recorded client) r policy (lift_clock clk)"
    "\<lambda>c. \<not> is_lookup c" "answered_unmatched r" "amend_concerns r" "amend_explains r"
  for client :: "'w okx_client" and r policy and clk :: "'w retry_clock"
proof
  fix w :: 'w and calls b res w' calls' b'
  assume a: "amend_attempt (recorded client) r policy (lift_clock clk) ((w, calls), b) = (res, (w', calls'), b')"
  obtain ans w1 where s: "cl_amend_order client r w = (ans, w1)" by fastforce
  let ?q = "\<lparr>okq_inst_id = oa_inst_id r, okq_cl_ord_id = oa_cl_ord_id r\<rparr>"
  obtain lookup w2 looked where l:
    "lookup_order (recorded client) ?q policy (lift_clock clk)
       (w1, calls @ [AmendCall r ans]) = (lookup, w2, calls @ AmendCall r ans # looked)" "looked_up ?q lookup looked"
    by (rule lookup_after_send)
  show "\<exists>c looked. calls' = calls @ c # looked \<and> \<not> is_lookup c \<and> (\<forall>l \<in> set looked. \<not> \<not> is_lookup l)
      \<and> (\<forall>x \<in> set (c # looked). amend_concerns r x)
      \<and> (b' \<longrightarrow> looked \<noteq> [] \<and> answered_unmatched r (last looked)) \<and> amend_explains r res c looked"
  proof (cases "\<exists>e. ans = Inl e \<and> code e = ''transport''")
    case True
    with a s l show ?thesis
      using looked_up_not_found [OF l(2)] looked_up_lookups [OF l(2)] looked_up_ends [OF l(2)] asks_about_concerns
        looked_up_found_last [OF l(2)]
      by (intro exI [of _ "AmendCall r ans"] exI [of _ looked])
        (cases "lk_outcome lookup"; auto simp: amend_attempt_def resilient_simps answered_unmatched_def split: if_splits)
  next
    case False
    with a s show ?thesis
      by (intro exI [of _ "AmendCall r ans"] exI [of _ "[]"])
        (auto simp: amend_attempt_def resilient_simps split: sum.splits if_splits)
  qed
qed

text \<open>Recording the calls does not influence the engine.\<close>

lemma recorded_lookup_eq:
  "lookup_order (recorded client) q policy (lift_clock clk) (w, calls) = (lookup, w', calls') \<Longrightarrow>
     lookup_order client q policy clk w = (lookup, w')"
  using lookup_order_recorded [of client q policy clk "(w, calls)"] by simp

lemma okx_place_recorded:
  "map_prod id (map_prod fst id) (place_attempt (recorded client) r policy (lift_clock clk) v) = place_attempt client r policy clk (map_prod fst id v)"
proof -
  obtain w calls b where v: "v = ((w, calls), b)" by (metis prod.collapse)
  obtain ans w1 where s: "cl_place_order client r w = (ans, w1)" by (rule prod.exhaust)
  obtain lookup w2 calls2 where l: "lookup_order (recorded client) \<lparr>okq_inst_id = op_inst_id r, okq_cl_ord_id = op_cl_ord_id r\<rparr> policy (lift_clock clk) (w1, calls @ [PlaceCall r ans])
      = (lookup, w2, calls2)" by (metis prod.exhaust)
  have s': "cl_place_order (recorded client) r (w, calls) = (ans, w1, calls @ [PlaceCall r ans])" by (simp add: recorded_def recording_def s)
  show ?thesis
    using s l recorded_lookup_eq [OF l] by (cases ans) (simp_all add: place_attempt_def v s')
qed

lemma okx_cancel_recorded:
  "map_prod id (map_prod fst id) (cancel_attempt (recorded client) r policy (lift_clock clk) v) = cancel_attempt client r policy clk (map_prod fst id v)"
proof -
  obtain w calls b where v: "v = ((w, calls), b)" by (metis prod.collapse)
  obtain ans w1 where s: "cl_cancel_order client r w = (ans, w1)" by (rule prod.exhaust)
  obtain lookup w2 calls2 where l: "lookup_order (recorded client) \<lparr>okq_inst_id = oc_inst_id r, okq_cl_ord_id = oc_cl_ord_id r\<rparr> policy (lift_clock clk) (w1, calls @ [CancelCall r ans])
      = (lookup, w2, calls2)" by (metis prod.exhaust)
  have s': "cl_cancel_order (recorded client) r (w, calls) = (ans, w1, calls @ [CancelCall r ans])" by (simp add: recorded_def recording_def s)
  show ?thesis
    using s l recorded_lookup_eq [OF l] by (cases ans) (simp_all add: cancel_attempt_def v s')
qed

lemma okx_amend_recorded:
  "map_prod id (map_prod fst id) (amend_attempt (recorded client) r policy (lift_clock clk) v) = amend_attempt client r policy clk (map_prod fst id v)"
proof -
  obtain w calls b where v: "v = ((w, calls), b)" by (metis prod.collapse)
  obtain ans w1 where s: "cl_amend_order client r w = (ans, w1)" by (rule prod.exhaust)
  obtain lookup w2 calls2 where l: "lookup_order (recorded client) \<lparr>okq_inst_id = oa_inst_id r, okq_cl_ord_id = oa_cl_ord_id r\<rparr> policy (lift_clock clk) (w1, calls @ [AmendCall r ans])
      = (lookup, w2, calls2)" by (metis prod.exhaust)
  have s': "cl_amend_order (recorded client) r (w, calls) = (ans, w1, calls @ [AmendCall r ans])" by (simp add: recorded_def recording_def s)
  show ?thesis
    using s l recorded_lookup_eq [OF l] by (cases ans) (simp_all add: amend_attempt_def v s')
qed

lemmas attempts_recorded = okx_place_recorded okx_cancel_recorded okx_amend_recorded

section \<open>Properties\<close>

text \<open>C4. A place is never sent twice blindly. In any run of \<open>resilient_place\<close>, against any client
  and any clock and with a policy of at least one attempt, every send after the first is immediately preceded by a lookup of this very
  order that the venue answered with a conclusive absence; every send is of this very request
  and every lookup asks for its instrument and client order id. The result is explained by the
  last send: an acknowledgement is the venue's own or made from an order the lookup found; an
  error is the venue's own answer, or \<open>transport\<close> after a transport failure, and is only
  returned when no lookup after the last send found the order. (Recording the calls does not
  change the run.)\<close>

theorem okx_place_resent_only_after_absence:
  assumes "resilient_place (recorded client) r policy (lift_clock clk) (w, []) = (res, w', calls)"
    and "1 \<le> rp_max_attempts policy"
  shows "resilient_place client r policy clk w = (res, w')
    \<and> licensed (\<lambda>c. \<not> is_lookup c) (answered_absent_for (place_query r)) calls \<and> (\<forall>c \<in> set calls. place_concerns r c)
    \<and> (\<exists>earlier c looked. calls = earlier @ c # looked \<and> (\<forall>l \<in> set looked. is_lookup l)
         \<and> place_explains r res c looked)"
proof -
  obtain b where run: "with_retries policy (lift_clock (lift_clock clk)) (place_attempt (recorded client) r policy (lift_clock clk))
      (\<lambda>_ s. snd s) ((w, []), False) = (res, (w', calls), b)"
    using assms(1) by (auto simp: resilient_place_def split: prod.splits)
  have "resilient_place client r policy clk w = (res, w')"
    using engine_recorded [OF attempts_recorded(1) run] by (simp add: resilient_place_def)
  moreover have "okx_place.explained r res calls" "licensed (\<lambda>c. \<not> is_lookup c) (answered_absent_for (place_query r)) calls"
    "\<forall>c \<in> set calls. place_concerns r c"
    using okx_place.run_licensed [OF run assms(2)] by simp_all
  ultimately show ?thesis by (auto simp: okx_place.explained_def)
qed

text \<open>C25. Cancels and amends are re-sent only when that is harmless. With a policy of at least one attempt,
  against any client and any clock: every cancel after the first
  is immediately preceded by a lookup of the very order it is to cancel that found it not
  canceled, and success is the venue's acknowledgement or a lookup that found the order canceled;
  every amend after the first is preceded by a lookup of its order that found it without the
  requested price or size, and success is the venue's acknowledgement or a lookup that found the
  requested values. Every send of a run is of its very request, and every lookup asks for the
  instrument and client order id of that request.\<close>

theorem okx_cancel_amend_resent_only_when_harmless:
  assumes "1 \<le> rp_max_attempts policy"
    and "resilient_cancel (recorded client) cr policy (lift_clock clk) (w, []) = (cres, cw, ccalls)"
    and "resilient_amend (recorded client) ar policy (lift_clock clk) (w, []) = (ares, aw, acalls)"
  shows "resilient_cancel client cr policy clk w = (cres, cw)
    \<and> licensed (\<lambda>c. \<not> is_lookup c) (answered_uncanceled (cancel_query cr)) ccalls \<and> (\<forall>c \<in> set ccalls. cancel_concerns cr c)
    \<and> (\<exists>earlier c looked. ccalls = earlier @ c # looked \<and> (\<forall>l \<in> set looked. is_lookup l) \<and> cancel_explains cr cres c looked)
    \<and> resilient_amend client ar policy clk w = (ares, aw)
    \<and> licensed (\<lambda>c. \<not> is_lookup c) (answered_unmatched ar) acalls \<and> (\<forall>c \<in> set acalls. amend_concerns ar c)
    \<and> (\<exists>earlier c looked. acalls = earlier @ c # looked \<and> (\<forall>l \<in> set looked. is_lookup l) \<and> amend_explains ar ares c looked)"
proof -
  obtain b where crun: "with_retries policy (lift_clock (lift_clock clk)) (cancel_attempt (recorded client) cr policy (lift_clock clk))
      (\<lambda>_ s. snd s) ((w, []), False) = (cres, (cw, ccalls), b)"
    using assms(2) by (auto simp: resilient_cancel_def split: prod.splits)
  obtain b' where arun: "with_retries policy (lift_clock (lift_clock clk)) (amend_attempt (recorded client) ar policy (lift_clock clk))
      (\<lambda>_ s. snd s) ((w, []), False) = (ares, (aw, acalls), b')"
    using assms(3) by (auto simp: resilient_amend_def split: prod.splits)
  have "resilient_cancel client cr policy clk w = (cres, cw)" "resilient_amend client ar policy clk w = (ares, aw)"
    using engine_recorded [OF attempts_recorded(2) crun] engine_recorded [OF attempts_recorded(3) arun]
    by (simp_all add: resilient_cancel_def resilient_amend_def)
  moreover have "okx_cancel.explained cr cres ccalls" "licensed (\<lambda>c. \<not> is_lookup c) (answered_uncanceled (cancel_query cr)) ccalls"
    "\<forall>c \<in> set ccalls. cancel_concerns cr c" "okx_amend.explained ar ares acalls"
    "licensed (\<lambda>c. \<not> is_lookup c) (answered_unmatched ar) acalls" "\<forall>c \<in> set acalls. amend_concerns ar c"
    using okx_cancel.run_licensed [OF crun assms(1)] okx_amend.run_licensed [OF arun assms(1)] by simp_all
  ultimately show ?thesis by (auto simp: okx_cancel.explained_def okx_amend.explained_def)
qed

text \<open>A venue that loses the first request and answers the next calls: it does not know the order
  (\<open>demo_okx_venue None\<close>) or finds it as given.\<close>

definition demo_okx_venue :: "okx_order_info option \<Rightarrow> nat okx_client" where
  "demo_okx_venue info =
     (let answer = (\<lambda>w. (if w = (0::nat) then Inl (Error ''transport'' ''timeout'')
            else Inr \<lparr>ack_ord_id = ''x1'', ack_cl_ord_id = ''c1'', ack_s_code = ''0'', ack_s_msg = []\<rparr>, w + 1))
      in \<lparr>cl_place_order = (\<lambda>_. answer), cl_cancel_order = (\<lambda>_. answer), cl_amend_order = (\<lambda>_. answer),
          cl_get_order = (\<lambda>_ w. (Inr info, w + 1))\<rparr>)"

definition demo_place :: okx_place_request where
  "demo_place = \<lparr>op_cl_ord_id = ''c1'', op_inst_id = ''I'', op_side = ''buy'', op_ord_type = ''limit'', op_px = ''1'',
     op_sz = ''2'', op_td_if = [], op_td_mode = ''cash''\<rparr>"

definition demo_info :: okx_order_info where
  "demo_info = empty_order_info\<lparr>oi_ord_id := ''x1'', oi_cl_ord_id := ''c1'', oi_state := ''live'', oi_px := ''1'', oi_sz := ''2''\<rparr>"

theorem okx_place_resent_only_after_absence_witness:
  "\<exists>ack calls. resilient_place (recorded (demo_okx_venue None)) demo_place default_policy (lift_clock demo_retry_clock) (0, [])
       = (Inr ack, 3, calls)
     \<and> map is_lookup calls = [False, True, False] \<and> licensed (\<lambda>c. \<not> is_lookup c) (answered_absent_for (place_query demo_place)) calls
     \<and> resilient_place (demo_okx_venue None) demo_place default_policy demo_retry_clock 0 = (Inr ack, 3)"
proof -
  let ?ack = "\<lparr>ack_ord_id = ''x1'', ack_cl_ord_id = ''c1'', ack_s_code = ''0'', ack_s_msg = []\<rparr>"
  let ?calls = "[PlaceCall demo_place (Inl (Error ''transport'' ''timeout'')),
     LookupCall \<lparr>okq_inst_id = ''I'', okq_cl_ord_id = ''c1''\<rparr> (Inr None), PlaceCall demo_place (Inr ?ack)]"
  have run: "resilient_place (recorded (demo_okx_venue None)) demo_place default_policy (lift_clock demo_retry_clock) (0, [])
      = (Inr ?ack, 3, ?calls)" by code_simp
  have "1 \<le> rp_max_attempts default_policy" by (simp add: default_policy_def)
  from okx_place_resent_only_after_absence [OF run this] run show ?thesis by auto
qed

theorem okx_cancel_amend_resent_only_when_harmless_witness:
  "\<exists>ack. resilient_cancel (demo_okx_venue (Some demo_info)) \<lparr>oc_inst_id = ''I'', oc_cl_ord_id = ''c1''\<rparr>
       default_policy demo_retry_clock 0 = (Inr ack, 3)
     \<and> resilient_amend (demo_okx_venue (Some demo_info))
         \<lparr>oa_inst_id = ''I'', oa_cl_ord_id = ''c1'', oa_new_px = Some ''9'', oa_new_sz = None\<rparr>
         default_policy demo_retry_clock 0 = (Inr ack, 3)"
proof -
  let ?ack = "\<lparr>ack_ord_id = ''x1'', ack_cl_ord_id = ''c1'', ack_s_code = ''0'', ack_s_msg = []\<rparr>"
  let ?cr = "\<lparr>oc_inst_id = ''I'', oc_cl_ord_id = ''c1''\<rparr>"
  let ?ar = "\<lparr>oa_inst_id = ''I'', oa_cl_ord_id = ''c1'', oa_new_px = Some ''9'', oa_new_sz = None\<rparr>"
  let ?look = "LookupCall \<lparr>okq_inst_id = ''I'', okq_cl_ord_id = ''c1''\<rparr> (Inr (Some demo_info))"
  let ?lost = "Inl (Error ''transport'' ''timeout'')"
  have c: "resilient_cancel (recorded (demo_okx_venue (Some demo_info))) ?cr default_policy (lift_clock demo_retry_clock) (0, [])
      = (Inr ?ack, 3, [CancelCall ?cr ?lost, ?look, CancelCall ?cr (Inr ?ack)])" by code_simp
  have a: "resilient_amend (recorded (demo_okx_venue (Some demo_info))) ?ar default_policy (lift_clock demo_retry_clock) (0, [])
      = (Inr ?ack, 3, [AmendCall ?ar ?lost, ?look, AmendCall ?ar (Inr ?ack)])" by code_simp
  have "1 \<le> rp_max_attempts default_policy" by (simp add: default_policy_def)
  from okx_cancel_amend_resent_only_when_harmless [OF this c a] show ?thesis by blast
qed

end
