(* ===== verification/OKX_Client.thy ===== *)
theory OKX_Client
  imports OKX_Wire Retry
begin

text \<open>
  The OKX REST client and its configuration, \<^verbatim>\<open>src/exchange/okx/okx_rest_client.cpp\<close> and
  \<^verbatim>\<open>okx_signer.cpp\<close>. Third-party code is an argument: the JSON parser (\<open>None\<close> for a discarded
  value) and printer, HMAC-SHA256 and base64, and the HTTP exchange itself, which maps a call
  to a status and body, or to \<open>None\<close> when the network failed. \<^typ>\<open>'w\<close> is the state of the
  surroundings that an exchange may change.
\<close>

section \<open>Configuration\<close>

record okx_ws_config =
  ws_enabled :: bool
  ws_host :: string
  ws_port :: int
  ws_use_tls :: bool
  ws_path :: string
  ws_ping_interval :: int
  ws_max_missed_pongs :: int

definition default_okx_ws :: okx_ws_config where
  "default_okx_ws = \<lparr>ws_enabled = True, ws_host = ''ws.okx.com'', ws_port = 8443, ws_use_tls = True,
     ws_path = ''/ws/v5/private'', ws_ping_interval = 20000, ws_max_missed_pongs = 2\<rparr>"

record okx_config =
  ok_api_key :: string
  ok_secret_key :: string
  ok_passphrase :: string
  ok_host :: string
  ok_port :: int
  ok_use_tls :: bool
  ok_demo_trading :: bool
  ok_connect_timeout_ms :: int
  ok_read_timeout_ms :: int
  ok_retry :: retry_policy
  ok_ws :: okx_ws_config

definition default_okx :: okx_config where
  "default_okx = \<lparr>ok_api_key = [], ok_secret_key = [], ok_passphrase = [], ok_host = ''www.okx.com'',
     ok_port = 443, ok_use_tls = True, ok_demo_trading = False, ok_connect_timeout_ms = 5000,
     ok_read_timeout_ms = 5000, ok_retry = default_policy, ok_ws = default_okx_ws\<rparr>"

definition string_field :: "json \<Rightarrow> string \<Rightarrow> string option" where
  "string_field node nm = (case jfind node nm of Some (JStr s) \<Rightarrow> Some s | _ \<Rightarrow> None)"

text \<open>The three shapes of optional members: a string is taken when it is one; a boolean and a
  bounded number must have the right type and range, and are errors otherwise.\<close>

definition take_string :: "json \<Rightarrow> string \<Rightarrow> string \<Rightarrow> string" where
  "take_string node nm dflt = opt_or (string_field node nm) dflt"

definition take_bool :: "json \<Rightarrow> string \<Rightarrow> bool \<Rightarrow> string \<Rightarrow> bool result" where
  "take_bool node nm dflt msg =
     (case jfind node nm of
        None \<Rightarrow> Inr dflt
      | Some (JBool b) \<Rightarrow> Inr b
      | Some _ \<Rightarrow> Inl (Error ''protocol'' msg))"

definition take_ranged :: "json \<Rightarrow> string \<Rightarrow> int \<Rightarrow> int \<Rightarrow> int \<Rightarrow> string \<Rightarrow> int result" where
  "take_ranged node nm dflt lo hi msg =
     (case jfind node nm of
        None \<Rightarrow> Inr dflt
      | Some (JUInt v) \<Rightarrow> if int v < lo \<or> int v > hi then Inl (Error ''protocol'' msg) else Inr (int v)
      | Some _ \<Rightarrow> Inl (Error ''protocol'' msg))"

definition ws_config_from_json :: "json \<Rightarrow> okx_ws_config \<Rightarrow> okx_ws_config result" where
  "ws_config_from_json node defaults =
     (if \<not> is_object node then Inl (Error ''protocol'' ''okx ws config must be a JSON object'')
      else case take_bool node ''enabled'' (ws_enabled defaults) ''okx ws enabled must be a boolean'' of
        Inl e \<Rightarrow> Inl e
      | Inr enabled \<Rightarrow> (case take_ranged node ''port'' (ws_port defaults) 1 65535
            ''okx ws port must be an unsigned number in [1, 65535]'' of
        Inl e \<Rightarrow> Inl e
      | Inr port \<Rightarrow> (case take_bool node ''useTls'' (ws_use_tls defaults) ''okx ws useTls must be a boolean'' of
        Inl e \<Rightarrow> Inl e
      | Inr use_tls \<Rightarrow> (case take_ranged node ''pingIntervalMs'' (ws_ping_interval defaults) 1 600000
            ''okx ws pingIntervalMs must be in [1, 600000]'' of
        Inl e \<Rightarrow> Inl e
      | Inr interval \<Rightarrow> (case take_ranged node ''maxMissedPongs'' (ws_max_missed_pongs defaults) 1 100
            ''okx ws maxMissedPongs must be in [1, 100]'' of
        Inl e \<Rightarrow> Inl e
      | Inr missed \<Rightarrow>
          Inr \<lparr>ws_enabled = enabled, ws_host = take_string node ''host'' (ws_host defaults), ws_port = port,
               ws_use_tls = use_tls, ws_path = take_string node ''path'' (ws_path defaults),
               ws_ping_interval = interval, ws_max_missed_pongs = missed\<rparr>)))))"

text \<open>The accumulated list of missing required strings.\<close>

definition missing_fields :: "json \<Rightarrow> string list \<Rightarrow> string" where
  "missing_fields node nms =
     foldl (\<lambda>missing nm. if string_field node nm = None then (if missing \<noteq> [] then missing @ '', '' else missing) @ nm
        else missing) [] nms"

definition take_port :: "json \<Rightarrow> int \<Rightarrow> int result" where
  "take_port node dflt =
     (case jfind node ''port'' of
        None \<Rightarrow> Inr dflt
      | Some (JUInt v) \<Rightarrow> Inr (wrap32 (int v))
      | Some _ \<Rightarrow> Inl (Error ''protocol'' ''okx port must be an unsigned number''))"

definition retry_section :: "json \<Rightarrow> retry_policy \<Rightarrow> retry_policy result" where
  "retry_section node dflt =
     (case jfind node ''retry'' of None \<Rightarrow> Inr dflt | Some retry \<Rightarrow> retry_policy_from_json retry dflt)"

definition ws_section :: "json \<Rightarrow> okx_ws_config \<Rightarrow> okx_ws_config result" where
  "ws_section node dflt =
     (case jfind node ''ws'' of None \<Rightarrow> Inr dflt | Some ws \<Rightarrow> ws_config_from_json ws dflt)"

definition okx_config_from_json :: "json \<Rightarrow> okx_config result" where
  "okx_config_from_json section =
     (if \<not> is_object section then Inl (Error ''protocol'' ''okx config section must be a JSON object'')
      else
        let missing = missing_fields section [''apiKey'', ''secretKey'', ''passphrase'']
        in if missing \<noteq> [] then
             Inl (Error ''protocol'' (''okx config missing or non-string field(s): '' @ missing))
           else case take_port section (ok_port default_okx) of
        Inl e \<Rightarrow> Inl e
      | Inr port \<Rightarrow> (case take_bool section ''useTls'' (ok_use_tls default_okx) ''okx useTls must be a boolean'' of
        Inl e \<Rightarrow> Inl e
      | Inr use_tls \<Rightarrow> (case take_bool section ''demoTrading'' (ok_demo_trading default_okx)
            ''okx demoTrading must be a boolean'' of
        Inl e \<Rightarrow> Inl e
      | Inr demo \<Rightarrow> (case take_ranged section ''restConnectTimeoutMs'' (ok_connect_timeout_ms default_okx) 1 600000
            ''okx restConnectTimeoutMs must be in [1, 600000]'' of
        Inl e \<Rightarrow> Inl e
      | Inr connect_timeout \<Rightarrow> (case take_ranged section ''restReadTimeoutMs'' (ok_read_timeout_ms default_okx) 1 600000
            ''okx restReadTimeoutMs must be in [1, 600000]'' of
        Inl e \<Rightarrow> Inl e
      | Inr read_timeout \<Rightarrow> (case retry_section section (ok_retry default_okx) of
        Inl e \<Rightarrow> Inl e
      | Inr policy \<Rightarrow> (case ws_section section (ok_ws default_okx) of
        Inl e \<Rightarrow> Inl e
      | Inr ws \<Rightarrow>
          Inr \<lparr>ok_api_key = take_string section ''apiKey'' [], ok_secret_key = take_string section ''secretKey'' [],
               ok_passphrase = take_string section ''passphrase'' [],
               ok_host = take_string section ''host'' (ok_host default_okx), ok_port = port, ok_use_tls = use_tls,
               ok_demo_trading = demo, ok_connect_timeout_ms = connect_timeout,
               ok_read_timeout_ms = read_timeout, ok_retry = policy, ok_ws = ws\<rparr>)))))))"

section \<open>Requests\<close>

record http_call =
  hc_tls :: bool
  hc_host :: string
  hc_port :: int
  hc_connect_timeout_us :: int
  hc_read_timeout_us :: int
  hc_method :: string
  hc_path :: string
  hc_headers :: "(string \<times> string) list"
  hc_body :: "string option"

record 'w okx_env =
  env_parse :: "string \<Rightarrow> json option"
  env_dump :: "json \<Rightarrow> string"
  env_hmac :: "string \<Rightarrow> string \<Rightarrow> string option"
  env_base64 :: "string \<Rightarrow> string"
  env_timestamp :: "'w \<Rightarrow> string \<times> 'w"
  env_http :: "http_call \<Rightarrow> 'w \<Rightarrow> (int \<times> string) option \<times> 'w"

text \<open>\<open>env_hmac secret text\<close>; a failed or short digest yields an empty signature.\<close>

definition sign_request :: "'w okx_env \<Rightarrow> string \<Rightarrow> string \<Rightarrow> string \<Rightarrow> string \<Rightarrow> string \<Rightarrow> string" where
  "sign_request env timestamp meth path body secret =
     (case env_hmac env secret (timestamp @ meth @ path @ body) of
        None \<Rightarrow> []
      | Some mac \<Rightarrow> if length mac \<noteq> 32 then [] else env_base64 env mac)"

definition sign_ws_login :: "'w okx_env \<Rightarrow> string \<Rightarrow> string \<Rightarrow> string" where
  "sign_ws_login env timestamp secret = sign_request env timestamp ''GET'' ''/users/self/verify'' [] secret"

definition envelope_detail :: "json \<Rightarrow> string \<Rightarrow> string" where
  "envelope_detail envelope cd =
     (let msg = opt_or (string_field envelope ''msg'') [];
          detail = (case jfind envelope ''data'' of
              Some (JArr (front # _)) \<Rightarrow>
                if is_object front then
                  msg @ '' ['' @ opt_or (string_field front ''sCode'') [] @ '': '' @
                    opt_or (string_field front ''sMsg'') [] @ '']''
                else msg
            | _ \<Rightarrow> msg)
      in if detail = [] then cd else detail)"

definition parse_envelope :: "'w okx_env \<Rightarrow> string \<Rightarrow> string \<Rightarrow> json result" where
  "parse_envelope env body path =
     (case env_parse env body of
        None \<Rightarrow> Inl (Error ''protocol'' (''response is not a JSON object: '' @ body))
      | Some envelope \<Rightarrow>
          if \<not> is_object envelope then Inl (Error ''protocol'' (''response is not a JSON object: '' @ body))
          else case string_field envelope ''code'' of
            None \<Rightarrow> Inl (Error ''protocol'' (''envelope missing string field '' @ [quote_char] @ ''code'' @ [quote_char]))
          | Some cd \<Rightarrow>
              if cd \<noteq> ''0'' then
                Inl (Error (''venue:'' @ cd) (''OKX rejected '' @ path @ '': '' @ envelope_detail envelope cd))
              else (case jfind envelope ''data'' of
                  Some (JArr _) \<Rightarrow> Inr envelope
                | _ \<Rightarrow> Inl (Error ''protocol'' (''envelope missing '' @ [quote_char] @ ''data'' @ [quote_char] @ '' array''))))"

definition starts_with :: "string \<Rightarrow> string \<Rightarrow> bool" where
  "starts_with prefix s \<longleftrightarrow> take (length prefix) s = prefix"

definition classify_http_error :: "'w okx_env \<Rightarrow> int \<Rightarrow> string \<Rightarrow> string \<Rightarrow> error" where
  "classify_http_error env status body path =
     (let describe = ''unexpected HTTP status '' @ int_to_string status @ '' from '' @ path
      in if status \<ge> 500 \<or> status = 429 then Error ''transport'' describe
         else case parse_envelope env body path of
             Inl e \<Rightarrow> if starts_with ''venue:'' (code e) then e
               else Error ''protocol'' (describe @ '' without an OKX error envelope: '' @ body)
           | Inr _ \<Rightarrow> Error ''protocol'' (describe @ '' without an OKX error envelope: '' @ body))"

definition perform_request :: "'w okx_env \<Rightarrow> okx_config \<Rightarrow> bool \<Rightarrow> string \<Rightarrow> string \<Rightarrow> (string \<times> string) list
    \<Rightarrow> string \<Rightarrow> 'w \<Rightarrow> (int \<times> string) option \<times> 'w" where
  "perform_request env cfg tls meth path headers body w =
     env_http env
       \<lparr>hc_tls = tls, hc_host = ok_host cfg, hc_port = ok_port cfg,
        hc_connect_timeout_us = ok_connect_timeout_ms cfg * 1000, hc_read_timeout_us = ok_read_timeout_ms cfg * 1000,
        hc_method = (if meth = ''GET'' then ''GET'' else ''POST''), hc_path = path,
        hc_headers = (if meth = ''GET'' then headers else headers @ [(''Content-Type'', ''application/json'')]),
        hc_body = (if meth = ''GET'' then None else Some body)\<rparr> w"

definition network_failure :: "okx_config \<Rightarrow> error" where
  "network_failure cfg = Error ''transport'' (''network failure talking to '' @ ok_host cfg)"

definition signed_request_raw :: "'w okx_env \<Rightarrow> okx_config \<Rightarrow> string \<Rightarrow> string \<Rightarrow> string \<Rightarrow> 'w
    \<Rightarrow> (int \<times> string) result \<times> 'w" where
  "signed_request_raw env cfg meth path body w =
     (case env_timestamp env w of (timestamp, w1) \<Rightarrow>
        let headers = [(''OK-ACCESS-KEY'', ok_api_key cfg),
              (''OK-ACCESS-SIGN'', sign_request env timestamp meth path body (ok_secret_key cfg)),
              (''OK-ACCESS-TIMESTAMP'', timestamp), (''OK-ACCESS-PASSPHRASE'', ok_passphrase cfg)]
              @ (if ok_demo_trading cfg then [(''x-simulated-trading'', ''1'')] else [])
        in case perform_request env cfg (ok_use_tls cfg) meth path headers body w1 of
             (None, w2) \<Rightarrow> (Inl (network_failure cfg), w2)
           | (Some reply, w2) \<Rightarrow> (Inr reply, w2))"

definition judge_reply :: "'w okx_env \<Rightarrow> string \<Rightarrow> (int \<times> string) result \<Rightarrow> json result" where
  "judge_reply env path raw =
     (case raw of
        Inl e \<Rightarrow> Inl e
      | Inr (status, body) \<Rightarrow>
          if status \<noteq> 200 then Inl (classify_http_error env status body path) else parse_envelope env body path)"

definition signed_request :: "'w okx_env \<Rightarrow> okx_config \<Rightarrow> string \<Rightarrow> string \<Rightarrow> string \<Rightarrow> 'w \<Rightarrow> json result \<times> 'w" where
  "signed_request env cfg meth path body w =
     (case signed_request_raw env cfg meth path body w of (raw, w1) \<Rightarrow> (judge_reply env path raw, w1))"

text \<open>\<open>envelope.at("data")\<close>, an array once \<open>parse_envelope\<close> has accepted the envelope.\<close>

definition envelope_data :: "json \<Rightarrow> json list" where
  "envelope_data envelope = (case jfind envelope ''data'' of Some (JArr items) \<Rightarrow> items | _ \<Rightarrow> [])"

definition first_ack :: "'w okx_env \<Rightarrow> string \<Rightarrow> json result \<Rightarrow> okx_order_ack result" where
  "first_ack env what envelope =
     (case envelope of
        Inl e \<Rightarrow> Inl e
      | Inr j \<Rightarrow> (case envelope_data j of
          [] \<Rightarrow> Inl (Error ''protocol'' (what @ '' data array is empty''))
        | front # _ \<Rightarrow>
            if \<not> is_object front then Inl (Error ''protocol'' (what @ '' data array is empty''))
            else Inr (parse_order_ack (env_dump env) front)))"

definition place_order :: "'w okx_env \<Rightarrow> okx_config \<Rightarrow> okx_place_request \<Rightarrow> 'w \<Rightarrow> okx_order_ack result \<times> 'w" where
  "place_order env cfg r w =
     (case signed_request env cfg ''POST'' ''/api/v5/trade/order'' (env_dump env (place_to_json r)) w of
        (envelope, w1) \<Rightarrow> (first_ack env ''place-order'' envelope, w1))"

definition cancel_order :: "'w okx_env \<Rightarrow> okx_config \<Rightarrow> okx_cxl_request \<Rightarrow> 'w \<Rightarrow> okx_order_ack result \<times> 'w" where
  "cancel_order env cfg r w =
     (case signed_request env cfg ''POST'' ''/api/v5/trade/cancel-order'' (env_dump env (cancel_to_json r)) w of
        (envelope, w1) \<Rightarrow> (first_ack env ''cancel-order'' envelope, w1))"

definition amend_order :: "'w okx_env \<Rightarrow> okx_config \<Rightarrow> okx_amend_request \<Rightarrow> 'w \<Rightarrow> okx_order_ack result \<times> 'w" where
  "amend_order env cfg r w =
     (case amend_to_json r of
        Inl e \<Rightarrow> (Inl e, w)
      | Inr body \<Rightarrow>
          (case signed_request env cfg ''POST'' ''/api/v5/trade/amend-order'' (env_dump env body) w of
             (envelope, w1) \<Rightarrow> (first_ack env ''amend-order'' envelope, w1)))"

definition get_order :: "'w okx_env \<Rightarrow> okx_config \<Rightarrow> okx_query \<Rightarrow> 'w \<Rightarrow> okx_order_info option result \<times> 'w" where
  "get_order env cfg q w =
     (case signed_request env cfg ''GET'' (''/api/v5/trade/order?'' @ to_query q) [] w of
        (envelope, w1) \<Rightarrow>
          (case envelope of
             Inl e \<Rightarrow> Inl e
           | Inr j \<Rightarrow> (case envelope_data j of
               [] \<Rightarrow> Inr None
             | front # _ \<Rightarrow>
                 if \<not> is_object front then Inl (Error ''protocol'' ''order-info data[0] is not an object'')
                 else Inr (Some (parse_order_info (env_dump env) front))), w1))"

fun parse_pending :: "(json \<Rightarrow> string) \<Rightarrow> json list \<Rightarrow> okx_order_info list result" where
  "parse_pending dump [] = Inr []"
| "parse_pending dump (item # items) =
     (if \<not> is_object item then Inl (Error ''protocol'' ''orders-pending data item is not an object'')
      else case parse_pending dump items of
        Inl e \<Rightarrow> Inl e
      | Inr infos \<Rightarrow> Inr (parse_order_info dump item # infos))"

definition get_orders_pending :: "'w okx_env \<Rightarrow> okx_config \<Rightarrow> 'w \<Rightarrow> okx_order_info list result \<times> 'w" where
  "get_orders_pending env cfg w =
     (case signed_request env cfg ''GET'' ''/api/v5/trade/orders-pending'' [] w of
        (envelope, w1) \<Rightarrow>
          (case envelope of
             Inl e \<Rightarrow> Inl e
           | Inr j \<Rightarrow> parse_pending (env_dump env) (envelope_data j), w1))"

definition adjust_demo_balance :: "'w okx_env \<Rightarrow> okx_config \<Rightarrow> okx_demo_balance_request \<Rightarrow> 'w \<Rightarrow> json result \<times> 'w" where
  "adjust_demo_balance env cfg r w =
     (case signed_request_raw env cfg ''POST'' ''/api/v5/account/demo-adjust-balance''
             (env_dump env (demo_balance_to_json r)) w of
        (raw, w1) \<Rightarrow>
          (case judge_reply env ''/api/v5/account/demo-adjust-balance'' raw of
             Inl e \<Rightarrow> Inl e
           | Inr j \<Rightarrow> Inr (JArr (envelope_data j)), w1))"

definition ticker_price :: "'w okx_env \<Rightarrow> string \<Rightarrow> int \<Rightarrow> string \<Rightarrow> string result" where
  "ticker_price env path status body =
     (if status \<noteq> 200 then Inl (classify_http_error env status body path)
      else case parse_envelope env body ''/api/v5/market/ticker'' of
        Inl e \<Rightarrow> Inl e
      | Inr j \<Rightarrow> (case envelope_data j of
          [] \<Rightarrow> Inl (Error ''protocol'' ''ticker data[0] is missing or not an object'')
        | front # _ \<Rightarrow>
            if \<not> is_object front then Inl (Error ''protocol'' ''ticker data[0] is missing or not an object'')
            else (case string_field front ''last'' of
                None \<Rightarrow> Inl (Error ''protocol'' (''ticker data[0] missing string field '' @ [quote_char] @ ''last'' @ [quote_char]))
              | Some l \<Rightarrow> Inr l)))"

definition get_ticker :: "'w okx_env \<Rightarrow> okx_config \<Rightarrow> string \<Rightarrow> 'w \<Rightarrow> string result \<times> 'w" where
  "get_ticker env cfg instrument w =
     (let path = ''/api/v5/market/ticker?instId='' @ instrument
      in case perform_request env cfg (ok_use_tls cfg) ''GET'' path [] [] w of
           (None, w1) \<Rightarrow> (Inl (network_failure cfg), w1)
         | (Some (status, body), w1) \<Rightarrow> (ticker_price env path status body, w1))"

section \<open>Classes of errors\<close>

text \<open>The three classes of client errors.\<close>

definition error_class :: "error \<Rightarrow> bool" where
  "error_class e \<longleftrightarrow> code e = ''transport'' \<or> code e = ''protocol'' \<or> starts_with ''venue:'' (code e)"

text \<open>The exchange left the outcome open: no reply, a server error or rate limiting.\<close>

definition open_outcome :: "(int \<times> string) option \<Rightarrow> bool" where
  "open_outcome reply = (case reply of None \<Rightarrow> True | Some (status, _) \<Rightarrow> status \<ge> 500 \<or> status = 429)"

lemma starts_with_append [simp]: "starts_with p (p @ s)"
  by (simp add: starts_with_def)

lemma venue_not_transport [simp]: "''venue:'' @ c \<noteq> ''transport''" "''venue:'' @ c \<noteq> ''protocol''"
  by simp_all

lemma parse_envelope_errors:
  "parse_envelope env body path = Inl e \<Longrightarrow> code e = ''protocol'' \<or> starts_with ''venue:'' (code e) \<and> code e \<noteq> ''transport''"
  by (auto simp: parse_envelope_def starts_with_def split: option.splits json.splits if_splits)

lemma parse_envelope_ok:
  "parse_envelope env body path = Inr j \<Longrightarrow>
     string_field j ''code'' = Some ''0'' \<and> jfind j ''data'' = Some (JArr (envelope_data j))"
  by (auto simp: parse_envelope_def envelope_data_def split: option.splits json.splits if_splits)

lemma classify_http_error_class:
  "error_class (classify_http_error env status body path)"
  "code (classify_http_error env status body path) = ''transport'' \<longleftrightarrow> status \<ge> 500 \<or> status = 429"
proof -
  show "error_class (classify_http_error env status body path)"
    by (auto simp: classify_http_error_def error_class_def Let_def split: sum.splits)
  show "code (classify_http_error env status body path) = ''transport'' \<longleftrightarrow> status \<ge> 500 \<or> status = 429"
    using parse_envelope_errors [of env body path]
    by (auto simp: classify_http_error_def starts_with_def Let_def split: sum.splits)
qed

text \<open>The HTTP call behind a signed request.\<close>

lemma signed_request_reply:
  assumes "signed_request env cfg meth path body w = (res, w')"
  shows "\<exists>call w1 reply. env_http env call w1 = (reply, w') \<and> hc_path call = path
    \<and> res = judge_reply env path (case reply of None \<Rightarrow> Inl (network_failure cfg) | Some r \<Rightarrow> Inr r)"
proof -
  obtain ts w1 where t: "env_timestamp env w = (ts, w1)" by fastforce
  define headers where "headers = [(''OK-ACCESS-KEY'', ok_api_key cfg),
      (''OK-ACCESS-SIGN'', sign_request env ts meth path body (ok_secret_key cfg)),
      (''OK-ACCESS-TIMESTAMP'', ts), (''OK-ACCESS-PASSPHRASE'', ok_passphrase cfg)]
      @ (if ok_demo_trading cfg then [(''x-simulated-trading'', ''1'')] else [])"
  define call where "call = \<lparr>hc_tls = ok_use_tls cfg, hc_host = ok_host cfg, hc_port = ok_port cfg,
      hc_connect_timeout_us = ok_connect_timeout_ms cfg * 1000, hc_read_timeout_us = ok_read_timeout_ms cfg * 1000,
      hc_method = (if meth = ''GET'' then ''GET'' else ''POST''), hc_path = path,
      hc_headers = (if meth = ''GET'' then headers else headers @ [(''Content-Type'', ''application/json'')]),
      hc_body = (if meth = ''GET'' then None else Some body)\<rparr>"
  obtain reply w2 where r: "env_http env call w1 = (reply, w2)" by fastforce
  have p: "perform_request env cfg (ok_use_tls cfg) meth path headers body w1 = (reply, w2)"
    by (simp only: perform_request_def call_def [symmetric] r)
  have "signed_request env cfg meth path body w =
      (judge_reply env path (case reply of None \<Rightarrow> Inl (network_failure cfg) | Some r \<Rightarrow> Inr r), w2)"
    by (cases reply) (simp_all only: signed_request_def signed_request_raw_def t prod.case Let_def headers_def [symmetric] p
        option.case)
  moreover have "hc_path call = path" by (simp add: call_def)
  ultimately show ?thesis using assms r by (intro exI [of _ call] exI [of _ w1] exI [of _ reply]) simp
qed

lemma judge_reply_class:
  assumes "judge_reply env path (case reply of None \<Rightarrow> Inl (network_failure cfg) | Some r \<Rightarrow> Inr r) = Inl e"
  shows "error_class e \<and> (code e = ''transport'' \<longleftrightarrow> open_outcome reply)"
proof (cases reply)
  case None
  with assms show ?thesis by (auto simp: judge_reply_def network_failure_def error_class_def open_outcome_def)
next
  case (Some r)
  with assms show ?thesis
    using classify_http_error_class [of env "fst r" "snd r" path] parse_envelope_errors [of env "snd r" path]
    by (auto simp: judge_reply_def open_outcome_def error_class_def split: prod.splits if_splits)
qed

lemma first_ack_class:
  assumes "first_ack env what (judge_reply env path (case reply of None \<Rightarrow> Inl (network_failure cfg) | Some r \<Rightarrow> Inr r)) = Inl e"
  shows "error_class e \<and> (code e = ''transport'' \<longleftrightarrow> open_outcome reply)"
proof (cases "judge_reply env path (case reply of None \<Rightarrow> Inl (network_failure cfg) | Some r \<Rightarrow> Inr r)")
  case (Inl e')
  with assms judge_reply_class [OF Inl] show ?thesis by (simp add: first_ack_def)
next
  case (Inr j)
  then obtain st body where r: "reply = Some (st, body)" "st = 200"
    by (auto simp: judge_reply_def split: option.splits if_splits)
  from assms Inr have "code e = ''protocol''" by (auto simp: first_ack_def split: list.splits if_splits)
  with r show ?thesis by (simp add: error_class_def open_outcome_def)
qed

section \<open>Properties\<close>

text \<open>C27. \<open>transport\<close> means that the outcome is unknown, and only that. When \<open>place_order\<close> or
  \<open>cancel_order\<close> returns an error, it does so right after an HTTP exchange on its own path; the
  error is \<open>transport\<close> exactly when that exchange brought no reply, a status of 500 or above,
  or 429; any other error is \<open>protocol\<close> or \<open>venue:<code>\<close>. An acknowledgement of either call
  implies status 200 and an envelope with code 0.\<close>

theorem okx_transport_means_unknown:
  assumes "place_order env cfg pr w = (pres, pw)" "cancel_order env cfg cr w = (cres, cw)"
  shows "(\<exists>call w1 reply. env_http env call w1 = (reply, pw) \<and> hc_path call = ''/api/v5/trade/order''
       \<and> (\<forall>e. pres = Inl e \<longrightarrow> error_class e \<and> (code e = ''transport'' \<longleftrightarrow> open_outcome reply))
       \<and> (\<forall>ack. pres = Inr ack \<longrightarrow> (\<exists>body j. reply = Some (200, body) \<and> env_parse env body = Some j
            \<and> string_field j ''code'' = Some ''0'')))
    \<and> (\<exists>call w1 reply. env_http env call w1 = (reply, cw) \<and> hc_path call = ''/api/v5/trade/cancel-order''
       \<and> (\<forall>e. cres = Inl e \<longrightarrow> error_class e \<and> (code e = ''transport'' \<longleftrightarrow> open_outcome reply))
       \<and> (\<forall>ack. cres = Inr ack \<longrightarrow> (\<exists>body j. reply = Some (200, body) \<and> env_parse env body = Some j
            \<and> string_field j ''code'' = Some ''0'')))"
proof -
  let ?reply = "\<lambda>reply. case reply of None \<Rightarrow> Inl (network_failure cfg) | Some r \<Rightarrow> Inr r"
  obtain call w1 reply where p: "env_http env call w1 = (reply, pw)" "hc_path call = ''/api/v5/trade/order''"
    "pres = first_ack env ''place-order'' (judge_reply env ''/api/v5/trade/order'' (?reply reply))"
    using assms(1) by (auto simp: place_order_def dest: signed_request_reply split: prod.splits)
  obtain call2 w2 reply2 where c: "env_http env call2 w2 = (reply2, cw)" "hc_path call2 = ''/api/v5/trade/cancel-order''"
    "cres = first_ack env ''cancel-order'' (judge_reply env ''/api/v5/trade/cancel-order'' (?reply reply2))"
    using assms(2) by (auto simp: cancel_order_def dest: signed_request_reply split: prod.splits)
  have ack: "\<exists>body j. rep = Some (200, body) \<and> env_parse env body = Some j \<and> string_field j ''code'' = Some ''0''"
    if "first_ack env what (judge_reply env path (?reply rep)) = Inr ack" for what path rep ack
    using that by (auto simp: first_ack_def judge_reply_def parse_envelope_def split: sum.splits option.splits json.splits if_splits)
  note acks = ack [OF p(3) [symmetric, THEN trans]] ack [OF c(3) [symmetric, THEN trans]]
  have perr: "error_class e \<and> (code e = ''transport'' \<longleftrightarrow> open_outcome reply)" if "pres = Inl e" for e
    by (rule first_ack_class) (use that p(3) in simp)
  have cerr: "error_class e \<and> (code e = ''transport'' \<longleftrightarrow> open_outcome reply2)" if "cres = Inl e" for e
    by (rule first_ack_class) (use that c(3) in simp)
  show ?thesis
  proof (rule conjI)
    show "\<exists>call w1 reply. env_http env call w1 = (reply, pw) \<and> hc_path call = ''/api/v5/trade/order''
       \<and> (\<forall>e. pres = Inl e \<longrightarrow> error_class e \<and> (code e = ''transport'' \<longleftrightarrow> open_outcome reply))
       \<and> (\<forall>ack. pres = Inr ack \<longrightarrow> (\<exists>body j. reply = Some (200, body) \<and> env_parse env body = Some j
            \<and> string_field j ''code'' = Some ''0''))"
      by (rule exI [of _ call], rule exI [of _ w1], rule exI [of _ reply], intro conjI allI impI)
        (use p(1,2) perr acks(1) in auto)
    show "\<exists>call w1 reply. env_http env call w1 = (reply, cw) \<and> hc_path call = ''/api/v5/trade/cancel-order''
       \<and> (\<forall>e. cres = Inl e \<longrightarrow> error_class e \<and> (code e = ''transport'' \<longleftrightarrow> open_outcome reply))
       \<and> (\<forall>ack. cres = Inr ack \<longrightarrow> (\<exists>body j. reply = Some (200, body) \<and> env_parse env body = Some j
            \<and> string_field j ''code'' = Some ''0''))"
      by (rule exI [of _ call2], rule exI [of _ w2], rule exI [of _ reply2], intro conjI allI impI)
        (use c(1,2) cerr acks(2) in auto)
  qed
qed

text \<open>An environment whose venue is overloaded.\<close>

definition demo_okx_env :: "nat okx_env" where
  "demo_okx_env = \<lparr>env_parse = (\<lambda>_. None), env_dump = (\<lambda>_. []), env_hmac = (\<lambda>_ _. None), env_base64 = id,
     env_timestamp = (\<lambda>w. (''t'', w)), env_http = (\<lambda>_ w. (Some (503, []), w + 1))\<rparr>"

theorem okx_transport_means_unknown_witness:
  "\<exists>e. fst (cancel_order demo_okx_env default_okx \<lparr>oc_inst_id = ''I'', oc_cl_ord_id = ''c1''\<rparr> 0) = Inl e
     \<and> error_class e \<and> code e = ''transport''"
proof -
  let ?cr = "\<lparr>oc_inst_id = ''I'', oc_cl_ord_id = ''c1''\<rparr>"
  let ?pr = "\<lparr>op_cl_ord_id = ''c1'', op_inst_id = ''I'', op_side = ''buy'', op_ord_type = ''limit'', op_px = ''1'',
     op_sz = ''2'', op_td_if = [], op_td_mode = ''cash''\<rparr>"
  obtain pres pw where p: "place_order demo_okx_env default_okx ?pr 0 = (pres, pw)" by fastforce
  have "\<exists>e cw. cancel_order demo_okx_env default_okx ?cr 0 = (Inl e, cw)"
    by (simp add: cancel_order_def signed_request_def signed_request_raw_def perform_request_def demo_okx_env_def
        judge_reply_def first_ack_def)
  then obtain e cw where c: "cancel_order demo_okx_env default_okx ?cr 0 = (Inl e, cw)" by blast
  have "open_outcome reply" if "env_http demo_okx_env call w1 = (reply, w)" for call w1 reply w
    using that by (auto simp: demo_okx_env_def open_outcome_def)
  then have "error_class e \<and> code e = ''transport''"
    using okx_transport_means_unknown [OF p c, THEN conjunct2] by auto
  with c show ?thesis by simp
qed

lemma take_ranged_ok: "take_ranged node nm d lo hi msg = Inr v \<Longrightarrow> lo \<le> d \<Longrightarrow> d \<le> hi \<Longrightarrow> lo \<le> v \<and> v \<le> hi"
  by (auto simp: take_ranged_def split: option.splits json.splits if_splits)

lemma take_errors:
  "take_ranged node nm d lo hi msg = Inl e \<Longrightarrow> code e = ''protocol''"
  "take_bool node nm b msg = Inl e \<Longrightarrow> code e = ''protocol''"
  "take_port node p = Inl e \<Longrightarrow> code e = ''protocol''"
  by (auto simp: take_ranged_def take_bool_def take_port_def split: option.splits json.splits if_splits)

lemma missing_fields_Nil:
  assumes "\<forall>nm \<in> set nms. nm \<noteq> []"
  shows "missing_fields node nms = [] \<longleftrightarrow> (\<forall>nm \<in> set nms. string_field node nm \<noteq> None)"
  using assms
proof (induction nms rule: rev_induct)
  case (snoc nm nms)
  then show ?case by (auto simp: missing_fields_def)
qed (simp add: missing_fields_def)

lemma take_string_present: "string_field node nm \<noteq> None \<Longrightarrow> string_field node nm = Some (take_string node nm d)"
  by (auto simp: take_string_def)

definition ws_config_ok :: "okx_ws_config \<Rightarrow> bool" where
  "ws_config_ok c \<longleftrightarrow> 1 \<le> ws_port c \<and> ws_port c \<le> 65535 \<and> 1 \<le> ws_ping_interval c \<and> ws_ping_interval c \<le> 600000
     \<and> 1 \<le> ws_max_missed_pongs c \<and> ws_max_missed_pongs c \<le> 100"

lemma ws_config_validated:
  assumes "ws_config_ok d"
  shows "ws_config_from_json node d = Inr c \<Longrightarrow> ws_config_ok c" "ws_config_from_json node d = Inl e \<Longrightarrow> code e = ''protocol''"
proof -
  have d: "1 \<le> ws_port d" "ws_port d \<le> 65535" "1 \<le> ws_ping_interval d" "ws_ping_interval d \<le> 600000"
    "1 \<le> ws_max_missed_pongs d" "ws_max_missed_pongs d \<le> 100" using assms by (auto simp: ws_config_ok_def)
  show "ws_config_from_json node d = Inr c \<Longrightarrow> ws_config_ok c"
    using take_ranged_ok [OF _ d(1,2)] take_ranged_ok [OF _ d(3,4)] take_ranged_ok [OF _ d(5,6)]
    by (auto simp: ws_config_from_json_def ws_config_ok_def split: sum.splits if_splits)
  show "ws_config_from_json node d = Inl e \<Longrightarrow> code e = ''protocol''"
    by (auto simp: ws_config_from_json_def dest: take_errors split: sum.splits if_splits)
qed

text \<open>A configuration that is accepted is complete and in range: the three credentials are
  the strings of the section, the retry policy is valid, the REST timeouts lie in
  [1, 600000] ms, and the feed's port, ping interval and missed-pong limit are in range.
  Everything else is a \<open>protocol\<close> error. The REST port is the exception: any unsigned number
  is taken and narrowed to 32 bits, so 4294967739 configures port 443.\<close>

lemma okx_config_validated:
  "(case okx_config_from_json section of
      Inr c \<Rightarrow> string_field section ''apiKey'' = Some (ok_api_key c)
        \<and> string_field section ''secretKey'' = Some (ok_secret_key c)
        \<and> string_field section ''passphrase'' = Some (ok_passphrase c) \<and> policy_ok (ok_retry c)
        \<and> ok_connect_timeout_ms c \<in> {1..600000} \<and> ok_read_timeout_ms c \<in> {1..600000} \<and> ws_config_ok (ok_ws c)
    | Inl e \<Rightarrow> code e = ''protocol'')
   \<and> take_port (JObj [(''port'', JUInt 4294967739)]) 443 = Inr 443"
proof -
  have dws: "ws_config_ok default_okx_ws" by (simp add: ws_config_ok_def default_okx_ws_def)
  have pol: "retry_section section (ok_retry default_okx) = Inr p \<Longrightarrow> policy_ok p"
    "retry_section section (ok_retry default_okx) = Inl e \<Longrightarrow> code e = ''protocol''" for p e
    using retry_policy_validity [OF default_policy_ok] default_policy_ok
    by (auto simp: retry_section_def default_okx_def split: option.splits)
  have ws: "ws_section section (ok_ws default_okx) = Inr c \<Longrightarrow> ws_config_ok c"
    "ws_section section (ok_ws default_okx) = Inl e \<Longrightarrow> code e = ''protocol''" for c e
    using ws_config_validated [OF dws] dws by (auto simp: ws_section_def default_okx_def split: option.splits)
  have timeouts: "ok_connect_timeout_ms default_okx = 5000" "ok_read_timeout_ms default_okx = 5000"
    by (simp_all add: default_okx_def)
  have miss: "missing_fields section [''apiKey'', ''secretKey'', ''passphrase''] = [] \<Longrightarrow>
      string_field section nm = Some (take_string section nm [])" if "nm \<in> {''apiKey'', ''secretKey'', ''passphrase''}" for nm
    using that take_string_present [of "section" nm] missing_fields_Nil [of "[''apiKey'', ''secretKey'', ''passphrase'']" "section"] by auto
  have "case okx_config_from_json section of
      Inr c \<Rightarrow> string_field section ''apiKey'' = Some (ok_api_key c)
        \<and> string_field section ''secretKey'' = Some (ok_secret_key c)
        \<and> string_field section ''passphrase'' = Some (ok_passphrase c) \<and> policy_ok (ok_retry c)
        \<and> ok_connect_timeout_ms c \<in> {1..600000} \<and> ok_read_timeout_ms c \<in> {1..600000} \<and> ws_config_ok (ok_ws c)
    | Inl e \<Rightarrow> code e = ''protocol''"
    using pol ws miss take_errors
      take_ranged_ok [of "section" "''restConnectTimeoutMs''" 5000 1 600000] take_ranged_ok [of "section" "''restReadTimeoutMs''" 5000 1 600000]
    by (auto simp: okx_config_from_json_def timeouts Let_def split: sum.split)
  moreover have "take_port (JObj [(''port'', JUInt 4294967739)]) 443 = Inr 443" by (simp add: take_port_def wrap32_def)
  ultimately show ?thesis by blast
qed

end
