(* ===== verification/Venue_Contract.thy ===== *)
theory Venue_Contract
  imports OMS_Outcomes
begin

text \<open>
  The interface between the order management system and a venue's connector. The core treats
  every placing error but \<open>transport\<close> as a definitive refusal and every success as an
  acknowledgement. The locale \<open>venue_placing\<close> states when that is right, in terms of the calls
  the connector made to the venue and the answers it got, and derives what the registry then
  says of a freshly placed order. The connectors of both venues interpret it.
\<close>

section \<open>The contract\<close>

text \<open>\<open>submit r v\<close> is one call of the connector's \<open>place_order\<close>: its result, the surroundings
  after it, and the venue calls it made with their answers. \<open>usable\<close> is the connector's
  precondition on its configuration, \<open>orderly\<close> one on the venue's answers. What the answers
  establish: \<open>refused r e\<close>, the venue rejected the order with \<open>e\<close>; \<open>silent r\<close>, they leave it open;
  \<open>confirmed r x\<close>, the venue has the order under its identifier \<open>x\<close>.\<close>

locale venue_placing =
  fixes submit :: "order_request \<Rightarrow> 'v \<Rightarrow> order_placement result \<times> 'v \<times> 'c list"
    and usable :: bool
    and orderly silent :: "order_request \<Rightarrow> 'c list \<Rightarrow> bool"
    and refused :: "order_request \<Rightarrow> error \<Rightarrow> 'c list \<Rightarrow> bool"
    and confirmed :: "order_request \<Rightarrow> string \<Rightarrow> 'c list \<Rightarrow> bool"
  assumes submit_refused: "usable \<Longrightarrow> submit r v = (Inl e, v', calls) \<Longrightarrow> orderly r calls \<Longrightarrow> code e \<noteq> ''transport'' \<Longrightarrow> refused r e calls"
    and submit_silent: "usable \<Longrightarrow> submit r v = (Inl e, v', calls) \<Longrightarrow> orderly r calls \<Longrightarrow> code e = ''transport'' \<Longrightarrow> silent r calls"
    and submit_confirmed: "usable \<Longrightarrow> submit r v = (Inr p, v', calls) \<Longrightarrow> orderly r calls \<Longrightarrow> confirmed r (pl_exchange_order_id p) calls"

text \<open>An error that carries a rejection code of the venue.\<close>

definition venue_code :: "error \<Rightarrow> bool" where
  "venue_code e \<longleftrightarrow> take (length ''venue:'') (code e) = ''venue:''"

section \<open>Placing a new order\<close>

text \<open>The candidate \<open>place\<close> stored, when the answer comes in and nothing raced it.\<close>

lemma place_finish_unraced:
  assumes "o_orders s (rq_client_order_id req) = Some (place_candidate req v)"
    "o_raced s (rq_client_order_id req) = Some []" "place_finish req placement s = (res, s')"
  shows "\<exists>r. o_orders s' (rq_client_order_id req) = Some r \<and>
    (case placement of
       Inl e \<Rightarrow> res = Inl e \<and> (if code e = ''transport'' then r = place_candidate req v
                 else r_state r = Rejected \<and> r_rejection r = Some e)
     | Inr p \<Rightarrow> r_state r = Live \<and> r_exchange_order_id r = pl_exchange_order_id p
         \<and> (res = Inr \<lparr>po_record = r, po_replayed = False\<rparr> \<or> (\<exists>e. res = Inl e \<and> code e = ''persistence'')))"
proof -
  have "(place_candidate req v)\<lparr>r_state := Pending\<rparr> = place_candidate req v" by (simp add: place_candidate_def)
  with assms show ?thesis
    by (auto simp: place_finish_def drain_raced_reports_def Let_def case_prod_beta store_record_def apply_raced_def
        apply_transition_def kLegalTransitions_def place_candidate_def note_exchange_id_def push_leg_def frame_simps
        split: sum.splits option.splits if_splits prod.splits)
qed

lemma place_stage_fresh:
  assumes "place_stage ids req venue s = (nxt, s')" "o_orders s (rq_client_order_id req) = None" "o_raced s (rq_client_order_id req) = None"
  shows "case nxt of
     Send c w \<Rightarrow> c = venue \<and> w = req \<and> place_risk ids s req = Inr None \<and> o_orders s' (rq_client_order_id req) = Some (place_candidate req venue)
       \<and> o_raced s' (rq_client_order_id req) = Some []
   | Return res \<Rightarrow> o_orders s' (rq_client_order_id req) = None
       \<or> (\<exists>e r. place_risk ids s req = Inr (Some e) \<and> o_orders s' (rq_client_order_id req) = Some r \<and> r_state r = Rejected \<and> r_rejection r = Some e)
   | Throw \<Rightarrow> True"
  using assms
  by (auto simp: place_stage_def Let_def store_record_def place_candidate_def case_prod_beta frame_simps
      connector_for_def dest: append_or_error_sel split: if_splits option.splits sum.splits prod.splits handler_step.splits)

text \<open>\<open>place\<close> asks one connector, once, with the request itself.\<close>

lemma place_reached:
  "place venue_place ids req venue_arg hit s =
     place (\<lambda>_ _. venue_place (if venue_arg = [] then o_default_venue s else venue_arg) req) ids req venue_arg hit s"
proof -
  let ?s1 = "snd (latency_now s)"
  let ?venue = "if venue_arg = [] then o_default_venue ?s1 else venue_arg"
  have "o_default_venue ?s1 = o_default_venue s" by (simp add: latency_now_def lat_now_def split: option.splits)
  then have venue: "(if venue_arg = [] then o_default_venue s else venue_arg) = ?venue" by (simp only:)
  obtain nxt s2 where st: "place_stage ids req ?venue ?s1 = (nxt, s2)" by (rule prod.exhaust)
  then show ?thesis unfolding venue
    using place_stage_send(1,2) [of ids req ?venue ?s1]
    by (cases nxt) (auto simp: place_def place_begin_def case_prod_beta Let_def)
qed

text \<open>What the registry says of the order when \<open>place\<close> of a new identifier returns.\<close>

definition fresh_verdict :: "string list \<Rightarrow> oms \<Rightarrow> order_request \<Rightarrow> place_outcome result \<Rightarrow> order_record
    \<Rightarrow> (error \<Rightarrow> bool) \<Rightarrow> bool \<Rightarrow> (string \<Rightarrow> bool) \<Rightarrow> bool" where
  "fresh_verdict ids s req res r venue_refused venue_silent venue_confirmed \<longleftrightarrow>
     (\<exists>e. r_state r = Rejected \<and> r_rejection r = Some e \<and> place_risk ids (snd (latency_now s)) req = Inr (Some e))
     \<or> (\<exists>e. r_state r = Rejected \<and> r_rejection r = Some e \<and> res = Inl e \<and> venue_refused e)
     \<or> (\<exists>e. r_state r = Pending \<and> r_rejection r = None \<and> res = Inl e \<and> code e = ''transport'' \<and> venue_silent)
     \<or> (r_state r = Live \<and> venue_confirmed (r_exchange_order_id r)
         \<and> (res = Inr \<lparr>po_record = r, po_replayed = False\<rparr> \<or> (\<exists>e. res = Inl e \<and> code e = ''persistence'')))"

context venue_placing
begin

lemma fresh_place_settled:
  assumes usable "o_orders s (rq_client_order_id req) = None" "o_raced s (rq_client_order_id req) = None"
    and run: "submit req v = (answer, v', calls)" and "orderly req calls"
    and reached: "venue_place (if venue_arg = [] then o_default_venue s else venue_arg) req = answer"
    and "place venue_place ids req venue_arg hit s = (Some res, s')"
    and "o_orders s' (rq_client_order_id req) = Some r"
  shows "fresh_verdict ids s req res r (\<lambda>e. refused req e calls) (silent req calls) (\<lambda>x. confirmed req x calls)"
proof -
  let ?s1 = "snd (latency_now s)" and ?i = "rq_client_order_id req"
  let ?venue = "if venue_arg = [] then o_default_venue ?s1 else venue_arg"
  obtain nxt s2 where st: "place_stage ids req ?venue ?s1 = (nxt, s2)" by (rule prod.exhaust)
  have dv: "o_default_venue ?s1 = o_default_venue s" by (simp add: latency_now_def lat_now_def split: option.splits)
  then have at_venue: "venue_place ?venue req = answer" using reached by (simp only:)
  have fresh: "o_orders ?s1 ?i = None" "o_raced ?s1 ?i = None" using assms(2,3) by (simp_all add: frame_simps)
  note stage = place_stage_fresh [OF st fresh]
  show ?thesis
  proof (cases nxt)
    case (Return res0)
    then have "s' = s2" using assms(7) st by (simp add: place_def place_begin_def case_prod_beta Let_def)
    with stage Return assms(8) show ?thesis by (auto simp: fresh_verdict_def)
  next
    case (Send c w)
    let ?s3 = "place_send_latency req hit (fst (latency_now s)) s2"
    have w: "w = req" "c = ?venue" and "o_orders ?s3 ?i = Some (place_candidate req ?venue)" "o_raced ?s3 ?i = Some []"
      using stage Send quiet_send_latency [of s2 req hit "fst (latency_now s)"] by (auto simp: quiet_def)
    moreover have "place_finish req answer ?s3 = (res, s')"
      using assms(7) st Send w at_venue by (simp add: place_def place_begin_def case_prod_beta Let_def prod_eq_iff)
    ultimately obtain r' where "o_orders s' ?i = Some r'" "case answer of
       Inl e \<Rightarrow> res = Inl e \<and> (if code e = ''transport'' then r' = place_candidate req ?venue
                 else r_state r' = Rejected \<and> r_rejection r' = Some e)
     | Inr p \<Rightarrow> r_state r' = Live \<and> r_exchange_order_id r' = pl_exchange_order_id p
         \<and> (res = Inr \<lparr>po_record = r', po_replayed = False\<rparr> \<or> (\<exists>e. res = Inl e \<and> code e = ''persistence''))"
      using place_finish_unraced by blast
    then show ?thesis
      using assms(8) submit_refused [OF assms(1) _ assms(5)] submit_silent [OF assms(1) _ assms(5)] submit_confirmed [OF assms(1) _ assms(5)] run
      by (cases answer) (auto simp: fresh_verdict_def place_candidate_def split: if_splits)
  next
    case Throw
    with assms(7) st show ?thesis by (simp add: place_def place_begin_def case_prod_beta Let_def)
  qed
qed

end

end
