(* ===== verification/OKX_Connector.thy ===== *)
theory OKX_Connector
  imports OKX_Resilient OKX_Client Venue_Contract
begin

text \<open>
  The OKX connector, \<^verbatim>\<open>src/exchange/okx/okx_connector.cpp\<close>, and the normalization of messages on
  its orders channel, \<^verbatim>\<open>src/exchange/okx/okx_ws_client.cpp\<close>. The operations are stated over the
  client interface of \<open>OKX_Resilient\<close>; \<open>rest_client\<close> is the client of \<open>OKX_Client\<close>.
\<close>

section \<open>Definitions\<close>

definition rest_client :: "'w okx_env \<Rightarrow> okx_config \<Rightarrow> 'w okx_client" where
  "rest_client env cfg = \<lparr>cl_place_order = place_order env cfg, cl_cancel_order = cancel_order env cfg,
     cl_amend_order = amend_order env cfg, cl_get_order = get_order env cfg\<rparr>"

definition ack_to_placement :: "okx_order_ack \<Rightarrow> order_placement result" where
  "ack_to_placement ack =
     (if ack_s_code ack \<noteq> [] \<and> ack_s_code ack \<noteq> ''0'' then
        Inl (Error (''venue:'' @ ack_s_code ack) (''OKX rejected request: '' @ ack_s_msg ack))
      else Inr \<lparr>pl_client_order_id = ack_cl_ord_id ack, pl_exchange_order_id = ack_ord_id ack\<rparr>)"

definition to_wire :: "order_request \<Rightarrow> okx_place_request" where
  "to_wire r = \<lparr>op_cl_ord_id = rq_client_order_id r, op_inst_id = rq_instrument_id r,
     op_side = (if rq_side r = Buy then ''buy'' else ''sell''),
     op_ord_type = (if rq_type r = Limit then ''limit'' else ''market''),
     op_px = rq_price r, op_sz = rq_quantity r, op_td_if = rq_time_in_force r, op_td_mode = ''cash''\<rparr>"

definition map_ord_type :: "string \<Rightarrow> order_type option" where
  "map_ord_type t = (if t = ''limit'' then Some Limit else if t = ''market'' then Some Market else None)"

definition to_snapshot :: "okx_order_info \<Rightarrow> order_snapshot result" where
  "to_snapshot info =
     (case map_okx_state (oi_state info) of
        None \<Rightarrow> Inl (Error ''protocol'' (''unknown OKX order state: '' @ oi_state info))
      | Some st \<Rightarrow> (case map_okx_side (oi_side info) of
        None \<Rightarrow> Inl (Error ''protocol'' (''unknown OKX order side: '' @ oi_side info))
      | Some sd \<Rightarrow> (case map_ord_type (oi_ord_type info) of
        None \<Rightarrow> Inl (Error ''protocol'' (''unknown OKX order type: '' @ oi_ord_type info))
      | Some ty \<Rightarrow>
          Inr \<lparr>sn_client_order_id = oi_cl_ord_id info, sn_exchange_order_id = oi_ord_id info,
               sn_instrument_id = oi_inst_id info, sn_state = st, sn_side = sd, sn_type = ty,
               sn_price = oi_px info, sn_quantity = oi_sz info, sn_filled_quantity = oi_acc_fill_sz info,
               sn_average_fill_price = oi_avg_px info\<rparr>)))"

definition connector_place :: "'w okx_client \<Rightarrow> retry_policy \<Rightarrow> 'w retry_clock \<Rightarrow> order_request \<Rightarrow> 'w
    \<Rightarrow> order_placement result \<times> 'w" where
  "connector_place client policy clk r w =
     (case resilient_place client (to_wire r) policy clk w of
        (Inl e, w') \<Rightarrow> (Inl e, w')
      | (Inr ack, w') \<Rightarrow> (ack_to_placement ack, w'))"

definition connector_cancel :: "'w okx_client \<Rightarrow> retry_policy \<Rightarrow> 'w retry_clock \<Rightarrow> cancel_request \<Rightarrow> 'w
    \<Rightarrow> order_placement result \<times> 'w" where
  "connector_cancel client policy clk r w =
     (case resilient_cancel client \<lparr>oc_inst_id = cx_instrument_id r, oc_cl_ord_id = cx_client_order_id r\<rparr> policy clk w of
        (Inl e, w') \<Rightarrow> (Inl e, w')
      | (Inr ack, w') \<Rightarrow> (ack_to_placement ack, w'))"

definition connector_amend :: "'w okx_client \<Rightarrow> retry_policy \<Rightarrow> 'w retry_clock \<Rightarrow> amend_request \<Rightarrow> 'w
    \<Rightarrow> order_placement result \<times> 'w" where
  "connector_amend client policy clk r w =
     (case resilient_amend client \<lparr>oa_inst_id = am_instrument_id r, oa_cl_ord_id = am_client_order_id r,
             oa_new_px = am_new_price r, oa_new_sz = am_new_quantity r\<rparr> policy clk w of
        (Inl e, w') \<Rightarrow> (Inl e, w')
      | (Inr ack, w') \<Rightarrow> (ack_to_placement ack, w'))"

definition snapshot_answer :: "okx_order_info option result \<Rightarrow> order_snapshot option result" where
  "snapshot_answer answer =
     (case answer of
        Inl e \<Rightarrow> if code e = ''venue:51603'' then Inr None else Inl e
      | Inr None \<Rightarrow> Inr None
      | Inr (Some info) \<Rightarrow> (case to_snapshot info of Inl e \<Rightarrow> Inl e | Inr sn \<Rightarrow> Inr (Some sn)))"

definition connector_get_order :: "'w okx_client \<Rightarrow> retry_policy \<Rightarrow> 'w retry_clock \<Rightarrow> order_query \<Rightarrow> 'w
    \<Rightarrow> order_snapshot option result \<times> 'w" where
  "connector_get_order client policy clk q =
     with_retries policy clk
       (\<lambda>w. case cl_get_order client \<lparr>okq_inst_id = oq_instrument_id q, okq_cl_ord_id = oq_client_order_id q\<rparr> w of
          (answer, w') \<Rightarrow> (snapshot_answer answer, w'))
       (\<lambda>e _. code e = ''transport'')"

definition readable_snapshots :: "okx_order_info list \<Rightarrow> order_snapshot list" where
  "readable_snapshots infos =
     List.map_filter (\<lambda>info. case to_snapshot info of Inr sn \<Rightarrow> Some sn | Inl _ \<Rightarrow> None) infos"

definition connector_get_open_orders :: "'w okx_env \<Rightarrow> okx_config \<Rightarrow> 'w retry_clock \<Rightarrow> 'w
    \<Rightarrow> order_snapshot list result \<times> 'w" where
  "connector_get_open_orders env cfg clk w =
     (case with_retries (ok_retry cfg) clk (get_orders_pending env cfg) (\<lambda>e _. code e = ''transport'') w of
        (Inl e, w') \<Rightarrow> (Inl e, w')
      | (Inr infos, w') \<Rightarrow> (Inr (readable_snapshots infos), w'))"

definition connector_get_price :: "'w okx_env \<Rightarrow> okx_config \<Rightarrow> 'w retry_clock \<Rightarrow> string \<Rightarrow> 'w \<Rightarrow> string result \<times> 'w" where
  "connector_get_price env cfg clk instrument =
     with_retries (ok_retry cfg) clk (get_ticker env cfg instrument) (\<lambda>e _. code e = ''transport'')"

definition connector_adjust_demo_balance :: "'w okx_env \<Rightarrow> okx_config \<Rightarrow> okx_demo_balance_request \<Rightarrow> 'w
    \<Rightarrow> json result \<times> 'w" where
  "connector_adjust_demo_balance env cfg r w =
     (if \<not> ok_demo_trading cfg then
        (Inl (Error ''invalid_request'' ''demo balance adjustment requires okx demoTrading''), w)
      else adjust_demo_balance env cfg r w)"

text \<open>The orders channel: a message becomes a sequence of warnings and reports, in the order of
  its items.\<close>

datatype feed_output = Warning string | Report execution_report

definition dispatch_item :: "(json \<Rightarrow> string) \<Rightarrow> json \<Rightarrow> feed_output" where
  "dispatch_item dump item =
     (if \<not> is_object item then Warning ''orders data item is not an object''
      else
        let info = parse_order_info dump item
        in case map_okx_state (oi_state info) of
             None \<Rightarrow> Warning (''unknown OKX order state '' @ [quote_char] @ oi_state info @ [quote_char] @ ''; item skipped'')
           | Some st \<Rightarrow>
               if oi_cl_ord_id info = [] then Warning ''orders item without clOrdId; skipped''
               else (case map_okx_side (oi_side info) of
                   None \<Rightarrow> Warning (''unknown OKX order side '' @ [quote_char] @ oi_side info @ [quote_char] @ ''; item skipped'')
                 | Some sd \<Rightarrow>
                     Report \<lparr>er_client_order_id = oi_cl_ord_id info, er_exchange_order_id = oi_ord_id info,
                        er_state = st, er_side = sd, er_filled_quantity = oi_acc_fill_sz info,
                        er_average_fill_price = oi_avg_px info\<rparr>))"

definition dispatch_orders_message :: "(json \<Rightarrow> string) \<Rightarrow> json \<Rightarrow> feed_output list" where
  "dispatch_orders_message dump msg =
     (case (jfind msg ''arg'', jfind msg ''data'') of
        (Some arg, Some (JArr items)) \<Rightarrow>
          if is_object arg then map (dispatch_item dump) items
          else [Warning (''malformed orders message: '' @ dump msg)]
      | _ \<Rightarrow> [Warning (''malformed orders message: '' @ dump msg)])"

definition ws_host_for :: "okx_config \<Rightarrow> string" where
  "ws_host_for cfg =
     (if ok_demo_trading cfg \<and> ws_host (ok_ws cfg) = ''ws.okx.com'' then ''wspap.okx.com'' else ws_host (ok_ws cfg))"

section \<open>Answers of the venue\<close>

lemma to_snapshot_ok:
  "to_snapshot info = Inr sn \<longleftrightarrow>
     map_okx_state (oi_state info) = Some (sn_state sn) \<and> map_okx_side (oi_side info) = Some (sn_side sn)
     \<and> map_ord_type (oi_ord_type info) = Some (sn_type sn) \<and> sn_client_order_id sn = oi_cl_ord_id info
     \<and> sn_exchange_order_id sn = oi_ord_id info \<and> sn_instrument_id sn = oi_inst_id info
     \<and> sn_price sn = oi_px info \<and> sn_quantity sn = oi_sz info \<and> sn_filled_quantity sn = oi_acc_fill_sz info
     \<and> sn_average_fill_price sn = oi_avg_px info"
  by (cases sn) (auto simp: to_snapshot_def split: option.splits)

section \<open>The contract with the core\<close>

text \<open>What the venue's answers to a place say of the order. The send that counts is the last: the calls
  after it are lookups of this very order.\<close>

definition okx_last_send :: "order_request \<Rightarrow> okx_order_ack result \<Rightarrow> okx_call list \<Rightarrow> okx_call list \<Rightarrow> bool" where
  "okx_last_send r answer looked calls \<longleftrightarrow> (\<exists>earlier. calls = earlier @ PlaceCall (to_wire r) answer # looked)
     \<and> (\<forall>l \<in> set looked. asks_about (place_query (to_wire r)) l)"

definition okx_refused :: "order_request \<Rightarrow> error \<Rightarrow> okx_call list \<Rightarrow> bool" where
  "okx_refused r e calls \<longleftrightarrow> (\<exists>answer looked. okx_last_send r answer looked calls \<and>
     (case answer of
        Inl e' \<Rightarrow> e' = e \<and> venue_code e \<and> (code e = ''venue:51000'' \<longrightarrow> looked \<noteq> [] \<and> answered_absent (last looked))
      | Inr ack \<Rightarrow> ack_s_code ack \<notin> {[], ''0'', ''51000''} \<and> ack_to_placement ack = Inl e))"

definition okx_silent :: "order_request \<Rightarrow> okx_call list \<Rightarrow> bool" where
  "okx_silent r calls \<longleftrightarrow> (\<exists>e looked. okx_last_send r (Inl e) looked calls \<and> code e = ''transport''
     \<and> (\<forall>l \<in> set looked. answered_found l = None))"

definition okx_confirmed :: "order_request \<Rightarrow> string \<Rightarrow> okx_call list \<Rightarrow> bool" where
  "okx_confirmed r x calls \<longleftrightarrow> x \<noteq> [] \<and> (\<exists>answer looked. okx_last_send r answer looked calls \<and>
     ((\<exists>ack. answer = Inr ack \<and> ack_s_code ack \<in> {[], ''0''} \<and> ack_ord_id ack = x)
      \<or> looked \<noteq> [] \<and> map_option oi_ord_id (answered_found (last looked)) = Some x))"

text \<open>The answers are in order: an error of a place is a transport failure or carries a venue code; an
  acknowledgement does not report a duplicate, and carries an order id unless it reports a
  rejection, as does an order that is found; the lookup after a duplicate rejection is conclusive.\<close>

fun okx_answer_ok :: "okx_call \<Rightarrow> bool" where
  "okx_answer_ok (PlaceCall _ (Inl e)) = (code e = ''transport'' \<or> venue_code e)"
| "okx_answer_ok (PlaceCall _ (Inr ack)) = (ack_s_code ack \<noteq> ''51000'' \<and> (ack_s_code ack \<in> {[], ''0''} \<longrightarrow> ack_ord_id ack \<noteq> []))"
| "okx_answer_ok (LookupCall _ (Inr (Some info))) = (oi_ord_id info \<noteq> [])"
| "okx_answer_ok _ = True"

fun okx_duplicate :: "okx_call \<Rightarrow> bool" where
  "okx_duplicate (PlaceCall _ (Inl e)) = (code e = ''venue:51000'')"
| "okx_duplicate _ = False"

definition okx_orderly :: "okx_call list \<Rightarrow> bool" where
  "okx_orderly calls \<longleftrightarrow> (\<forall>c \<in> set calls. okx_answer_ok c)
     \<and> ((\<exists>c \<in> set calls. okx_duplicate c) \<longrightarrow> answered_absent (last calls) \<or> answered_found (last calls) \<noteq> None)"

lemma okx_place_calls:
  assumes "1 \<le> rp_max_attempts policy" "resilient_place (recorded client) r policy (lift_clock clk) (w, []) = (res, w', calls)"
  shows "\<exists>earlier c looked. calls = earlier @ c # looked \<and> place_explains r res c looked"
proof -
  obtain b where "with_retries policy (lift_clock (lift_clock clk)) (place_attempt (recorded client) r policy (lift_clock clk))
      (\<lambda>_ s. snd s) ((w, []), False) = (res, (w', calls), b)"
    using assms(2) by (auto simp: resilient_place_def split: prod.splits)
  from okx_place.run_licensed(2) [OF this assms(1)] show ?thesis by (auto simp: okx_place.explained_def)
qed

lemma place_explains_settles:
  assumes "place_explains (to_wire r) res c looked" "calls = earlier @ c # looked" "okx_orderly calls"
  shows "res = Inl e \<Longrightarrow> code e \<noteq> ''transport'' \<Longrightarrow> okx_refused r e calls"
    "res = Inl e \<Longrightarrow> code e = ''transport'' \<Longrightarrow> okx_silent r calls"
    "res = Inr ack \<Longrightarrow> ack_to_placement ack = Inl e \<Longrightarrow> okx_refused r e calls"
    "res = Inr ack \<Longrightarrow> ack_to_placement ack = Inr p \<Longrightarrow> okx_confirmed r (pl_exchange_order_id p) calls"
proof -
  obtain answer where c: "c = PlaceCall (to_wire r) answer"
    using assms(1) by (cases "(to_wire r, res, c, looked)" rule: place_explains.cases) auto
  have asked: "\<forall>l \<in> set looked. asks_about (place_query (to_wire r)) l" using assms(1) c by (cases res) auto
  then have send: "okx_last_send r answer looked calls" using assms(2) c by (auto simp: okx_last_send_def)
  have ok: "okx_answer_ok c" "\<forall>l \<in> set looked. okx_answer_ok l" using assms(2,3) by (simp_all add: okx_orderly_def)
  have resolved: "looked \<noteq> [] \<and> answered_absent (last looked)" if "okx_duplicate c" "\<forall>l \<in> set looked. answered_found l = None"
  proof -
    have "answered_absent (last calls) \<or> answered_found (last calls) \<noteq> None" using assms(2,3) that(1) by (auto simp: okx_orderly_def)
    moreover have "answered_found c = None" "\<not> answered_absent c" by (simp_all add: c)
    ultimately show ?thesis using assms(2) that(2) by (cases "looked = []") auto
  qed
  show "okx_refused r e calls" if "res = Inl e" "code e \<noteq> ''transport''"
  proof -
    have a: "answer = Inl e" "\<forall>l \<in> set looked. answered_found l = None" using assms(1) c that by auto
    then show ?thesis unfolding okx_refused_def using send ok(1) resolved c that(2) by (intro exI [of _ answer] exI [of _ looked]) auto
  qed
  show "okx_silent r calls" if "res = Inl e" "code e = ''transport''"
    using assms(1) c that send by (cases answer) (auto simp: okx_silent_def)
  have source: "answer = Inr ack \<and> looked = [] \<or> looked \<noteq> [] \<and> map_option synthesized_ack (answered_found (last looked)) = Some ack"
    if "res = Inr ack" using assms(1) c that by auto
  show "okx_refused r e calls" if "res = Inr ack" "ack_to_placement ack = Inl e"
    unfolding okx_refused_def using source [OF that(1)] that(2) send ok(1) c
    by (intro exI [of _ answer] exI [of _ looked]) (auto simp: ack_to_placement_def synthesized_ack_def split: if_splits)
  show "okx_confirmed r (pl_exchange_order_id p) calls" if "res = Inr ack" "ack_to_placement ack = Inr p"
  proof -
    have p: "ack_s_code ack \<in> {[], ''0''}" "pl_exchange_order_id p = ack_ord_id ack"
      using that(2) by (auto simp: ack_to_placement_def split: if_splits)
    have "oi_ord_id info \<noteq> []" if "looked \<noteq> []" "answered_found (last looked) = Some info" for info
      using that ok(2) last_in_set [OF that(1)] by (cases "last looked" rule: answered_found.cases) force+
    then have id: "ack_ord_id ack \<noteq> []" using source [OF that(1)] p(1) ok(1) c by (auto simp: synthesized_ack_def)
    have "(\<exists>a. answer = Inr a \<and> ack_s_code a \<in> {[], ''0''} \<and> ack_ord_id a = ack_ord_id ack)
        \<or> looked \<noteq> [] \<and> map_option oi_ord_id (answered_found (last looked)) = Some (ack_ord_id ack)"
      using source [OF that(1)] p(1) by (auto simp: synthesized_ack_def)
    with send id show ?thesis unfolding okx_confirmed_def p(2) by blast
  qed
qed

lemma resilient_place_recorded:
  assumes "resilient_place (recorded client) r policy (lift_clock clk) (w, []) = (res, w', calls)"
  shows "resilient_place client r policy clk w = (res, w')"
proof -
  obtain b where run: "with_retries policy (lift_clock (lift_clock clk)) (place_attempt (recorded client) r policy (lift_clock clk))
      (\<lambda>_ s. snd s) ((w, []), False) = (res, (w', calls), b)"
    using assms by (auto simp: resilient_place_def split: prod.splits)
  show ?thesis using engine_recorded [OF attempts_recorded(1) run] by (simp add: resilient_place_def)
qed

lemma connector_place_recorded:
  assumes "connector_place (recorded client) policy (lift_clock clk) r (w, []) = (res, w', calls)"
  shows "connector_place client policy clk r w = (res, w')"
  using assms by (auto simp: connector_place_def dest: resilient_place_recorded split: prod.splits sum.splits)

lemma not_transport: "ack_to_placement ack = Inl e \<Longrightarrow> code e \<noteq> ''transport''"
  by (auto simp: ack_to_placement_def split: if_splits)

interpretation okx_venue: venue_placing "\<lambda>r w. connector_place (recorded client) policy (lift_clock clk) r (w, [])"
    "1 \<le> rp_max_attempts policy" "\<lambda>_. okx_orderly" okx_silent okx_refused okx_confirmed
  for client :: "'w okx_client" and policy and clk :: "'w retry_clock"
proof
  fix r and v v' :: 'w and calls e p
  assume max: "1 \<le> rp_max_attempts policy"
  obtain res w' calls' where run: "resilient_place (recorded client) (to_wire r) policy (lift_clock clk) (v, []) = (res, w', calls')"
    by (metis prod.exhaust)
  from okx_place_calls [OF max run] obtain earlier c looked where
    e: "place_explains (to_wire r) res c looked" "calls' = earlier @ c # looked" by blast
  note settles = place_explains_settles [OF e]
  assume "okx_orderly calls"
  then show "okx_refused r e calls" if "connector_place (recorded client) policy (lift_clock clk) r (v, []) = (Inl e, v', calls)"
    "code e \<noteq> ''transport''"
    using that run settles(1,3) by (auto simp: connector_place_def split: sum.splits)
  show "okx_silent r calls" if "connector_place (recorded client) policy (lift_clock clk) r (v, []) = (Inl e, v', calls)"
    "code e = ''transport''"
    using \<open>okx_orderly calls\<close> that run settles(2) not_transport by (auto simp: connector_place_def split: sum.splits)
  show "okx_confirmed r (pl_exchange_order_id p) calls"
    if "connector_place (recorded client) policy (lift_clock clk) r (v, []) = (Inr p, v', calls)"
    using \<open>okx_orderly calls\<close> that run settles(4) by (auto simp: connector_place_def split: sum.splits)
qed

section \<open>Properties\<close>

text \<open>What the venue-agnostic core is told about an order is what the venue said last. When
  the connector's lookup answers that the order does not exist, the last call to the venue
  answered with an empty result or with 51603; when it answers with a snapshot, the last call
  returned exactly that order, with a state, side and type the gateway knows; a transport
  failure, a rejected lookup or an order it cannot represent is an error.\<close>

lemma okx_lookup_is_conclusive:
  assumes "connector_get_order client policy clk q w = (res, w')" "1 \<le> rp_max_attempts policy"
  shows "\<exists>w0 w1 answer. cl_get_order client \<lparr>okq_inst_id = oq_instrument_id q, okq_cl_ord_id = oq_client_order_id q\<rparr> w0
      = (answer, w1)
    \<and> (res = Inr None \<longrightarrow> answer = Inr None \<or> (\<exists>e. answer = Inl e \<and> code e = ''venue:51603''))
    \<and> (\<forall>sn. res = Inr (Some sn) \<longrightarrow> (\<exists>info. answer = Inr (Some info) \<and> to_snapshot info = Inr sn))
    \<and> (\<forall>e. res = Inl e \<longrightarrow> answer = Inl e \<or> (\<exists>info. answer = Inr (Some info) \<and> to_snapshot info = Inl e))"
proof -
  let ?q = "\<lparr>okq_inst_id = oq_instrument_id q, okq_cl_ord_id = oq_client_order_id q\<rparr>"
  let ?Q = "\<lambda>(r :: order_snapshot option result) (w :: 'a). \<exists>w0 w1 answer. cl_get_order client ?q w0 = (answer, w1) \<and> r = snapshot_answer answer"
  have "if 1 \<le> rp_max_attempts policy then ?Q res w' else res = Inl retry_exhausted \<and> True"
    by (rule with_retries_rule [OF assms(1) [unfolded connector_get_order_def], where I = "\<lambda>_. True" and Q = ?Q])
      (auto simp: clock_keeps_def split: prod.splits)
  with assms(2) obtain w0 w1 answer where a: "cl_get_order client ?q w0 = (answer, w1)" "res = snapshot_answer answer" by auto
  show ?thesis
    by (rule exI [of _ w0], rule exI [of _ w1], rule exI [of _ answer])
      (use a in \<open>auto simp: snapshot_answer_def split: sum.splits option.splits if_splits\<close>)
qed

text \<open>A duplicate reported on the order level is not resolved. When the reply has envelope
  code 0 and the rejection in \<open>data[0].sCode\<close>, the client returns it as an acknowledgement, so
  \<open>resilient_place\<close> makes no lookup and the connector turns \<open>sCode\<close> 51000 into a definitive
  rejection, for every client and clock, although the engine's contract is to resolve 51000 to
  the existing order.\<close>

lemma okx_order_level_duplicate_not_resolved:
  assumes "1 \<le> rp_max_attempts policy"
    and "\<And>w. cl_place_order client (to_wire r) w = (Inr ack, w)" "ack_s_code ack = ''51000''"
  shows "\<exists>w1. connector_place client policy clk r w =
     (Inl (Error ''venue:51000'' (''OKX rejected request: '' @ ack_s_msg ack)), w1)"
proof -
  have m: "0 < rp_max_attempts policy" using assms(1) by simp
  have "resilient_place client (to_wire r) policy clk w = (Inr ack, snd (rc_now clk w))"
    using m assms(2) by (auto simp: resilient_place_def with_retries_def lift_clock_def place_attempt_def
        retry_loop.simps [of policy _ _ _ _ 0] split: prod.splits)
  then show ?thesis using assms(3) by (simp add: connector_place_def ack_to_placement_def)
qed

end
