(* ===== verification/Rest_Demo.thy ===== *)
theory Rest_Demo
  imports Rest_Support OKX_Connector
begin

text \<open>
  The OKX-only route for adjusting a demo balance, \<^verbatim>\<open>src/rest/okx_demo_routes.cpp\<close>.
\<close>

section \<open>Definitions\<close>

text \<open>\<open>Inl\<close> is the reason of the 400 response.\<close>

definition adjustment_item :: "nat \<Rightarrow> json \<Rightarrow> string + okx_demo_balance_adjustment" where
  "adjustment_item n item =
     (let index = ''adjustments['' @ nat_to_string n @ '']'';
          unknown = unknown_fields item [''ccy'', ''amt''];
          ccy = rest_string_field item ''ccy'';
          amt = rest_string_field item ''amt''
      in if \<not> is_object item then Inl (index @ '' must be an object'')
         else if unknown \<noteq> [] then Inl (index @ '': unsupported field(s): '' @ unknown)
         else if ccy = [] then Inl (index @ ''.ccy is required'')
         else if amt = [] \<or> \<not> is_decimal amt then Inl (index @ ''.amt must be a positive decimal'')
         else Inr \<lparr>ob_ccy = ccy, ob_amt = amt\<rparr>)"

fun adjustment_items :: "nat \<Rightarrow> json list \<Rightarrow> string + okx_demo_balance_adjustment list" where
  "adjustment_items n [] = Inr []"
| "adjustment_items n (item # items) =
     (case adjustment_item n item of
        Inl reason \<Rightarrow> Inl reason
      | Inr a \<Rightarrow> (case adjustment_items (n + 1) items of Inl reason \<Rightarrow> Inl reason | Inr as \<Rightarrow> Inr (a # as)))"

definition parse_adjustment_body :: "json \<Rightarrow> string + okx_demo_balance_request" where
  "parse_adjustment_body body =
     (let unknown = unknown_fields body [''type'', ''adjustments''];
          ty = rest_string_field body ''type''
      in if unknown \<noteq> [] then Inl (''unsupported field(s): '' @ unknown)
         else if ty \<noteq> ''increase'' \<and> ty \<noteq> ''reduce'' then
           Inl (''type must be '' @ [quote_char] @ ''increase'' @ [quote_char] @ '' or '' @ [quote_char] @ ''reduce'' @ [quote_char])
         else case jfind body ''adjustments'' of
           Some (JArr (item # items)) \<Rightarrow>
             (case adjustment_items 0 (item # items) of
                Inl reason \<Rightarrow> Inl reason
              | Inr as \<Rightarrow> Inr \<lparr>ob_type = ty, ob_adjustments = as\<rparr>)
         | _ \<Rightarrow> Inl ''adjustments must be a non-empty array of {ccy, amt}'')"

definition adjustment_response_json :: "okx_demo_balance_request \<Rightarrow> json \<Rightarrow> json" where
  "adjustment_response_json r data = jobject
     [(''venue'', JStr ''okx''), (''type'', JStr (ob_type r)),
      (''adjustments'', JArr (map (\<lambda>a. jobject [(''ccy'', JStr (ob_ccy a)), (''amt'', JStr (ob_amt a))]) (ob_adjustments r))),
      (''data'', data)]"

definition post_adjust_balance :: "(string \<Rightarrow> json option) \<Rightarrow> dumper \<Rightarrow> 'w okx_env \<Rightarrow> okx_config \<Rightarrow> string \<Rightarrow> 'w
    \<Rightarrow> http_response option \<times> 'w" where
  "post_adjust_balance parse dump env cfg text w =
     (case parse_json_body parse dump text of
        Inl response \<Rightarrow> (guarded dump [] response, w)
      | Inr body \<Rightarrow> (case parse_adjustment_body body of
          Inl reason \<Rightarrow> (guarded dump [] (error_response dump 400 ''invalid_request'' reason []), w)
        | Inr r \<Rightarrow> (case connector_adjust_demo_balance env cfg r w of
            (Inl e, w1) \<Rightarrow> (guarded dump [] (map_error dump e []), w1)
          | (Inr data, w1) \<Rightarrow> (guarded dump [] (json_response dump 200 (adjustment_response_json r data)), w1))))"

section \<open>Only complete adjustments reach the venue\<close>

lemma adjustment_items_ok:
  "adjustment_items n items = Inr as \<Longrightarrow> length as = length items \<and> (\<forall>a \<in> set as. ob_ccy a \<noteq> [] \<and> is_decimal (ob_amt a))"
proof (induction n items arbitrary: as rule: adjustment_items.induct)
  case (2 n item items)
  then show ?case
    by (auto simp: adjustment_item_def Let_def split: sum.splits if_splits)
qed simp

text \<open>A request that reaches the venue names at least one currency, each with a decimal amount, and
  one of the two directions; in production mode nothing reaches it.\<close>

lemma adjustment_reaches_venue:
  assumes "parse_adjustment_body body = Inr r"
  shows "ob_type r \<in> {''increase'', ''reduce''}" "ob_adjustments r \<noteq> []"
    "\<forall>a \<in> set (ob_adjustments r). ob_ccy a \<noteq> [] \<and> is_decimal (ob_amt a)"
    "\<not> ok_demo_trading cfg \<Longrightarrow> snd (connector_adjust_demo_balance env cfg r w) = w"
proof -
  obtain item items where i: "jfind body ''adjustments'' = Some (JArr (item # items))"
    "adjustment_items 0 (item # items) = Inr (ob_adjustments r)" and ty: "ob_type r \<in> {''increase'', ''reduce''}"
    using assms unfolding parse_adjustment_body_def Let_def
    by (fastforce split: if_splits option.splits json.splits list.splits sum.splits simp del: adjustment_items.simps)
  from adjustment_items_ok [OF i(2)] show "ob_adjustments r \<noteq> []"
    "\<forall>a \<in> set (ob_adjustments r). ob_ccy a \<noteq> [] \<and> is_decimal (ob_amt a)" by auto
  show "ob_type r \<in> {''increase'', ''reduce''}" by (rule ty)
  show "\<not> ok_demo_trading cfg \<Longrightarrow> snd (connector_adjust_demo_balance env cfg r w) = w"
    by (simp add: connector_adjust_demo_balance_def)
qed

end
