(* ===== verification/Binance_Wire.thy ===== *)
theory Binance_Wire
  imports Json Connector_Types
begin

text \<open>
  The Binance wire format, \<^verbatim>\<open>src/exchange/binance/binance_wire.hpp\<close> and \<^verbatim>\<open>binance_wire.cpp\<close>:
  request parameters, the decoding of results, the mapping of venue vocabulary and the symbol
  translator with its two memo tables.
\<close>

section \<open>Structures\<close>

record binance_place_request =
  bp_client_order_id :: string
  bp_symbol :: string
  bp_side :: side
  bp_type :: order_type
  bp_price :: string
  bp_quantity :: string
  bp_time_in_force :: string

record binance_cancel_request =
  bc_client_order_id :: string
  bc_symbol :: string

record binance_amend_request =
  ba_client_order_id :: string
  ba_symbol :: string
  ba_side :: side
  ba_type :: order_type
  ba_price :: string
  ba_quantity :: string
  ba_time_in_force :: string

record binance_order_query =
  bq_client_order_id :: string
  bq_symbol :: string

record binance_order_ack =
  bk_order_id :: string
  bk_client_order_id :: string
  bk_status :: string
  bk_executed_qty :: string

record binance_order_info =
  bi_order_id :: string
  bi_client_order_id :: string
  bi_symbol :: string
  bi_status :: string
  bi_side :: string
  bi_type :: string
  bi_price :: string
  bi_orig_qty :: string
  bi_executed_qty :: string
  bi_cummulative_quote_qty :: string

definition empty_binance_info :: binance_order_info where
  "empty_binance_info = \<lparr>bi_order_id = [], bi_client_order_id = [], bi_symbol = [], bi_status = [], bi_side = [],
     bi_type = [], bi_price = [], bi_orig_qty = [], bi_executed_qty = [], bi_cummulative_quote_qty = []\<rparr>"

record binance_replace_result =
  br_cancel_result :: string
  br_new_order_result :: string
  br_canceled :: binance_order_info
  br_replacement :: binance_order_ack

section \<open>Requests\<close>

definition side_text :: "side \<Rightarrow> string" where
  "side_text s = (if s = Buy then ''BUY'' else ''SELL'')"

definition type_text :: "order_type \<Rightarrow> string" where
  "type_text t = (if t = Limit then ''LIMIT'' else ''MARKET'')"

definition binance_string_field :: "json \<Rightarrow> string \<Rightarrow> string" where
  "binance_string_field node nm = (case jfind node nm of Some (JStr s) \<Rightarrow> s | _ \<Rightarrow> [])"

text \<open>\<open>std::to_string(get<long long>())\<close>: an unsigned value above the signed range wraps.\<close>

definition number_field :: "json \<Rightarrow> string \<Rightarrow> string" where
  "number_field node nm =
     (case jfind node nm of
        Some (JInt i) \<Rightarrow> int_to_string i
      | Some (JUInt n) \<Rightarrow> int_to_string (wrap64 (int n))
      | Some (JStr s) \<Rightarrow> s
      | _ \<Rightarrow> [])"

definition require_decimal :: "string \<Rightarrow> string \<Rightarrow> error option" where
  "require_decimal what v = (if v = [] then Some (Error ''protocol'' (what @ '' is required'')) else None)"

text \<open>The checks that place and amend share.\<close>

definition limit_errors :: "order_type \<Rightarrow> string \<Rightarrow> string \<Rightarrow> string \<Rightarrow> error option" where
  "limit_errors ty quantity price tif =
     (case require_decimal ''quantity'' quantity of
        Some e \<Rightarrow> Some e
      | None \<Rightarrow>
          if ty = Limit then
            (case require_decimal ''price'' price of
               Some e \<Rightarrow> Some e
             | None \<Rightarrow> if tif = [] then Some (Error ''protocol'' ''LIMIT orders require timeInForce'') else None)
          else None)"

definition with_limit_fields :: "order_type \<Rightarrow> string \<Rightarrow> string \<Rightarrow> json \<Rightarrow> json" where
  "with_limit_fields ty price tif params =
     (if ty = Limit then jset (jset params ''price'' (JStr price)) ''timeInForce'' (JStr tif) else params)"

definition build_place_params :: "binance_place_request \<Rightarrow> json result" where
  "build_place_params r =
     (if bp_client_order_id r = [] \<or> bp_symbol r = [] then
        Inl (Error ''protocol'' ''place requires clientOrderId and symbol'')
      else case limit_errors (bp_type r) (bp_quantity r) (bp_price r) (bp_time_in_force r) of
        Some e \<Rightarrow> Inl e
      | None \<Rightarrow> Inr (with_limit_fields (bp_type r) (bp_price r) (bp_time_in_force r) (jobject
          [(''symbol'', JStr (bp_symbol r)), (''side'', JStr (side_text (bp_side r))),
           (''type'', JStr (type_text (bp_type r))), (''quantity'', JStr (bp_quantity r)),
           (''newClientOrderId'', JStr (bp_client_order_id r)), (''newOrderRespType'', JStr ''RESULT'')])))"

definition build_cancel_params :: "binance_cancel_request \<Rightarrow> json result" where
  "build_cancel_params r =
     (if bc_client_order_id r = [] \<or> bc_symbol r = [] then
        Inl (Error ''protocol'' ''cancel requires clientOrderId and symbol'')
      else Inr (jobject [(''symbol'', JStr (bc_symbol r)), (''origClientOrderId'', JStr (bc_client_order_id r))]))"

definition build_cancel_replace_params :: "binance_amend_request \<Rightarrow> json result" where
  "build_cancel_replace_params r =
     (if ba_client_order_id r = [] \<or> ba_symbol r = [] then
        Inl (Error ''protocol'' ''amend requires clientOrderId and symbol'')
      else case limit_errors (ba_type r) (ba_quantity r) (ba_price r) (ba_time_in_force r) of
        Some e \<Rightarrow> Inl e
      | None \<Rightarrow> Inr (with_limit_fields (ba_type r) (ba_price r) (ba_time_in_force r) (jobject
          [(''symbol'', JStr (ba_symbol r)), (''cancelReplaceMode'', JStr ''STOP_ON_FAILURE''),
           (''cancelOrigClientOrderId'', JStr (ba_client_order_id r)), (''side'', JStr (side_text (ba_side r))),
           (''type'', JStr (type_text (ba_type r))), (''quantity'', JStr (ba_quantity r)),
           (''newClientOrderId'', JStr (ba_client_order_id r)), (''newOrderRespType'', JStr ''RESULT'')])))"

definition build_order_status_params :: "binance_order_query \<Rightarrow> json" where
  "build_order_status_params q =
     jobject [(''symbol'', JStr (bq_symbol q)), (''origClientOrderId'', JStr (bq_client_order_id q))]"

definition build_open_orders_params :: json where
  "build_open_orders_params = JObj []"

definition build_ticker_price_params :: "string \<Rightarrow> json" where
  "build_ticker_price_params wire = jobject [(''symbol'', JStr wire)]"

section \<open>Results\<close>

definition parse_ticker_price :: "json \<Rightarrow> string result" where
  "parse_ticker_price j =
     (if \<not> is_object j then Inl (Error ''protocol'' ''ticker.price result is not an object'')
      else
        let price = binance_string_field j ''price''
        in if price = [] then
             Inl (Error ''protocol'' (''ticker.price result missing string field '' @ [quote_char] @ ''price'' @ [quote_char]))
           else Inr price)"

definition binance_parse_ack :: "json \<Rightarrow> binance_order_ack" where
  "binance_parse_ack j =
     \<lparr>bk_order_id = number_field j ''orderId'', bk_client_order_id = binance_string_field j ''clientOrderId'',
      bk_status = binance_string_field j ''status'', bk_executed_qty = binance_string_field j ''executedQty''\<rparr>"

definition binance_parse_info :: "json \<Rightarrow> binance_order_info result" where
  "binance_parse_info j =
     (if \<not> is_object j then Inl (Error ''protocol'' ''order result is not a JSON object'')
      else Inr
        \<lparr>bi_order_id = number_field j ''orderId'', bi_client_order_id = binance_string_field j ''clientOrderId'',
         bi_symbol = binance_string_field j ''symbol'', bi_status = binance_string_field j ''status'',
         bi_side = binance_string_field j ''side'', bi_type = binance_string_field j ''type'',
         bi_price = binance_string_field j ''price'', bi_orig_qty = binance_string_field j ''origQty'',
         bi_executed_qty = binance_string_field j ''executedQty'',
         bi_cummulative_quote_qty = binance_string_field j ''cummulativeQuoteQty''\<rparr>)"

definition parse_replace_result :: "json \<Rightarrow> binance_replace_result result" where
  "parse_replace_result j =
     (if \<not> is_object j then Inl (Error ''protocol'' ''cancelReplace result is not a JSON object'')
      else case (jfind j ''cancelResponse'', jfind j ''newOrderResponse'') of
        (Some cancel, Some placed) \<Rightarrow>
          if \<not> is_object cancel \<or> \<not> is_object placed then
            Inl (Error ''protocol'' ''cancelReplace result lacks cancel/new order legs'')
          else (case binance_parse_info cancel of
              Inl e \<Rightarrow> Inl e
            | Inr canceled \<Rightarrow>
                Inr \<lparr>br_cancel_result = binance_string_field j ''cancelResult'',
                     br_new_order_result = binance_string_field j ''newOrderResult'',
                     br_canceled = canceled, br_replacement = binance_parse_ack placed\<rparr>)
      | _ \<Rightarrow> Inl (Error ''protocol'' ''cancelReplace result lacks cancel/new order legs''))"

definition map_binance_state :: "string \<Rightarrow> order_state option" where
  "map_binance_state s =
     (if s = ''NEW'' \<or> s = ''PENDING_NEW'' then Some Live
      else if s = ''PARTIALLY_FILLED'' then Some PartiallyFilled
      else if s = ''FILLED'' then Some Filled
      else if s = ''CANCELED'' \<or> s = ''PENDING_CANCEL'' \<or> s = ''EXPIRED'' \<or> s = ''EXPIRED_IN_MATCH'' then Some Canceled
      else if s = ''REJECTED'' then Some Rejected
      else None)"

definition map_binance_side :: "string \<Rightarrow> side option" where
  "map_binance_side s = (if s = ''BUY'' then Some Buy else if s = ''SELL'' then Some Sell else None)"

definition map_binance_type :: "string \<Rightarrow> order_type option" where
  "map_binance_type s = (if s = ''LIMIT'' then Some Limit else if s = ''MARKET'' then Some Market else None)"

section \<open>Symbols\<close>

record symbol_translator =
  st_gateway_to_wire :: "string \<rightharpoonup> string"
  st_wire_to_gateway :: "string \<rightharpoonup> string"

definition kQuoteAssets :: "string list" where
  "kQuoteAssets = [''USDT'', ''FDUSD'', ''USDC'', ''TUSD'', ''BUSD'', ''DAI'', ''BTC'', ''ETH'', ''BNB'', ''EUR'', ''TRY'', ''GBP'']"

definition strip_dashes :: "string \<Rightarrow> string" where
  "strip_dashes g = filter (\<lambda>c. c \<noteq> CHR ''-'') g"

definition register_symbol :: "string \<Rightarrow> string \<Rightarrow> symbol_translator \<Rightarrow> symbol_translator" where
  "register_symbol g wire st =
     \<lparr>st_gateway_to_wire = (st_gateway_to_wire st)(g \<mapsto> wire), st_wire_to_gateway = (st_wire_to_gateway st)(wire \<mapsto> g)\<rparr>"

definition symbol_to_wire :: "string \<Rightarrow> symbol_translator \<Rightarrow> string \<times> symbol_translator" where
  "symbol_to_wire g st = (strip_dashes g, register_symbol g (strip_dashes g) st)"

text \<open>The loop over the quote assets: the first suffix that leaves a base of at least two
  characters.\<close>

fun split_quote :: "string list \<Rightarrow> string \<Rightarrow> string option" where
  "split_quote [] wire = None"
| "split_quote (quote # quotes) wire =
     (if length wire > length quote + 1 \<and> drop (length wire - length quote) wire = quote then
        Some (take (length wire - length quote) wire @ ''-'' @ quote)
      else split_quote quotes wire)"

definition symbol_to_gateway :: "string \<Rightarrow> symbol_translator \<Rightarrow> string \<times> symbol_translator" where
  "symbol_to_gateway wire st =
     (case st_wire_to_gateway st wire of
        Some g \<Rightarrow> (g, st)
      | None \<Rightarrow>
          let g = (case split_quote kQuoteAssets wire of Some g \<Rightarrow> g | None \<Rightarrow> wire)
          in (g, register_symbol g wire st))"

section \<open>Translations are undone\<close>

text \<open>Every translation a translator has handed out, as a sequence of calls.\<close>

datatype symbol_call = ToWire string | ToGateway string

definition run_symbol_call :: "symbol_call \<Rightarrow> symbol_translator \<Rightarrow> symbol_translator" where
  "run_symbol_call c st = (case c of ToWire g \<Rightarrow> snd (symbol_to_wire g st) | ToGateway w \<Rightarrow> snd (symbol_to_gateway w st))"

definition translator_ok :: "symbol_translator \<Rightarrow> bool" where
  "translator_ok st \<longleftrightarrow> (\<forall>w g. st_wire_to_gateway st w = Some g \<longrightarrow> CHR ''-'' \<notin> set w \<longrightarrow> strip_dashes g = w)"

lemma strip_no_dash: "CHR ''-'' \<notin> set w \<Longrightarrow> strip_dashes w = w"
  unfolding strip_dashes_def by (rule filter_True) auto

lemma strip_dashes_clean: "CHR ''-'' \<notin> set (strip_dashes g)"
  by (simp add: strip_dashes_def)

lemma split_quote_strip:
  assumes "CHR ''-'' \<notin> set wire" "split_quote quotes wire = Some g"
  shows "strip_dashes g = wire"
  using assms
proof (induction quotes wire rule: split_quote.induct)
  case (2 quote quotes wire)
  show ?case
  proof (cases "length wire > length quote + 1 \<and> drop (length wire - length quote) wire = quote")
    case True
    then have g: "g = take (length wire - length quote) wire @ ''-'' @ drop (length wire - length quote) wire"
      using 2(3) by simp
    have "strip_dashes (take n wire) = take n wire" "strip_dashes (drop n wire) = drop n wire" for n
      using 2(2) by (auto intro!: strip_no_dash dest: in_set_takeD in_set_dropD)
    then show ?thesis unfolding g by (simp add: strip_dashes_def)
  next
    case False
    with 2 show ?thesis by auto
  qed
qed simp

lemma register_ok:
  assumes "translator_ok st" "CHR ''-'' \<notin> set w \<Longrightarrow> strip_dashes g = w"
  shows "translator_ok (register_symbol g w st)"
  using assms by (auto simp: translator_ok_def register_symbol_def)

lemma run_symbol_call_ok:
  assumes "translator_ok st"
  shows "translator_ok (run_symbol_call c st)"
proof (cases c)
  case (ToWire g)
  with assms show ?thesis by (auto simp: run_symbol_call_def symbol_to_wire_def intro: register_ok)
next
  case (ToGateway w)
  show ?thesis
  proof (cases "st_wire_to_gateway st w")
    case None
    have "CHR ''-'' \<notin> set w \<Longrightarrow> strip_dashes (case split_quote kQuoteAssets w of Some g \<Rightarrow> g | None \<Rightarrow> w) = w"
      by (auto intro: strip_no_dash split_quote_strip split: option.splits)
    with assms None ToGateway show ?thesis
      by (auto simp: run_symbol_call_def symbol_to_gateway_def Let_def intro: register_ok)
  qed (use assms ToGateway in \<open>simp add: run_symbol_call_def symbol_to_gateway_def\<close>)
qed

section \<open>Properties\<close>

text \<open>Whatever translations happened before: a gateway symbol is recovered from the wire
  symbol it was just translated to; a wire symbol without dashes is recovered from its
  gateway symbol by the next translation, and asking for its gateway symbol again gives the
  same answer.\<close>

lemma symbol_translation_roundtrip:
  assumes "st = fold run_symbol_call calls \<lparr>st_gateway_to_wire = Map.empty, st_wire_to_gateway = Map.empty\<rparr>"
  shows "(let (w, st1) = symbol_to_wire g st in symbol_to_gateway w st1 = (g, st1))
    \<and> (CHR ''-'' \<notin> set w \<longrightarrow>
        (let (g', st1) = symbol_to_gateway w st in fst (symbol_to_wire g' st1) = w \<and> symbol_to_gateway w st1 = (g', st1)))"
proof -
  have "translator_ok (fold run_symbol_call calls \<lparr>st_gateway_to_wire = Map.empty, st_wire_to_gateway = Map.empty\<rparr>)"
    by (rule fold_invariant_on [where P = translator_ok]) (simp_all add:
        translator_ok_def [of "\<lparr>st_gateway_to_wire = Map.empty, st_wire_to_gateway = Map.empty\<rparr>"] run_symbol_call_ok)
  then have ok: "translator_ok st" by (simp add: assms)
  obtain g' st1 where t: "symbol_to_gateway w st = (g', st1)" by fastforce
  have again: "st_wire_to_gateway st1 w = Some g'"
    using t by (auto simp: symbol_to_gateway_def register_symbol_def Let_def split: option.splits)
  have "translator_ok st1" using run_symbol_call_ok [OF ok, of "ToGateway w"] t by (simp add: run_symbol_call_def)
  then have "CHR ''-'' \<notin> set w \<Longrightarrow> strip_dashes g' = w" using again by (simp add: translator_ok_def)
  then show ?thesis using t again
    by (simp add: symbol_to_wire_def symbol_to_gateway_def [of "strip_dashes g"] symbol_to_gateway_def [of w st1] register_symbol_def)
qed

end
