(* ===== verification/Binance_Resilient.thy ===== *)
theory Binance_Resilient
  imports Binance_Wire Decimal Resend
begin

text \<open>
  The Binance API layer and its resolve-then-retry engine,
  \<^verbatim>\<open>src/exchange/binance/binance_resilient.hpp\<close> and \<^verbatim>\<open>binance_api.cpp\<close>, over an arbitrary
  transport: \<open>raw_call meth params\<close> is what \<open>call_signed\<close> returns for a request. The engine is
  stated over an arbitrary API (\<open>ApiT\<close> is a template parameter there).
\<close>

section \<open>The API\<close>

type_synonym 'w raw_call = "string \<Rightarrow> json \<Rightarrow> 'w \<Rightarrow> json result \<times> 'w"

definition api_place :: "'w raw_call \<Rightarrow> binance_place_request \<Rightarrow> 'w \<Rightarrow> binance_order_ack result \<times> 'w" where
  "api_place call r w =
     (case build_place_params r of
        Inl e \<Rightarrow> (Inl e, w)
      | Inr params \<Rightarrow> (case call ''order.place'' params w of
          (Inl e, w') \<Rightarrow> (Inl e, w')
        | (Inr j, w') \<Rightarrow> (Inr (binance_parse_ack j), w')))"

definition api_cancel :: "'w raw_call \<Rightarrow> binance_cancel_request \<Rightarrow> 'w \<Rightarrow> binance_order_info result \<times> 'w" where
  "api_cancel call r w =
     (case build_cancel_params r of
        Inl e \<Rightarrow> (Inl e, w)
      | Inr params \<Rightarrow> (case call ''order.cancel'' params w of
          (Inl e, w') \<Rightarrow> (Inl e, w')
        | (Inr j, w') \<Rightarrow> (case binance_parse_info j of
            Inl e \<Rightarrow> (Inl e, w')
          | Inr info \<Rightarrow> (Inr (info\<lparr>bi_client_order_id := bc_client_order_id r\<rparr>), w'))))"

definition api_cancel_replace :: "'w raw_call \<Rightarrow> binance_amend_request \<Rightarrow> 'w \<Rightarrow> binance_replace_result result \<times> 'w" where
  "api_cancel_replace call r w =
     (case build_cancel_replace_params r of
        Inl e \<Rightarrow> (Inl e, w)
      | Inr params \<Rightarrow> (case call ''order.cancelReplace'' params w of
          (Inl e, w') \<Rightarrow> (Inl e, w')
        | (Inr j, w') \<Rightarrow> (case parse_replace_result j of
            Inl e \<Rightarrow> (Inl e, w')
          | Inr res \<Rightarrow>
              (Inr (res\<lparr>br_canceled := (br_canceled res)\<lparr>bi_client_order_id := ba_client_order_id r\<rparr>\<rparr>), w'))))"

definition api_get_order :: "'w raw_call \<Rightarrow> binance_order_query \<Rightarrow> 'w \<Rightarrow> binance_order_info option result \<times> 'w" where
  "api_get_order call q w =
     (case call ''order.status'' (build_order_status_params q) w of
        (Inl e, w') \<Rightarrow> (if code e = ''venue:-2013'' then Inr None else Inl e, w')
      | (Inr j, w') \<Rightarrow> (case binance_parse_info j of
          Inl e \<Rightarrow> (Inl e, w')
        | Inr info \<Rightarrow> (Inr (Some info), w')))"

definition api_get_open_orders :: "'w raw_call \<Rightarrow> 'w \<Rightarrow> binance_order_info list result \<times> 'w" where
  "api_get_open_orders call w =
     (case call ''openOrders.status'' build_open_orders_params w of
        (Inl e, w') \<Rightarrow> (Inl e, w')
      | (Inr (JArr items), w') \<Rightarrow>
          (Inr (List.map_filter (\<lambda>item. case binance_parse_info item of Inr info \<Rightarrow> Some info | Inl _ \<Rightarrow> None) items), w')
      | (Inr _, w') \<Rightarrow> (Inl (Error ''protocol'' ''openOrders.status result is not an array''), w'))"

definition api_get_price :: "'w raw_call option \<Rightarrow> string \<Rightarrow> 'w \<Rightarrow> string result \<times> 'w" where
  "api_get_price public_call wire w =
     (case public_call of
        None \<Rightarrow> (Inl (Error ''protocol'' ''no public call transport configured for ticker.price''), w)
      | Some call \<Rightarrow> (case call ''ticker.price'' (build_ticker_price_params wire) w of
          (Inl e, w') \<Rightarrow> (Inl e, w')
        | (Inr j, w') \<Rightarrow> (parse_ticker_price j, w')))"

section \<open>The engine\<close>

record 'w binance_api =
  bapi_place :: "binance_place_request \<Rightarrow> 'w \<Rightarrow> binance_order_ack result \<times> 'w"
  bapi_cancel :: "binance_cancel_request \<Rightarrow> 'w \<Rightarrow> binance_order_info result \<times> 'w"
  bapi_cancel_replace :: "binance_amend_request \<Rightarrow> 'w \<Rightarrow> binance_replace_result result \<times> 'w"
  bapi_get_order :: "binance_order_query \<Rightarrow> 'w \<Rightarrow> binance_order_info option result \<times> 'w"

definition value_matches :: "string \<Rightarrow> string \<Rightarrow> bool" where
  "value_matches requested reported =
     (if requested = [] then True
      else if requested = reported then True
      else case (parse_decimal requested, parse_decimal reported) of
          (Inr l, Inr r) \<Rightarrow> compare_dec l r = 0
        | _ \<Rightarrow> False)"

text \<open>\<open>find(...) != npos\<close>.\<close>

fun contains :: "string \<Rightarrow> string \<Rightarrow> bool" where
  "contains needle [] = (needle = [])"
| "contains needle (c # cs) = (take (length needle) (c # cs) = needle \<or> contains needle cs)"

definition is_duplicate_reject :: "error \<Rightarrow> bool" where
  "is_duplicate_reject e =
     (if code e = ''venue:-4116'' \<or> code e = ''venue:-2010'' then True
      else let lower = map to_lower_char (message e) in contains ''duplicat'' lower \<or> contains ''already exist'' lower)"

datatype binance_lookup_outcome = BinanceFound | BinanceAbsent | BinanceInconclusive

record binance_lookup_result =
  bl_outcome :: binance_lookup_outcome
  bl_info :: binance_order_info
  bl_error :: "error option"

definition binance_lookup_verdict :: "binance_order_info option result \<Rightarrow> binance_lookup_result result" where
  "binance_lookup_verdict answer =
     (case answer of
        Inr (Some info) \<Rightarrow> Inr \<lparr>bl_outcome = BinanceFound, bl_info = info, bl_error = None\<rparr>
      | Inr None \<Rightarrow> Inr \<lparr>bl_outcome = BinanceAbsent, bl_info = empty_binance_info, bl_error = None\<rparr>
      | Inl e \<Rightarrow>
          if code e = ''transport'' then Inl e
          else Inr \<lparr>bl_outcome = BinanceInconclusive, bl_info = empty_binance_info, bl_error = Some e\<rparr>)"

definition binance_lookup_attempt :: "'w binance_api \<Rightarrow> binance_order_query \<Rightarrow> 'w \<Rightarrow> binance_lookup_result result \<times> 'w" where
  "binance_lookup_attempt api q = judged binance_lookup_verdict (bapi_get_order api q)"

definition binance_lookup :: "'w binance_api \<Rightarrow> binance_order_query \<Rightarrow> retry_policy \<Rightarrow> 'w retry_clock \<Rightarrow> 'w
    \<Rightarrow> binance_lookup_result \<times> 'w" where
  "binance_lookup api q policy clk w =
     (case with_retries policy clk (binance_lookup_attempt api q) (\<lambda>e _. code e = ''transport'') w of
        (Inr found, w') \<Rightarrow> (found, w')
      | (Inl e, w') \<Rightarrow> (\<lparr>bl_outcome = BinanceInconclusive, bl_info = empty_binance_info, bl_error = Some e\<rparr>, w'))"

definition ack_of_info :: "binance_order_info \<Rightarrow> binance_order_ack" where
  "ack_of_info info = \<lparr>bk_order_id = bi_order_id info, bk_client_order_id = bi_client_order_id info,
     bk_status = bi_status info, bk_executed_qty = bi_executed_qty info\<rparr>"

definition binance_unresolved :: "string \<Rightarrow> string \<Rightarrow> binance_lookup_result \<Rightarrow> error \<Rightarrow> error" where
  "binance_unresolved what i lookup e = Error ''transport''
     (what @ '' outcome unresolved for clientOrderId '' @ i @ '': '' @ message (opt_or (bl_error lookup) e))"

definition binance_place_attempt :: "'w binance_api \<Rightarrow> binance_place_request \<Rightarrow> retry_policy \<Rightarrow> 'w retry_clock
    \<Rightarrow> 'w \<times> bool \<Rightarrow> binance_order_ack result \<times> 'w \<times> bool" where
  "binance_place_attempt api r policy clk = (\<lambda>(w, _).
     case bapi_place api r w of
       (Inr ack, w1) \<Rightarrow> (Inr ack, w1, False)
     | (Inl e, w1) \<Rightarrow>
         if code e = ''transport'' \<or> is_duplicate_reject e then
           (case binance_lookup api \<lparr>bq_client_order_id = bp_client_order_id r, bq_symbol = bp_symbol r\<rparr> policy clk w1 of
              (lookup, w2) \<Rightarrow>
                if bl_outcome lookup = BinanceFound then (Inr (ack_of_info (bl_info lookup)), w2, False)
                else if is_duplicate_reject e then (Inl e, w2, False)
                else if bl_outcome lookup = BinanceAbsent then (Inl e, w2, True)
                else (Inl (binance_unresolved ''place'' (bp_client_order_id r) lookup e), w2, False))
         else (Inl e, w1, False))"

definition binance_resilient_place :: "'w binance_api \<Rightarrow> binance_place_request \<Rightarrow> retry_policy \<Rightarrow> 'w retry_clock
    \<Rightarrow> 'w \<Rightarrow> binance_order_ack result \<times> 'w" where
  "binance_resilient_place api r policy clk w =
     (case with_retries policy (lift_clock clk) (binance_place_attempt api r policy clk) (\<lambda>_ s. snd s) (w, False) of
        (res, w', _) \<Rightarrow> (res, w'))"

definition still_working :: "string \<Rightarrow> bool" where
  "still_working status \<longleftrightarrow> status = ''NEW'' \<or> status = ''PARTIALLY_FILLED'' \<or> status = ''PENDING_CANCEL''"

definition binance_cancel_attempt :: "'w binance_api \<Rightarrow> binance_cancel_request \<Rightarrow> retry_policy \<Rightarrow> 'w retry_clock
    \<Rightarrow> 'w \<times> bool \<Rightarrow> binance_order_info result \<times> 'w \<times> bool" where
  "binance_cancel_attempt api r policy clk = (\<lambda>(w, _).
     case bapi_cancel api r w of
       (Inr info, w1) \<Rightarrow> (Inr info, w1, False)
     | (Inl e, w1) \<Rightarrow>
         if code e = ''transport'' then
           (case binance_lookup api \<lparr>bq_client_order_id = bc_client_order_id r, bq_symbol = bc_symbol r\<rparr> policy clk w1 of
              (lookup, w2) \<Rightarrow>
                if bl_outcome lookup = BinanceFound then
                  (if bi_status (bl_info lookup) = ''CANCELED'' then (Inr (bl_info lookup), w2, False)
                   else if still_working (bi_status (bl_info lookup)) then (Inl e, w2, True)
                   else (Inl (Error ''venue:-2011'' (''order '' @ bc_client_order_id r @ '' is already '' @
                           bi_status (bl_info lookup))), w2, False))
                else if bl_outcome lookup = BinanceAbsent then
                  (Inl (Error ''venue:-2013'' ''cancel target not found on the venue''), w2, False)
                else (Inl (binance_unresolved ''cancel'' (bc_client_order_id r) lookup e), w2, False))
         else if code e = ''venue:-2011'' then
           (case binance_lookup api \<lparr>bq_client_order_id = bc_client_order_id r, bq_symbol = bc_symbol r\<rparr> policy clk w1 of
              (lookup, w2) \<Rightarrow>
                if bl_outcome lookup = BinanceFound \<and> bi_status (bl_info lookup) = ''CANCELED''
                then (Inr (bl_info lookup), w2, False)
                else (Inl e, w2, False))
         else (Inl e, w1, False))"

definition binance_resilient_cancel :: "'w binance_api \<Rightarrow> binance_cancel_request \<Rightarrow> retry_policy \<Rightarrow> 'w retry_clock
    \<Rightarrow> 'w \<Rightarrow> binance_order_info result \<times> 'w" where
  "binance_resilient_cancel api r policy clk w =
     (case with_retries policy (lift_clock clk) (binance_cancel_attempt api r policy clk) (\<lambda>_ s. snd s) (w, False) of
        (res, w', _) \<Rightarrow> (res, w'))"

definition binance_matches_request :: "binance_order_info \<Rightarrow> binance_amend_request \<Rightarrow> bool" where
  "binance_matches_request info r \<longleftrightarrow>
     value_matches (ba_price r) (bi_price info) \<and> value_matches (ba_quantity r) (bi_orig_qty info)"

definition binance_amend_attempt :: "'w binance_api \<Rightarrow> binance_amend_request \<Rightarrow> retry_policy \<Rightarrow> 'w retry_clock
    \<Rightarrow> 'w \<times> bool \<Rightarrow> binance_order_ack result \<times> 'w \<times> bool" where
  "binance_amend_attempt api r policy clk = (\<lambda>(w, _).
     case bapi_cancel_replace api r w of
       (Inr res, w1) \<Rightarrow> (Inr (br_replacement res), w1, False)
     | (Inl e, w1) \<Rightarrow>
         if code e \<noteq> ''transport'' then (Inl e, w1, False)
         else
           (case binance_lookup api \<lparr>bq_client_order_id = ba_client_order_id r, bq_symbol = ba_symbol r\<rparr> policy clk w1 of
              (lookup, w2) \<Rightarrow>
                if bl_outcome lookup = BinanceFound then
                  (if binance_matches_request (bl_info lookup) r then (Inr (ack_of_info (bl_info lookup)), w2, False)
                   else if still_working (bi_status (bl_info lookup)) then (Inl e, w2, True)
                   else (Inl (Error ''venue:-2011'' (''amend outcome partially unknown for clientOrderId '' @
                           ba_client_order_id r @ '': original order is '' @ bi_status (bl_info lookup) @
                           '' and no replacement is live; re-issue as a new order if needed'')), w2, False))
                else if bl_outcome lookup = BinanceAbsent then
                  (Inl (Error ''venue:-2013'' ''amend target not found on the venue''), w2, False)
                else (Inl (binance_unresolved ''amend'' (ba_client_order_id r) lookup e), w2, False)))"

definition binance_resilient_amend :: "'w binance_api \<Rightarrow> binance_amend_request \<Rightarrow> retry_policy \<Rightarrow> 'w retry_clock
    \<Rightarrow> 'w \<Rightarrow> binance_order_ack result \<times> 'w" where
  "binance_resilient_amend api r policy clk w =
     (case with_retries policy (lift_clock clk) (binance_amend_attempt api r policy clk) (\<lambda>_ s. snd s) (w, False) of
        (res, w', _) \<Rightarrow> (res, w'))"

section \<open>Recorded runs\<close>

datatype binance_call =
    BPlace binance_place_request "binance_order_ack result"
  | BCancel binance_cancel_request "binance_order_info result"
  | BReplace binance_amend_request "binance_replace_result result"
  | BLookup binance_order_query "binance_order_info option result"

definition brecorded :: "'w binance_api \<Rightarrow> ('w \<times> binance_call list) binance_api" where
  "brecorded api =
     \<lparr>bapi_place = (\<lambda>r. recording (BPlace r) (bapi_place api r)),
      bapi_cancel = (\<lambda>r. recording (BCancel r) (bapi_cancel api r)),
      bapi_cancel_replace = (\<lambda>r. recording (BReplace r) (bapi_cancel_replace api r)),
      bapi_get_order = (\<lambda>q. recording (BLookup q) (bapi_get_order api q))\<rparr>"

fun is_blookup :: "binance_call \<Rightarrow> bool" where
  "is_blookup (BLookup _ _) = True"
| "is_blookup _ = False"

fun basks_about :: "binance_order_query \<Rightarrow> binance_call \<Rightarrow> bool" where
  "basks_about q (BLookup q' _) = (q' = q)"
| "basks_about _ _ = False"

fun banswered_absent :: "binance_call \<Rightarrow> bool" where
  "banswered_absent (BLookup _ (Inr None)) = True"
| "banswered_absent _ = False"

text \<open>The lookups and sends that concern one order.\<close>

abbreviation bplace_query :: "binance_place_request \<Rightarrow> binance_order_query" where
  "bplace_query r \<equiv> \<lparr>bq_client_order_id = bp_client_order_id r, bq_symbol = bp_symbol r\<rparr>"

abbreviation bcancel_query :: "binance_cancel_request \<Rightarrow> binance_order_query" where
  "bcancel_query r \<equiv> \<lparr>bq_client_order_id = bc_client_order_id r, bq_symbol = bc_symbol r\<rparr>"

abbreviation bamend_query :: "binance_amend_request \<Rightarrow> binance_order_query" where
  "bamend_query r \<equiv> \<lparr>bq_client_order_id = ba_client_order_id r, bq_symbol = ba_symbol r\<rparr>"

fun bplace_concerns :: "binance_place_request \<Rightarrow> binance_call \<Rightarrow> bool" where
  "bplace_concerns r (BPlace r' _) = (r' = r)"
| "bplace_concerns r (BLookup q _) = (q = bplace_query r)"
| "bplace_concerns _ _ = False"

fun bcancel_concerns :: "binance_cancel_request \<Rightarrow> binance_call \<Rightarrow> bool" where
  "bcancel_concerns r (BCancel r' _) = (r' = r)"
| "bcancel_concerns r (BLookup q _) = (q = bcancel_query r)"
| "bcancel_concerns _ _ = False"

fun bamend_concerns :: "binance_amend_request \<Rightarrow> binance_call \<Rightarrow> bool" where
  "bamend_concerns r (BReplace r' _) = (r' = r)"
| "bamend_concerns r (BLookup q _) = (q = bamend_query r)"
| "bamend_concerns _ _ = False"

text \<open>A lookup of the order that was answered with its absence.\<close>

definition banswered_absent_for :: "binance_order_query \<Rightarrow> binance_call \<Rightarrow> bool" where
  "banswered_absent_for q c \<longleftrightarrow> basks_about q c \<and> banswered_absent c"

fun banswered_found :: "binance_call \<Rightarrow> binance_order_info option" where
  "banswered_found (BLookup _ (Inr (Some info))) = Some info"
| "banswered_found _ = None"

definition blooked_up :: "binance_order_query \<Rightarrow> binance_lookup_result \<Rightarrow> binance_call list \<Rightarrow> bool" where
  "blooked_up q lookup looked \<longleftrightarrow>
     (\<forall>l \<in> set looked. basks_about q l) \<and> (\<forall>l \<in> set (butlast looked). banswered_found l = None \<and> \<not> banswered_absent l)
     \<and> (bl_outcome lookup = BinanceFound \<longrightarrow> looked \<noteq> [] \<and> banswered_found (last looked) = Some (bl_info lookup))
     \<and> (bl_outcome lookup = BinanceAbsent \<longrightarrow> looked \<noteq> [] \<and> banswered_absent (last looked))
     \<and> (bl_outcome lookup = BinanceInconclusive \<longrightarrow>
          (\<forall>l \<in> set looked. banswered_found l = None \<and> \<not> banswered_absent l))"

lemma binance_lookup_attempt_recorded:
  "binance_lookup_attempt (brecorded api) q = judged binance_lookup_verdict (recording (BLookup q) (bapi_get_order api q))"
  by (simp add: binance_lookup_attempt_def brecorded_def)

lemma binance_retryable_answer:
  "binance_lookup_verdict a = Inl e \<Longrightarrow> banswered_found (BLookup q a) = None"
  "binance_lookup_verdict a = Inl e \<Longrightarrow> code e = ''transport'' \<Longrightarrow> \<not> banswered_absent (BLookup q a)"
  by (auto simp: binance_lookup_verdict_def split: sum.splits option.splits if_splits)

lemma binance_lookup_calls:
  assumes "binance_lookup (brecorded api) q policy (lift_clock clk) (w, calls) = (lookup, w', calls')"
  shows "\<exists>looked. calls' = calls @ looked \<and> blooked_up q lookup looked"
proof -
  obtain r where run: "with_retries policy (lift_clock clk) (binance_lookup_attempt (brecorded api) q) (\<lambda>e _. code e = ''transport'') (w, calls)
      = (r, w', calls')" and lookup: "lookup = (case r of Inr found \<Rightarrow> found
      | Inl e \<Rightarrow> \<lparr>bl_outcome = BinanceInconclusive, bl_info = empty_binance_info, bl_error = Some e\<rparr>)"
    using assms by (auto simp: binance_lookup_def split: prod.splits sum.splits)
  from judged_retries_calls [OF run [unfolded binance_lookup_attempt_recorded]] obtain answers where
    a: "calls' = calls @ map (BLookup q) answers"
      "\<forall>a \<in> set (butlast answers). \<exists>e. binance_lookup_verdict a = Inl e \<and> code e = ''transport''"
      "if answers = [] then r = Inl retry_exhausted else r = binance_lookup_verdict (last answers)" by blast
  have pending: "\<forall>a \<in> set (butlast answers). banswered_found (BLookup q a) = None \<and> \<not> banswered_absent (BLookup q a)"
    using a(2) binance_retryable_answer by blast
  have "blooked_up q lookup (map (BLookup q) answers)"
  proof (cases answers rule: rev_cases)
    case Nil
    with a(3) lookup show ?thesis by (simp add: blooked_up_def)
  next
    case (snoc before a)
    then have "r = binance_lookup_verdict a" using a(3) by simp
    with snoc pending lookup show ?thesis
      by (cases a) (auto simp: blooked_up_def binance_lookup_verdict_def split: option.splits if_splits)
  qed
  with a(1) show ?thesis by blast
qed

lemma binance_lookup_recorded:
  "map_prod id fst (binance_lookup (brecorded api) q policy (lift_clock clk) wc) = binance_lookup api q policy clk (fst wc)"
  using judged_recorded [of policy clk binance_lookup_verdict "BLookup q" "bapi_get_order api q" "\<lambda>e. code e = ''transport''" wc]
  unfolding binance_lookup_def binance_lookup_attempt_recorded binance_lookup_attempt_def [of api, symmetric]
  by (auto simp: binance_lookup_attempt_def split: prod.splits sum.splits)

section \<open>The engine keeps the contract\<close>

text \<open>What the result of a place means in terms of its last send and the lookups after it.\<close>

fun binance_place_explains :: "binance_place_request \<Rightarrow> binance_order_ack result \<Rightarrow> binance_call \<Rightarrow> binance_call list \<Rightarrow> bool" where
  "binance_place_explains r (Inr ack) (BPlace r' answer) looked =
     (r' = r \<and> (\<forall>l \<in> set looked. basks_about \<lparr>bq_client_order_id = bp_client_order_id r, bq_symbol = bp_symbol r\<rparr> l) \<and> (answer = Inr ack \<and> looked = []
      \<or> looked \<noteq> [] \<and> map_option ack_of_info (banswered_found (last looked)) = Some ack))"
| "binance_place_explains r (Inl e) (BPlace r' answer) looked =
     (r' = r \<and> (\<forall>l \<in> set looked. basks_about \<lparr>bq_client_order_id = bp_client_order_id r, bq_symbol = bp_symbol r\<rparr> l) \<and> (answer = Inl e
       \<or> code e = ''transport'' \<and> (case answer of Inl e0 \<Rightarrow> code e0 = ''transport'' | Inr _ \<Rightarrow> False))
      \<and> (\<forall>l \<in> set looked. banswered_found l = None))"
| "binance_place_explains _ _ _ _ = False"

lemma blooked_up_not_found:
  "blooked_up q lookup looked \<Longrightarrow> bl_outcome lookup \<noteq> BinanceFound \<Longrightarrow> \<forall>l \<in> set looked. banswered_found l = None"
proof -
  assume l: "blooked_up q lookup looked" and n: "bl_outcome lookup \<noteq> BinanceFound"
  show ?thesis
  proof (cases "bl_outcome lookup")
    case BinanceAbsent
    then have "looked \<noteq> []" "banswered_absent (last looked)" using l by (auto simp: blooked_up_def)
    moreover from this have "banswered_found (last looked) = None" by (cases "last looked" rule: banswered_absent.cases) auto
    ultimately show ?thesis using l unfolding blooked_up_def
      by (metis append_butlast_last_id insert_iff list.simps(15) set_append Un_iff empty_set empty_iff)
  qed (use l n in \<open>auto simp: blooked_up_def\<close>)
qed

lemma basks_about_lookup: "basks_about q l \<Longrightarrow> is_blookup l"
  by (cases l) simp_all

lemma basks_about_concerns:
  "basks_about (bplace_query pr) l \<Longrightarrow> bplace_concerns pr l" "basks_about (bcancel_query cr) l \<Longrightarrow> bcancel_concerns cr l"
  "basks_about (bamend_query ar) l \<Longrightarrow> bamend_concerns ar l"
  by (cases l; auto)+

lemma blooked_up_lookups:
  "blooked_up q lookup looked \<Longrightarrow> \<forall>l \<in> set looked. \<not> \<not> is_blookup l"
  "blooked_up q lookup looked \<Longrightarrow> \<forall>l \<in> set looked. basks_about q l"
  by (auto simp: blooked_up_def intro: basks_about_lookup)

lemma blooked_up_ends:
  "blooked_up q lookup looked \<Longrightarrow> bl_outcome lookup = BinanceFound \<Longrightarrow> looked \<noteq> [] \<and> banswered_found (last looked) = Some (bl_info lookup)"
  "blooked_up q lookup looked \<Longrightarrow> bl_outcome lookup = BinanceAbsent \<Longrightarrow> looked \<noteq> [] \<and> banswered_absent (last looked)"
  "blooked_up q lookup looked \<Longrightarrow> looked \<noteq> [] \<Longrightarrow> basks_about q (last looked)"
  by (simp_all add: blooked_up_def)

text \<open>The lookups after a send.\<close>

lemma binance_lookup_after_send:
  obtains lookup w2 looked where
    "binance_lookup (brecorded api) q policy (lift_clock clk) (w1, calls @ [c]) = (lookup, w2, calls @ c # looked)"
    "blooked_up q lookup looked"
proof -
  obtain lookup w2 calls2 where lk: "binance_lookup (brecorded api) q policy (lift_clock clk) (w1, calls @ [c]) = (lookup, w2, calls2)"
    by (metis prod.collapse)
  from binance_lookup_calls [OF lk] lk show ?thesis using that by auto
qed

lemmas binance_simps = brecorded_def recording_def binance_unresolved_def

interpretation binance_place: guarded_resend "binance_place_attempt (brecorded api) r policy (lift_clock clk)"
    "\<lambda>c. \<not> is_blookup c" "banswered_absent_for (bplace_query r)" "bplace_concerns r" "binance_place_explains r"
  for api :: "'w binance_api" and r policy and clk :: "'w retry_clock"
proof
  fix w :: 'w and calls b res w' calls' b'
  assume a: "binance_place_attempt (brecorded api) r policy (lift_clock clk) ((w, calls), b) = (res, (w', calls'), b')"
  obtain ans w1 where s: "bapi_place api r w = (ans, w1)" by fastforce
  let ?q = "\<lparr>bq_client_order_id = bp_client_order_id r, bq_symbol = bp_symbol r\<rparr>"
  obtain lookup w2 looked where l:
    "binance_lookup (brecorded api) ?q policy (lift_clock clk)
       (w1, calls @ [BPlace r ans]) = (lookup, w2, calls @ BPlace r ans # looked)" "blooked_up ?q lookup looked"
    by (rule binance_lookup_after_send)
  show "\<exists>c looked. calls' = calls @ c # looked \<and> \<not> is_blookup c \<and> (\<forall>l \<in> set looked. \<not> \<not> is_blookup l)
      \<and> (\<forall>x \<in> set (c # looked). bplace_concerns r x)
      \<and> (b' \<longrightarrow> looked \<noteq> [] \<and> banswered_absent_for (bplace_query r) (last looked)) \<and> binance_place_explains r res c looked"
  proof (cases "\<exists>e. ans = Inl e \<and> (code e = ''transport'' \<or> is_duplicate_reject e)")
    case True
    with a s l show ?thesis
      using blooked_up_not_found [OF l(2)] blooked_up_lookups [OF l(2)] blooked_up_ends [OF l(2)] basks_about_concerns
      by (intro exI [of _ "BPlace r ans"] exI [of _ looked])
        (auto simp: binance_place_attempt_def binance_simps banswered_absent_for_def split: if_splits)
  next
    case False
    with a s show ?thesis
      by (intro exI [of _ "BPlace r ans"] exI [of _ "[]"])
        (auto simp: binance_place_attempt_def binance_simps split: sum.splits if_splits)
  qed
qed

text \<open>A cancel is sent again only after a lookup found the order still working.\<close>

definition banswered_working :: "binance_order_query \<Rightarrow> binance_call \<Rightarrow> bool" where
  "banswered_working q c \<longleftrightarrow> basks_about q c
     \<and> (case banswered_found c of Some info \<Rightarrow> still_working (bi_status info) | None \<Rightarrow> False)"

fun binance_cancel_explains :: "binance_cancel_request \<Rightarrow> binance_order_info result \<Rightarrow> binance_call \<Rightarrow> binance_call list \<Rightarrow> bool" where
  "binance_cancel_explains r (Inr info) (BCancel r' answer) looked =
     (r' = r \<and> (\<forall>l \<in> set looked. basks_about \<lparr>bq_client_order_id = bc_client_order_id r, bq_symbol = bc_symbol r\<rparr> l) \<and> (answer = Inr info \<and> looked = []
      \<or> looked \<noteq> [] \<and> banswered_found (last looked) = Some info \<and> bi_status info = ''CANCELED''))"
| "binance_cancel_explains r (Inl e) (BCancel r' answer) looked =
     (r' = r \<and> (\<forall>l \<in> set looked. basks_about \<lparr>bq_client_order_id = bc_client_order_id r, bq_symbol = bc_symbol r\<rparr> l) \<and> (answer = Inl e
       \<or> code e = ''transport'' \<and> (case answer of Inl e0 \<Rightarrow> code e0 = ''transport'' | Inr _ \<Rightarrow> False)
       \<or> code e = ''venue:-2013'' \<and> looked \<noteq> [] \<and> banswered_absent (last looked)
       \<or> code e = ''venue:-2011'' \<and> looked \<noteq> [] \<and> (case banswered_found (last looked) of
            Some info \<Rightarrow> \<not> still_working (bi_status info) | None \<Rightarrow> False))
      \<and> (\<forall>l \<in> set looked. \<forall>info. banswered_found l = Some info \<longrightarrow> bi_status info \<noteq> ''CANCELED''))"
| "binance_cancel_explains _ _ _ _ = False"

lemma blooked_up_found_last:
  assumes "blooked_up q lookup looked" "bl_outcome lookup = BinanceFound" "l \<in> set looked" "banswered_found l = Some info"
  shows "info = bl_info lookup"
proof -
  have "l \<notin> set (butlast looked)" using assms by (auto simp: blooked_up_def)
  then have "l = last looked" using assms(3) by (metis append_butlast_last_id emptyE empty_set in_set_conv_decomp
      rotate1.simps(2) set_ConsD set_append set_rotate1 UnE list.set(1))
  then show ?thesis using blooked_up_ends(1) [OF assms(1,2)] assms(4) by simp
qed

interpretation binance_cancel: guarded_resend "binance_cancel_attempt (brecorded api) r policy (lift_clock clk)"
    "\<lambda>c. \<not> is_blookup c" "banswered_working (bcancel_query r)" "bcancel_concerns r" "binance_cancel_explains r"
  for api :: "'w binance_api" and r policy and clk :: "'w retry_clock"
proof
  fix w :: 'w and calls b res w' calls' b'
  assume a: "binance_cancel_attempt (brecorded api) r policy (lift_clock clk) ((w, calls), b) = (res, (w', calls'), b')"
  obtain ans w1 where s: "bapi_cancel api r w = (ans, w1)" by fastforce
  let ?q = "\<lparr>bq_client_order_id = bc_client_order_id r, bq_symbol = bc_symbol r\<rparr>"
  obtain lookup w2 looked where l:
    "binance_lookup (brecorded api) ?q policy (lift_clock clk)
       (w1, calls @ [BCancel r ans]) = (lookup, w2, calls @ BCancel r ans # looked)" "blooked_up ?q lookup looked"
    by (rule binance_lookup_after_send)
  show "\<exists>c looked. calls' = calls @ c # looked \<and> \<not> is_blookup c \<and> (\<forall>l \<in> set looked. \<not> \<not> is_blookup l)
      \<and> (\<forall>x \<in> set (c # looked). bcancel_concerns r x)
      \<and> (b' \<longrightarrow> looked \<noteq> [] \<and> banswered_working (bcancel_query r) (last looked)) \<and> binance_cancel_explains r res c looked"
  proof (cases "\<exists>e. ans = Inl e \<and> (code e = ''transport'' \<or> code e = ''venue:-2011'')")
    case True
    with a s l show ?thesis
      using blooked_up_not_found [OF l(2)] blooked_up_lookups [OF l(2)] blooked_up_ends [OF l(2)] basks_about_concerns
        blooked_up_found_last [OF l(2)]
      by (intro exI [of _ "BCancel r ans"] exI [of _ looked])
        (cases "bl_outcome lookup"; auto simp: binance_cancel_attempt_def binance_simps banswered_working_def split: if_splits)
  next
    case False
    with a s show ?thesis
      by (intro exI [of _ "BCancel r ans"] exI [of _ "[]"])
        (auto simp: binance_cancel_attempt_def binance_simps split: sum.splits if_splits)
  qed
qed

text \<open>An amend is sent again only after a lookup found the order still working, without the
  requested values.\<close>

definition banswered_unmatched :: "binance_amend_request \<Rightarrow> binance_call \<Rightarrow> bool" where
  "banswered_unmatched r c \<longleftrightarrow> basks_about (bamend_query r) c \<and> (case banswered_found c of
     Some info \<Rightarrow> \<not> binance_matches_request info r \<and> still_working (bi_status info) | None \<Rightarrow> False)"

fun binance_amend_explains :: "binance_amend_request \<Rightarrow> binance_order_ack result \<Rightarrow> binance_call \<Rightarrow> binance_call list \<Rightarrow> bool" where
  "binance_amend_explains r (Inr ack) (BReplace r' answer) looked =
     (r' = r \<and> (\<forall>l \<in> set looked. basks_about \<lparr>bq_client_order_id = ba_client_order_id r, bq_symbol = ba_symbol r\<rparr> l) \<and> ((\<exists>res. answer = Inr res \<and> ack = br_replacement res) \<and> looked = []
      \<or> looked \<noteq> [] \<and> (case banswered_found (last looked) of
            Some info \<Rightarrow> binance_matches_request info r \<and> ack = ack_of_info info | None \<Rightarrow> False)))"
| "binance_amend_explains r (Inl e) (BReplace r' answer) looked =
     (r' = r \<and> (\<forall>l \<in> set looked. basks_about \<lparr>bq_client_order_id = ba_client_order_id r, bq_symbol = ba_symbol r\<rparr> l) \<and> (answer = Inl e
       \<or> code e = ''transport'' \<and> (case answer of Inl e0 \<Rightarrow> code e0 = ''transport'' | Inr _ \<Rightarrow> False)
       \<or> code e = ''venue:-2013'' \<and> looked \<noteq> [] \<and> banswered_absent (last looked)
       \<or> code e = ''venue:-2011'' \<and> looked \<noteq> [] \<and> (case banswered_found (last looked) of
            Some info \<Rightarrow> \<not> still_working (bi_status info) | None \<Rightarrow> False))
      \<and> (\<forall>l \<in> set looked. \<forall>info. banswered_found l = Some info \<longrightarrow> \<not> binance_matches_request info r))"
| "binance_amend_explains _ _ _ _ = False"

interpretation binance_amend: guarded_resend "binance_amend_attempt (brecorded api) r policy (lift_clock clk)"
    "\<lambda>c. \<not> is_blookup c" "banswered_unmatched r" "bamend_concerns r" "binance_amend_explains r"
  for api :: "'w binance_api" and r policy and clk :: "'w retry_clock"
proof
  fix w :: 'w and calls b res w' calls' b'
  assume a: "binance_amend_attempt (brecorded api) r policy (lift_clock clk) ((w, calls), b) = (res, (w', calls'), b')"
  obtain ans w1 where s: "bapi_cancel_replace api r w = (ans, w1)" by fastforce
  let ?q = "\<lparr>bq_client_order_id = ba_client_order_id r, bq_symbol = ba_symbol r\<rparr>"
  obtain lookup w2 looked where l:
    "binance_lookup (brecorded api) ?q policy (lift_clock clk)
       (w1, calls @ [BReplace r ans]) = (lookup, w2, calls @ BReplace r ans # looked)" "blooked_up ?q lookup looked"
    by (rule binance_lookup_after_send)
  show "\<exists>c looked. calls' = calls @ c # looked \<and> \<not> is_blookup c \<and> (\<forall>l \<in> set looked. \<not> \<not> is_blookup l)
      \<and> (\<forall>x \<in> set (c # looked). bamend_concerns r x)
      \<and> (b' \<longrightarrow> looked \<noteq> [] \<and> banswered_unmatched r (last looked)) \<and> binance_amend_explains r res c looked"
  proof (cases "\<exists>e. ans = Inl e \<and> code e = ''transport''")
    case True
    with a s l show ?thesis
      using blooked_up_not_found [OF l(2)] blooked_up_lookups [OF l(2)] blooked_up_ends [OF l(2)] basks_about_concerns
        blooked_up_found_last [OF l(2)]
      by (intro exI [of _ "BReplace r ans"] exI [of _ looked])
        (cases "bl_outcome lookup"; auto simp: binance_amend_attempt_def binance_simps banswered_unmatched_def split: if_splits)
  next
    case False
    with a s show ?thesis
      by (intro exI [of _ "BReplace r ans"] exI [of _ "[]"])
        (auto simp: binance_amend_attempt_def binance_simps split: sum.splits if_splits)
  qed
qed

text \<open>Recording the calls does not influence the engine.\<close>

lemma brecorded_lookup_eq:
  "binance_lookup (brecorded api) q policy (lift_clock clk) (w, calls) = (lookup, w', calls') \<Longrightarrow>
     binance_lookup api q policy clk w = (lookup, w')"
  using binance_lookup_recorded [of api q policy clk "(w, calls)"] by simp

lemma binance_place_recorded:
  "map_prod id (map_prod fst id) (binance_place_attempt (brecorded api) r policy (lift_clock clk) v) = binance_place_attempt api r policy clk (map_prod fst id v)"
proof -
  obtain w calls b where v: "v = ((w, calls), b)" by (metis prod.collapse)
  obtain ans w1 where s: "bapi_place api r w = (ans, w1)" by (rule prod.exhaust)
  obtain lookup w2 calls2 where l: "binance_lookup (brecorded api) \<lparr>bq_client_order_id = bp_client_order_id r, bq_symbol = bp_symbol r\<rparr> policy (lift_clock clk) (w1, calls @ [BPlace r ans])
      = (lookup, w2, calls2)" by (metis prod.exhaust)
  have s': "bapi_place (brecorded api) r (w, calls) = (ans, w1, calls @ [BPlace r ans])" by (simp add: brecorded_def recording_def s)
  show ?thesis
    using s l brecorded_lookup_eq [OF l] by (cases ans) (simp_all add: binance_place_attempt_def v s')
qed

lemma binance_cancel_recorded:
  "map_prod id (map_prod fst id) (binance_cancel_attempt (brecorded api) r policy (lift_clock clk) v) = binance_cancel_attempt api r policy clk (map_prod fst id v)"
proof -
  obtain w calls b where v: "v = ((w, calls), b)" by (metis prod.collapse)
  obtain ans w1 where s: "bapi_cancel api r w = (ans, w1)" by (rule prod.exhaust)
  obtain lookup w2 calls2 where l: "binance_lookup (brecorded api) \<lparr>bq_client_order_id = bc_client_order_id r, bq_symbol = bc_symbol r\<rparr> policy (lift_clock clk) (w1, calls @ [BCancel r ans])
      = (lookup, w2, calls2)" by (metis prod.exhaust)
  have s': "bapi_cancel (brecorded api) r (w, calls) = (ans, w1, calls @ [BCancel r ans])" by (simp add: brecorded_def recording_def s)
  show ?thesis
    using s l brecorded_lookup_eq [OF l] by (cases ans) (simp_all add: binance_cancel_attempt_def v s')
qed

lemma binance_amend_recorded:
  "map_prod id (map_prod fst id) (binance_amend_attempt (brecorded api) r policy (lift_clock clk) v) = binance_amend_attempt api r policy clk (map_prod fst id v)"
proof -
  obtain w calls b where v: "v = ((w, calls), b)" by (metis prod.collapse)
  obtain ans w1 where s: "bapi_cancel_replace api r w = (ans, w1)" by (rule prod.exhaust)
  obtain lookup w2 calls2 where l: "binance_lookup (brecorded api) \<lparr>bq_client_order_id = ba_client_order_id r, bq_symbol = ba_symbol r\<rparr> policy (lift_clock clk) (w1, calls @ [BReplace r ans])
      = (lookup, w2, calls2)" by (metis prod.exhaust)
  have s': "bapi_cancel_replace (brecorded api) r (w, calls) = (ans, w1, calls @ [BReplace r ans])" by (simp add: brecorded_def recording_def s)
  show ?thesis
    using s l brecorded_lookup_eq [OF l] by (cases ans) (simp_all add: binance_amend_attempt_def v s')
qed

lemmas battempts_recorded = binance_place_recorded binance_cancel_recorded binance_amend_recorded

section \<open>The engine over the API\<close>

text \<open>The API as the engine's template argument.\<close>

definition binance_api_of :: "'w raw_call \<Rightarrow> 'w binance_api" where
  "binance_api_of call = \<lparr>bapi_place = api_place call, bapi_cancel = api_cancel call,
     bapi_cancel_replace = api_cancel_replace call, bapi_get_order = api_get_order call\<rparr>"

text \<open>The API reports an order absent exactly when the venue says it does not exist.\<close>

lemma api_get_order_absent_iff:
  "api_get_order call q w = (Inr None, w') \<longleftrightarrow>
     (\<exists>e. call ''order.status'' (build_order_status_params q) w = (Inl e, w') \<and> code e = ''venue:-2013'')"
  by (auto simp: api_get_order_def split: prod.splits sum.splits if_splits)

section \<open>Properties\<close>

text \<open>C5. The Binance engine re-sends only under a licence. In any run, against any API and clock and
  with a policy of at least one attempt, the calls being recorded with their answers: a place after the first is immediately preceded by a
  lookup of that very order that the venue answered with absence; a cancel after the first, by a
  lookup of the very order it is to cancel that found it still working; a cancelReplace after the
  first, by a lookup of its order that found it still working and without the requested values.
  Every send of a run is of its very request, and every lookup asks for the symbol and client
  order id of that request. Each result is explained by the
  last send and its lookups: a success is the venue's own acknowledgement or read off the order
  found, an error is the venue's answer, an unresolved transport failure, or what the lookup
  established.\<close>

theorem binance_resent_only_when_licensed:
  assumes "1 \<le> rp_max_attempts policy"
    and "binance_resilient_place (brecorded api) pr policy (lift_clock clk) (w, []) = (pres, pw, pcalls)"
    and "binance_resilient_cancel (brecorded api) cr policy (lift_clock clk) (w, []) = (cres, cw, ccalls)"
    and "binance_resilient_amend (brecorded api) ar policy (lift_clock clk) (w, []) = (ares, aw, acalls)"
  shows "binance_resilient_place api pr policy clk w = (pres, pw)
    \<and> licensed (\<lambda>c. \<not> is_blookup c) (banswered_absent_for (bplace_query pr)) pcalls \<and> (\<forall>c \<in> set pcalls. bplace_concerns pr c)
    \<and> (\<exists>earlier c looked. pcalls = earlier @ c # looked \<and> binance_place_explains pr pres c looked)
    \<and> binance_resilient_cancel api cr policy clk w = (cres, cw)
    \<and> licensed (\<lambda>c. \<not> is_blookup c) (banswered_working (bcancel_query cr)) ccalls \<and> (\<forall>c \<in> set ccalls. bcancel_concerns cr c)
    \<and> (\<exists>earlier c looked. ccalls = earlier @ c # looked \<and> binance_cancel_explains cr cres c looked)
    \<and> binance_resilient_amend api ar policy clk w = (ares, aw)
    \<and> licensed (\<lambda>c. \<not> is_blookup c) (banswered_unmatched ar) acalls \<and> (\<forall>c \<in> set acalls. bamend_concerns ar c)
    \<and> (\<exists>earlier c looked. acalls = earlier @ c # looked \<and> binance_amend_explains ar ares c looked)"
proof -
  obtain b where prun: "with_retries policy (lift_clock (lift_clock clk)) (binance_place_attempt (brecorded api) pr policy (lift_clock clk))
      (\<lambda>_ s. snd s) ((w, []), False) = (pres, (pw, pcalls), b)"
    using assms(2) by (auto simp: binance_resilient_place_def split: prod.splits)
  obtain b' where crun: "with_retries policy (lift_clock (lift_clock clk)) (binance_cancel_attempt (brecorded api) cr policy (lift_clock clk))
      (\<lambda>_ s. snd s) ((w, []), False) = (cres, (cw, ccalls), b')"
    using assms(3) by (auto simp: binance_resilient_cancel_def split: prod.splits)
  obtain b'' where arun: "with_retries policy (lift_clock (lift_clock clk)) (binance_amend_attempt (brecorded api) ar policy (lift_clock clk))
      (\<lambda>_ s. snd s) ((w, []), False) = (ares, (aw, acalls), b'')"
    using assms(4) by (auto simp: binance_resilient_amend_def split: prod.splits)
  have "binance_resilient_place api pr policy clk w = (pres, pw)" "binance_resilient_cancel api cr policy clk w = (cres, cw)"
    "binance_resilient_amend api ar policy clk w = (ares, aw)"
    using engine_recorded [OF battempts_recorded(1) prun] engine_recorded [OF battempts_recorded(2) crun]
      engine_recorded [OF battempts_recorded(3) arun]
    by (simp_all add: binance_resilient_place_def binance_resilient_cancel_def binance_resilient_amend_def)
  moreover have "binance_place.explained pr pres pcalls" "licensed (\<lambda>c. \<not> is_blookup c) (banswered_absent_for (bplace_query pr)) pcalls"
    "\<forall>c \<in> set pcalls. bplace_concerns pr c"
    "binance_cancel.explained cr cres ccalls" "licensed (\<lambda>c. \<not> is_blookup c) (banswered_working (bcancel_query cr)) ccalls"
    "\<forall>c \<in> set ccalls. bcancel_concerns cr c"
    "binance_amend.explained ar ares acalls" "licensed (\<lambda>c. \<not> is_blookup c) (banswered_unmatched ar) acalls"
    "\<forall>c \<in> set acalls. bamend_concerns ar c"
    using binance_place.run_licensed [OF prun assms(1)] binance_cancel.run_licensed [OF crun assms(1)]
      binance_amend.run_licensed [OF arun assms(1)] by simp_all
  ultimately show ?thesis
    by (auto simp: binance_place.explained_def binance_cancel.explained_def binance_amend.explained_def)
qed

text \<open>A venue whose first answer is lost. It has one order, \<open>c1\<close>, which is working.\<close>

definition demo_binance_order :: json where
  "demo_binance_order = jobject [(''orderId'', JInt 7), (''clientOrderId'', JStr ''c1''), (''symbol'', JStr ''BTCUSDT''),
     (''status'', JStr ''NEW''), (''price'', JStr ''1.00''), (''origQty'', JStr ''2''), (''executedQty'', JStr ''0'')]"

definition demo_binance_venue :: "nat raw_call" where
  "demo_binance_venue meth params w =
     (if w = 0 then Inl (Error ''transport'' ''timeout'')
      else if meth = ''order.status'' then
        (if jfind params ''origClientOrderId'' = Some (JStr ''c1'') then Inr demo_binance_order
         else Inl (Error ''venue:-2013'' ''Order does not exist.''))
      else Inr (jobject [(''cancelResponse'', demo_binance_order), (''newOrderResponse'', demo_binance_order)]), w + 1)"

abbreviation demo_binance_place :: binance_place_request where
  "demo_binance_place \<equiv> \<lparr>bp_client_order_id = ''c2'', bp_symbol = ''BTCUSDT'', bp_side = Buy, bp_type = Market, bp_price = [],
     bp_quantity = ''2'', bp_time_in_force = []\<rparr>"

abbreviation demo_binance_cancel :: binance_cancel_request where
  "demo_binance_cancel \<equiv> \<lparr>bc_client_order_id = ''c1'', bc_symbol = ''BTCUSDT''\<rparr>"

abbreviation demo_binance_amend :: binance_amend_request where
  "demo_binance_amend \<equiv> \<lparr>ba_client_order_id = ''c1'', ba_symbol = ''BTCUSDT'', ba_side = Buy, ba_type = Limit, ba_price = ''1'',
     ba_quantity = ''3'', ba_time_in_force = ''GTC''\<rparr>"

abbreviation demo_binance :: "nat binance_api" where
  "demo_binance \<equiv> binance_api_of demo_binance_venue"

text \<open>Each operation is lost, resolved, sent again and accepted.\<close>

definition sent_twice :: "'a result \<times> nat \<times> binance_call list \<Rightarrow> bool" where
  "sent_twice run = (case run of (res, w, calls) \<Rightarrow> \<not> isl res \<and> w = 3 \<and> map is_blookup calls = [False, True, False])"

theorem binance_resent_only_when_licensed_witness:
  "\<exists>pcalls ccalls acalls.
     sent_twice (binance_resilient_place (brecorded demo_binance) demo_binance_place default_policy (lift_clock demo_retry_clock) (0, []))
     \<and> licensed (\<lambda>c. \<not> is_blookup c) (banswered_absent_for (bplace_query demo_binance_place)) pcalls \<and> length pcalls = 3
     \<and> sent_twice (binance_resilient_cancel (brecorded demo_binance) demo_binance_cancel default_policy (lift_clock demo_retry_clock) (0, []))
     \<and> licensed (\<lambda>c. \<not> is_blookup c) (banswered_working (bcancel_query demo_binance_cancel)) ccalls \<and> length ccalls = 3
     \<and> sent_twice (binance_resilient_amend (brecorded demo_binance) demo_binance_amend default_policy (lift_clock demo_retry_clock) (0, []))
     \<and> licensed (\<lambda>c. \<not> is_blookup c) (banswered_unmatched demo_binance_amend) acalls \<and> length acalls = 3"
proof -
  obtain pres pw pcalls where p: "binance_resilient_place (brecorded demo_binance) demo_binance_place
      default_policy (lift_clock demo_retry_clock) (0, []) = (pres, pw, pcalls)" by (metis prod.exhaust)
  obtain cres cw ccalls where c: "binance_resilient_cancel (brecorded demo_binance) demo_binance_cancel
      default_policy (lift_clock demo_retry_clock) (0, []) = (cres, cw, ccalls)" by (metis prod.exhaust)
  obtain ares aw acalls where a: "binance_resilient_amend (brecorded demo_binance) demo_binance_amend
      default_policy (lift_clock demo_retry_clock) (0, []) = (ares, aw, acalls)" by (metis prod.exhaust)
  have "1 \<le> rp_max_attempts default_policy" by (simp add: default_policy_def)
  note runs = binance_resent_only_when_licensed [OF this p c a]
  have sent: "sent_twice (binance_resilient_place (brecorded demo_binance) demo_binance_place default_policy (lift_clock demo_retry_clock) (0, []))"
    "sent_twice (binance_resilient_cancel (brecorded demo_binance) demo_binance_cancel default_policy (lift_clock demo_retry_clock) (0, []))"
    "sent_twice (binance_resilient_amend (brecorded demo_binance) demo_binance_amend default_policy (lift_clock demo_retry_clock) (0, []))"
    by code_simp+
  have "length calls = 3" if "sent_twice (res, n, calls)" for res :: "'x result" and n calls
    using that by (auto simp: sent_twice_def dest!: arg_cong [of _ _ length])
  then have "length pcalls = 3" "length ccalls = 3" "length acalls = 3" using sent unfolding p c a by blast+
  with runs sent show ?thesis by blast
qed

text \<open>A duplicate rejection whose lookup stays inconclusive is returned as the definitive rejection
  it may not be: the order the venue calls a duplicate can be live.\<close>

lemma binance_duplicate_unresolved_rejects:
  assumes "bapi_place api r w = (Inl e, w1)" "is_duplicate_reject e"
    and "binance_lookup api \<lparr>bq_client_order_id = bp_client_order_id r, bq_symbol = bp_symbol r\<rparr> policy clk w1 = (lookup, w2)"
    and "bl_outcome lookup = BinanceInconclusive"
  shows "binance_place_attempt api r policy clk (w, b) = (Inl e, w2, False)"
  using assms by (simp add: binance_place_attempt_def)

end
