(* ===== verification/Binance_Connector.thy ===== *)
theory Binance_Connector
  imports Binance_Resilient Venue_Contract
begin

text \<open>
  The Binance connector and its configuration, \<^verbatim>\<open>src/exchange/binance/binance_connector.cpp\<close> and
  \<^verbatim>\<open>binance_config.cpp\<close>. The connector owns a symbol translator, which its operations thread
  beside the surroundings \<^typ>\<open>'w\<close>.
\<close>

section \<open>Configuration\<close>

record binance_config =
  bn_api_key :: string
  bn_secret_key :: string
  bn_host :: string
  bn_port :: int
  bn_use_tls :: bool
  bn_path :: string
  bn_recv_window_ms :: int
  bn_request_timeout_ms :: int
  bn_ws_ping_interval_s :: int
  bn_ws_max_missed_pongs :: int
  bn_retry :: retry_policy

definition default_binance :: binance_config where
  "default_binance = \<lparr>bn_api_key = [], bn_secret_key = [], bn_host = ''ws-api.testnet.binance.vision'', bn_port = 443,
     bn_use_tls = True, bn_path = ''/ws-api/v3'', bn_recv_window_ms = 5000, bn_request_timeout_ms = 12000,
     bn_ws_ping_interval_s = 20, bn_ws_max_missed_pongs = 2, bn_retry = default_policy\<rparr>"

text \<open>Each member is read into its field or adds to the list of problems.\<close>

definition read_string :: "json \<Rightarrow> string \<Rightarrow> string \<Rightarrow> bool \<Rightarrow> string \<times> string list" where
  "read_string node nm target required =
     (case jfind node nm of
        None \<Rightarrow> (target, if required then [''missing '' @ nm] else [])
      | Some JNull \<Rightarrow> (target, if required then [''missing '' @ nm] else [])
      | Some (JStr s) \<Rightarrow> (s, [])
      | Some _ \<Rightarrow> (target, [nm @ '' must be a string'']))"

definition read_integer :: "json \<Rightarrow> string \<Rightarrow> int \<Rightarrow> (int \<Rightarrow> bool) \<Rightarrow> string \<Rightarrow> int \<times> string list" where
  "read_integer node nm target in_range problem =
     (case jfind node nm of
        None \<Rightarrow> (target, [])
      | Some JNull \<Rightarrow> (target, [])
      | Some j \<Rightarrow> (case as_long j of
          None \<Rightarrow> (target, [problem])
        | Some v \<Rightarrow> if in_range v then (v, []) else (target, [problem])))"

definition read_boolean :: "json \<Rightarrow> string \<Rightarrow> bool \<Rightarrow> string \<Rightarrow> bool \<times> string list" where
  "read_boolean node nm target problem =
     (case jfind node nm of
        None \<Rightarrow> (target, [])
      | Some JNull \<Rightarrow> (target, [])
      | Some (JBool b) \<Rightarrow> (b, [])
      | Some _ \<Rightarrow> (target, [problem]))"

definition binance_retry_section :: "json \<Rightarrow> retry_policy \<Rightarrow> retry_policy result" where
  "binance_retry_section node dflt =
     (case jfind node ''retry'' of None \<Rightarrow> Inr dflt | Some JNull \<Rightarrow> Inr dflt | Some j \<Rightarrow> retry_policy_from_json j dflt)"

definition problems_message :: "string list \<Rightarrow> string" where
  "problems_message problems = ''invalid binance config:'' @ concat (map (\<lambda>p. '' '' @ p @ '';'') problems)"

definition binance_config_from_json :: "json \<Rightarrow> binance_config result" where
  "binance_config_from_json node =
     (if \<not> is_object node then Inl (Error ''protocol'' ''binance section must be a JSON object'')
      else
        let d = default_binance;
            (api_key, p1) = read_string node ''apiKey'' (bn_api_key d) True;
            (secret_key, p2) = read_string node ''secretKey'' (bn_secret_key d) True;
            (host, p3) = read_string node ''host'' (bn_host d) False;
            (path, p4) = read_string node ''path'' (bn_path d) False;
            (port, p5) = read_integer node ''port'' (bn_port d) (\<lambda>v. 1 \<le> v \<and> v \<le> 65535) ''port must be an integer in [1, 65535]'';
            (use_tls, p6) = read_boolean node ''useTls'' (bn_use_tls d) ''useTls must be a boolean'';
            (window, p7) = read_integer node ''recvWindowMs'' (bn_recv_window_ms d) (\<lambda>v. 0 \<le> v \<and> v \<le> 60000)
              ''recvWindowMs must be an integer in [0, 60000]'';
            (timeout, p8) = read_integer node ''requestTimeoutMs'' (bn_request_timeout_ms d) (\<lambda>v. 0 < v)
              ''requestTimeoutMs must be a positive integer'';
            (interval, p9) = read_integer node ''wsPingIntervalSec'' (bn_ws_ping_interval_s d) (\<lambda>v. 1 \<le> v \<and> v \<le> 300)
              ''wsPingIntervalSec must be an integer in [1, 300]'';
            (missed, p10) = read_integer node ''wsMaxMissedPongs'' (bn_ws_max_missed_pongs d) (\<lambda>v. 1 \<le> v \<and> v \<le> 100)
              ''wsMaxMissedPongs must be an integer in [1, 100]''
        in case binance_retry_section node (bn_retry d) of
             Inl e \<Rightarrow> Inl e
           | Inr retry \<Rightarrow>
               let problems = concat [p1, p2, p3, p4, p5, p6, p7, p8, p9, p10]
               in if problems \<noteq> [] then Inl (Error ''protocol'' (problems_message problems))
                  else Inr \<lparr>bn_api_key = api_key, bn_secret_key = secret_key, bn_host = host, bn_port = port,
                     bn_use_tls = use_tls, bn_path = path, bn_recv_window_ms = window, bn_request_timeout_ms = timeout,
                     bn_ws_ping_interval_s = interval, bn_ws_max_missed_pongs = missed, bn_retry = retry\<rparr>)"

section \<open>The connector\<close>

definition binance_to_snapshot :: "binance_order_info \<Rightarrow> symbol_translator \<Rightarrow> order_snapshot result \<times> symbol_translator" where
  "binance_to_snapshot info st =
     (case map_binance_state (bi_status info) of
        None \<Rightarrow> (Inl (Error ''protocol'' (''unknown Binance order status: '' @ bi_status info)), st)
      | Some state \<Rightarrow> (case map_binance_side (bi_side info) of
        None \<Rightarrow> (Inl (Error ''protocol'' (''unknown Binance order side: '' @ bi_side info)), st)
      | Some sd \<Rightarrow> (case map_binance_type (bi_type info) of
        None \<Rightarrow> (Inl (Error ''protocol'' (''unknown Binance order type: '' @ bi_type info)), st)
      | Some ty \<Rightarrow>
          (case symbol_to_gateway (bi_symbol info) st of (instrument, st') \<Rightarrow>
             (Inr \<lparr>sn_client_order_id = bi_client_order_id info, sn_exchange_order_id = bi_order_id info,
                sn_instrument_id = instrument, sn_state = state, sn_side = sd, sn_type = ty,
                sn_price = bi_price info, sn_quantity = bi_orig_qty info, sn_filled_quantity = bi_executed_qty info,
                sn_average_fill_price = []\<rparr>, st')))))"

definition placement_from :: "binance_order_ack \<Rightarrow> order_placement result" where
  "placement_from ack =
     (if bk_order_id ack = [] then Inl (Error ''protocol'' ''venue ack without orderId'')
      else Inr \<lparr>pl_client_order_id = bk_client_order_id ack, pl_exchange_order_id = bk_order_id ack\<rparr>)"

definition tif_or_gtc :: "string \<Rightarrow> string" where
  "tif_or_gtc tif = (if tif = [] then ''GTC'' else tif)"

definition binance_place_wire :: "order_request \<Rightarrow> string \<Rightarrow> binance_place_request" where
  "binance_place_wire r wire_symbol =
     \<lparr>bp_client_order_id = rq_client_order_id r, bp_symbol = wire_symbol, bp_side = rq_side r, bp_type = rq_type r,
      bp_price = rq_price r, bp_quantity = rq_quantity r, bp_time_in_force = tif_or_gtc (rq_time_in_force r)\<rparr>"

definition binance_place_order :: "'w binance_api \<Rightarrow> retry_policy \<Rightarrow> 'w retry_clock \<Rightarrow> order_request
    \<Rightarrow> 'w \<times> symbol_translator \<Rightarrow> order_placement result \<times> 'w \<times> symbol_translator" where
  "binance_place_order api policy clk r = (\<lambda>(w, st).
     case symbol_to_wire (rq_instrument_id r) st of (wire_symbol, st1) \<Rightarrow>
     (case binance_resilient_place api (binance_place_wire r wire_symbol) policy clk w of
        (Inl e, w1) \<Rightarrow> (Inl e, w1, st1)
      | (Inr ack, w1) \<Rightarrow> (placement_from ack, w1, st1)))"

definition binance_cancel_order :: "'w binance_api \<Rightarrow> retry_policy \<Rightarrow> 'w retry_clock \<Rightarrow> cancel_request
    \<Rightarrow> 'w \<times> symbol_translator \<Rightarrow> order_placement result \<times> 'w \<times> symbol_translator" where
  "binance_cancel_order api policy clk r = (\<lambda>(w, st).
     case symbol_to_wire (cx_instrument_id r) st of (wire_symbol, st1) \<Rightarrow>
     (case binance_resilient_cancel api \<lparr>bc_client_order_id = cx_client_order_id r, bc_symbol = wire_symbol\<rparr> policy clk w of
        (Inl e, w1) \<Rightarrow> (Inl e, w1, st1)
      | (Inr info, w1) \<Rightarrow> (placement_from (ack_of_info info), w1, st1)))"

definition binance_amend_order :: "'w binance_api \<Rightarrow> retry_policy \<Rightarrow> 'w retry_clock \<Rightarrow> amend_request
    \<Rightarrow> 'w \<times> symbol_translator \<Rightarrow> order_placement result \<times> 'w \<times> symbol_translator" where
  "binance_amend_order api policy clk r = (\<lambda>(w, st).
     case (am_new_price r, am_new_quantity r, am_side r, am_type r) of
       (Some price, Some quantity, Some sd, Some ty) \<Rightarrow>
         (case symbol_to_wire (am_instrument_id r) st of (wire_symbol, st1) \<Rightarrow>
          (case binance_resilient_amend api
             \<lparr>ba_client_order_id = am_client_order_id r, ba_symbol = wire_symbol, ba_side = sd, ba_type = ty, ba_price = price,
              ba_quantity = quantity, ba_time_in_force = tif_or_gtc (am_time_in_force r)\<rparr> policy clk w of
             (Inl e, w1) \<Rightarrow> (Inl e, w1, st1)
           | (Inr ack, w1) \<Rightarrow> (placement_from ack, w1, st1)))
     | _ \<Rightarrow> (Inl (Error ''protocol'' (''Binance amend (cancelReplace) needs the full replacement: price, '' @
               ''quantity, side and type of the resulting order'')), w, st))"

definition binance_get_order_attempt :: "'w binance_api \<Rightarrow> binance_order_query \<Rightarrow> 'w \<times> symbol_translator
    \<Rightarrow> order_snapshot option result \<times> 'w \<times> symbol_translator" where
  "binance_get_order_attempt api wire = (\<lambda>(w, st).
     case bapi_get_order api wire w of
       (Inl e, w1) \<Rightarrow> (Inl e, w1, st)
     | (Inr None, w1) \<Rightarrow> (Inr None, w1, st)
     | (Inr (Some info), w1) \<Rightarrow> (case binance_to_snapshot info st of
         (Inl e, st1) \<Rightarrow> (Inl e, w1, st1)
       | (Inr sn, st1) \<Rightarrow> (Inr (Some sn), w1, st1)))"

definition binance_get_order :: "'w binance_api \<Rightarrow> retry_policy \<Rightarrow> 'w retry_clock \<Rightarrow> order_query
    \<Rightarrow> 'w \<times> symbol_translator \<Rightarrow> order_snapshot option result \<times> 'w \<times> symbol_translator" where
  "binance_get_order api policy clk q = (\<lambda>(w, st).
     case symbol_to_wire (oq_instrument_id q) st of (wire_symbol, st1) \<Rightarrow>
       with_retries policy (lift_clock clk)
         (binance_get_order_attempt api \<lparr>bq_client_order_id = oq_client_order_id q, bq_symbol = wire_symbol\<rparr>)
         (\<lambda>e _. code e = ''transport'') (w, st1))"

text \<open>The loop over the open orders: what cannot be normalized is left out.\<close>

fun binance_snapshots :: "binance_order_info list \<Rightarrow> symbol_translator \<Rightarrow> order_snapshot list \<times> symbol_translator" where
  "binance_snapshots [] st = ([], st)"
| "binance_snapshots (info # infos) st =
     (case binance_to_snapshot info st of
        (Inl _, st1) \<Rightarrow> binance_snapshots infos st1
      | (Inr sn, st1) \<Rightarrow> (case binance_snapshots infos st1 of (sns, st2) \<Rightarrow> (sn # sns, st2)))"

definition binance_get_open_orders :: "'w raw_call \<Rightarrow> retry_policy \<Rightarrow> 'w retry_clock \<Rightarrow> 'w \<times> symbol_translator
    \<Rightarrow> order_snapshot list result \<times> 'w \<times> symbol_translator" where
  "binance_get_open_orders call policy clk = (\<lambda>(w, st).
     case with_retries policy clk (api_get_open_orders call) (\<lambda>e _. code e = ''transport'') w of
       (Inl e, w1) \<Rightarrow> (Inl e, w1, st)
     | (Inr infos, w1) \<Rightarrow> (case binance_snapshots infos st of (sns, st1) \<Rightarrow> (Inr sns, w1, st1)))"

definition binance_get_price :: "'w raw_call option \<Rightarrow> retry_policy \<Rightarrow> 'w retry_clock \<Rightarrow> string \<Rightarrow> 'w \<times> symbol_translator
    \<Rightarrow> string result \<times> 'w \<times> symbol_translator" where
  "binance_get_price public_call policy clk instrument = (\<lambda>(w, st).
     case symbol_to_wire instrument st of (wire_symbol, st1) \<Rightarrow>
     (case with_retries policy clk (api_get_price public_call wire_symbol) (\<lambda>e _. code e = ''transport'') w of
        (res, w1) \<Rightarrow> (res, w1, st1)))"

text \<open>What the connector tells its connectivity handler about an event of the feed: \<open>Some b\<close> is a
  call of the handler.\<close>

datatype binance_feed_event = BfConnecting string | BfConnected string | BfDisconnected string | BfStopped string | BfProtocolWarning string

definition connectivity_of_event :: "binance_feed_event \<Rightarrow> bool option" where
  "connectivity_of_event ev =
     (case ev of
        BfConnected _ \<Rightarrow> Some True
      | BfDisconnected _ \<Rightarrow> Some False
      | BfStopped _ \<Rightarrow> Some False
      | BfConnecting _ \<Rightarrow> None
      | BfProtocolWarning _ \<Rightarrow> None)"

section \<open>The contract with the core\<close>

text \<open>The request and the query the connector makes of an order: the translator only remembers, the
  wire symbol does not depend on it.\<close>

definition binance_wire_request :: "order_request \<Rightarrow> binance_place_request" where
  "binance_wire_request r = binance_place_wire r (strip_dashes (rq_instrument_id r))"

definition binance_wire_query :: "order_request \<Rightarrow> binance_order_query" where
  "binance_wire_query r = \<lparr>bq_client_order_id = rq_client_order_id r, bq_symbol = strip_dashes (rq_instrument_id r)\<rparr>"

text \<open>What the venue's answers to a place say of the order. The send that counts is the last: the calls
  after it are lookups of this very order.\<close>

definition binance_last_send :: "order_request \<Rightarrow> binance_order_ack result \<Rightarrow> binance_call list \<Rightarrow> binance_call list \<Rightarrow> bool" where
  "binance_last_send r answer looked calls \<longleftrightarrow> (\<exists>earlier. calls = earlier @ BPlace (binance_wire_request r) answer # looked)
     \<and> (\<forall>l \<in> set looked. basks_about (binance_wire_query r) l)"

definition binance_refused :: "order_request \<Rightarrow> error \<Rightarrow> binance_call list \<Rightarrow> bool" where
  "binance_refused r e calls \<longleftrightarrow> (\<exists>looked. binance_last_send r (Inl e) looked calls \<and> venue_code e
     \<and> (is_duplicate_reject e \<longrightarrow> looked \<noteq> [] \<and> banswered_absent (last looked)))"

definition binance_silent :: "order_request \<Rightarrow> binance_call list \<Rightarrow> bool" where
  "binance_silent r calls \<longleftrightarrow> (\<exists>e looked. binance_last_send r (Inl e) looked calls \<and> code e = ''transport''
     \<and> (\<forall>l \<in> set looked. banswered_found l = None))"

definition binance_confirmed :: "order_request \<Rightarrow> string \<Rightarrow> binance_call list \<Rightarrow> bool" where
  "binance_confirmed r x calls \<longleftrightarrow> x \<noteq> [] \<and> (\<exists>answer looked. binance_last_send r answer looked calls \<and>
     ((\<exists>ack. answer = Inr ack \<and> bk_order_id ack = x)
      \<or> looked \<noteq> [] \<and> map_option bi_order_id (banswered_found (last looked)) = Some x))"

text \<open>The answers are in order: an error of a place is a transport failure or carries a venue code (an
  error of the parameters or of the answer's form does not); an acknowledgement and an order that is
  found carry an order id; the lookup after a rejection that may mean a duplicate is conclusive.\<close>

fun binance_answer_ok :: "binance_call \<Rightarrow> bool" where
  "binance_answer_ok (BPlace _ (Inl e)) = (code e = ''transport'' \<or> venue_code e)"
| "binance_answer_ok (BPlace _ (Inr ack)) = (bk_order_id ack \<noteq> [])"
| "binance_answer_ok (BLookup _ (Inr (Some info))) = (bi_order_id info \<noteq> [])"
| "binance_answer_ok _ = True"

fun binance_duplicate :: "binance_call \<Rightarrow> bool" where
  "binance_duplicate (BPlace _ (Inl e)) = (code e \<noteq> ''transport'' \<and> is_duplicate_reject e)"
| "binance_duplicate _ = False"

definition binance_orderly :: "binance_call list \<Rightarrow> bool" where
  "binance_orderly calls \<longleftrightarrow> (\<forall>c \<in> set calls. binance_answer_ok c)
     \<and> ((\<exists>c \<in> set calls. binance_duplicate c) \<longrightarrow> banswered_absent (last calls) \<or> banswered_found (last calls) \<noteq> None)"

definition binance_submit :: "'w binance_api \<Rightarrow> retry_policy \<Rightarrow> 'w retry_clock \<Rightarrow> order_request \<Rightarrow> 'w \<times> symbol_translator
    \<Rightarrow> order_placement result \<times> ('w \<times> symbol_translator) \<times> binance_call list" where
  "binance_submit api policy clk r v =
     (case binance_place_order (brecorded api) policy (lift_clock clk) r ((fst v, []), snd v) of
        (res, (w, calls), st) \<Rightarrow> (res, (w, st), calls))"

lemma binance_place_calls:
  assumes "1 \<le> rp_max_attempts policy"
    and "binance_resilient_place (brecorded api) r policy (lift_clock clk) (w, []) = (res, w', calls)"
  shows "\<exists>earlier c looked. calls = earlier @ c # looked \<and> binance_place_explains r res c looked"
proof -
  obtain b where "with_retries policy (lift_clock (lift_clock clk)) (binance_place_attempt (brecorded api) r policy (lift_clock clk))
      (\<lambda>_ s. snd s) ((w, []), False) = (res, (w', calls), b)"
    using assms(2) by (auto simp: binance_resilient_place_def split: prod.splits)
  from binance_place.run_licensed(2) [OF this assms(1)] show ?thesis by (auto simp: binance_place.explained_def)
qed

lemma binance_wire_query: "bplace_query (binance_wire_request r) = binance_wire_query r"
  by (simp add: binance_wire_request_def binance_wire_query_def binance_place_wire_def)

lemma binance_explains_settles:
  assumes "binance_place_explains (binance_wire_request r) res c looked" "calls = earlier @ c # looked" "binance_orderly calls"
  shows "res = Inl e \<Longrightarrow> code e \<noteq> ''transport'' \<Longrightarrow> binance_refused r e calls"
    "res = Inl e \<Longrightarrow> code e = ''transport'' \<Longrightarrow> binance_silent r calls"
    "res = Inr ack \<Longrightarrow> \<exists>p. placement_from ack = Inr p \<and> binance_confirmed r (pl_exchange_order_id p) calls"
proof -
  obtain answer where c: "c = BPlace (binance_wire_request r) answer"
    using assms(1) by (cases "(binance_wire_request r, res, c, looked)" rule: binance_place_explains.cases) auto
  have asked: "\<forall>l \<in> set looked. basks_about (binance_wire_query r) l"
    using assms(1) c unfolding binance_wire_query [symmetric] by (cases res) auto
  then have send: "binance_last_send r answer looked calls" using assms(2) c by (auto simp: binance_last_send_def)
  have ok: "binance_answer_ok c" "\<forall>l \<in> set looked. binance_answer_ok l" using assms(2,3) by (simp_all add: binance_orderly_def)
  have resolved: "looked \<noteq> [] \<and> banswered_absent (last looked)"
    if "binance_duplicate c" "\<forall>l \<in> set looked. banswered_found l = None"
  proof -
    have "banswered_absent (last calls) \<or> banswered_found (last calls) \<noteq> None"
      using assms(2,3) that(1) by (auto simp: binance_orderly_def)
    moreover have "banswered_found c = None" "\<not> banswered_absent c" by (simp_all add: c)
    ultimately show ?thesis using assms(2) that(2) by (cases "looked = []") auto
  qed
  show "binance_refused r e calls" if "res = Inl e" "code e \<noteq> ''transport''"
  proof -
    have a: "answer = Inl e" "\<forall>l \<in> set looked. banswered_found l = None" using assms(1) c that by auto
    then show ?thesis unfolding binance_refused_def using send ok(1) resolved c that(2) by (intro exI [of _ looked]) auto
  qed
  show "binance_silent r calls" if "res = Inl e" "code e = ''transport''"
    using assms(1) c that send by (cases answer) (auto simp: binance_silent_def)
  have source: "answer = Inr ack \<and> looked = [] \<or> looked \<noteq> [] \<and> map_option ack_of_info (banswered_found (last looked)) = Some ack"
    if "res = Inr ack" using assms(1) c that by auto
  show "\<exists>p. placement_from ack = Inr p \<and> binance_confirmed r (pl_exchange_order_id p) calls" if "res = Inr ack"
  proof -
    have "bi_order_id info \<noteq> []" if "looked \<noteq> []" "banswered_found (last looked) = Some info" for info
      using that ok(2) last_in_set [OF that(1)] by (cases "last looked" rule: banswered_found.cases) force+
    then have id: "bk_order_id ack \<noteq> []" using source [OF that] ok(1) c by (auto simp: ack_of_info_def)
    have "(\<exists>a. answer = Inr a \<and> bk_order_id a = bk_order_id ack)
        \<or> looked \<noteq> [] \<and> map_option bi_order_id (banswered_found (last looked)) = Some (bk_order_id ack)"
      using source [OF that] by (auto simp: ack_of_info_def)
    with send id have "binance_confirmed r (bk_order_id ack) calls" unfolding binance_confirmed_def by blast
    with id show ?thesis by (simp add: placement_from_def)
  qed
qed

lemma binance_resilient_place_recorded:
  assumes "binance_resilient_place (brecorded api) r policy (lift_clock clk) (w, []) = (res, w', calls)"
  shows "binance_resilient_place api r policy clk w = (res, w')"
proof -
  obtain b where run: "with_retries policy (lift_clock (lift_clock clk)) (binance_place_attempt (brecorded api) r policy (lift_clock clk))
      (\<lambda>_ s. snd s) ((w, []), False) = (res, (w', calls), b)"
    using assms by (auto simp: binance_resilient_place_def split: prod.splits)
  show ?thesis using engine_recorded [OF battempts_recorded(1) run] by (simp add: binance_resilient_place_def)
qed

lemma binance_submit_recorded:
  assumes "binance_submit api policy clk r v = (res, v', calls)"
  shows "binance_place_order api policy clk r v = (res, v')"
  using assms
  by (auto simp: binance_submit_def binance_place_order_def symbol_to_wire_def
      dest: binance_resilient_place_recorded split: prod.splits sum.splits)

interpretation binance_venue: venue_placing "binance_submit api policy clk" "1 \<le> rp_max_attempts policy"
    "\<lambda>_. binance_orderly" binance_silent binance_refused binance_confirmed
  for api :: "'w binance_api" and policy and clk :: "'w retry_clock"
proof
  fix r and v v' :: "'w \<times> symbol_translator" and calls e p
  assume max: "1 \<le> rp_max_attempts policy"
  obtain res w' calls' where run: "binance_resilient_place (brecorded api) (binance_wire_request r) policy (lift_clock clk) (fst v, []) = (res, w', calls')"
    by (metis prod.exhaust)
  from binance_place_calls [OF max run] obtain earlier c looked where
    e: "binance_place_explains (binance_wire_request r) res c looked" "calls' = earlier @ c # looked" by blast
  note settles = binance_explains_settles [OF e]
  note submit = binance_submit_def binance_place_order_def symbol_to_wire_def run [unfolded binance_wire_request_def]
  assume o: "binance_orderly calls"
  show "binance_refused r e calls" if "binance_submit api policy clk r v = (Inl e, v', calls)" "code e \<noteq> ''transport''"
    using o that settles(1,3) by (auto simp: submit split: sum.splits prod.splits)
  show "binance_silent r calls" if "binance_submit api policy clk r v = (Inl e, v', calls)" "code e = ''transport''"
    using o that settles(2,3) by (auto simp: submit split: sum.splits prod.splits)
  show "binance_confirmed r (pl_exchange_order_id p) calls" if "binance_submit api policy clk r v = (Inr p, v', calls)"
    using o that settles(3) by (auto simp: submit split: sum.splits prod.splits)
qed

end
