(* ===== verification/Binance_Signer.thy ===== *)
theory Binance_Signer
  imports Json "HOL-Library.Word" "HOL-Library.Sublist"
begin

unbundle bit_operations_syntax

text \<open>
  The signature of Binance requests, \<^verbatim>\<open>src/exchange/binance/binance_signer.cpp\<close>: the canonical
  query string of the parameters and its keyed hash in hexadecimal. The hash function itself
  (\<open>HMAC\<close> with \<open>EVP_sha256\<close> of OpenSSL) is an argument, from the secret and the payload to the
  bytes it wrote, or \<open>None\<close> where it returns a null pointer.
\<close>

type_synonym hmac = "string \<Rightarrow> string \<Rightarrow> 8 word list option"

definition kSha256Len :: nat where "kSha256Len = 32"

definition hex_lower :: "8 word \<Rightarrow> char" where
  "hex_lower d = ''0123456789abcdef'' ! unat d"

definition hex_encode :: "8 word list \<Rightarrow> string" where
  "hex_encode data = concat (map (\<lambda>b. [hex_lower (drop_bit 4 b), hex_lower (b AND 0x0F)]) data)"

definition value_text :: "json \<Rightarrow> string" where
  "value_text v =
     (case v of
        JStr s \<Rightarrow> s
      | JBool b \<Rightarrow> if b then ''true'' else ''false''
      | _ \<Rightarrow> (case as_long v of Some n \<Rightarrow> int_to_string n | None \<Rightarrow> []))"

text \<open>The two loops of \<open>signature_payload\<close>: the pairs go through a \<open>std::map\<close>, then its entries are
  joined.\<close>

fun set_param :: "(string \<times> string) list \<Rightarrow> string \<Rightarrow> string \<Rightarrow> (string \<times> string) list" where
  "set_param [] k v = [(k, v)]"
| "set_param ((k', v') # kvs) k v =
     (if k = k' then (k, v) # kvs
      else if k < k' then (k, v) # (k', v') # kvs
      else (k', v') # set_param kvs k v)"

definition sorted_params :: "json \<Rightarrow> (string \<times> string) list" where
  "sorted_params params =
     foldl (\<lambda>acc kv. if fst kv = ''signature'' then acc else set_param acc (fst kv) (value_text (snd kv))) []
       (members params)"

definition add_pair :: "string \<Rightarrow> string \<times> string \<Rightarrow> string" where
  "add_pair payload kv = (if payload = [] then [] else payload @ ''&'') @ fst kv @ ''='' @ snd kv"

definition signature_payload :: "json \<Rightarrow> string" where
  "signature_payload params = foldl add_pair [] (sorted_params params)"

definition sign_params :: "hmac \<Rightarrow> json \<Rightarrow> string \<Rightarrow> string" where
  "sign_params mac params secret =
     (case mac secret (signature_payload params) of
        None \<Rightarrow> []
      | Some bytes \<Rightarrow> if length bytes \<noteq> kSha256Len then [] else hex_encode bytes)"

section \<open>The canonical payload\<close>

text \<open>What the payload is meant to be: the parameters without the signature, in the order of their
  names, joined.\<close>

definition pair_text :: "string \<times> json \<Rightarrow> string" where
  "pair_text kv = fst kv @ ''='' @ value_text (snd kv)"

fun join_amp :: "string list \<Rightarrow> string" where
  "join_amp [] = []"
| "join_amp [s] = s"
| "join_amp (s # ss) = s @ ''&'' @ join_amp ss"

lemma set_param_last:
  assumes "\<forall>k' \<in> set (map fst kvs). k' < k"
  shows "set_param kvs k v = kvs @ [(k, v)]"
  using assms by (induction kvs k v rule: set_param.induct) auto

lemma sorted_params_keyed:
  assumes "keyed (members p)"
  shows "sorted_params p = map (\<lambda>kv. (fst kv, value_text (snd kv))) (filter (\<lambda>kv. fst kv \<noteq> ''signature'') (members p))"
proof -
  have "foldl (\<lambda>acc kv. if fst kv = ''signature'' then acc else set_param acc (fst kv) (value_text (snd kv))) [] kvs
      = map (\<lambda>kv. (fst kv, value_text (snd kv))) (filter (\<lambda>kv. fst kv \<noteq> ''signature'') kvs)"
    if "keyed kvs" for kvs :: "(string \<times> json) list"
    using that
  proof (induction kvs rule: rev_induct)
    case (snoc kv kvs)
    have "keyed kvs" "\<forall>k' \<in> set (map fst kvs). k' < fst kv"
      using snoc.prems by (auto simp: keyed_def sorted_append less_le image_iff)
    then show ?case using snoc.IH by (auto intro!: set_param_last)
  qed simp
  from this [OF assms] show ?thesis by (simp add: sorted_params_def)
qed

lemma foldl_add_pair:
  assumes "acc \<noteq> []"
  shows "foldl add_pair acc kvs = join_amp (acc # map (\<lambda>kv. fst kv @ ''='' @ snd kv) kvs)"
  using assms
proof (induction kvs arbitrary: acc)
  case (Cons kv kvs)
  have "join_amp ((acc @ ''&'' @ s) # ss) = acc @ ''&'' @ join_amp (s # ss)" for s ss by (cases ss) auto
  then show ?case using Cons by (simp add: add_pair_def)
qed simp

lemma signature_payload_canonical:
  assumes "keyed (members p)"
  shows "signature_payload p = join_amp (map pair_text (filter (\<lambda>kv. fst kv \<noteq> ''signature'') (members p)))"
proof -
  have "foldl add_pair [] kvs = join_amp (map (\<lambda>kv. fst kv @ ''='' @ snd kv) kvs)" for kvs
    by (cases kvs) (auto simp: foldl_add_pair add_pair_def)
  moreover have "pair_text = (\<lambda>kv. fst kv @ ''='' @ value_text (snd kv))" by (simp add: fun_eq_iff pair_text_def)
  ultimately show ?thesis by (simp add: signature_payload_def sorted_params_keyed [OF assms] comp_def)
qed

text \<open>The signature of a request never depends on the signature it already carries.\<close>

lemma filter_jset_members:
  "filter (\<lambda>kv. fst kv \<noteq> k) (jset_members kvs k v) = filter (\<lambda>kv. fst kv \<noteq> k) kvs"
  by (induction kvs k v rule: jset_members.induct) auto

lemma sorted_params_filter:
  "sorted_params p = sorted_params (JObj (filter (\<lambda>kv. fst kv \<noteq> ''signature'') (members p)))"
proof -
  have "foldl (\<lambda>acc kv. if fst kv = ''signature'' then acc else set_param acc (fst kv) (value_text (snd kv))) acc kvs
    = foldl (\<lambda>acc kv. if fst kv = ''signature'' then acc else set_param acc (fst kv) (value_text (snd kv))) acc
        (filter (\<lambda>kv. fst kv \<noteq> ''signature'') kvs)" for acc and kvs :: "(string \<times> json) list"
    by (induction kvs arbitrary: acc) auto
  then show ?thesis by (simp add: sorted_params_def)
qed

lemma signature_payload_ignores_signature:
  "signature_payload (jset p ''signature'' v) = signature_payload p"
  "signature_payload (jerase p ''signature'') = signature_payload p"
  using sorted_params_filter [of "jset p ''signature'' v"] sorted_params_filter [of p]
  by (simp_all add: signature_payload_def jset_def jerase_def filter_jset_members)

section \<open>Hexadecimal text\<close>

definition hex_digit_value :: "char \<Rightarrow> 8 word" where
  "hex_digit_value c = of_nat (if is_digit_char c then ascii c - 48 else ascii c - 87)"

fun hex_decode :: "string \<Rightarrow> 8 word list" where
  "hex_decode (a # b # cs) = (push_bit 4 (hex_digit_value a) OR hex_digit_value b) # hex_decode cs"
| "hex_decode _ = []"

lemma hex_lower_value:
  assumes "d < (16 :: 8 word)"
  shows "hex_digit_value (hex_lower d) = d"
proof -
  define n where "n = unat d"
  have "n < 16" using assms by (simp add: n_def word_less_nat_alt)
  then have "n \<in> {0,1,2,3,4,5,6,7,8,9,10,11,12,13,14,15}" by (simp, presburger)
  then have "hex_digit_value (''0123456789abcdef'' ! n) = of_nat n"
    by (auto simp: hex_digit_value_def is_digit_char_def ascii_def)
  then show ?thesis by (simp add: hex_lower_def n_def)
qed

lemma nibbles: "drop_bit 4 b < (16 :: 8 word)" "b AND 0x0F < (16 :: 8 word)"
  "push_bit 4 (drop_bit 4 b) OR (b AND 0x0F) = (b :: 8 word)"
proof -
  show "drop_bit 4 b < (16 :: 8 word)"
    using unsigned_less [of b, where 'a = nat] by (simp add: word_less_nat_alt drop_bit_eq_div unat_div)
  show "b AND 0x0F < (16 :: 8 word)"
    by (rule le_less_trans [OF word_and_le1]) simp
  have "b AND 0x0F = take_bit 4 b" by (simp add: take_bit_eq_mask mask_eq_exp_minus_1)
  then show "push_bit 4 (drop_bit 4 b) OR (b AND 0x0F) = b"
    by (auto intro!: bit_eqI simp: bit_simps)
qed

lemma hex_roundtrip: "hex_decode (hex_encode bs) = bs"
  by (induction bs) (simp_all add: hex_encode_def hex_lower_value nibbles)

lemma hex_encode_length: "length (hex_encode bs) = 2 * length bs"
  by (induction bs) (simp_all add: hex_encode_def)

text \<open>A signature is either empty, where the hash failed, or determines the hash of the payload.\<close>

lemma sign_params_cases:
  "sign_params mac p secret = [] \<or>
   (length (sign_params mac p secret) = 64 \<and> mac secret (signature_payload p) = Some (hex_decode (sign_params mac p secret)))"
  by (auto simp: sign_params_def hex_roundtrip hex_encode_length kSha256Len_def split: option.splits)

end
