(* ===== verification/Binance_Ws.thy ===== *)
theory Binance_Ws
  imports Binance_Connector Binance_Signer "HOL-Library.Monad_Syntax"
begin

text \<open>
  The WebSocket client of the Binance connector,
  \<^verbatim>\<open>src/exchange/binance/binance_ws_client.cpp\<close>: requests of any thread share one connection with
  the user data stream; a supervisor thread owns the connection, reads its frames and hands each
  response to the caller that waits for it.

  The state is that of the object (\<open>pending_\<close>, \<open>next_id_\<close>, the heap objects \<open>Pending\<close> the callers
  hold, the offset of the venue clock, the queue of feed events) plus the program point of every
  call; each critical section is one function, and \<open>ws_act\<close> is the interleaving of callers and
  supervisor. What an exception of the JSON library does is the value \<open>None\<close>. The JSON parser
  and printer and the keyed hash are arguments (\<open>ws_env\<close>).
\<close>

section \<open>Reading members\<close>

text \<open>\<open>value(key, default)\<close>: the default only where the member is missing; a member of another type
  raises. Numbers convert to any arithmetic type, a boolean too; the conversion of a floating
  point number is that of \<open>static_cast\<close> (undefined out of range, where this is the truncated
  value).\<close>

definition value_string :: "json \<Rightarrow> string \<Rightarrow> string \<Rightarrow> string option" where
  "value_string j k d = (case jfind j k of None \<Rightarrow> Some d | Some (JStr s) \<Rightarrow> Some s | Some _ \<Rightarrow> None)"

fun number_value :: "(int \<Rightarrow> int) \<Rightarrow> json \<Rightarrow> int option" where
  "number_value narrow (JInt i) = Some (narrow i)"
| "number_value narrow (JUInt n) = Some (narrow (int n))"
| "number_value narrow (JFloat x) = Some (truncate_toward_zero x)"
| "number_value narrow (JBool b) = Some (of_bool b)"
| "number_value narrow _ = None"

definition value_number :: "(int \<Rightarrow> int) \<Rightarrow> json \<Rightarrow> string \<Rightarrow> int \<Rightarrow> int option" where
  "value_number narrow j k d = (case jfind j k of None \<Rightarrow> Some d | Some v \<Rightarrow> number_value narrow v)"

definition average_price :: "string \<Rightarrow> string \<Rightarrow> string" where
  "average_price quote_qty filled_qty =
     (if quote_qty = [] \<or> filled_qty = [] then []
      else case (parse_decimal quote_qty, parse_decimal filled_qty) of
        (Inr quote, Inr filled) \<Rightarrow>
          if is_zero filled then []
          else (case div_dec quote filled kMaxDecimalScale of Inr price \<Rightarrow> decimal_to_string price | Inl _ \<Rightarrow> [])
      | _ \<Rightarrow> [])"

definition is_clock_skew_reject :: "json result \<Rightarrow> bool" where
  "is_clock_skew_reject res = (case res of Inl e \<Rightarrow> code e = ''venue:-1021'' | Inr _ \<Rightarrow> False)"

definition server_time_of :: "json \<Rightarrow> int option" where
  "server_time_of j = Option.bind (jfind j ''serverTime'') as_long"

section \<open>State\<close>

record pending =
  pd_response :: "json option"
  pd_failed :: bool

text \<open>The program point of a \<open>call\<close>: registered and about to send; waiting for its answer, with the
  number of the session it was sent on; returned, \<open>None\<close> with an exception.\<close>

datatype call_phase = Registered | Waiting nat | Returned "json result option"

record ws_call =
  cl_method :: string
  cl_params :: json
  cl_phase :: call_phase

record ws_client =
  wc_next_id :: int
  wc_pending :: "int set"
  wc_slots :: "int \<Rightarrow> pending option"
  wc_calls :: "int \<Rightarrow> ws_call option"
  wc_offset :: int
  wc_terminate :: string
  wc_events :: "binance_feed_event list"
  wc_reports :: "execution_report list"
  wc_client :: bool
  wc_in_session :: bool
  wc_session :: nat

definition fresh_client :: ws_client where
  "fresh_client = \<lparr>wc_next_id = 1, wc_pending = {}, wc_slots = (\<lambda>_. None), wc_calls = (\<lambda>_. None), wc_offset = 0,
     wc_terminate = [], wc_events = [], wc_reports = [], wc_client = False, wc_in_session = False, wc_session = 0\<rparr>"

record ws_env =
  we_parse :: "string \<Rightarrow> json option"
  we_dump :: "json \<Rightarrow> string"
  we_hmac :: hmac

definition emit :: "binance_feed_event \<Rightarrow> ws_client \<Rightarrow> ws_client" where
  "emit ev s = s\<lparr>wc_events := wc_events s @ [ev]\<rparr>"

text \<open>The notifier thread hands the queued events to the handler, in order.\<close>

definition pump_events :: "ws_client \<Rightarrow> binance_feed_event list \<times> ws_client" where
  "pump_events s = (wc_events s, s\<lparr>wc_events := []\<rparr>)"

section \<open>Calls\<close>

definition request_frame :: "int \<Rightarrow> string \<Rightarrow> json \<Rightarrow> json" where
  "request_frame i meth params = jobject [(''id'', JInt i), (''method'', JStr meth), (''params'', params)]"

definition register_pending :: "ws_client \<Rightarrow> int \<times> ws_client" where
  "register_pending s =
     (let i = wc_next_id s
      in (i, s\<lparr>wc_next_id := i + 1, wc_pending := insert i (wc_pending s),
               wc_slots := (wc_slots s)(i \<mapsto> \<lparr>pd_response = None, pd_failed = False\<rparr>)\<rparr>))"

definition call_begin :: "string \<Rightarrow> json \<Rightarrow> ws_client \<Rightarrow> ws_client" where
  "call_begin meth params s =
     (case register_pending s of (i, s1) \<Rightarrow>
        s1\<lparr>wc_calls := (wc_calls s1)(i \<mapsto> \<lparr>cl_method = meth, cl_params = params, cl_phase = Registered\<rparr>)\<rparr>)"

definition erase_pending :: "int \<Rightarrow> ws_client \<Rightarrow> ws_client" where
  "erase_pending i s = s\<lparr>wc_pending := wc_pending s - {i}\<rparr>"

definition set_phase :: "int \<Rightarrow> ws_call \<Rightarrow> call_phase \<Rightarrow> ws_client \<Rightarrow> ws_client" where
  "set_phase i c ph s = s\<lparr>wc_calls := (wc_calls s)(i \<mapsto> c\<lparr>cl_phase := ph\<rparr>)\<rparr>"

definition send_failed_error :: "string \<Rightarrow> error" where
  "send_failed_error meth = Error ''transport'' (''cannot send '' @ meth @ '': no connection'')"

definition timed_out_error :: "string \<Rightarrow> error" where
  "timed_out_error meth = Error ''transport'' (meth @ '' response timed out (outcome unknown, resolve before retry)'')"

definition connection_lost_error :: "string \<Rightarrow> error" where
  "connection_lost_error meth = Error ''transport'' (meth @ '' failed: connection lost (outcome unknown, resolve before retry)'')"

text \<open>What \<open>call\<close> makes of the response object.\<close>

definition venue_reject :: "json \<Rightarrow> (string \<times> string) option" where
  "venue_reject response =
     (case jfind response ''error'' of
        Some err \<Rightarrow>
          if is_object err then do {
            c \<leftarrow> value_number wrap32 err ''code'' 0;
            m \<leftarrow> value_string err ''msg'' ''venue rejected the request'';
            Some (int_to_string c, m)
          } else Some (''0'', ''venue rejected the request'')
      | None \<Rightarrow> Some (''0'', ''venue rejected the request''))"

definition judge_response :: "(json \<Rightarrow> string) \<Rightarrow> json \<Rightarrow> json result option" where
  "judge_response dump response =
     (case Option.bind (jfind response ''status'') as_long of
        None \<Rightarrow> Some (Inl (Error ''protocol'' (''response without integer status: '' @ dump response)))
      | Some st \<Rightarrow>
          let http_status = wrap32 st
          in if http_status = 200 then
               (case jfind response ''result'' of
                  None \<Rightarrow> Some (Inl (Error ''protocol'' (''successful response without result: '' @ dump response)))
                | Some res \<Rightarrow> Some (Inr res))
             else if http_status \<ge> 500 then
               Some (Inl (Error ''transport'' (''venue '' @ int_to_string http_status @ '' (outcome unknown, resolve before retry)'')))
             else do {
               (c, m) \<leftarrow> venue_reject response;
               Some (Inl (if c = ''-1006'' \<or> c = ''-1007''
                 then Error ''transport'' (''venue error '' @ c @ '' ('' @ m @ '', outcome unknown, resolve before retry)'')
                 else Error (''venue:'' @ c) m))
             })"

text \<open>The end of a wait that was not cut by the deadline: the failure flag is looked at first.\<close>

definition decided :: "pending \<Rightarrow> bool" where
  "decided p \<longleftrightarrow> pd_response p \<noteq> None \<or> pd_failed p"

definition call_result :: "(json \<Rightarrow> string) \<Rightarrow> string \<Rightarrow> pending \<Rightarrow> json result option" where
  "call_result dump meth p =
     (if pd_failed p then Some (Inl (connection_lost_error meth))
      else Option.bind (pd_response p) (judge_response dump))"

section \<open>The reader\<close>

definition fail_all_pending :: "ws_client \<Rightarrow> ws_client" where
  "fail_all_pending s =
     s\<lparr>wc_pending := {},
       wc_slots := (\<lambda>i. if i \<in> wc_pending s then map_option (\<lambda>p. p\<lparr>pd_failed := True\<rparr>) (wc_slots s i) else wc_slots s i)\<rparr>"

definition warn :: "string \<Rightarrow> ws_client \<Rightarrow> ws_client" where
  "warn detail s = emit (BfProtocolWarning detail) s"

definition report_of_event :: "json \<Rightarrow> string \<Rightarrow> order_state \<Rightarrow> side \<Rightarrow> execution_report option" where
  "report_of_event ev client_order_id st sd = do {
     i \<leftarrow> value_number wrap64 ev ''i'' 0;
     z \<leftarrow> value_string ev ''z'' [];
     quote \<leftarrow> value_string ev ''Z'' [];
     Some \<lparr>er_client_order_id = client_order_id, er_exchange_order_id = int_to_string i, er_state = st, er_side = sd,
           er_filled_quantity = z, er_average_fill_price = average_price quote z\<rparr>
   }"

definition handle_user_event :: "json \<Rightarrow> ws_client \<Rightarrow> ws_client option" where
  "handle_user_event ev s =
     (if \<not> is_object ev then Some (warn ''user event is not an object'' s)
      else do {
        ty \<leftarrow> value_string ev ''e'' [];
        if ty \<noteq> ''executionReport'' then Some s
        else do {
          original \<leftarrow> value_string ev ''C'' [];
          client_order_id \<leftarrow> (if original = [] then value_string ev ''c'' [] else Some original);
          if client_order_id = [] then Some (warn ''executionReport without clientOrderId'' s)
          else do {
            status \<leftarrow> value_string ev ''X'' [];
            case map_binance_state status of
              None \<Rightarrow> Some (warn (''unknown Binance order status '' @ [quote_char] @ status @ [quote_char] @ ''; report skipped'') s)
            | Some st \<Rightarrow> do {
                side_name \<leftarrow> value_string ev ''S'' [];
                case map_binance_side side_name of
                  None \<Rightarrow> Some (warn (''unknown Binance order side '' @ [quote_char] @ side_name @ [quote_char] @ ''; report skipped'') s)
                | Some sd \<Rightarrow> do {
                    rep \<leftarrow> report_of_event ev client_order_id st sd;
                    Some (s\<lparr>wc_reports := wc_reports s @ [rep]\<rparr>)
                  }
              }
          }
        }
      })"

text \<open>The request a frame answers, and the delivery of the answer.\<close>

definition frame_id :: "json \<Rightarrow> int option" where
  "frame_id frame = Option.bind (jfind frame ''id'') as_long"

definition deliver :: "int \<Rightarrow> json \<Rightarrow> ws_client \<Rightarrow> bool \<times> ws_client" where
  "deliver i frame s =
     (if i \<in> wc_pending s
      then (True, s\<lparr>wc_pending := wc_pending s - {i},
                    wc_slots := (wc_slots s)(i := map_option (\<lambda>p. p\<lparr>pd_response := Some frame\<rparr>) (wc_slots s i))\<rparr>)
      else (False, s))"

definition dispatch_event :: "json \<Rightarrow> ws_client \<Rightarrow> ws_client option" where
  "dispatch_event ev s = do {
     ty \<leftarrow> value_string ev ''e'' [];
     if ty = ''serverShutdown'' then Some (s\<lparr>wc_terminate := ''venue announced serverShutdown''\<rparr>)
     else if ty = ''eventStreamTerminated'' then Some (s\<lparr>wc_terminate := ''venue terminated the user data stream''\<rparr>)
     else handle_user_event ev s
   }"

definition event_of :: "json \<Rightarrow> json option" where
  "event_of frame = (case jfind frame ''event'' of Some ev \<Rightarrow> if is_object ev then Some ev else None | None \<Rightarrow> None)"

definition dispatch_message :: "ws_env \<Rightarrow> string \<Rightarrow> ws_client \<Rightarrow> (bool \<times> ws_client) option" where
  "dispatch_message env msg s =
     (case we_parse env msg of
        Some (JObj kvs) \<Rightarrow>
          (case event_of (JObj kvs) of
             Some ev \<Rightarrow> map_option (Pair False) (dispatch_event ev s)
           | None \<Rightarrow> (case frame_id (JObj kvs) of
               Some i \<Rightarrow> Some (deliver i (JObj kvs) s)
             | None \<Rightarrow> Some (False, warn (''unrecognized venue frame skipped: '' @ msg) s)))
      | _ \<Rightarrow> Some (False, warn ''non-JSON text frame skipped'' s))"

end
