(* ===== verification/Binance_Stream.thy ===== *)
theory Binance_Stream
  imports Binance_Ws
begin

text \<open>
  What the user data stream of Binance becomes: every frame with an event that has the documented
  types is turned into one execution report or skipped with at most a warning, and the average
  price of a report is the rounded quotient of the two amounts the venue sends.
\<close>

section \<open>Average prices\<close>

lemma average_price_cases:
  assumes "average_price q f \<noteq> []"
  obtains quote filled price where "parse_decimal q = Inr quote" "parse_decimal f = Inr filled" "\<not> is_zero filled"
    "div_dec quote filled kMaxDecimalScale = Inr price" "average_price q f = decimal_to_string price"
  using assms by (auto simp: average_price_def split: if_splits sum.splits)

lemma div_dec_shape:
  assumes "0 \<le> unscaled l" "0 \<le> unscaled r" "div_dec l r m = Inr d"
  shows "canonical d" "scale d \<le> m" "0 \<le> unscaled d" "unscaled d \<le> kLlMax"
proof -
  obtain u where u: "d = normalized (mk_decimal u m)" "0 \<le> m" "0 \<le> u" "fits_ll u"
  proof -
    let ?sl = "unscaled l * pow10 (max (scale l) (scale r) - scale l + m)" and ?sr = "unscaled r * pow10 (max (scale l) (scale r) - scale r)"
    have "0 \<le> ?sl" "0 \<le> ?sr" using assms(1,2) by (simp_all add: pow10_eq)
    moreover from this have "0 \<le> ?sl div ?sr" by (simp add: div_int_pos_iff)
    ultimately show thesis using assms(3) that by (auto simp: div_dec_def Let_def not_less split: if_splits)
  qed
  then show "canonical d" "scale d \<le> m" "0 \<le> unscaled d" "unscaled d \<le> kLlMax"
    using normalized_spec [of "mk_decimal u m"] by (auto simp: fits_ll_def)
qed

text \<open>A price that is reported reads back as the quotient rounded to eight fractional digits.\<close>

lemma average_price_rounded:
  assumes "average_price q f \<noteq> []"
  obtains quote filled price where "parse_decimal q = Inr quote" "parse_decimal f = Inr filled" "dval filled \<noteq> 0"
    "parse_decimal (average_price q f) = Inr price" "2 * 10 ^ 8 * \<bar>dval price - dval quote / dval filled\<bar> \<le> 1"
proof -
  obtain quote filled price where d: "parse_decimal q = Inr quote" "parse_decimal f = Inr filled" "\<not> is_zero filled"
      "div_dec quote filled kMaxDecimalScale = Inr price" "average_price q f = decimal_to_string price"
    using average_price_cases [OF assms] .
  note specs = parse_decimal_spec [OF d(1)] parse_decimal_spec [OF d(2)]
  note shape = div_dec_shape [OF specs(5,11) d(4)]
  obtain ip fp where lit: "literal_ok ip fp" "literal_decimal False ip fp = price" "decimal_to_string price = dec_literal ip fp"
    using decimal_to_string_literal [OF shape(1,2)] shape(3,4) by auto
  have "parse_decimal (decimal_to_string price) = Inr price"
    using parse_literal_complete [OF lit(1), of False] lit hd_dec_literal [OF lit(1)] by (auto simp: parse_decimal_def split: sum.splits)
  moreover have "2 * 10 ^ 8 * \<bar>dval price - dval quote / dval filled\<bar> \<le> 1"
    using div_dec_val [OF specs(4,10) d(4)] by (simp add: kMaxDecimalScale_def)
  moreover have "dval filled \<noteq> 0" using d(3) by (auto simp: is_zero_def dval_def)
  ultimately show thesis using that d by simp
qed

section \<open>Events\<close>

definition event_text :: "json \<Rightarrow> string \<Rightarrow> string" where
  "event_text ev k = (case jfind ev k of Some (JStr s) \<Rightarrow> s | _ \<Rightarrow> [])"

definition text_or_missing :: "json \<Rightarrow> string \<Rightarrow> bool" where
  "text_or_missing ev k = (case jfind ev k of None \<Rightarrow> True | Some (JStr _) \<Rightarrow> True | Some _ \<Rightarrow> False)"

definition event_typed :: "json \<Rightarrow> bool" where
  "event_typed ev \<longleftrightarrow> list_all (text_or_missing ev) [''e'', ''C'', ''c'', ''X'', ''S'', ''z'', ''Z''] \<and> value_number wrap64 ev ''i'' 0 \<noteq> None"

definition event_order_id :: "json \<Rightarrow> string" where
  "event_order_id ev = (if event_text ev ''C'' = [] then event_text ev ''c'' else event_text ev ''C'')"

lemma value_string_text: "text_or_missing ev k \<Longrightarrow> value_string ev k [] = Some (event_text ev k)"
  by (auto simp: text_or_missing_def value_string_def event_text_def split: option.splits json.splits)

lemma value_string_raises: "\<not> text_or_missing ev k \<Longrightarrow> value_string ev k d = None"
  by (auto simp: text_or_missing_def value_string_def split: option.splits json.splits)

lemma typed_values:
  assumes "event_typed ev"
  shows "value_string ev ''e'' [] = Some (event_text ev ''e'')" "value_string ev ''C'' [] = Some (event_text ev ''C'')"
    "value_string ev ''c'' [] = Some (event_text ev ''c'')" "value_string ev ''X'' [] = Some (event_text ev ''X'')"
    "value_string ev ''S'' [] = Some (event_text ev ''S'')" "value_string ev ''z'' [] = Some (event_text ev ''z'')"
    "value_string ev ''Z'' [] = Some (event_text ev ''Z'')"
  using assms by (simp_all add: event_typed_def value_string_text)

lemma dispatch_of_event:
  assumes "we_parse env msg = Some (JObj kvs)" "map_of kvs ''event'' = Some ev" "is_object ev"
  shows "dispatch_message env msg s = map_option (Pair False) (dispatch_event ev s)"
  using assms by (simp add: dispatch_message_def event_of_def)

lemma typed_report:
  assumes "event_typed ev" "is_object ev" "event_text ev ''e'' = ''executionReport''" "event_order_id ev \<noteq> []"
    "map_binance_state (event_text ev ''X'') = Some st" "map_binance_side (event_text ev ''S'') = Some sd"
    "value_number wrap64 ev ''i'' 0 = Some i"
  shows "dispatch_event ev s = Some (s\<lparr>wc_reports := wc_reports s @ [
     \<lparr>er_client_order_id = event_order_id ev, er_exchange_order_id = int_to_string i, er_state = st, er_side = sd,
      er_filled_quantity = event_text ev ''z'', er_average_fill_price = average_price (event_text ev ''Z'') (event_text ev ''z'')\<rparr>]\<rparr>)"
proof -
  have cid: "(if event_text ev ''C'' = [] then Some (event_text ev ''c'') else Some (event_text ev ''C'')) = Some (event_order_id ev)"
    by (simp add: event_order_id_def)
  show ?thesis
    unfolding dispatch_event_def handle_user_event_def report_of_event_def typed_values [OF assms(1)] cid bind.bind_lunit
    using assms(2-7) by simp
qed

text \<open>A frame that is skipped: it leaves the reports and the calls as they are.\<close>

lemma typed_skip:
  assumes "event_typed ev" "is_object ev"
    and "event_text ev ''e'' \<noteq> ''executionReport'' \<or> event_order_id ev = [] \<or> map_binance_state (event_text ev ''X'') = None
      \<or> map_binance_side (event_text ev ''S'') = None"
  shows "\<exists>s'. dispatch_event ev s = Some s' \<and> wc_reports s' = wc_reports s \<and> wc_pending s' = wc_pending s \<and> wc_slots s' = wc_slots s"
proof -
  have cid: "(if event_text ev ''C'' = [] then Some (event_text ev ''c'') else Some (event_text ev ''C'')) = Some (event_order_id ev)"
    by (simp add: event_order_id_def)
  consider "event_text ev ''e'' \<in> {''serverShutdown'', ''eventStreamTerminated''}"
    | "event_text ev ''e'' \<notin> {''serverShutdown'', ''eventStreamTerminated'', ''executionReport''}"
    | "event_text ev ''e'' = ''executionReport''" "event_order_id ev = []"
    | "event_text ev ''e'' = ''executionReport''" "event_order_id ev \<noteq> []" "map_binance_state (event_text ev ''X'') = None"
    | st where "event_text ev ''e'' = ''executionReport''" "event_order_id ev \<noteq> []" "map_binance_state (event_text ev ''X'') = Some st"
        "map_binance_side (event_text ev ''S'') = None"
    using assms(3) by (cases "map_binance_state (event_text ev ''X'')") auto
  then show ?thesis
  proof cases
    case 1
    then show ?thesis unfolding dispatch_event_def typed_values [OF assms(1)] bind.bind_lunit by auto
  qed (unfold dispatch_event_def handle_user_event_def typed_values [OF assms(1)] cid bind.bind_lunit,
      use assms(2) in \<open>simp_all add: warn_def emit_def\<close>)
qed

text \<open>What the reports of a typed event have to be.\<close>

definition reports_of :: "json \<Rightarrow> execution_report list \<Rightarrow> bool" where
  "reports_of ev reports =
     (case (map_binance_state (event_text ev ''X''), map_binance_side (event_text ev ''S'')) of
           (Some st, Some sd) \<Rightarrow>
             if event_text ev ''e'' = ''executionReport'' \<and> event_order_id ev \<noteq> []
             then \<exists>i px. value_number wrap64 ev ''i'' 0 = Some i
               \<and> reports = [\<lparr>er_client_order_id = event_order_id ev, er_exchange_order_id = int_to_string i, er_state = st, er_side = sd,
                     er_filled_quantity = event_text ev ''z'', er_average_fill_price = px\<rparr>]
               \<and> (px = [] \<or> (\<exists>quote filled price. parse_decimal (event_text ev ''Z'') = Inr quote \<and> parse_decimal (event_text ev ''z'') = Inr filled
                   \<and> parse_decimal px = Inr price \<and> 2 * 10 ^ 8 * \<bar>dval price - dval quote / dval filled\<bar> \<le> 1))
             else reports = []
         | _ \<Rightarrow> reports = [])"

text \<open>C28. The user data stream is normalized faithfully. A frame whose event has the documented types never
  raises: it is delivered as exactly one execution report when it is an \<open>executionReport\<close> with an
  order id, a known status and a known side, under the original client order id where the venue
  sends one, with the venue's filled quantity and, where it is given, an average price within half
  a unit of the eighth digit of the quotient of quote and filled amount; every other event
  delivers none. But an event whose type is not a string raises in the supervisor thread, which
  ends the process.\<close>

theorem stream_normalized:
  assumes "we_parse env msg = Some (JObj kvs)" "map_of kvs ''event'' = Some ev" "is_object ev"
  shows "(event_typed ev \<longrightarrow> (\<exists>s' reports. dispatch_message env msg s = Some (False, s') \<and> wc_reports s' = wc_reports s @ reports \<and> reports_of ev reports))
    \<and> (\<not> text_or_missing ev ''e'' \<longrightarrow> dispatch_message env msg s = None)"
proof -
  have price: "px = [] \<or> (\<exists>quote filled price. parse_decimal q = Inr quote \<and> parse_decimal f = Inr filled
      \<and> parse_decimal px = Inr price \<and> 2 * 10 ^ 8 * \<bar>dval price - dval quote / dval filled\<bar> \<le> 1)" if "px = average_price q f" for px q f
    using that average_price_rounded [of q f] by metis
  have "dispatch_message env msg s = None" if "\<not> text_or_missing ev ''e''"
    using dispatch_of_event [OF assms] value_string_raises [OF that] by (simp add: dispatch_event_def)
  moreover have "\<exists>s' reports. dispatch_message env msg s = Some (False, s') \<and> wc_reports s' = wc_reports s @ reports \<and> reports_of ev reports" if typed: "event_typed ev"
  proof (cases "\<exists>st sd. event_text ev ''e'' = ''executionReport'' \<and> event_order_id ev \<noteq> []
      \<and> map_binance_state (event_text ev ''X'') = Some st \<and> map_binance_side (event_text ev ''S'') = Some sd")
    case True
    then obtain st sd where r: "event_text ev ''e'' = ''executionReport''" "event_order_id ev \<noteq> []"
        "map_binance_state (event_text ev ''X'') = Some st" "map_binance_side (event_text ev ''S'') = Some sd" by blast
    obtain i where i: "value_number wrap64 ev ''i'' 0 = Some i" using typed by (auto simp: event_typed_def)
    show ?thesis using typed_report [OF typed assms(3) r i, of s] dispatch_of_event [OF assms, of s] r i price [OF refl] by (simp add: reports_of_def)
  next
    case False
    then have skip: "event_text ev ''e'' \<noteq> ''executionReport'' \<or> event_order_id ev = []
      \<or> map_binance_state (event_text ev ''X'') = None \<or> map_binance_side (event_text ev ''S'') = None" by auto
    from typed_skip [OF typed assms(3) skip, of s] obtain s' where
      "dispatch_message env msg s = Some (False, s')" "wc_reports s' = wc_reports s" using dispatch_of_event [OF assms, of s] by auto
    with skip show ?thesis by (intro exI [of _ s'] exI [of _ "[]"]) (auto simp: reports_of_def split: option.splits)
  qed
  ultimately show ?thesis by blast
qed

definition demo_event :: json where
  "demo_event = JObj [(''S'', JStr ''BUY''), (''X'', JStr ''FILLED''), (''Z'', JStr ''1''), (''c'', JStr ''o1''), (''e'', JStr ''executionReport''),
     (''i'', JUInt 7), (''z'', JStr ''3'')]"

definition demo_stream_env :: ws_env where
  "demo_stream_env = \<lparr>we_parse = (\<lambda>m. if m = ''fill'' then Some (JObj [(''event'', demo_event)]) else Some (JObj [(''event'', JObj [(''e'', JNull)])])),
     we_dump = (\<lambda>_. []), we_hmac = (\<lambda>_ _. None)\<rparr>"

theorem stream_normalized_witness:
  "(\<exists>s' rep. dispatch_message demo_stream_env ''fill'' fresh_client = Some (False, s') \<and> wc_reports s' = [rep]
      \<and> er_client_order_id rep = ''o1'' \<and> er_state rep = Filled \<and> er_filled_quantity rep = ''3'')
   \<and> dispatch_message demo_stream_env ''bad'' fresh_client = None"
proof -
  have ev: "event_text demo_event ''X'' = ''FILLED''" "event_text demo_event ''S'' = ''BUY''" "event_text demo_event ''e'' = ''executionReport''"
      "event_order_id demo_event = ''o1''" "event_text demo_event ''z'' = ''3''" "event_typed demo_event"
    by (simp_all add: demo_event_def event_text_def event_order_id_def event_typed_def text_or_missing_def value_number_def)
  have maps: "map_binance_state ''FILLED'' = Some Filled" "map_binance_side ''BUY'' = Some Buy"
    by (simp_all add: map_binance_state_def map_binance_side_def)
  have "\<exists>s' rep. dispatch_message demo_stream_env ''fill'' fresh_client = Some (False, s') \<and> wc_reports s' = [rep]
      \<and> er_client_order_id rep = ''o1'' \<and> er_state rep = Filled \<and> er_filled_quantity rep = ''3''"
    using stream_normalized [of demo_stream_env "''fill''" "[(''event'', demo_event)]" demo_event fresh_client] ev maps
    by (auto simp: demo_stream_env_def fresh_client_def demo_event_def reports_of_def)
  moreover have "dispatch_message demo_stream_env ''bad'' fresh_client = None"
    using stream_normalized [of demo_stream_env "''bad''" "[(''event'', JObj [(''e'', JNull)])]" "JObj [(''e'', JNull)]" fresh_client]
    by (simp add: demo_stream_env_def text_or_missing_def)
  ultimately show ?thesis by blast
qed

end
