(* ===== verification/Binance_Signed.thy ===== *)
theory Binance_Signed
  imports Binance_Ws
begin

text \<open>
  Signed requests of the Binance WebSocket client (\<open>apply_signature\<close>, \<open>sync_server_time\<close> and
  \<open>call_signed\<close> of \<^verbatim>\<open>src/exchange/binance/binance_ws_client.cpp\<close>), over the client as a port: its
  \<open>call\<close>, the local clock in milliseconds and the atomic offset of the venue clock, which other
  threads may change as part of the surroundings \<^typ>\<open>'w\<close>.
\<close>

record 'w ws_port =
  wp_call :: "'w raw_call"
  wp_now :: "'w \<Rightarrow> int \<times> 'w"
  wp_offset :: "'w \<Rightarrow> int"
  wp_set_offset :: "int \<Rightarrow> 'w \<Rightarrow> 'w"

definition stamped :: "binance_config \<Rightarrow> int \<Rightarrow> json \<Rightarrow> json" where
  "stamped cfg stamp p =
     jerase (jset (jset (jset p ''apiKey'' (JStr (bn_api_key cfg))) ''recvWindow'' (JInt (bn_recv_window_ms cfg)))
       ''timestamp'' (JInt stamp)) ''signature''"

definition apply_signature :: "hmac \<Rightarrow> binance_config \<Rightarrow> int \<Rightarrow> json \<Rightarrow> json" where
  "apply_signature mac cfg stamp p =
     jset (stamped cfg stamp p) ''signature'' (JStr (sign_params mac (stamped cfg stamp p) (bn_secret_key cfg)))"

definition sign_now :: "hmac \<Rightarrow> binance_config \<Rightarrow> 'w ws_port \<Rightarrow> json \<Rightarrow> 'w \<Rightarrow> json \<times> 'w" where
  "sign_now mac cfg port p w =
     (case wp_now port w of (t, w1) \<Rightarrow> (apply_signature mac cfg (wrap64 (t + wp_offset port w1)) p, w1))"

definition sync_server_time :: "(json \<Rightarrow> string) \<Rightarrow> 'w ws_port \<Rightarrow> 'w \<Rightarrow> int result \<times> 'w" where
  "sync_server_time dump port w =
     (case wp_call port ''time'' (JObj []) w of
        (Inl e, w1) \<Rightarrow> (Inl e, w1)
      | (Inr res, w1) \<Rightarrow> (case server_time_of res of
          None \<Rightarrow> (Inl (Error ''protocol'' (''time response without integer serverTime: '' @ dump res)), w1)
        | Some server \<Rightarrow> (case wp_now port w1 of (t, w2) \<Rightarrow>
            let offset = wrap64 (server - t) in (Inr offset, wp_set_offset port offset w2))))"

definition skew_unrecoverable :: error where
  "skew_unrecoverable = Error ''protocol'' ''clock skew unrecoverable: -1021 persists after time sync and one re-sign''"

definition call_signed :: "hmac \<Rightarrow> (json \<Rightarrow> string) \<Rightarrow> binance_config \<Rightarrow> 'w ws_port \<Rightarrow> 'w raw_call" where
  "call_signed mac dump cfg port meth params w =
     (case sign_now mac cfg port params w of (signed1, w1) \<Rightarrow>
        case wp_call port meth signed1 w1 of (res, w2) \<Rightarrow>
          if \<not> is_clock_skew_reject res then (res, w2)
          else case sync_server_time dump port w2 of
            (Inl _, w3) \<Rightarrow> (res, w3)
          | (Inr _, w3) \<Rightarrow> (case sign_now mac cfg port signed1 w3 of (signed2, w4) \<Rightarrow>
              case wp_call port meth signed2 w4 of (res2, w5) \<Rightarrow>
                if is_clock_skew_reject res2 then (Inl skew_unrecoverable, w5) else (res2, w5)))"

section \<open>Signing again\<close>

lemma jset_members_eq: "members (jset p k v) = jset_members (members p) k v"
  by (simp add: jset_def)

lemma keyed_stamped: "keyed (members p) \<Longrightarrow> keyed (members (stamped cfg t p))"
  by (simp add: stamped_def jerase_def jset_members_eq keyed_jset_members keyed_filter)

lemma is_object_jerase [simp]: "is_object (jerase p k)"
  by (simp add: jerase_def)

lemma object_ext:
  assumes "keyed (members p)" "keyed (members q)" "is_object p" "is_object q" "\<And>k. jfind p k = jfind q k"
  shows "p = q"
proof -
  have objects: "is_object j \<Longrightarrow> \<exists>kvs. j = JObj kvs" for j by (cases j) simp_all
  obtain kvs kvs' where "p = JObj kvs" "q = JObj kvs'" using objects [OF assms(3)] objects [OF assms(4)] by blast
  then show ?thesis using assms(1,2,5) keyed_ext [of kvs kvs'] by (simp add: fun_eq_iff)
qed

text \<open>Signing a request that is already signed gives the request signed afresh.\<close>

lemma apply_signature_again:
  assumes "keyed (members p)"
  shows "apply_signature mac cfg t2 (apply_signature mac cfg t1 p) = apply_signature mac cfg t2 p"
proof -
  have "keyed (members (apply_signature mac cfg t1 p))"
    using keyed_stamped [OF assms] by (simp add: apply_signature_def jset_members_eq keyed_jset_members)
  then have "stamped cfg t2 (apply_signature mac cfg t1 p) = stamped cfg t2 p"
    using assms by (intro object_ext keyed_stamped) (auto simp: stamped_def apply_signature_def)
  then show ?thesis by (simp add: apply_signature_def)
qed

text \<open>What a signed request carries.\<close>

lemma apply_signature_members:
  "jfind (apply_signature mac cfg t p) ''signature'' = Some (JStr (sign_params mac (apply_signature mac cfg t p) (bn_secret_key cfg)))"
  "jfind (apply_signature mac cfg t p) ''timestamp'' = Some (JInt t)"
  "jfind (apply_signature mac cfg t p) ''apiKey'' = Some (JStr (bn_api_key cfg))"
  "jfind (apply_signature mac cfg t p) ''recvWindow'' = Some (JInt (bn_recv_window_ms cfg))"
  "k \<notin> {''signature'', ''timestamp'', ''apiKey'', ''recvWindow''} \<Longrightarrow> jfind (apply_signature mac cfg t p) k = jfind p k"
  by (simp_all add: apply_signature_def stamped_def sign_params_def signature_payload_ignores_signature)

section \<open>A signed request on the wire\<close>

type_synonym ws_request = "string \<times> json \<times> json result"

definition recorded_port :: "'w ws_port \<Rightarrow> ('w \<times> ws_request list) ws_port" where
  "recorded_port port =
     \<lparr>wp_call = (\<lambda>meth p (w, sent). case wp_call port meth p w of (res, w1) \<Rightarrow> (res, w1, sent @ [(meth, p, res)])),
      wp_now = (\<lambda>(w, sent). case wp_now port w of (t, w1) \<Rightarrow> (t, w1, sent)),
      wp_offset = (\<lambda>(w, sent). wp_offset port w),
      wp_set_offset = (\<lambda>v (w, sent). (wp_set_offset port v w, sent))\<rparr>"

lemma sync_recorded:
  assumes "wp_call port ''time'' (JObj []) w = (time, w1)"
  obtains synced w2 where "sync_server_time dump (recorded_port port) (w, sent) = (synced, w2, sent @ [(''time'', JObj [], time)])"
    "is_ok synced \<Longrightarrow> is_ok time"
proof -
  obtain t w2 where now: "wp_now port w1 = (t, w2)" by (rule prod.exhaust)
  have call: "wp_call (recorded_port port) ''time'' (JObj []) (w, sent) = (time, w1, sent @ [(''time'', JObj [], time)])"
    "wp_now (recorded_port port) (w1, sent') = (t, w2, sent')"
    "wp_set_offset (recorded_port port) v (w2, sent') = (wp_set_offset port v w2, sent')" for sent' v
    using assms now by (simp_all add: recorded_port_def)
  show thesis
  proof (cases time)
    case (Inl e)
    then show ?thesis using call by (intro that [of "Inl e" w1]) (simp_all add: sync_server_time_def)
  next
    case (Inr res)
    show ?thesis
    proof (cases "server_time_of res")
      case None
      show ?thesis by (rule that [of "Inl _" w1]) (use call Inr None in \<open>simp_all add: sync_server_time_def\<close>)
    next
      case (Some server)
      show ?thesis
        by (rule that [of "Inr (wrap64 (server - t))" "wp_set_offset port (wrap64 (server - t)) w2"])
          (use call Inr Some in \<open>simp_all add: sync_server_time_def Let_def\<close>)
    qed
  qed
qed

lemma call_signed_cases:
  assumes "keyed (members params)"
    and "call_signed mac dump cfg (recorded_port port) meth params (w, []) = (res, w', sent)"
  obtains (once) t1 ans where "sent = [(meth, apply_signature mac cfg t1 params, ans)]" "\<not> is_clock_skew_reject ans" "res = ans"
  | (unsynced) t1 ans time where "sent = [(meth, apply_signature mac cfg t1 params, ans), (''time'', JObj [], time)]"
      "is_clock_skew_reject ans" "res = ans"
  | (again) t1 ans time t2 ans2 where
      "sent = [(meth, apply_signature mac cfg t1 params, ans), (''time'', JObj [], time), (meth, apply_signature mac cfg t2 params, ans2)]"
      "is_clock_skew_reject ans" "is_ok time"
      "res = (if is_clock_skew_reject ans2 then Inl skew_unrecoverable else ans2)"
proof -
  obtain t1 w1 where now: "wp_now port w = (t1, w1)" by (rule prod.exhaust)
  define stamp where "stamp = wrap64 (t1 + wp_offset port w1)"
  define signed1 where "signed1 = apply_signature mac cfg stamp params"
  obtain ans w2 where first: "wp_call port meth signed1 w1 = (ans, w2)" by (rule prod.exhaust)
  have start: "sign_now mac cfg (recorded_port port) params (w, []) = (signed1, w1, [])"
    "wp_call (recorded_port port) meth signed1 (w1, []) = (ans, w2, [(meth, signed1, ans)])"
    using now first by (simp_all add: sign_now_def recorded_port_def signed1_def stamp_def)
  show thesis
  proof (cases "is_clock_skew_reject ans")
    case False
    then show ?thesis using assms(2) start by (intro once [of stamp ans]) (auto simp: call_signed_def signed1_def)
  next
    case True
    obtain time w3 where time: "wp_call port ''time'' (JObj []) w2 = (time, w3)" by (rule prod.exhaust)
    define sent2 where "sent2 = [(meth, signed1, ans), (''time'', JObj [], time)]"
    obtain synced w4 where synced: "sync_server_time dump (recorded_port port) (w2, [(meth, signed1, ans)]) = (synced, w4, sent2)"
        "is_ok synced \<Longrightarrow> is_ok time"
      by (rule sync_recorded [OF time, of dump "[(meth, signed1, ans)]"]) (simp add: sent2_def)
    show ?thesis
    proof (cases synced)
      case (Inl e)
      then show ?thesis using assms(2) start True synced
        by (intro unsynced [of stamp ans time]) (auto simp: call_signed_def signed1_def sent2_def)
    next
      case (Inr v)
      obtain t2 w5 where now2: "wp_now port w4 = (t2, w5)" by (rule prod.exhaust)
      define stamp2 where "stamp2 = wrap64 (t2 + wp_offset port w5)"
      have signed2: "sign_now mac cfg (recorded_port port) signed1 (w4, sent2) = (apply_signature mac cfg stamp2 params, w5, sent2)"
        using now2 apply_signature_again [OF assms(1)] by (simp add: sign_now_def recorded_port_def stamp2_def signed1_def)
      obtain ans2 w6 where last: "wp_call port meth (apply_signature mac cfg stamp2 params) w5 = (ans2, w6)" by (rule prod.exhaust)
      have last': "wp_call (recorded_port port) meth (apply_signature mac cfg stamp2 params) (w5, sent2)
          = (ans2, w6, sent2 @ [(meth, apply_signature mac cfg stamp2 params, ans2)])"
        using last by (simp add: recorded_port_def)
      have "res = (if is_clock_skew_reject ans2 then Inl skew_unrecoverable else ans2)"
        "sent = sent2 @ [(meth, apply_signature mac cfg stamp2 params, ans2)]"
        using assms(2) start True synced(1) Inr signed2 last' by (auto simp: call_signed_def split: if_splits)
      then show ?thesis using True synced(2) Inr by (intro again [of stamp ans time stamp2 ans2]) (auto simp: sent2_def signed1_def)
    qed
  qed
qed

text \<open>C6. A signed request is sent again only where that is harmless. However the client and the clocks
  behave, \<open>call_signed\<close> puts one request on the wire, or, after the venue has refused it for its
  timestamp (which happens before execution), asks for the time and then sends the same request
  once more, with nothing but timestamp and signature renewed. \<close>

theorem signed_request_sent_again_only_after_skew:
  assumes "keyed (members params)"
    and "call_signed mac dump cfg (recorded_port port) meth params (w, []) = (res, w', sent)"
  shows "\<exists>t1 ans. let first = (meth, apply_signature mac cfg t1 params, ans) in
       (sent = [first] \<and> \<not> is_clock_skew_reject ans \<and> res = ans)
     \<or> (is_clock_skew_reject ans \<and> (\<exists>time. sent = [first, (''time'', JObj [], time)] \<and> res = ans))
     \<or> (is_clock_skew_reject ans \<and> (\<exists>time t2 ans2.
          sent = [first, (''time'', JObj [], time), (meth, apply_signature mac cfg t2 params, ans2)] \<and> is_ok time
          \<and> res = (if is_clock_skew_reject ans2 then Inl skew_unrecoverable else ans2)))"
proof (cases rule: call_signed_cases [OF assms])
  case (1 t1 ans)
  then show ?thesis by (intro exI [of _ t1] exI [of _ ans]) (simp add: Let_def)
next
  case (2 t1 ans time)
  then show ?thesis by (intro exI [of _ t1] exI [of _ ans]) (simp add: Let_def)
next
  case (3 t1 ans time t2 ans2)
  then show ?thesis by (intro exI [of _ t1] exI [of _ ans]) (auto simp: Let_def)
qed

text \<open>A venue whose clock is 5000 ms ahead refuses the first timestamp and takes the second.\<close>

definition demo_port :: "int ws_port" where
  "demo_port = \<lparr>wp_call = (\<lambda>meth p off. if meth = ''time'' then (Inr (JObj [(''serverTime'', JInt 6000)]), off)
       else if jfind p ''timestamp'' = Some (JInt 6000) then (Inr (JObj []), off)
       else (Inl (Error ''venue:-1021'' []), off)),
     wp_now = (\<lambda>off. (1000, off)), wp_offset = (\<lambda>off. off), wp_set_offset = (\<lambda>v off. v)\<rparr>"

theorem signed_request_sent_again_only_after_skew_witness:
  "\<exists>t1 t2 ans time ans2 w'. call_signed (\<lambda>_ _. None) (\<lambda>_. []) default_binance (recorded_port demo_port) ''order.place'' (JObj []) (0, [])
     = (Inr (JObj []), w', [(''order.place'', apply_signature (\<lambda>_ _. None) default_binance t1 (JObj []), ans), (''time'', JObj [], time),
          (''order.place'', apply_signature (\<lambda>_ _. None) default_binance t2 (JObj []), ans2)]) \<and> is_clock_skew_reject ans"
proof -
  let ?run = "call_signed (\<lambda>_ _. None) (\<lambda>_. []) default_binance (recorded_port demo_port) ''order.place'' (JObj []) (0, [])"
  have run: "fst ?run = Inr (JObj [])" "length (snd (snd ?run)) = 3"
    by (simp_all add: call_signed_def recorded_port_def demo_port_def sign_now_def sync_server_time_def server_time_of_def as_long_def
        is_clock_skew_reject_def apply_signature_members wrap64_def Let_def)
  obtain res w' sent where r: "?run = (res, w', sent)" by (metis prod.exhaust)
  show ?thesis
    using signed_request_sent_again_only_after_skew [OF _ r] run r by (fastforce simp: keyed_def Let_def)
qed

end
