(* ===== verification/Binance_Calls.thy ===== *)
theory Binance_Calls
  imports Binance_Ws
begin

text \<open>
  The interleaving of the callers with the supervisor thread of the Binance WebSocket client, and
  what it guarantees: every answer a caller gets was read from a frame with its own request
  number, and no caller is left waiting for a connection that is gone.

  One action is one critical section of \<open>BinanceWsClient\<close>, of the thread that owns it:
  allocation and registration of a request number (\<open>CallBegin\<close>; the two take the same mutex one
  after the other and nothing reads the number in between), the send with the answer of the
  transport, the end of the wait by the deadline or by the condition variable; on the side of
  the supervisor the connection being set, a number being taken for the inline clock query, the
  subscription being registered and erased, a frame being dispatched, the connection being
  reset, and \<open>fail_all_pending\<close>. An action that is not enabled, and one that raises in the
  supervisor, has no successor.
\<close>

datatype ws_action =
    CallBegin string json
  | CallSend int bool
  | CallTimeout int
  | CallWake int
  | SetOffset int
  | SessionOpen string
  | SessionNumber
  | SessionSubscribe
  | SessionUnsubscribe int
  | SessionDispatch string
  | SessionEmit binance_feed_event
  | SessionClose
  | FailAll

text \<open>A step of the call \<open>i\<close>, from its program point and its slot.\<close>

definition with_call :: "int \<Rightarrow> ws_client \<Rightarrow> (ws_call \<Rightarrow> pending \<Rightarrow> ws_client option) \<Rightarrow> ws_client option" where
  "with_call i s f = do { c \<leftarrow> wc_calls s i; p \<leftarrow> wc_slots s i; f c p }"

definition call_send :: "int \<Rightarrow> bool \<Rightarrow> ws_client \<Rightarrow> ws_client option" where
  "call_send i ok s = with_call i s (\<lambda>c _.
     if cl_phase c \<noteq> Registered then None
     else if ok then (if wc_client s then Some (set_phase i c (Waiting (wc_session s)) s) else None)
     else Some (set_phase i c (Returned (Some (Inl (send_failed_error (cl_method c))))) (erase_pending i s)))"

definition is_waiting :: "ws_call \<Rightarrow> bool" where
  "is_waiting c \<longleftrightarrow> (case cl_phase c of Waiting _ \<Rightarrow> True | _ \<Rightarrow> False)"

definition call_timeout :: "int \<Rightarrow> ws_client \<Rightarrow> ws_client option" where
  "call_timeout i s = with_call i s (\<lambda>c p.
     if is_waiting c \<and> \<not> decided p
     then Some (set_phase i c (Returned (Some (Inl (timed_out_error (cl_method c))))) (erase_pending i s))
     else None)"

definition call_wake :: "ws_env \<Rightarrow> int \<Rightarrow> ws_client \<Rightarrow> ws_client option" where
  "call_wake env i s = with_call i s (\<lambda>c p.
     if is_waiting c \<and> decided p
     then Some (set_phase i c (Returned (call_result (we_dump env) (cl_method c) p)) (erase_pending i s))
     else None)"

definition session_open :: "string \<Rightarrow> ws_client \<Rightarrow> ws_client" where
  "session_open url s =
     emit (BfConnecting url) (s\<lparr>wc_terminate := [], wc_client := True, wc_in_session := True, wc_session := wc_session s + 1\<rparr>)"

fun ws_act :: "ws_env \<Rightarrow> ws_action \<Rightarrow> ws_client \<Rightarrow> ws_client option" where
  "ws_act env (CallBegin meth params) s = Some (call_begin meth params s)"
| "ws_act env (CallSend i ok) s = call_send i ok s"
| "ws_act env (CallTimeout i) s = call_timeout i s"
| "ws_act env (CallWake i) s = call_wake env i s"
| "ws_act env (SetOffset v) s = Some (s\<lparr>wc_offset := v\<rparr>)"
| "ws_act env (SessionOpen url) s = (if wc_in_session s then None else Some (session_open url s))"
| "ws_act env SessionNumber s = Some (s\<lparr>wc_next_id := wc_next_id s + 1\<rparr>)"
| "ws_act env SessionSubscribe s = Some (snd (register_pending s))"
| "ws_act env (SessionUnsubscribe i) s = (if wc_calls s i = None then Some (erase_pending i s) else None)"
| "ws_act env (SessionDispatch msg) s = (if wc_client s then map_option snd (dispatch_message env msg s) else None)"
| "ws_act env (SessionEmit ev) s = Some (emit ev s)"
| "ws_act env SessionClose s = Some (s\<lparr>wc_client := False\<rparr>)"
| "ws_act env FailAll s = (if wc_client s then None else Some ((fail_all_pending s)\<lparr>wc_in_session := False\<rparr>))"

inductive ws_reach :: "ws_env \<Rightarrow> ws_action list \<Rightarrow> ws_client \<Rightarrow> bool" for env where
  start: "ws_reach env [] fresh_client"
| act: "ws_reach env tr s \<Longrightarrow> ws_act env a s = Some s' \<Longrightarrow> ws_reach env (tr @ [a]) s'"

inductive_cases ws_reach_snocE: "ws_reach env (tr @ [a]) s"

section \<open>The shape of one action\<close>

text \<open>What an action may do to the registrations, the slots and the program points.\<close>

definition current_session :: "ws_client \<Rightarrow> nat option" where
  "current_session s = (if wc_in_session s then Some (wc_session s) else None)"

fun phase_ok :: "nat option \<Rightarrow> bool \<Rightarrow> pending \<Rightarrow> call_phase \<Rightarrow> bool" where
  "phase_ok sess reg p Registered = (reg \<or> decided p)"
| "phase_ok sess reg p (Waiting n) = (decided p \<or> reg \<and> sess = Some n)"
| "phase_ok sess reg p (Returned r) = (\<not> reg)"

definition slot_ok :: "bool \<Rightarrow> pending \<Rightarrow> bool" where
  "slot_ok reg p \<longleftrightarrow> (pd_response p = None \<or> \<not> pd_failed p) \<and> (reg \<longrightarrow> \<not> decided p)"

text \<open>One request number: whether it is registered, its slot, its call.\<close>

definition entry_ok :: "nat option \<Rightarrow> bool \<Rightarrow> bool \<Rightarrow> pending option \<Rightarrow> ws_call option \<Rightarrow> bool" where
  "entry_ok sess unused reg slot c =
     (case slot of
        None \<Rightarrow> \<not> reg \<and> c = None
      | Some p \<Rightarrow> \<not> unused \<and> slot_ok reg p \<and> (case c of None \<Rightarrow> True | Some c \<Rightarrow> phase_ok sess reg p (cl_phase c)))"

definition ws_ok :: "ws_client \<Rightarrow> bool" where
  "ws_ok s \<longleftrightarrow>
     (\<forall>i. entry_ok (current_session s) (wc_next_id s \<le> i) (i \<in> wc_pending s) (wc_slots s i) (wc_calls s i))
   \<and> (wc_client s \<longrightarrow> wc_in_session s)"

text \<open>Frames of the stream leave the calls alone.\<close>

definition same_calls :: "ws_client \<Rightarrow> ws_client \<Rightarrow> bool" where
  "same_calls s s' \<longleftrightarrow> wc_next_id s' = wc_next_id s \<and> wc_pending s' = wc_pending s \<and> wc_slots s' = wc_slots s
     \<and> wc_calls s' = wc_calls s \<and> wc_client s' = wc_client s \<and> wc_in_session s' = wc_in_session s \<and> wc_session s' = wc_session s"

lemma same_calls_simps [simp]:
  "same_calls s s" "same_calls s (emit ev s)" "same_calls s (warn d s)" "same_calls s (s\<lparr>wc_reports := r\<rparr>)"
  "same_calls s (s\<lparr>wc_terminate := t\<rparr>)" "same_calls s (s\<lparr>wc_offset := v\<rparr>)"
  by (simp_all add: same_calls_def emit_def warn_def)

lemma same_calls_ok: "same_calls s s' \<Longrightarrow> ws_ok s \<Longrightarrow> ws_ok s'"
  by (auto simp: same_calls_def ws_ok_def current_session_def)

lemma every_result [intro]:
  "(\<And>x. m = Some x \<Longrightarrow> pred_option P (f x)) \<Longrightarrow> pred_option P (m \<bind> f)"
  "(b \<Longrightarrow> pred_option P t) \<Longrightarrow> (\<not> b \<Longrightarrow> pred_option P e) \<Longrightarrow> pred_option P (if b then t else e)"
  "(m = None \<Longrightarrow> pred_option P t) \<Longrightarrow> (\<And>y. m = Some y \<Longrightarrow> pred_option P (g y))
     \<Longrightarrow> pred_option P (case m of None \<Rightarrow> t | Some y \<Rightarrow> g y)"
  by (cases m; simp) (cases m; simp)+

lemma handle_user_event_same: "pred_option (same_calls s) (handle_user_event ev s)"
  unfolding handle_user_event_def by (intro every_result) (simp_all only: option.pred_inject same_calls_simps)

lemma dispatch_event_same: "pred_option (same_calls s) (dispatch_event ev s)"
  unfolding dispatch_event_def
  by (intro every_result) (simp_all only: option.pred_inject same_calls_simps handle_user_event_same)

lemma dispatch_cases:
  assumes "dispatch_message env msg s = Some (b, s')"
  obtains "same_calls s s'" "\<not> b"
  | i frame where "we_parse env msg = Some frame" "frame_id frame = Some i" "i \<in> wc_pending s" "b" "(True, s') = deliver i frame s"
proof (cases "we_parse env msg")
  case None
  then show ?thesis using assms that(1) by (auto simp: dispatch_message_def)
next
  case (Some frame)
  note parsed = this
  show ?thesis
  proof (cases frame)
    case (JObj kvs)
    show ?thesis
    proof (cases "event_of frame")
      case None
      note no_event = this
      show ?thesis
      proof (cases "frame_id frame")
        case None
        then have "s' = warn (''unrecognized venue frame skipped: '' @ msg) s" "\<not> b"
          using assms parsed JObj no_event by (simp_all add: dispatch_message_def)
        then show ?thesis using that(1) by simp
      next
        case (Some i)
        then have answer: "(b, s') = deliver i frame s"
          using assms parsed JObj no_event by (simp add: dispatch_message_def)
        show ?thesis
        proof (cases "i \<in> wc_pending s")
          case True
          then show ?thesis using that(2) [OF parsed Some] answer by (simp add: deliver_def)
        next
          case False
          then show ?thesis using that(1) answer by (simp add: deliver_def)
        qed
      qed
    next
      case (Some ev)
      then have "dispatch_event ev s = Some s'" "\<not> b" using assms parsed JObj by (auto simp: dispatch_message_def)
      then show ?thesis using that(1) dispatch_event_same [of s ev] by simp
    qed
  qed (use assms that(1) parsed in \<open>auto simp: dispatch_message_def\<close>)
qed

lemma ws_ok_fresh: "ws_ok fresh_client"
  by (simp add: ws_ok_def fresh_client_def entry_ok_def)

text \<open>Every action keeps every entry.\<close>

lemmas entry_simps = entry_ok_def slot_ok_def decided_def current_session_def

abbreviation entry_ok_at :: "ws_client \<Rightarrow> int \<Rightarrow> bool" where
  "entry_ok_at s i \<equiv> entry_ok (current_session s) (wc_next_id s \<le> i) (i \<in> wc_pending s) (wc_slots s i) (wc_calls s i)"

lemma ws_ok_step:
  assumes "ws_ok s" "\<And>i. entry_ok_at s i \<Longrightarrow> entry_ok_at s' i" "wc_client s' \<Longrightarrow> wc_client s \<or> wc_in_session s'"
    "wc_in_session s \<Longrightarrow> wc_client s' \<Longrightarrow> wc_in_session s'"
  shows "ws_ok s'"
  using assms unfolding ws_ok_def by blast

lemma register_pending_ok: "ws_ok s \<Longrightarrow> ws_ok (snd (register_pending s))"
  by (erule ws_ok_step) (auto simp: register_pending_def Let_def entry_simps split: option.splits)

lemma call_begin_ok: "ws_ok s \<Longrightarrow> ws_ok (call_begin meth params s)"
  by (erule ws_ok_step) (auto simp: register_pending_def call_begin_def Let_def entry_simps split: option.splits)

lemma erase_ok:
  assumes "ws_ok s" "wc_calls s i = None"
  shows "ws_ok (erase_pending i s)"
proof (rule ws_ok_step [OF assms(1)])
  show "entry_ok_at (erase_pending i s) j" if "entry_ok_at s j" for j
    by (cases "j = i") (use that assms(2) in \<open>auto simp: erase_pending_def entry_simps split: option.splits\<close>)
qed (auto simp: erase_pending_def)

lemma return_ok:
  assumes "ws_ok s" "wc_slots s i = Some p"
  shows "ws_ok (set_phase i c (Returned r) (erase_pending i s))"
  by (rule ws_ok_step [OF assms(1)]) (use assms(2) in \<open>auto simp: erase_pending_def set_phase_def entry_simps split: option.splits\<close>)

lemma sent_ok:
  assumes "ws_ok s" "wc_client s" "wc_calls s i = Some c" "cl_phase c = Registered"
  shows "ws_ok (set_phase i c (Waiting (wc_session s)) s)"
proof (rule ws_ok_step [OF assms(1)])
  have "wc_in_session s" using assms(1,2) by (simp add: ws_ok_def)
  then show "entry_ok_at (set_phase i c (Waiting (wc_session s)) s) j" if "entry_ok_at s j" for j
    using that assms(3,4) by (auto simp: set_phase_def entry_simps split: option.splits)
qed (auto simp: set_phase_def)

lemma phase_ok_weaken:
  "phase_ok sess reg p ph \<Longrightarrow> decided p' \<Longrightarrow> phase_ok sess' False p' ph"
  "phase_ok None reg p ph \<Longrightarrow> phase_ok sess' reg p ph"
  "phase_ok sess False p ph \<Longrightarrow> phase_ok sess' False p ph"
  by (cases ph; simp)+

lemma deliver_ok:
  assumes "ws_ok s" "i \<in> wc_pending s"
  shows "ws_ok (snd (deliver i frame s))"
proof (rule ws_ok_step [OF assms(1)])
  show "entry_ok_at (snd (deliver i frame s)) j" if "entry_ok_at s j" for j
    by (cases "j = i") (use that assms(2) in \<open>auto simp: deliver_def entry_simps phase_ok_weaken(1) split: option.splits\<close>)
qed (use assms(2) in \<open>auto simp: deliver_def\<close>)

lemma fail_all_ok:
  assumes "ws_ok s" "\<not> wc_client s"
  shows "ws_ok ((fail_all_pending s)\<lparr>wc_in_session := False\<rparr>)"
proof (rule ws_ok_step [OF assms(1)])
  show "entry_ok_at ((fail_all_pending s)\<lparr>wc_in_session := False\<rparr>) j" if "entry_ok_at s j" for j
    by (cases "j \<in> wc_pending s"; cases "wc_slots s j"; cases "wc_calls s j")
      (use that in \<open>auto simp: fail_all_pending_def entry_simps phase_ok_weaken(1) elim!: phase_ok_weaken(3)\<close>)
qed (use assms(2) in \<open>auto simp: fail_all_pending_def\<close>)

lemma open_ok:
  assumes "ws_ok s" "\<not> wc_in_session s"
  shows "ws_ok (session_open url s)"
  by (rule ws_ok_step [OF assms(1)])
    (use assms(2) in \<open>auto simp: session_open_def emit_def entry_simps phase_ok_weaken(2) split: option.splits\<close>)

lemma ws_act_ok:
  assumes "ws_ok s" "ws_act env a s = Some s'"
  shows "ws_ok s'"
proof (cases a)
  case (CallSend i ok)
  then show ?thesis using assms return_ok sent_ok
    by (auto simp: call_send_def with_call_def bind_eq_Some_conv split: if_splits)
next
  case (CallTimeout i)
  then show ?thesis using assms return_ok
    by (auto simp: call_timeout_def with_call_def bind_eq_Some_conv split: if_splits)
next
  case (CallWake i)
  then show ?thesis using assms return_ok
    by (auto simp: call_wake_def with_call_def bind_eq_Some_conv split: if_splits)
next
  case (SessionDispatch msg)
  then obtain b where "dispatch_message env msg s = Some (b, s')" using assms(2) by (auto split: if_splits)
  then show ?thesis
  proof (cases rule: dispatch_cases)
    case 1
    then show ?thesis using same_calls_ok assms(1) by blast
  next
    case (2 i frame)
    then show ?thesis using deliver_ok [OF assms(1) 2(3), of frame] by (metis snd_conv)
  qed
next
  case SessionNumber
  then show ?thesis using assms(2) by (auto intro!: ws_ok_step [OF assms(1)] simp: entry_simps split: option.splits)
next
  case SessionClose
  then show ?thesis using assms(2) by (auto intro!: ws_ok_step [OF assms(1)] simp: entry_simps split: option.splits)
next
  case FailAll
  then show ?thesis using assms fail_all_ok by (auto split: if_splits)
qed (use assms same_calls_ok [OF same_calls_simps(2)] same_calls_ok [OF same_calls_simps(6)]
       call_begin_ok register_pending_ok erase_ok open_ok in \<open>auto split: if_splits\<close>)

lemma ws_reach_ok: "ws_reach env tr s \<Longrightarrow> ws_ok s"
  by (induction rule: ws_reach.induct) (auto simp: ws_ok_fresh ws_act_ok)

section \<open>Answers are correlated by request number\<close>

text \<open>The frame \<open>frame\<close> was read with the number \<open>i\<close> while \<open>i\<close> was registered.\<close>

definition answered :: "ws_env \<Rightarrow> ws_action list \<Rightarrow> int \<Rightarrow> json \<Rightarrow> bool" where
  "answered env tr i frame \<longleftrightarrow>
     (\<exists>before msg later s. tr = before @ SessionDispatch msg # later \<and> ws_reach env before s \<and> i \<in> wc_pending s
        \<and> we_parse env msg = Some frame \<and> frame_id frame = Some i)"

lemma answered_later: "answered env tr i frame \<Longrightarrow> answered env (tr @ [a]) i frame"
  by (fastforce simp: answered_def)

lemma answered_now:
  "ws_reach env tr s \<Longrightarrow> i \<in> wc_pending s \<Longrightarrow> we_parse env msg = Some frame \<Longrightarrow> frame_id frame = Some i
     \<Longrightarrow> answered env (tr @ [SessionDispatch msg]) i frame"
  by (fastforce simp: answered_def)

text \<open>An action changes a slot by creating it, by delivering to it, or by failing it.\<close>

lemma ws_act_response:
  assumes "ws_act env a s = Some s'" "wc_slots s' i = Some p'" "pd_response p' = Some frame"
  shows "(\<exists>p. wc_slots s i = Some p \<and> pd_response p = Some frame)
    \<or> (\<exists>msg. a = SessionDispatch msg \<and> we_parse env msg = Some frame \<and> frame_id frame = Some i \<and> i \<in> wc_pending s)"
proof (cases a)
  case (SessionDispatch msg)
  then obtain b where "dispatch_message env msg s = Some (b, s')" using assms(1) by (auto split: if_splits)
  then show ?thesis
  proof (cases rule: dispatch_cases)
    case 1
    then show ?thesis using assms(2,3) by (auto simp: same_calls_def)
  next
    case (2 j fr)
    then show ?thesis using assms(2,3) SessionDispatch
      by (cases "i = j") (auto simp: deliver_def split: if_splits)
  qed
next
  case (CallSend j ok)
  then show ?thesis using assms
    by (auto simp: call_send_def with_call_def set_phase_def erase_pending_def bind_eq_Some_conv split: if_splits)
next
  case (CallTimeout j)
  then show ?thesis using assms
    by (auto simp: call_timeout_def with_call_def set_phase_def erase_pending_def bind_eq_Some_conv split: if_splits)
next
  case (CallWake j)
  then show ?thesis using assms
    by (auto simp: call_wake_def with_call_def set_phase_def erase_pending_def bind_eq_Some_conv split: if_splits)
qed (use assms in \<open>auto simp: call_begin_def register_pending_def Let_def session_open_def emit_def erase_pending_def
       fail_all_pending_def split: if_splits\<close>)

lemma ws_reach_answered:
  assumes "ws_reach env tr s" "wc_slots s i = Some p" "pd_response p = Some frame"
  shows "answered env tr i frame"
  using assms
proof (induction arbitrary: p rule: ws_reach.induct)
  case start
  then show ?case by (simp add: fresh_client_def)
next
  case (act tr s a s')
  show ?case using ws_act_response [OF act(2,4,5)] act.IH answered_later answered_now [OF act(1)] by blast
qed

text \<open>How a call that has returned got its result.\<close>

definition result_ok :: "ws_env \<Rightarrow> ws_action list \<Rightarrow> int \<Rightarrow> json result option \<Rightarrow> bool" where
  "result_ok env tr i r \<longleftrightarrow>
     (\<exists>m. r = Some (Inl (Error ''transport'' m)))
   \<or> (\<exists>frame. answered env tr i frame \<and> r = judge_response (we_dump env) frame)"

definition returned :: "ws_client \<Rightarrow> int \<Rightarrow> json result option \<Rightarrow> bool" where
  "returned s i r \<longleftrightarrow> (\<exists>c. wc_calls s i = Some c \<and> cl_phase c = Returned r)"

lemma ws_act_returned:
  assumes "ws_act env a s = Some s'" "returned s' i r"
  shows "returned s i r \<or> (\<exists>m. r = Some (Inl (Error ''transport'' m)))
    \<or> (\<exists>p meth. wc_slots s i = Some p \<and> decided p \<and> r = call_result (we_dump env) meth p)"
proof (cases a)
  case (SessionDispatch msg)
  then obtain b where "dispatch_message env msg s = Some (b, s')" using assms(1) by (auto split: if_splits)
  then have "wc_calls s' = wc_calls s"
    by (cases rule: dispatch_cases) (auto simp: same_calls_def deliver_def split: if_splits)
  then show ?thesis using assms(2) by (simp add: returned_def)
next
  case (CallSend j ok)
  then show ?thesis using assms
    by (auto simp: returned_def call_send_def with_call_def set_phase_def erase_pending_def send_failed_error_def bind_eq_Some_conv
        split: if_splits)
next
  case (CallTimeout j)
  then show ?thesis using assms
    by (auto simp: returned_def call_timeout_def with_call_def set_phase_def erase_pending_def timed_out_error_def bind_eq_Some_conv
        split: if_splits)
next
  case (CallWake j)
  then show ?thesis using assms
    by (fastforce simp: returned_def call_wake_def with_call_def set_phase_def erase_pending_def bind_eq_Some_conv split: if_splits)
qed (use assms in \<open>auto simp: returned_def call_begin_def register_pending_def Let_def session_open_def emit_def erase_pending_def
       fail_all_pending_def split: if_splits\<close>)

lemma ws_reach_results:
  assumes "ws_reach env tr s" "returned s i r"
  shows "result_ok env tr i r"
  using assms
proof (induction rule: ws_reach.induct)
  case start
  then show ?case by (simp add: fresh_client_def returned_def)
next
  case (act tr s a s')
  from ws_act_returned [OF act(2,4)] show ?case
  proof (elim disjE exE conjE)
    assume "returned s i r"
    then show ?thesis using act.IH answered_later unfolding result_ok_def by blast
  next
    fix p meth assume p: "wc_slots s i = Some p" "decided p" "r = call_result (we_dump env) meth p"
    show ?thesis
    proof (cases "pd_failed p")
      case True
      then show ?thesis using p(3) by (simp add: result_ok_def call_result_def connection_lost_error_def)
    next
      case False
      then obtain frame where "pd_response p = Some frame" using p(2) by (auto simp: decided_def)
      then show ?thesis using p False answered_later [OF ws_reach_answered [OF act(1) p(1)]]
        by (auto simp: result_ok_def call_result_def)
    qed
  qed (simp add: result_ok_def)
qed

text \<open>C7. A caller never gets an answer that was meant for another request. Whatever the interleaving
  of callers, supervisor and venue, a call that has returned either reports a transport error
  (the outcome is unknown) or the verdict on a frame that carried exactly its request number
  and was read while the call was registered.\<close>

theorem answers_are_correlated:
  assumes "ws_reach env tr s" "wc_calls s i = Some c" "cl_phase c = Returned r"
  shows "(\<exists>m. r = Some (Inl (Error ''transport'' m)))
    \<or> (\<exists>before msg later s1 frame. tr = before @ SessionDispatch msg # later \<and> ws_reach env before s1 \<and> i \<in> wc_pending s1
        \<and> we_parse env msg = Some frame \<and> frame_id frame = Some i \<and> r = judge_response (we_dump env) frame)"
proof -
  have "returned s i r" using assms(2,3) by (auto simp: returned_def)
  from ws_reach_results [OF assms(1) this] show ?thesis unfolding result_ok_def answered_def by blast
qed

definition run_actions :: "ws_env \<Rightarrow> ws_action list \<Rightarrow> ws_client \<Rightarrow> ws_client option" where
  "run_actions env tr s = fold (\<lambda>a r. Option.bind r (ws_act env a)) tr (Some s)"

lemma ws_reach_run:
  assumes "ws_reach env tr s" "run_actions env tr' s = Some s'"
  shows "ws_reach env (tr @ tr') s'"
proof -
  have "\<exists>s0. r = Some s0" if "fold (\<lambda>a r. Option.bind r (ws_act env a)) tr' r = Some s'" for r tr'
    using that by (induction tr' arbitrary: r) (auto, metis bind_eq_Some_conv)
  then show ?thesis
    using assms
  proof (induction tr' arbitrary: tr s)
    case (Cons a tr')
    then obtain s1 where s1: "ws_act env a s = Some s1" by (fastforce simp: run_actions_def)
    from Cons.IH [of "tr @ [a]" s1] Cons.prems s1 show ?case
      by (simp add: run_actions_def ws_reach.act)
  qed (simp add: run_actions_def)
qed

text \<open>Two requests are open on one connection, and the answers come in the other order.\<close>

definition demo_reply :: "int \<Rightarrow> json" where
  "demo_reply i = JObj [(''id'', JInt i), (''result'', JInt i), (''status'', JUInt 200)]"

definition demo_ws_env :: ws_env where
  "demo_ws_env = \<lparr>we_parse = (\<lambda>m. if m = ''one'' then Some (demo_reply 1) else if m = ''two'' then Some (demo_reply 2) else None),
     we_dump = (\<lambda>_. []), we_hmac = (\<lambda>_ _. None)\<rparr>"

definition demo_calls :: "ws_action list" where
  "demo_calls = [SessionOpen ''u'', CallBegin ''order.place'' (JObj []), CallBegin ''order.status'' (JObj []), CallSend 2 True,
     CallSend 1 True, SessionDispatch ''two'', SessionDispatch ''one'', CallWake 1, CallWake 2]"

lemmas act_simps = run_actions_def fresh_client_def call_begin_def register_pending_def call_send_def with_call_def set_phase_def
  erase_pending_def call_wake_def call_timeout_def is_waiting_def decided_def session_open_def emit_def dispatch_message_def
  deliver_def event_of_def frame_id_def as_long_def call_result_def judge_response_def fail_all_pending_def

theorem answers_are_correlated_witness:
  "\<exists>s c. run_actions demo_ws_env demo_calls fresh_client = Some s \<and> wc_calls s 1 = Some c
     \<and> cl_phase c = Returned (Some (Inr (JInt 1))) \<and> (\<exists>before msg later s1 frame. demo_calls = before @ SessionDispatch msg # later
         \<and> ws_reach demo_ws_env before s1 \<and> 1 \<in> wc_pending s1 \<and> we_parse demo_ws_env msg = Some frame \<and> frame_id frame = Some 1)"
proof -
  obtain s c where run: "run_actions demo_ws_env demo_calls fresh_client = Some s" "wc_calls s 1 = Some c"
    "cl_phase c = Returned (Some (Inr (JInt 1)))"
    by (simp add: act_simps demo_calls_def demo_ws_env_def demo_reply_def wrap32_def wrap64_def Let_def)
  have "ws_reach demo_ws_env demo_calls s" using ws_reach_run [OF ws_reach.start run(1)] by simp
  from answers_are_correlated [OF this run(2,3)] run show ?thesis by blast
qed

text \<open>C8. No caller is left behind. In every reachable state a call that has not returned can return by
  its own next step (its send fails, its deadline passes, or it wakes up); and as soon as the
  supervisor has left the session, through \<open>close\<close> and \<open>fail_all_pending\<close>, every call that was
  waiting for an answer wakes up, without its deadline being reached. In particular a call only
  ever waits on the connection it was sent on.\<close>

theorem callers_are_released:
  assumes "ws_reach env tr s" "wc_calls s i = Some c" "\<And>r. cl_phase c \<noteq> Returned r"
  shows "(\<exists>a s' r. a \<in> {CallSend i False, CallTimeout i, CallWake i} \<and> ws_act env a s = Some s' \<and> returned s' i r)
    \<and> (\<exists>s' s'' r. run_actions env [SessionClose, FailAll] s = Some s' \<and> \<not> wc_in_session s'
        \<and> ws_act env (if cl_phase c = Registered then CallSend i False else CallWake i) s' = Some s'' \<and> returned s'' i r)
    \<and> (\<forall>n p. cl_phase c = Waiting n \<longrightarrow> wc_slots s i = Some p \<longrightarrow> \<not> decided p \<longrightarrow> current_session s = Some n)"
proof -
  have ok: "entry_ok_at s i" using ws_reach_ok [OF assms(1)] by (simp add: ws_ok_def)
  then obtain p where p: "wc_slots s i = Some p" "phase_ok (current_session s) (i \<in> wc_pending s) p (cl_phase c)"
    using assms(2) by (auto simp: entry_ok_def split: option.splits)
  have 1: "\<exists>a s' r. a \<in> {CallSend i False, CallTimeout i, CallWake i} \<and> ws_act env a s = Some s' \<and> returned s' i r"
  proof (cases "cl_phase c")
    case Registered
    then show ?thesis using assms(2) p(1)
      by (intro exI [of _ "CallSend i False"]) (auto simp: call_send_def with_call_def returned_def set_phase_def erase_pending_def)
  next
    case (Waiting n)
    then show ?thesis using assms(2) p(1)
      by (intro exI [of _ "if decided p then CallWake i else CallTimeout i"])
        (auto simp: call_wake_def call_timeout_def is_waiting_def with_call_def returned_def set_phase_def erase_pending_def)
  qed (use assms(3) in simp)
  define s1 where "s1 = (fail_all_pending (s\<lparr>wc_client := False\<rparr>))\<lparr>wc_in_session := False\<rparr>"
  have s1: "run_actions env [SessionClose, FailAll] s = Some s1" by (simp add: run_actions_def s1_def)
  obtain p1 where p1: "wc_calls s1 i = Some c" "wc_slots s1 i = Some p1" "cl_phase c \<noteq> Registered \<Longrightarrow> decided p1"
    using assms(2) p assms(3)
    by (cases "cl_phase c"; cases "i \<in> wc_pending s") (auto simp: s1_def fail_all_pending_def decided_def)
  have 2: "\<exists>s'' r. ws_act env (if cl_phase c = Registered then CallSend i False else CallWake i) s1 = Some s'' \<and> returned s'' i r"
    using p1 assms(3)
    by (cases "cl_phase c")
      (auto simp: call_send_def call_wake_def is_waiting_def with_call_def returned_def set_phase_def erase_pending_def)
  have 3: "\<forall>n p. cl_phase c = Waiting n \<longrightarrow> wc_slots s i = Some p \<longrightarrow> \<not> decided p \<longrightarrow> current_session s = Some n"
    using p by auto
  have "\<not> wc_in_session s1" by (simp add: s1_def)
  with 1 2 3 s1 show ?thesis by blast
qed

definition demo_open_call :: "ws_action list" where
  "demo_open_call = [SessionOpen ''u'', CallBegin ''order.place'' (JObj []), CallSend 1 True]"

theorem callers_are_released_witness:
  "\<exists>s c s' s'' r. run_actions demo_ws_env demo_open_call fresh_client = Some s \<and> wc_calls s 1 = Some c \<and> cl_phase c = Waiting 1
     \<and> run_actions demo_ws_env [SessionClose, FailAll] s = Some s' \<and> ws_act demo_ws_env (CallWake 1) s' = Some s'' \<and> returned s'' 1 r"
proof -
  obtain s c where run: "run_actions demo_ws_env demo_open_call fresh_client = Some s" "wc_calls s 1 = Some c" "cl_phase c = Waiting 1"
    by (simp add: act_simps demo_open_call_def Let_def)
  have "ws_reach demo_ws_env demo_open_call s" using ws_reach_run [OF ws_reach.start run(1)] by simp
  from callers_are_released [OF this run(2)] run show ?thesis by fastforce
qed

end
