(* ===== verification/Exchange_Connector.thy ===== *)
theory Exchange_Connector
  imports OKX_Connector Binance_Signed Binance_Calls Rest_Support
begin

text \<open>
  The interface every venue adapter implements, \<open>ExchangeConnector\<close> of
  \<^verbatim>\<open>include/gateway/exchange_connector.hpp\<close>: its synchronous operations as a record, the two adapters
  as values of it the way their constructors wire them, and the vocabulary of errors the interface
  documents (\<open>transport\<close>, \<open>protocol\<close>, \<open>venue:<code>\<close>) as a contract that both keep. (Handlers,
  \<open>start\<close> and \<open>stop\<close> are in \<open>Connector_Lifecycle\<close>.)
\<close>

section \<open>The interface and its implementations\<close>

record 'v exchange_connector =
  ec_place_order :: "order_request \<Rightarrow> 'v \<Rightarrow> order_placement result \<times> 'v"
  ec_cancel_order :: "cancel_request \<Rightarrow> 'v \<Rightarrow> order_placement result \<times> 'v"
  ec_amend_order :: "amend_request \<Rightarrow> 'v \<Rightarrow> order_placement result \<times> 'v"
  ec_get_order :: "order_query \<Rightarrow> 'v \<Rightarrow> order_snapshot option result \<times> 'v"
  ec_get_open_orders :: "'v \<Rightarrow> order_snapshot list result \<times> 'v"
  ec_get_price :: "string \<Rightarrow> 'v \<Rightarrow> string result \<times> 'v"

definition okx_exchange_connector :: "'w okx_env \<Rightarrow> okx_config \<Rightarrow> 'w retry_clock \<Rightarrow> 'w exchange_connector" where
  "okx_exchange_connector env cfg clk =
     \<lparr>ec_place_order = connector_place (rest_client env cfg) (ok_retry cfg) clk,
      ec_cancel_order = connector_cancel (rest_client env cfg) (ok_retry cfg) clk,
      ec_amend_order = connector_amend (rest_client env cfg) (ok_retry cfg) clk,
      ec_get_order = connector_get_order (rest_client env cfg) (ok_retry cfg) clk,
      ec_get_open_orders = connector_get_open_orders env cfg clk,
      ec_get_price = connector_get_price env cfg clk\<rparr>"

text \<open>Orders go out signed, public market data unsigned on the same session.\<close>

definition binance_exchange_connector :: "hmac \<Rightarrow> (json \<Rightarrow> string) \<Rightarrow> binance_config \<Rightarrow> 'w ws_port \<Rightarrow> 'w retry_clock
    \<Rightarrow> ('w \<times> symbol_translator) exchange_connector" where
  "binance_exchange_connector mac dump cfg port clk =
     (let signed = call_signed mac dump cfg port; api = binance_api_of signed
      in \<lparr>ec_place_order = binance_place_order api (bn_retry cfg) clk,
          ec_cancel_order = binance_cancel_order api (bn_retry cfg) clk,
          ec_amend_order = binance_amend_order api (bn_retry cfg) clk,
          ec_get_order = binance_get_order api (bn_retry cfg) clk,
          ec_get_open_orders = binance_get_open_orders signed (bn_retry cfg) clk,
          ec_get_price = binance_get_price (Some (wp_call port)) (bn_retry cfg) clk\<rparr>)"

section \<open>The vocabulary of errors\<close>

definition result_classed :: "'a result \<Rightarrow> bool" where
  "result_classed res = (case res of Inl e \<Rightarrow> error_class e | Inr _ \<Rightarrow> True)"

definition classed :: "('w \<Rightarrow> 'a result \<times> 'w) \<Rightarrow> bool" where
  "classed f \<longleftrightarrow> (\<forall>w. result_classed (fst (f w)))"

lemma result_classed_simps [simp]:
  "result_classed (Inr x)" "result_classed (Inl e) = error_class e" "error_class (Error ''transport'' m)" "error_class (Error ''protocol'' m)"
  "error_class (Error (''venue:'' @ c) m)"
  by (simp_all add: result_classed_def error_class_def starts_with_def)

text \<open>The contract of the interface.\<close>

locale exchange_interface =
  fixes con :: "'v exchange_connector" and usable :: bool
  assumes place_classed: "usable \<Longrightarrow> classed (ec_place_order con r)"
    and cancel_classed: "usable \<Longrightarrow> classed (ec_cancel_order con cr)"
    and amend_classed: "usable \<Longrightarrow> classed (ec_amend_order con ar)"
    and get_classed: "usable \<Longrightarrow> classed (ec_get_order con q)"
    and open_orders_classed: "usable \<Longrightarrow> classed (ec_get_open_orders con)"
    and price_classed: "usable \<Longrightarrow> classed (ec_get_price con instrument)"

text \<open>The status an error of the vocabulary is answered with.\<close>

definition venue_status :: "error \<Rightarrow> int" where
  "venue_status e = (if code e = ''transport'' then 502 else if code e = ''protocol'' then 500
     else if code e \<in> {''venue:51016'', ''venue:-2013'', ''venue:51603''} then 404 else 409)"

lemma venue_status_mapped:
  assumes "error_class e"
  shows "fst (mapped_error e) = venue_status e"
proof -
  consider "code e = ''transport''" | "code e = ''protocol''" | "starts_with ''venue:'' (code e)"
    using assms by (auto simp: error_class_def)
  then show ?thesis
  proof cases
    case 3
    then have "take (length ''venue:'') (code e) = ''venue:''" by (simp only: starts_with_def)
    then obtain rest where "code e = ''venue:'' @ rest" by (metis append_take_drop_id)
    then show ?thesis by (simp add: mapped_error_def venue_status_def has_prefix_def)
  qed (simp_all add: mapped_error_def venue_status_def has_prefix_def)
qed

definition connector_classed :: "'v exchange_connector \<Rightarrow> bool" where
  "connector_classed con \<longleftrightarrow> (\<forall>r cr ar q instrument. classed (ec_place_order con r) \<and> classed (ec_cancel_order con cr)
     \<and> classed (ec_amend_order con ar) \<and> classed (ec_get_order con q) \<and> classed (ec_get_open_orders con)
     \<and> classed (ec_get_price con instrument))"

context exchange_interface
begin

lemma all_classed: "usable \<Longrightarrow> connector_classed con"
  by (simp add: connector_classed_def place_classed cancel_classed amend_classed get_classed open_orders_classed price_classed)

end

section \<open>Retries and lookups keep it\<close>

lemma classed_retries:
  assumes "classed attempt"
  shows "classed (with_retries policy clk attempt retryable)"
  unfolding classed_def
proof
  fix w
  obtain res w' where run: "with_retries policy clk attempt retryable w = (res, w')" by (rule prod.exhaust)
  have "if 1 \<le> rp_max_attempts policy then result_classed res else res = Inl retry_exhausted \<and> True"
    by (rule with_retries_rule [OF run, where I = "\<lambda>_. True" and Q = "\<lambda>r _. result_classed r"])
      (use assms in \<open>auto simp: classed_def clock_keeps_def dest: spec\<close>, metis fst_conv)
  then show "result_classed (fst (with_retries policy clk attempt retryable w))"
    using run by (auto simp: retry_exhausted_def split: if_splits)
qed

lemma classed_flagged:
  assumes "\<And>flag. classed (\<lambda>w. case attempt (w, flag) of (res, w', _) \<Rightarrow> (res, w'))"
  shows "classed (\<lambda>w. case with_retries policy clk attempt retryable (w, False) of (res, w', _) \<Rightarrow> (res, w'))"
proof -
  have "classed attempt" using assms by (auto simp: classed_def case_prod_beta)
  from classed_retries [OF this] show ?thesis by (simp add: classed_def case_prod_beta)
qed

section \<open>OKX\<close>

lemma judge_reply_classed:
  "result_classed (judge_reply env path (case reply of None \<Rightarrow> Inl (network_failure cfg) | Some r \<Rightarrow> Inr r))"
  using judge_reply_class [of env path cfg reply] by (auto simp: result_classed_def split: sum.splits)

lemma signed_request_classed: "result_classed (fst (signed_request env cfg meth path body w))"
proof -
  obtain t w1 where t: "env_timestamp env w = (t, w1)" by (rule prod.exhaust)
  show ?thesis using judge_reply_classed [where env = env and path = path and cfg = cfg]
    by (auto simp: signed_request_def signed_request_raw_def t Let_def case_prod_beta split: option.splits)
      (metis (mono_tags, lifting) option.simps(4,5))+
qed

lemma first_ack_classed: "result_classed envelope \<Longrightarrow> result_classed (first_ack env what envelope)"
  by (auto simp: first_ack_def split: sum.splits list.splits)

lemma parse_pending_classed: "result_classed (parse_pending dump items)"
  by (induction dump items rule: parse_pending.induct) (auto split: sum.splits)

lemma okx_client_classed:
  "classed (place_order env cfg r1)" "classed (cancel_order env cfg r2)" "classed (amend_order env cfg r3)"
  "classed (get_order env cfg q)" "classed (get_orders_pending env cfg)" "classed (get_ticker env cfg instrument)"
proof -
  show "classed (place_order env cfg r1)" "classed (cancel_order env cfg r2)"
    by (simp_all add: classed_def place_order_def cancel_order_def case_prod_beta first_ack_classed signed_request_classed)
  show "classed (amend_order env cfg r3)"
    by (simp add: classed_def amend_order_def amend_to_json_def case_prod_beta Let_def first_ack_classed signed_request_classed)
  have pass: "result_classed (case fst (signed_request env cfg meth path body w) of Inl e \<Rightarrow> Inl e | Inr j \<Rightarrow> f j)"
    if "\<And>j. result_classed (f j)" for f :: "json \<Rightarrow> 'x result" and meth path body w
    using signed_request_classed [of env cfg meth path body w] that by (auto split: sum.splits)
  show "classed (get_order env cfg q)" "classed (get_orders_pending env cfg)"
    unfolding classed_def get_order_def get_orders_pending_def case_prod_beta fst_conv
    by (intro allI pass; simp add: parse_pending_classed split: list.splits)+
  have envelope: "error_class e" if "parse_envelope env body path = Inl e" for body path e
    using parse_envelope_errors [OF that] by (auto simp: error_class_def)
  have "result_classed (ticker_price env path status body)" for path status body
    by (auto simp: ticker_price_def classify_http_error_class(1) envelope split: sum.splits list.splits option.splits)
  then show "classed (get_ticker env cfg instrument)"
    by (simp add: classed_def get_ticker_def network_failure_def Let_def case_prod_beta split: option.splits)
qed

text \<open>An attempt answers with an error of the client or with one of its own.\<close>

lemma okx_attempts_classed:
  assumes "\<And>r. classed (cl_place_order client r)" "\<And>r. classed (cl_cancel_order client r)" "\<And>r. classed (cl_amend_order client r)"
  shows "classed (place_attempt client r1 policy clk)" "classed (cancel_attempt client r2 policy clk)" "classed (amend_attempt client r3 policy clk)"
proof -
  have own: "error_class (unresolved what i lookup e)" "error_class (Error ''venue:51603'' m)" for what i lookup e m
    by (simp_all add: unresolved_def error_class_def starts_with_def)
  have "result_classed (fst (place_attempt client r1 policy clk (w, flag)))" for w flag
    using assms(1) [of r1] by (auto simp: classed_def place_attempt_def own dest!: spec [of _ w] split: prod.splits sum.splits)
  then show "classed (place_attempt client r1 policy clk)" by (simp add: classed_def)
  have "result_classed (fst (cancel_attempt client r2 policy clk (w, flag)))" for w flag
    using assms(2) [of r2] by (auto simp: classed_def cancel_attempt_def own dest!: spec [of _ w] split: prod.splits sum.splits)
  then show "classed (cancel_attempt client r2 policy clk)" by (simp add: classed_def)
  have "result_classed (fst (amend_attempt client r3 policy clk (w, flag)))" for w flag
    using assms(3) [of r3] by (auto simp: classed_def amend_attempt_def own dest!: spec [of _ w] split: prod.splits sum.splits)
  then show "classed (amend_attempt client r3 policy clk)" by (simp add: classed_def)
qed

lemma ack_to_placement_classed: "result_classed (ack_to_placement ack)"
  by (simp add: ack_to_placement_def error_class_def starts_with_def)

lemma snapshot_answer_classed: "result_classed answer \<Longrightarrow> result_classed (snapshot_answer answer)"
  by (auto simp: snapshot_answer_def to_snapshot_def split: sum.splits option.splits)

text \<open>The end of an operation: an error is handed on, a value is converted.\<close>

lemma classed_then:
  assumes "result_classed (fst x)" "\<And>v. result_classed (f v)"
  shows "result_classed (fst (case x of (Inl e, w) \<Rightarrow> (Inl e, w) | (Inr v, w) \<Rightarrow> (f v, w)))"
  using assms by (cases x) (auto split: sum.splits)

interpretation okx_interface: exchange_interface "okx_exchange_connector env cfg clk" True for env :: "'w okx_env" and cfg clk
proof unfold_locales
  let ?client = "rest_client env cfg"
  have client: "classed (cl_place_order ?client r1)" "classed (cl_cancel_order ?client r2)" "classed (cl_amend_order ?client r3)"
      "classed (cl_get_order ?client q)" for r1 r2 r3 q
    by (simp_all add: rest_client_def okx_client_classed)
  note attempts = okx_attempts_classed [of ?client, OF client(1-3)]
  have engines: "result_classed (fst (resilient_place ?client r1 policy clk w))" "result_classed (fst (resilient_cancel ?client r2 policy clk w))"
      "result_classed (fst (resilient_amend ?client r3 policy clk w))" for r1 r2 r3 policy w
    using classed_retries [OF attempts(1)] classed_retries [OF attempts(2)] classed_retries [OF attempts(3)]
    by (simp_all add: classed_def resilient_place_def resilient_cancel_def resilient_amend_def case_prod_beta)
  show "classed (ec_place_order (okx_exchange_connector env cfg clk) r)" for r
    unfolding classed_def okx_exchange_connector_def exchange_connector.select_convs connector_place_def
    by (intro allI classed_then engines ack_to_placement_classed)
  show "classed (ec_cancel_order (okx_exchange_connector env cfg clk) r)" for r
    unfolding classed_def okx_exchange_connector_def exchange_connector.select_convs connector_cancel_def
    by (intro allI classed_then engines ack_to_placement_classed)
  show "classed (ec_amend_order (okx_exchange_connector env cfg clk) r)" for r
    unfolding classed_def okx_exchange_connector_def exchange_connector.select_convs connector_amend_def
    by (intro allI classed_then engines ack_to_placement_classed)
  show "classed (ec_get_order (okx_exchange_connector env cfg clk) q)" for q
    using client(4) snapshot_answer_classed
    by (auto simp: okx_exchange_connector_def connector_get_order_def classed_def case_prod_beta intro!: classed_retries [unfolded classed_def, rule_format])
  show "classed (ec_get_open_orders (okx_exchange_connector env cfg clk))"
    unfolding classed_def okx_exchange_connector_def exchange_connector.select_convs connector_get_open_orders_def
    by (intro allI classed_then classed_retries [OF okx_client_classed(5), unfolded classed_def, rule_format]) simp
  show "classed (ec_get_price (okx_exchange_connector env cfg clk) instrument)" for instrument
    unfolding okx_exchange_connector_def exchange_connector.select_convs connector_get_price_def
    by (rule classed_retries [OF okx_client_classed(6)])
qed

section \<open>Binance\<close>

text \<open>What the client's \<open>call\<close> returns is in the vocabulary, and signing keeps it.\<close>

definition calls_classed :: "'w raw_call \<Rightarrow> bool" where
  "calls_classed call \<longleftrightarrow> (\<forall>meth params. classed (call meth params))"

lemma judge_response_classed: "judge_response dump frame = Some res \<Longrightarrow> result_classed res"
  by (auto simp: judge_response_def error_class_def starts_with_def Let_def bind_eq_Some_conv split: option.splits if_splits)

lemma returned_classed:
  assumes "ws_reach env tr s" "wc_calls s i = Some c" "cl_phase c = Returned (Some res)"
  shows "result_classed res"
  using ws_reach_results [OF assms(1), of i "Some res"] assms(2,3) judge_response_classed [of "we_dump env" _ res]
  by (auto simp: returned_def result_ok_def dest: sym)

lemma call_signed_classed:
  assumes "calls_classed (wp_call port)"
  shows "calls_classed (call_signed mac dump cfg port)"
proof -
  have "result_classed res" if "wp_call port meth params w = (res, w')" for meth params w res w'
    using assms that by (auto simp: calls_classed_def classed_def) (metis fst_conv)
  then show ?thesis
    by (auto simp: calls_classed_def classed_def call_signed_def sign_now_def skew_unrecoverable_def split: prod.splits sum.splits)
qed

lemma build_params_classed:
  "build_place_params r1 = Inl e \<Longrightarrow> error_class e" "build_cancel_params r2 = Inl e \<Longrightarrow> error_class e"
  "build_cancel_replace_params r3 = Inl e \<Longrightarrow> error_class e"
  by (auto simp: build_place_params_def build_cancel_params_def build_cancel_replace_params_def limit_errors_def require_decimal_def
      error_class_def split: if_splits option.splits)

lemma parse_results_classed:
  "result_classed (binance_parse_info j)" "result_classed (parse_replace_result j)" "result_classed (parse_ticker_price j)"
  by (auto simp: binance_parse_info_def parse_replace_result_def parse_ticker_price_def Let_def split: option.splits sum.splits)

lemma binance_api_classed:
  assumes "calls_classed call"
  shows "classed (api_place call r1)" "classed (api_cancel call r2)" "classed (api_cancel_replace call r3)"
    "classed (api_get_order call q)" "classed (api_get_open_orders call)" "classed (api_get_price (Some call) wire)"
proof -
  have ok: "error_class e" if "call meth params w = (Inl e, w')" for meth params w e w'
    using assms that by (auto simp: calls_classed_def classed_def) (metis fst_conv result_classed_simps(2))
  have parsed: "binance_parse_info j = Inl e \<Longrightarrow> error_class e" "parse_replace_result j = Inl e \<Longrightarrow> error_class e" for j e
    using parse_results_classed(1,2) [of j] by auto
  show "classed (api_place call r1)" "classed (api_cancel call r2)" "classed (api_cancel_replace call r3)"
    by (auto simp: classed_def api_place_def api_cancel_def api_cancel_replace_def ok parsed build_params_classed split: sum.splits prod.splits)
  show "classed (api_get_order call q)"
    by (auto simp: classed_def api_get_order_def ok parsed split: sum.splits prod.splits)
  show "classed (api_get_open_orders call)"
    by (auto simp: classed_def api_get_open_orders_def ok split: sum.splits prod.splits json.splits)
  show "classed (api_get_price (Some call) wire)"
    by (auto simp: classed_def api_get_price_def ok parse_results_classed split: sum.splits prod.splits)
qed

lemma binance_attempts_classed:
  assumes "\<And>r. classed (bapi_place api r)" "\<And>r. classed (bapi_cancel api r)" "\<And>r. classed (bapi_cancel_replace api r)"
  shows "classed (binance_place_attempt api r1 policy clk)" "classed (binance_cancel_attempt api r2 policy clk)"
    "classed (binance_amend_attempt api r3 policy clk)"
proof -
  have own: "error_class (binance_unresolved what i lookup e)" "error_class (Error ''venue:-2011'' m)" "error_class (Error ''venue:-2013'' m)"
    for what i lookup e m by (simp_all add: binance_unresolved_def error_class_def starts_with_def)
  have "result_classed (fst (binance_place_attempt api r1 policy clk (w, flag)))" for w flag
    using assms(1) [of r1] by (auto simp: classed_def binance_place_attempt_def own dest!: spec [of _ w] split: prod.splits sum.splits)
  then show "classed (binance_place_attempt api r1 policy clk)" by (simp add: classed_def)
  have "result_classed (fst (binance_cancel_attempt api r2 policy clk (w, flag)))" for w flag
    using assms(2) [of r2] by (auto simp: classed_def binance_cancel_attempt_def own dest!: spec [of _ w] split: prod.splits sum.splits)
  then show "classed (binance_cancel_attempt api r2 policy clk)" by (simp add: classed_def)
  have "result_classed (fst (binance_amend_attempt api r3 policy clk (w, flag)))" for w flag
    using assms(3) [of r3] by (auto simp: classed_def binance_amend_attempt_def own dest!: spec [of _ w] split: prod.splits sum.splits)
  then show "classed (binance_amend_attempt api r3 policy clk)" by (simp add: classed_def)
qed

lemma placement_from_classed: "result_classed (placement_from ack)"
  by (simp add: placement_from_def)

lemma binance_get_attempt_classed:
  assumes "classed (bapi_get_order api wire)"
  shows "classed (binance_get_order_attempt api wire)"
proof -
  have "error_class e" if "binance_to_snapshot info st = (Inl e, st')" for info st e st'
    using that by (auto simp: binance_to_snapshot_def split: option.splits prod.splits)
  moreover have "error_class e" if "bapi_get_order api wire w = (Inl e, w')" for w e w'
    using assms that by (metis classed_def fst_conv result_classed_simps(2))
  ultimately show ?thesis
    by (auto simp: classed_def binance_get_order_attempt_def split: prod.splits sum.splits option.splits)
qed

interpretation binance_interface: exchange_interface "binance_exchange_connector mac dump cfg port clk" "calls_classed (wp_call port)"
  for mac dump cfg and port :: "'w ws_port" and clk
proof unfold_locales
  assume "calls_classed (wp_call port)"
  note signed = call_signed_classed [OF this, of mac dump cfg]
  note price = binance_api_classed(6) [OF \<open>calls_classed (wp_call port)\<close>]
  let ?api = "binance_api_of (call_signed mac dump cfg port)" and ?con = "binance_exchange_connector mac dump cfg port clk"
  note convs = binance_exchange_connector_def Let_def exchange_connector.select_convs
  have api: "classed (bapi_place ?api r1)" "classed (bapi_cancel ?api r2)" "classed (bapi_cancel_replace ?api r3)"
      "classed (bapi_get_order ?api q)" for r1 r2 r3 q
    by (simp_all add: binance_api_of_def binance_api_classed [OF signed])
  note attempts = binance_attempts_classed [of ?api, OF api(1-3)]
  have engines: "result_classed (fst (binance_resilient_place ?api r1 policy clk w))" "result_classed (fst (binance_resilient_cancel ?api r2 policy clk w))"
      "result_classed (fst (binance_resilient_amend ?api r3 policy clk w))" for r1 r2 r3 policy w
    using classed_retries [OF attempts(1)] classed_retries [OF attempts(2)] classed_retries [OF attempts(3)]
    by (simp_all add: classed_def binance_resilient_place_def binance_resilient_cancel_def binance_resilient_amend_def case_prod_beta)
  have ended: "result_classed (fst (case res of Inl e \<Rightarrow> (Inl e, u) | Inr v \<Rightarrow> (f v, u)))"
    if "result_classed res" "\<And>v. result_classed (f v)" for res :: "'y result" and f :: "'y \<Rightarrow> 'z result" and u :: "'w \<times> symbol_translator"
    using that by (auto split: sum.splits)
  show "classed (ec_place_order ?con r)" for r
    unfolding classed_def convs binance_place_order_def case_prod_beta by (intro allI ended engines placement_from_classed)
  show "classed (ec_cancel_order ?con r)" for r
    unfolding classed_def convs binance_cancel_order_def case_prod_beta by (intro allI ended engines placement_from_classed)
  show "classed (ec_amend_order ?con r)" for r
    unfolding classed_def convs binance_amend_order_def case_prod_beta
    by (auto split: option.splits intro!: ended engines placement_from_classed)
  show "classed (ec_get_order ?con q)" for q
    using classed_retries [OF binance_get_attempt_classed [OF api(4)]]
    unfolding classed_def convs binance_get_order_def case_prod_beta by blast
  show "classed (ec_get_open_orders ?con)"
    using classed_retries [OF binance_api_classed(5) [OF signed]]
    by (auto simp: classed_def convs binance_get_open_orders_def split: prod.splits sum.splits) (metis fst_conv result_classed_simps(2))
  show "classed (ec_get_price ?con instrument)" for instrument
    using classed_retries [OF price] by (simp add: classed_def convs binance_get_price_def case_prod_beta)
qed

section \<open>Properties\<close>

text \<open>C26. The interface speaks one language. Whatever the venues, the network and the clocks do, every error
  that an operation of either connector returns (placing, canceling, amending, looking up, listing,
  pricing) is \<open>transport\<close>, \<open>protocol\<close> or \<open>venue:<code>\<close>, as the interface documents; so the REST layer
  answers it with 502, 500, 404 for an order the venue does not know, or 409, and never blames the
  request. For Binance this rests on the client's \<open>call\<close>, of which the same is shown over all
  interleavings of its threads.\<close>

theorem connector_error_vocabulary:
  assumes "calls_classed (wp_call port)" "ws_reach wenv tr s" "wc_calls s i = Some c" "cl_phase c = Returned (Some res)"
  shows "connector_classed (okx_exchange_connector env cfg clk) \<and> connector_classed (binance_exchange_connector mac dump bcfg port bclk)
    \<and> result_classed res
    \<and> (error_class e \<longrightarrow> fst (mapped_error e) = venue_status e \<and> fst (mapped_error e) \<in> {404, 409, 500, 502})"
proof (intro conjI impI)
  show "connector_classed (okx_exchange_connector env cfg clk)" by (rule okx_interface.all_classed [OF TrueI])
  show "connector_classed (binance_exchange_connector mac dump bcfg port bclk)" by (rule binance_interface.all_classed [OF assms(1)])
  show "result_classed res" by (rule returned_classed [OF assms(2-4)])
  assume "error_class e"
  then show "fst (mapped_error e) = venue_status e" by (rule venue_status_mapped)
  then show "fst (mapped_error e) \<in> {404, 409, 500, 502}" by (simp add: venue_status_def)
qed

text \<open>A port whose venue rejects for the clock, and a call that could not be sent.\<close>

definition demo_unsent :: "ws_action list" where
  "demo_unsent = [SessionOpen ''u'', CallBegin ''order.place'' (JObj []), CallSend 1 False]"

lemma demo_port_classed: "calls_classed (wp_call demo_port)"
  by (auto simp: calls_classed_def classed_def demo_port_def error_class_def starts_with_def)

theorem connector_error_vocabulary_witness:
  "\<exists>s c e. run_actions demo_ws_env demo_unsent fresh_client = Some s \<and> wc_calls s 1 = Some c
     \<and> cl_phase c = Returned (Some (Inl e)) \<and> result_classed (Inl e :: json result) \<and> fst (mapped_error e) = 502
     \<and> connector_classed (okx_exchange_connector demo_okx_env default_okx demo_retry_clock)
     \<and> connector_classed (binance_exchange_connector (\<lambda>_ _. None) (\<lambda>_. []) default_binance demo_port
          \<lparr>rc_now = (\<lambda>w. (w, w)), rc_sleep = (\<lambda>d w. w + d), rc_random01 = (\<lambda>w. (0, w))\<rparr>)"
proof -
  obtain s c e where run: "run_actions demo_ws_env demo_unsent fresh_client = Some s" "wc_calls s 1 = Some c"
      "cl_phase c = Returned (Some (Inl e))" "code e = ''transport''"
    by (simp add: act_simps demo_unsent_def demo_ws_env_def send_failed_error_def Let_def)
  have "ws_reach demo_ws_env demo_unsent s" using ws_reach_run [OF ws_reach.start run(1)] by simp
  note holds = connector_error_vocabulary [OF demo_port_classed this run(2,3)]
  have "error_class e \<Longrightarrow> fst (mapped_error e) = venue_status e" using holds [where e = e] by blast
  moreover have "error_class e" "venue_status e = 502" using run(4) by (simp_all add: error_class_def venue_status_def)
  ultimately have "fst (mapped_error e) = 502" by simp
  with holds run show ?thesis by blast
qed

end
