(* ===== verification/Gateway.thy ===== *)
theory Gateway
  imports OKX_Connector Binance_Connector
begin

text \<open>
  The configuration of the process, \<^verbatim>\<open>src/core/config.cpp\<close>, and the part of \<^verbatim>\<open>apps/gateway_main.cpp\<close>
  that turns it into venue connectors and the order management system. The file system and the
  JSON parser are arguments: \<open>file\<close> is the content of the configuration file, if it can be opened.
\<close>

section \<open>Configuration\<close>

record gateway_config =
  gc_rest_port :: int
  gc_persistence_log :: "string option"
  gc_latency_log :: "string option"
  gc_risk :: risk_config
  gc_default_venue :: string
  gc_audit_interval_ms :: nat
  gc_okx :: json
  gc_binance :: json

definition default_gateway :: gateway_config where
  "default_gateway = \<lparr>gc_rest_port = 8080, gc_persistence_log = None, gc_latency_log = None, gc_risk = empty_risk_config,
     gc_default_venue = ''okx'', gc_audit_interval_ms = 30000, gc_okx = JObj [], gc_binance = JObj []\<rparr>"

definition kMinPort :: int where "kMinPort = 1"
definition kMaxPort :: int where "kMaxPort = 65535"
definition kMaxAuditIntervalMs :: int where "kMaxAuditIntervalMs = 86400000"

text \<open>The sections in the order they are read. An absent section leaves the default.\<close>

definition rest_section :: "json \<Rightarrow> int \<Rightarrow> int result" where
  "rest_section conf dflt =
     (case jfind conf ''rest'' of
        None \<Rightarrow> Inr dflt
      | Some rest \<Rightarrow>
          (case (if is_object rest then jfind rest ''port'' else None) of
             Some (JUInt port) \<Rightarrow>
               if int port < kMinPort \<or> int port > kMaxPort then Inl (Error ''protocol'' ''rest.port is out of range [1, 65535]'')
               else Inr (int port)
           | _ \<Rightarrow> Inl (Error ''protocol'' (''rest section must be an object with unsigned numeric '' @ [quote_char] @ ''port'' @ [quote_char]))))"

definition log_section :: "string \<Rightarrow> json \<Rightarrow> string option result" where
  "log_section nm conf =
     (case jfind conf nm of
        None \<Rightarrow> Inr None
      | Some node \<Rightarrow>
          (case (if is_object node then jfind node ''logPath'' else None) of
             Some (JStr path) \<Rightarrow> Inr (Some path)
           | _ \<Rightarrow> Inl (Error ''protocol'' (nm @ '' section must be an object with string '' @ [quote_char] @ ''logPath'' @ [quote_char]))))"

definition risk_section :: "json \<Rightarrow> risk_config \<Rightarrow> risk_config result" where
  "risk_section conf dflt = (case jfind conf ''risk'' of None \<Rightarrow> Inr dflt | Some node \<Rightarrow> risk_config_from_json node)"

definition venue_section :: "string \<Rightarrow> json \<Rightarrow> json result" where
  "venue_section nm conf =
     (case jfind conf nm of
        None \<Rightarrow> Inr (JObj [])
      | Some node \<Rightarrow>
          if \<not> is_object node then Inl (Error ''protocol'' (nm @ '' section must be a JSON object'')) else Inr node)"

definition default_venue_section :: "json \<Rightarrow> string \<Rightarrow> string result" where
  "default_venue_section conf dflt =
     (case jfind conf ''defaultVenue'' of
        None \<Rightarrow> Inr dflt
      | Some (JStr v) \<Rightarrow> Inr v
      | Some _ \<Rightarrow> Inl (Error ''protocol'' ''defaultVenue must be a string''))"

definition audit_section :: "json \<Rightarrow> nat \<Rightarrow> nat result" where
  "audit_section conf dflt =
     (case jfind conf ''audit'' of
        None \<Rightarrow> Inr dflt
      | Some node \<Rightarrow>
          (case (if is_object node then jfind node ''intervalMs'' else None) of
             Some (JUInt n) \<Rightarrow>
               if int n > kMaxAuditIntervalMs then Inl (Error ''protocol'' ''audit.intervalMs is out of range [0, 86400000]'')
               else Inr n
           | _ \<Rightarrow> Inl (Error ''protocol'' (''audit section must be an object with unsigned numeric '' @ [quote_char] @ ''intervalMs'' @ [quote_char]))))"

definition config_from_root :: "json \<Rightarrow> gateway_config result" where
  "config_from_root conf =
     (let d = default_gateway
      in case rest_section conf (gc_rest_port d) of Inl e \<Rightarrow> Inl e | Inr port \<Rightarrow>
        (case log_section ''persistence'' conf of Inl e \<Rightarrow> Inl e | Inr plog \<Rightarrow>
        (case log_section ''latency'' conf of Inl e \<Rightarrow> Inl e | Inr llog \<Rightarrow>
        (case risk_section conf (gc_risk d) of Inl e \<Rightarrow> Inl e | Inr risk \<Rightarrow>
        (case venue_section ''okx'' conf of Inl e \<Rightarrow> Inl e | Inr okx \<Rightarrow>
        (case venue_section ''binance'' conf of Inl e \<Rightarrow> Inl e | Inr binance \<Rightarrow>
        (case default_venue_section conf (gc_default_venue d) of Inl e \<Rightarrow> Inl e | Inr dv \<Rightarrow>
        (case audit_section conf (gc_audit_interval_ms d) of Inl e \<Rightarrow> Inl e | Inr interval \<Rightarrow>
           Inr \<lparr>gc_rest_port = port, gc_persistence_log = plog, gc_latency_log = llog, gc_risk = risk, gc_default_venue = dv,
                gc_audit_interval_ms = interval, gc_okx = okx, gc_binance = binance\<rparr>))))))))"

definition load_config :: "(string \<Rightarrow> json option) \<Rightarrow> string option \<Rightarrow> string \<Rightarrow> gateway_config result" where
  "load_config parse file path =
     (case file of
        None \<Rightarrow> Inl (Error ''io'' (''cannot open config file: '' @ path))
      | Some text \<Rightarrow> (case parse text of
          None \<Rightarrow> Inl (Error ''protocol'' (''config file is not valid JSON: '' @ path))
        | Some conf \<Rightarrow>
            if \<not> is_object conf then Inl (Error ''protocol'' ''config root must be a JSON object'')
            else config_from_root conf))"

section \<open>The composition root\<close>

record gateway_venues =
  gv_okx :: "okx_config option"
  gv_binance :: "binance_config option"
  gv_default :: string

text \<open>The keys of the map of connectors, in its order.\<close>

definition connector_keys :: "gateway_venues \<Rightarrow> string list" where
  "connector_keys g = (if gv_binance g = None then [] else [''binance'']) @ (if gv_okx g = None then [] else [''okx''])"

definition okx_venue_config :: "gateway_config \<Rightarrow> okx_config option result" where
  "okx_venue_config cfg =
     (if jfind (gc_okx cfg) ''apiKey'' \<noteq> None \<or> members (gc_okx cfg) = [] then
        (case okx_config_from_json (gc_okx cfg) of Inl e \<Rightarrow> Inl e | Inr c \<Rightarrow> Inr (Some c))
      else Inr None)"

definition binance_venue_config :: "gateway_config \<Rightarrow> binance_config option result" where
  "binance_venue_config cfg =
     (if jfind (gc_binance cfg) ''apiKey'' \<noteq> None then
        (case binance_config_from_json (gc_binance cfg) of Inl e \<Rightarrow> Inl e | Inr c \<Rightarrow> Inr (Some c))
      else Inr None)"

text \<open>The start of \<open>main\<close>: \<open>Inl\<close> is the error the process reports before it exits with 1.\<close>

definition configure_venues :: "gateway_config \<Rightarrow> gateway_venues result" where
  "configure_venues cfg =
     (case okx_venue_config cfg of Inl e \<Rightarrow> Inl e | Inr okx \<Rightarrow>
     (case binance_venue_config cfg of Inl e \<Rightarrow> Inl e | Inr binance \<Rightarrow>
        let g = \<lparr>gv_okx = okx, gv_binance = binance, gv_default = gc_default_venue cfg\<rparr>
        in case connector_keys g of
             [] \<Rightarrow> Inl (Error ''no_venue'' ''no venue is configured (need an okx or binance section)'')
           | first # _ \<Rightarrow>
               if gc_default_venue cfg \<in> set (connector_keys g) then Inr g else Inr (g\<lparr>gv_default := first\<rparr>)))"

text \<open>The order management system as \<open>main\<close> constructs it.\<close>

definition gateway_oms :: "gateway_config \<Rightarrow> gateway_venues \<Rightarrow> event_sink option \<Rightarrow> latency_log option \<Rightarrow> oms" where
  "gateway_oms cfg g lg lat = new_oms (connector_keys g) lg (gc_risk cfg) (gv_default g) lat"

text \<open>What \<open>place\<close> reaches under a connector's key.\<close>

definition gateway_place_order :: "(order_request \<Rightarrow> order_placement result) \<Rightarrow> (order_request \<Rightarrow> order_placement result)
    \<Rightarrow> string \<Rightarrow> order_request \<Rightarrow> order_placement result" where
  "gateway_place_order okx binance key r = (if key = ''okx'' then okx r else binance r)"

section \<open>What an accepted configuration guarantees\<close>

lemma read_integer_ok: "read_integer node nm d ok msg = (v, []) \<Longrightarrow> ok d \<Longrightarrow> ok v"
  by (auto simp: read_integer_def split: option.splits json.splits if_splits)

lemma read_string_required: "read_string node nm d True = (v, []) \<Longrightarrow> jfind node nm = Some (JStr v)"
  by (auto simp: read_string_def split: option.splits json.splits)

definition binance_config_ok :: "binance_config \<Rightarrow> bool" where
  "binance_config_ok c \<longleftrightarrow> 1 \<le> bn_port c \<and> bn_port c \<le> 65535 \<and> 0 \<le> bn_recv_window_ms c \<and> bn_recv_window_ms c \<le> 60000
     \<and> 0 < bn_request_timeout_ms c \<and> 1 \<le> bn_ws_ping_interval_s c \<and> bn_ws_ping_interval_s c \<le> 300
     \<and> 1 \<le> bn_ws_max_missed_pongs c \<and> bn_ws_max_missed_pongs c \<le> 100 \<and> policy_ok (bn_retry c)"

lemma binance_config_validated:
  assumes "binance_config_from_json node = Inr c"
  shows "binance_config_ok c" "jfind node ''apiKey'' = Some (JStr (bn_api_key c))"
    "jfind node ''secretKey'' = Some (JStr (bn_secret_key c))"
proof -
  note d = default_binance_def
  have fields: "read_string node ''apiKey'' [] True = (bn_api_key c, [])" "read_string node ''secretKey'' [] True = (bn_secret_key c, [])"
    "read_integer node ''port'' 443 (\<lambda>v. 1 \<le> v \<and> v \<le> 65535) ''port must be an integer in [1, 65535]'' = (bn_port c, [])"
    "read_integer node ''recvWindowMs'' 5000 (\<lambda>v. 0 \<le> v \<and> v \<le> 60000) ''recvWindowMs must be an integer in [0, 60000]'' = (bn_recv_window_ms c, [])"
    "read_integer node ''requestTimeoutMs'' 12000 (\<lambda>v. 0 < v) ''requestTimeoutMs must be a positive integer'' = (bn_request_timeout_ms c, [])"
    "read_integer node ''wsPingIntervalSec'' 20 (\<lambda>v. 1 \<le> v \<and> v \<le> 300) ''wsPingIntervalSec must be an integer in [1, 300]'' = (bn_ws_ping_interval_s c, [])"
    "read_integer node ''wsMaxMissedPongs'' 2 (\<lambda>v. 1 \<le> v \<and> v \<le> 100) ''wsMaxMissedPongs must be an integer in [1, 100]'' = (bn_ws_max_missed_pongs c, [])"
    "binance_retry_section node default_policy = Inr (bn_retry c)"
    using assms by (auto simp: binance_config_from_json_def d Let_def split: if_splits prod.splits sum.splits)
  have "policy_ok (bn_retry c)"
    using fields(8) retry_policy_validity(1) [OF default_policy_ok] default_policy_ok
    by (auto simp: binance_retry_section_def split: option.splits json.splits)
  then show "binance_config_ok c"
    using read_integer_ok [OF fields(3)] read_integer_ok [OF fields(4)] read_integer_ok [OF fields(5)] read_integer_ok [OF fields(6)]
      read_integer_ok [OF fields(7)] by (auto simp: binance_config_ok_def)
  show "jfind node ''apiKey'' = Some (JStr (bn_api_key c))" "jfind node ''secretKey'' = Some (JStr (bn_secret_key c))"
    using read_string_required fields(1,2) by blast+
qed

text \<open>The timings of the OKX configuration, and the credentials of both venues as the file gives them.\<close>

definition okx_config_ok :: "okx_config \<Rightarrow> bool" where
  "okx_config_ok c \<longleftrightarrow> policy_ok (ok_retry c) \<and> ok_connect_timeout_ms c \<in> {1..600000} \<and> ok_read_timeout_ms c \<in> {1..600000}
     \<and> ws_config_ok (ok_ws c)"

definition okx_credentials :: "json \<Rightarrow> okx_config \<Rightarrow> bool" where
  "okx_credentials node c \<longleftrightarrow> string_field node ''apiKey'' = Some (ok_api_key c)
     \<and> string_field node ''secretKey'' = Some (ok_secret_key c) \<and> string_field node ''passphrase'' = Some (ok_passphrase c)"

definition binance_credentials :: "json \<Rightarrow> binance_config \<Rightarrow> bool" where
  "binance_credentials node c \<longleftrightarrow> jfind node ''apiKey'' = Some (JStr (bn_api_key c)) \<and> jfind node ''secretKey'' = Some (JStr (bn_secret_key c))"

lemma okx_config_policy: "okx_config_from_json node = Inr c \<Longrightarrow> policy_ok (ok_retry c) \<and> ws_config_ok (ok_ws c)"
  using okx_config_validated [of node] by simp

lemma venue_section_object: "venue_section nm conf = Inr j \<Longrightarrow> is_object j"
  by (auto simp: venue_section_def split: option.splits if_splits)

lemma risk_section_ok:
  assumes "risk_section conf empty_risk_config = Inr cfg" "limits_for cfg symbol = Some l"
  shows "validated_limits l"
proof (cases "jfind conf ''risk''")
  case None
  with assms have "limits_for empty_risk_config symbol = Some l" by (auto simp: risk_section_def)
  then show ?thesis by (simp add: limits_for_def empty_risk_config_def)
next
  case (Some node)
  with assms show ?thesis using risk_config_validated by (auto simp: risk_section_def)
qed

lemma connector_keys_default [simp]: "connector_keys (g\<lparr>gv_default := v\<rparr>) = connector_keys g"
  by (simp add: connector_keys_def)

definition gateway_config_ok :: "gateway_config \<Rightarrow> bool" where
  "gateway_config_ok cfg \<longleftrightarrow> 1 \<le> gc_rest_port cfg \<and> gc_rest_port cfg \<le> 65535 \<and> int (gc_audit_interval_ms cfg) \<le> 86400000
     \<and> is_object (gc_okx cfg) \<and> is_object (gc_binance cfg) \<and> (\<forall>symbol l. limits_for (gc_risk cfg) symbol = Some l \<longrightarrow> validated_limits l)"

lemma config_from_root_ok:
  assumes "config_from_root conf = Inr cfg"
  shows "gateway_config_ok cfg"
proof -
  have sections: "rest_section conf 8080 = Inr (gc_rest_port cfg)" "risk_section conf empty_risk_config = Inr (gc_risk cfg)"
    "venue_section ''okx'' conf = Inr (gc_okx cfg)" "venue_section ''binance'' conf = Inr (gc_binance cfg)"
    "audit_section conf 30000 = Inr (gc_audit_interval_ms cfg)"
    using assms by (auto simp: config_from_root_def default_gateway_def Let_def split: sum.splits)
  have "1 \<le> gc_rest_port cfg" "gc_rest_port cfg \<le> 65535"
    using sections(1) by (auto simp: rest_section_def kMinPort_def kMaxPort_def split: option.splits json.splits if_splits)
  moreover have "int (gc_audit_interval_ms cfg) \<le> 86400000"
    using sections(5) by (auto simp: audit_section_def kMaxAuditIntervalMs_def split: option.splits json.splits if_splits)
  moreover have "is_object (gc_okx cfg)" "is_object (gc_binance cfg)"
    using sections(3,4) venue_section_object by blast+
  moreover have "limits_for (gc_risk cfg) symbol = Some l \<Longrightarrow> validated_limits l" for symbol l
    using sections(2) by (rule risk_section_ok)
  ultimately show ?thesis by (simp add: gateway_config_ok_def)
qed

lemma configure_venues_ok:
  assumes "configure_venues cfg = Inr g"
  shows "gv_default g \<in> set (connector_keys g)" "gv_okx g = Some c \<Longrightarrow> okx_config_from_json (gc_okx cfg) = Inr c"
    "gv_binance g = Some c' \<Longrightarrow> binance_config_from_json (gc_binance cfg) = Inr c'"
proof -
  obtain okx binance where v: "okx_venue_config cfg = Inr okx" "binance_venue_config cfg = Inr binance"
    using assms by (auto simp: configure_venues_def split: sum.splits)
  let ?g = "\<lparr>gv_okx = okx, gv_binance = binance, gv_default = gc_default_venue cfg\<rparr>"
  obtain k ks where k: "connector_keys ?g = k # ks" using assms v by (auto simp: configure_venues_def Let_def split: list.splits)
  have g: "g = (if gc_default_venue cfg \<in> set (k # ks) then ?g else ?g\<lparr>gv_default := k\<rparr>)"
    using assms v k by (auto simp: configure_venues_def Let_def split: if_splits)
  have "connector_keys g = k # ks" using k unfolding g by (simp only: connector_keys_default split: if_split) simp
  then show "gv_default g \<in> set (connector_keys g)" using g by auto
  show "gv_okx g = Some c \<Longrightarrow> okx_config_from_json (gc_okx cfg) = Inr c"
    using v(1) g by (auto simp: okx_venue_config_def split: if_splits sum.splits)
  show "gv_binance g = Some c' \<Longrightarrow> binance_config_from_json (gc_binance cfg) = Inr c'"
    using v(2) g by (auto simp: binance_venue_config_def split: if_splits sum.splits)
qed

section \<open>Properties\<close>

text \<open>A gateway that gets past its configuration is fit to run: the port, the audit interval and
  every limit that the risk checks will read are valid, at least one venue is connected and
  the default venue is one of them, and both venues have retry policies under which every
  operation returns, credentials, and timings in range.\<close>

lemma configured_gateway_validated:
  assumes "load_config parse file path = Inr cfg" "configure_venues cfg = Inr g"
  shows "gateway_config_ok cfg \<and> connector_keys g \<noteq> [] \<and> gv_default g \<in> set (connector_keys g)
    \<and> o_default_venue (gateway_oms cfg g lg lat) \<in> set (venues (gateway_oms cfg g lg lat))
    \<and> (\<forall>c. gv_okx g = Some c \<longrightarrow> okx_config_ok c \<and> okx_credentials (gc_okx cfg) c)
    \<and> (\<forall>c. gv_binance g = Some c \<longrightarrow> binance_config_ok c \<and> binance_credentials (gc_binance cfg) c)"
proof -
  have "gateway_config_ok cfg"
    using assms(1) config_from_root_ok by (auto simp: load_config_def split: option.splits if_splits)
  moreover have "okx_config_ok c \<and> okx_credentials (gc_okx cfg) c" if "gv_okx g = Some c" for c
    using okx_config_validated [of "gc_okx cfg"] configure_venues_ok(2) [OF assms(2) that]
    by (simp add: okx_config_ok_def okx_credentials_def)
  moreover have "binance_config_ok c \<and> binance_credentials (gc_binance cfg) c" if "gv_binance g = Some c" for c
    using binance_config_validated [OF configure_venues_ok(3) [OF assms(2) that]] by (simp add: binance_credentials_def)
  ultimately show ?thesis
    using configure_venues_ok(1) [OF assms(2)] by (auto simp: gateway_oms_def new_oms_def venues_def)
qed

text \<open>A file with both venues and a default venue that is not configured.\<close>

definition demo_okx_section :: json where
  "demo_okx_section = jobject [(''apiKey'', JStr ''k''), (''secretKey'', JStr ''s''), (''passphrase'', JStr ''p'')]"

definition demo_binance_section :: json where
  "demo_binance_section = jobject [(''apiKey'', JStr ''k''), (''secretKey'', JStr ''s'')]"

definition demo_gateway_file :: json where
  "demo_gateway_file = jobject [(''rest'', jobject [(''port'', JUInt 80)]), (''defaultVenue'', JStr ''kraken''),
     (''okx'', demo_okx_section), (''binance'', demo_binance_section)]"

lemmas demo_section_simps = demo_okx_section_def demo_binance_section_def jfind_jobject Let_def

lemma demo_okx_configured:
  "okx_config_from_json demo_okx_section = Inr (default_okx\<lparr>ok_api_key := ''k'', ok_secret_key := ''s'', ok_passphrase := ''p''\<rparr>)"
  by (simp add: okx_config_from_json_def missing_fields_def string_field_def take_port_def take_bool_def take_ranged_def retry_section_def
      ws_section_def take_string_def default_okx_def demo_section_simps)

lemma demo_binance_configured:
  "binance_config_from_json demo_binance_section = Inr (default_binance\<lparr>bn_api_key := ''k'', bn_secret_key := ''s''\<rparr>)"
  by (simp add: binance_config_from_json_def read_string_def read_integer_def read_boolean_def binance_retry_section_def default_binance_def
      demo_section_simps)

definition demo_gateway_config :: gateway_config where
  "demo_gateway_config = default_gateway\<lparr>gc_rest_port := 80, gc_default_venue := ''kraken'', gc_okx := demo_okx_section,
     gc_binance := demo_binance_section\<rparr>"

lemma demo_gateway_loaded: "load_config (\<lambda>_. Some demo_gateway_file) (Some []) path = Inr demo_gateway_config"
  by (simp add: load_config_def config_from_root_def demo_gateway_file_def rest_section_def log_section_def risk_section_def venue_section_def
      default_venue_section_def audit_section_def kMinPort_def kMaxPort_def default_gateway_def demo_gateway_config_def demo_section_simps)

lemma demo_gateway_venues:
  "configure_venues demo_gateway_config = Inr
     \<lparr>gv_okx = Some (default_okx\<lparr>ok_api_key := ''k'', ok_secret_key := ''s'', ok_passphrase := ''p''\<rparr>),
      gv_binance = Some (default_binance\<lparr>bn_api_key := ''k'', bn_secret_key := ''s''\<rparr>), gv_default = ''binance''\<rparr>"
proof -
  have "jfind demo_okx_section ''apiKey'' \<noteq> None" "jfind demo_binance_section ''apiKey'' \<noteq> None" by (simp_all add: demo_section_simps)
  then show ?thesis
    by (simp add: configure_venues_def okx_venue_config_def binance_venue_config_def connector_keys_def demo_gateway_config_def
        demo_okx_configured demo_binance_configured)
qed

text \<open>A gateway without an \<open>okx\<close> section does not start. An absent section is represented by the
  empty object, which \<open>main\<close> takes for an enabled venue with default parameters; the OKX
  configuration has no default credentials, so it is refused, whatever the \<open>binance\<close> section
  says.\<close>

lemma absent_okx_section_refused:
  assumes "load_config parse file path = Inr cfg" "file = Some text" "parse text = Some conf" "jfind conf ''okx'' = None"
  shows "\<exists>e. configure_venues cfg = Inl e \<and> okx_config_from_json (JObj []) = Inl e \<and> okx_venue_config cfg = Inl e"
proof -
  have "gc_okx cfg = JObj []"
    using assms by (auto simp: load_config_def config_from_root_def venue_section_def Let_def split: if_splits sum.splits)
  moreover obtain e where "okx_config_from_json (JObj []) = Inl e" by (auto simp: okx_config_from_json_def missing_fields_def string_field_def)
  ultimately show ?thesis by (simp add: configure_venues_def okx_venue_config_def)
qed

end
