(* ===== verification/Ws_Feed.thy ===== *)
theory Ws_Feed
  imports Retry
begin

text \<open>
  The supervisor loop the venue feeds share, \<^verbatim>\<open>src/exchange/ws_feed_support.hpp\<close>: one session after
  the other, with an exponential backoff between them that starts over after a healthy session.

  One round of \<open>reconnect_loop\<close> is what the surroundings give it: the session, whether a stop was
  requested by its end, and the random number of the jitter. The rounds end when the loop test
  sees the stop. A session that raises ends the process (\<open>None\<close>).
\<close>

record feed_outcome =
  fo_failure :: string
  fo_healthy :: bool

definition kHealthySessionMs :: int where "kHealthySessionMs = 30000"

record 'w feed_round =
  fr_session :: "'w \<Rightarrow> (feed_outcome \<times> 'w) option"
  fr_stopped :: bool
  fr_u01 :: rat

text \<open>The counter is an \<open>unsigned\<close> and is cast to \<open>int\<close>. The result lists, for every session that
  was followed by a delay, its outcome and the delay in milliseconds.\<close>

definition reconnect_delay :: "retry_policy \<Rightarrow> int \<Rightarrow> rat \<Rightarrow> int" where
  "reconnect_delay policy attempt u01 = apply_jitter policy (backoff_for policy (wrap32 attempt)) u01"

definition next_attempt :: "feed_outcome \<Rightarrow> int \<Rightarrow> int" where
  "next_attempt outcome attempt = ((if fo_healthy outcome then 0 else attempt) + 1) mod 2 ^ 32"

fun reconnect_loop :: "retry_policy \<Rightarrow> (string \<Rightarrow> 'w \<Rightarrow> 'w) \<Rightarrow> int \<Rightarrow> 'w feed_round list \<Rightarrow> 'w
    \<Rightarrow> ((feed_outcome \<times> int) list \<times> 'w) option" where
  "reconnect_loop policy on_disconnected attempt [] w = Some ([], w)"
| "reconnect_loop policy on_disconnected attempt (r # rounds) w =
     (case fr_session r w of
        None \<Rightarrow> None
      | Some (outcome, w1) \<Rightarrow>
          if fr_stopped r then Some ([], w1)
          else let attempt' = next_attempt outcome attempt
               in (case reconnect_loop policy on_disconnected attempt' rounds (on_disconnected (fo_failure outcome) w1) of
                     None \<Rightarrow> None
                   | Some (rest, w2) \<Rightarrow> Some ((outcome, reconnect_delay policy attempt' (fr_u01 r)) # rest, w2)))"

section \<open>The backoff counts the sessions since the last healthy one\<close>

text \<open>The number of sessions at the end of a history that failed in a row, with the healthy session
  before them, if any, as the first.\<close>

definition streak :: "bool list \<Rightarrow> int" where
  "streak hs = int (length (takeWhile Not (rev hs))) + of_bool (True \<in> set hs)"

lemma streak_snoc: "streak (hs @ [h]) = (if h then 1 else streak hs + 1)"
  by (auto simp: streak_def)

lemma streak_le: "streak hs \<le> int (length hs)"
proof (induction hs rule: rev_induct)
  case (snoc h hs)
  then show ?case by (auto simp: streak_snoc)
qed (simp add: streak_def)

lemma streak_nonneg: "0 \<le> streak hs"
  by (simp add: streak_def)

lemma next_attempt_streak:
  assumes "int (length hs) < 2 ^ 31 - 1"
  shows "next_attempt outcome (streak hs) = streak (hs @ [fo_healthy outcome])"
    "wrap32 (streak (hs @ [fo_healthy outcome])) = streak (hs @ [fo_healthy outcome])"
  using assms streak_le [of hs] streak_nonneg [of hs]
  by (auto simp: next_attempt_def streak_snoc wrap32_def)

lemma reconnect_loop_streak:
  assumes "reconnect_loop policy disc (streak hs) rounds w = Some (past, w')" "int (length hs + length rounds) < 2 ^ 31"
    and "n < length past"
  shows "n < length rounds \<and> snd (past ! n) = apply_jitter policy
     (backoff_for policy (streak (hs @ map (fo_healthy \<circ> fst) (take (Suc n) past)))) (fr_u01 (rounds ! n))"
  using assms
proof (induction policy disc "streak hs" rounds w arbitrary: hs past n w' rule: reconnect_loop.induct)
  case (2 policy disc r rounds w)
  obtain outcome w1 where session: "fr_session r w = Some (outcome, w1)" "\<not> fr_stopped r"
    using "2.prems"(1,3) by (auto split: option.splits if_splits)
  let ?hs = "hs @ [fo_healthy outcome]"
  have attempt: "next_attempt outcome (streak hs) = streak ?hs" "wrap32 (streak ?hs) = streak ?hs"
    using next_attempt_streak [of hs outcome] "2.prems"(2) by simp_all
  obtain rest w2 where rest: "reconnect_loop policy disc (streak ?hs) rounds (disc (fo_failure outcome) w1) = Some (rest, w2)"
    "past = (outcome, reconnect_delay policy (streak ?hs) (fr_u01 r)) # rest"
    using "2.prems"(1) session attempt by (auto simp: Let_def split: option.splits)
  show ?case
  proof (cases n)
    case 0
    then show ?thesis using rest(2) attempt(2) by (simp add: reconnect_delay_def)
  next
    case (Suc m)
    have "m < length rounds \<and> snd (rest ! m) = apply_jitter policy
        (backoff_for policy (streak (?hs @ map (fo_healthy \<circ> fst) (take (Suc m) rest)))) (fr_u01 (rounds ! m))"
      by (rule "2.hyps" [OF session(1) refl session(2) attempt(1) [symmetric] rest(1)])
        (use "2.prems"(2,3) Suc rest(2) in simp_all)
    then show ?thesis using Suc rest(2) by simp
  qed
qed simp

section \<open>What a feed keeps\<close>

text \<open>The contract of a feed with its supervisor: its sessions and its disconnect handler keep an
  invariant of the surroundings. Then so does the supervisor, however many sessions it runs.\<close>

locale supervised_feed =
  fixes inv :: "'w \<Rightarrow> bool" and session_of :: "('w \<Rightarrow> (feed_outcome \<times> 'w) option) \<Rightarrow> bool" and on_disconnected :: "string \<Rightarrow> 'w \<Rightarrow> 'w"
  assumes session_keeps: "session_of f \<Longrightarrow> inv w \<Longrightarrow> f w = Some (outcome, w') \<Longrightarrow> inv w'"
    and disconnect_keeps: "inv w \<Longrightarrow> inv (on_disconnected failure w)"
begin

lemma supervisor_keeps:
  assumes "reconnect_loop policy on_disconnected attempt rounds w = Some (past, w')" "inv w"
    and "\<forall>r \<in> set rounds. session_of (fr_session r)"
  shows "inv w'"
  using assms
proof (induction rounds arbitrary: attempt w past)
  case (Cons r rounds)
  obtain outcome w1 where s: "fr_session r w = Some (outcome, w1)" using Cons.prems(1) by (auto split: option.splits)
  have w1: "inv w1" using session_keeps [of "fr_session r", OF _ Cons.prems(2) s] Cons.prems(3) by simp
  show ?case
  proof (cases "fr_stopped r")
    case True
    then show ?thesis using Cons.prems(1) s w1 by simp
  next
    case False
    then obtain rest where "reconnect_loop policy on_disconnected (next_attempt outcome attempt) rounds (on_disconnected (fo_failure outcome) w1)
        = Some (rest, w')"
      using Cons.prems(1) s by (auto simp: Let_def split: option.splits)
    from Cons.IH [OF this disconnect_keeps [OF w1]] show ?thesis using Cons.prems(3) by simp
  qed
qed simp

end

text \<open>C22. The supervisor of a feed waits between sessions for the backoff of the number of sessions since
  the last healthy one: the counter that is reset and incremented in the loop is exactly that
  number (for fewer than \<open>2\<^sup>3\<^sup>1\<close> sessions). So no delay exceeds \<open>max_backoff\<close>, and the delay after a
  healthy session is at most \<open>initial_backoff\<close>, however long the outage before it was.\<close>

theorem reconnect_backoff_restarts:
  assumes "policy_ok policy" "reconnect_loop policy disc 0 rounds w = Some (past, w')"
    and "int (length rounds) < 2 ^ 31" "n < length past"
  shows "snd (past ! n) = apply_jitter policy (backoff_for policy (streak (map (fo_healthy \<circ> fst) (take (Suc n) past)))) (fr_u01 (rounds ! n))
    \<and> 0 \<le> snd (past ! n) \<and> snd (past ! n) \<le> rp_max_backoff policy
    \<and> (fo_healthy (fst (past ! n)) \<longrightarrow> snd (past ! n) \<le> rp_initial_backoff policy)"
proof -
  let ?hs = "map (fo_healthy \<circ> fst) (take (Suc n) past)"
  have delay: "snd (past ! n) = apply_jitter policy (backoff_for policy (streak ?hs)) (fr_u01 (rounds ! n))"
    using reconnect_loop_streak [of policy disc "[]" rounds w past w' n] assms by (simp add: streak_def)
  moreover have "0 \<le> snd (past ! n)" "snd (past ! n) \<le> rp_max_backoff policy"
    using jittered_range [OF assms(1)] backoff_for_range(2) [OF assms(1)] order_trans unfolding delay by blast+
  moreover have "snd (past ! n) \<le> rp_initial_backoff policy" if "fo_healthy (fst (past ! n))"
  proof -
    have "streak ?hs = 1" using that assms(4) by (simp add: take_Suc_conv_app_nth streak_snoc)
    then show ?thesis using jittered_range [OF assms(1)] backoff_for_first [OF assms(1)] unfolding delay by metis
  qed
  ultimately show ?thesis by blast
qed

definition demo_round :: "bool \<Rightarrow> unit feed_round" where
  "demo_round h = \<lparr>fr_session = (\<lambda>w. Some (\<lparr>fo_failure = ''lost'', fo_healthy = h\<rparr>, w)), fr_stopped = False, fr_u01 = 0\<rparr>"

theorem reconnect_backoff_restarts_witness:
  "\<exists>past. reconnect_loop default_policy (\<lambda>_ w. w) 0 [demo_round False, demo_round False, demo_round True] () = Some (past, ())
     \<and> length past = 3 \<and> snd (past ! 2) \<le> 100"
proof -
  obtain past where run: "reconnect_loop default_policy (\<lambda>_ w. w) 0 [demo_round False, demo_round False, demo_round True] () = Some (past, ())"
    "length past = 3" "fo_healthy (fst (past ! 2))"
    by (simp add: demo_round_def Let_def)
  from reconnect_backoff_restarts [OF default_policy_ok run(1), of 2] run show ?thesis
    by (simp add: default_policy_def)
qed

end
