(* ===== verification/Clock.thy ===== *)
theory Clock
  imports Prelude
begin

text \<open>
  Timestamps, \<^verbatim>\<open>src/core/clock.cpp\<close>, as functions of the time the system clock gave, in
  milliseconds since the epoch (which the clock of a running gateway is past). \<open>gmtime_r\<close> of the
  C library is the proleptic Gregorian calendar.
\<close>

record tm =
  tm_year :: nat
  tm_mon :: nat
  tm_mday :: nat
  tm_hour :: nat
  tm_min :: nat
  tm_sec :: nat

definition leap_year :: "nat \<Rightarrow> bool" where
  "leap_year y \<longleftrightarrow> y mod 4 = 0 \<and> (y mod 100 \<noteq> 0 \<or> y mod 400 = 0)"

definition year_days :: "nat \<Rightarrow> nat" where
  "year_days y = (if leap_year y then 366 else 365)"

definition month_days :: "nat \<Rightarrow> nat list" where
  "month_days y = [31, if leap_year y then 29 else 28, 31, 30, 31, 30, 31, 31, 30, 31, 30, 31]"

text \<open>The year and the day within it, the month and the day within it, both counted from zero.\<close>

function split_year :: "nat \<Rightarrow> nat \<Rightarrow> nat \<times> nat" where
  "split_year y d = (if d < year_days y then (y, d) else split_year (y + 1) (d - year_days y))"
  by pat_completeness auto
termination
  by (relation "measure snd") (auto simp: year_days_def)

declare split_year.simps [simp del]

fun split_month :: "nat list \<Rightarrow> nat \<Rightarrow> nat \<Rightarrow> nat \<times> nat" where
  "split_month [] m d = (m, d)"
| "split_month (n # ns) m d = (if d < n then (m, d) else split_month ns (m + 1) (d - n))"

definition gmtime :: "nat \<Rightarrow> tm" where
  "gmtime secs =
     (case split_year 1970 (secs div 86400) of (y, day) \<Rightarrow>
        case split_month (month_days y) 0 day of (m, d) \<Rightarrow>
          \<lparr>tm_year = y, tm_mon = m + 1, tm_mday = d + 1,
           tm_hour = secs mod 86400 div 3600, tm_min = secs mod 3600 div 60, tm_sec = secs mod 60\<rparr>)"

text \<open>\<open>%0nd\<close> of a non-negative number.\<close>

definition zero_padded :: "nat \<Rightarrow> nat \<Rightarrow> string" where
  "zero_padded n v = replicate (n - length (nat_to_string v)) (CHR ''0'') @ nat_to_string v"

definition utc_now_iso_ms :: "nat \<Rightarrow> string" where
  "utc_now_iso_ms now =
     (let t = gmtime (now div 1000)
      in zero_padded 4 (tm_year t) @ ''-'' @ zero_padded 2 (tm_mon t) @ ''-'' @ zero_padded 2 (tm_mday t) @ ''T''
         @ zero_padded 2 (tm_hour t) @ '':'' @ zero_padded 2 (tm_min t) @ '':'' @ zero_padded 2 (tm_sec t) @ ''.''
         @ zero_padded 3 (now mod 1000) @ ''Z'')"

definition utc_now_epoch_ms :: "nat \<Rightarrow> string" where
  "utc_now_epoch_ms now = nat_to_string (now div 1000) @ ''.'' @ zero_padded 3 (now mod 1000)"

section \<open>Reading timestamps back\<close>

definition days_before_year :: "nat \<Rightarrow> nat" where
  "days_before_year y = (\<Sum>k \<in> {1970..<y}. year_days k)"

lemma split_year_total:
  assumes "1970 \<le> y" "split_year y d = (y', d')"
  shows "days_before_year y' + d' = days_before_year y + d \<and> d' < year_days y' \<and> y \<le> y'"
  using assms
proof (induction y d rule: split_year.induct)
  case (1 y d)
  show ?case
  proof (cases "d < year_days y")
    case True
    then show ?thesis using "1.prems" by (auto simp: split_year.simps [of y d])
  next
    case False
    have "days_before_year (y + 1) = days_before_year y + year_days y" using "1.prems"(1) by (simp add: days_before_year_def)
    then show ?thesis using "1.IH" [OF False] "1.prems" False by (auto simp: split_year.simps [of y d])
  qed
qed

lemma split_month_total:
  assumes "split_month ns m d = (m', d')" "d < sum_list ns"
  shows "m \<le> m' \<and> m' - m < length ns \<and> d' < ns ! (m' - m) \<and> sum_list (take (m' - m) ns) + d' = d"
  using assms
proof (induction ns m d rule: split_month.induct)
  case (2 n ns m d)
  show ?case
  proof (cases "d < n")
    case False
    have "Suc m \<le> m' \<and> m' - Suc m < length ns \<and> d' < ns ! (m' - Suc m) \<and> sum_list (take (m' - Suc m) ns) + d' = d - n"
      using "2.IH" [OF False] "2.prems" False by simp
    moreover from this obtain k where "m' = Suc m + k" using le_iff_add by blast
    ultimately show ?thesis using False by auto
  qed (use 2 in auto)
qed simp

lemma month_days_total: "sum_list (month_days y) = year_days y"
  by (simp add: month_days_def year_days_def)

text \<open>The calendar is exact: the broken-down time determines the seconds it was made from.\<close>

definition tm_seconds :: "tm \<Rightarrow> nat" where
  "tm_seconds t = (days_before_year (tm_year t) + sum_list (take (tm_mon t - 1) (month_days (tm_year t))) + (tm_mday t - 1)) * 86400
     + tm_hour t * 3600 + tm_min t * 60 + tm_sec t"

lemma gmtime_exact: "tm_seconds (gmtime secs) = secs"
proof -
  obtain y day where y: "split_year 1970 (secs div 86400) = (y, day)" by (rule prod.exhaust)
  obtain m d where m: "split_month (month_days y) 0 day = (m, d)" by (rule prod.exhaust)
  have "days_before_year y + day = secs div 86400" "day < year_days y"
    using split_year_total [OF _ y] by (simp_all add: days_before_year_def)
  moreover have "sum_list (take m (month_days y)) + d = day"
    using split_month_total [OF m] \<open>day < year_days y\<close> by (simp add: month_days_total)
  moreover have "secs mod 86400 div 3600 * 3600 + secs mod 3600 div 60 * 60 + secs mod 60 = secs mod 86400"
  proof -
    have "secs mod 86400 mod 3600 = secs mod 3600" "secs mod 3600 mod 60 = secs mod 60" by (simp_all add: mod_mod_cancel)
    then show ?thesis
      using div_mult_mod_eq [of "secs mod 86400" 3600] div_mult_mod_eq [of "secs mod 3600" 60] by simp
  qed
  ultimately have parts: "days_before_year y + sum_list (take m (month_days y)) + d = secs div 86400"
    "secs mod 86400 div 3600 * 3600 + secs mod 3600 div 60 * 60 + secs mod 60 = secs mod 86400" by simp_all
  have "secs div 86400 * 86400 + (secs mod 86400 div 3600 * 3600 + secs mod 3600 div 60 * 60 + secs mod 60) = secs"
    by (simp only: parts(2) div_mult_mod_eq)
  then show ?thesis using y m parts(1) by (simp add: gmtime_def tm_seconds_def add.assoc)
qed

lemma zero_padded_value: "digits_val (zero_padded n v) = int v"
  by (simp add: zero_padded_def)

text \<open>The login timestamp of a request is read back as the milliseconds it was made from.\<close>

definition epoch_text_ms :: "string \<Rightarrow> int" where
  "epoch_text_ms s = digits_val (takeWhile is_digit_char s) * 1000 + digits_val (tl (dropWhile is_digit_char s))"

lemma epoch_text_exact: "epoch_text_ms (utc_now_epoch_ms now) = int now"
proof -
  have digits: "takeWhile is_digit_char (nat_to_string n @ CHR ''.'' # s) = nat_to_string n"
    "dropWhile is_digit_char (nat_to_string n @ CHR ''.'' # s) = CHR ''.'' # s" for n s
    using nat_to_string_digits [of n] by (simp_all add: takeWhile_append dropWhile_append is_digit_char_def ascii_def)
  have "int (now div 1000) * 1000 + int (now mod 1000) = int now" by (simp add: zdiv_int zmod_int)
  then show ?thesis by (simp add: epoch_text_ms_def utc_now_epoch_ms_def digits zero_padded_value)
qed

end
