(* ===== verification/OKX_Feed.thy ===== *)
theory OKX_Feed
  imports OKX_Connector Ws_Feed Clock
begin

text \<open>
  The orders feed of OKX, \<^verbatim>\<open>src/exchange/okx/okx_ws_client.cpp\<close>: connect, log in, subscribe the
  orders channel, read until the connection ends, with a keepalive thread beside the reader, and
  what the connector passes on of it (\<open>start\<close> in \<^verbatim>\<open>okx_connector.cpp\<close>).

  The answers of the transport and the clock readings of a session are its script; the read loop
  ends with the script where a stop is requested. Unlike the Binance client, every access to a
  member is checked, so there is no exception to model.
\<close>

datatype okx_feed_event =
    OfConnecting string | OfConnected string | OfDisconnected string | OfStopped string | OfProtocolWarning string

datatype okx_output = OkEvent okx_feed_event | OkReport execution_report

fun output_of :: "feed_output \<Rightarrow> okx_output" where
  "output_of (Warning d) = OkEvent (OfProtocolWarning d)"
| "output_of (Report r) = OkReport r"

definition checked_string :: "json \<Rightarrow> string \<Rightarrow> string" where
  "checked_string node nm = (case jfind node nm of Some (JStr s) \<Rightarrow> s | _ \<Rightarrow> [])"

section \<open>Keepalive\<close>

text \<open>One tick is a wake-up of the pinger: whether it was a stop, the time, the time of the last
  inbound frame, and whether the ping could be sent. The ticks end with a stop.\<close>

record ping_tick =
  pt_stop :: bool
  pt_now :: int
  pt_last_inbound :: int
  pt_sent :: bool

datatype pinger_end = PingerStopped | WatchdogFired | PingFailed

definition patience_ms :: "okx_ws_config \<Rightarrow> int" where
  "patience_ms cfg = ws_ping_interval cfg * (ws_max_missed_pongs cfg + 1)"

fun run_pinger :: "okx_ws_config \<Rightarrow> ping_tick list \<Rightarrow> pinger_end" where
  "run_pinger cfg [] = PingerStopped"
| "run_pinger cfg (t # ts) =
     (if pt_stop t then PingerStopped
      else if pt_now t - pt_last_inbound t > patience_ms cfg then WatchdogFired
      else if \<not> pt_sent t then PingFailed
      else run_pinger cfg ts)"

text \<open>The watchdog closes the connection at the first tick that finds it silent for longer than the
  patience, and only then.\<close>

lemma watchdog_exact:
  "run_pinger cfg ts = WatchdogFired \<longleftrightarrow>
     (\<exists>n < length ts. patience_ms cfg < pt_now (ts ! n) - pt_last_inbound (ts ! n) \<and> \<not> pt_stop (ts ! n)
        \<and> (\<forall>m < n. \<not> pt_stop (ts ! m) \<and> pt_sent (ts ! m)))"
  by (induction ts) (auto simp: Ex_less_Suc2 All_less_Suc2)

section \<open>Frames\<close>

definition login_frame :: "'w okx_env \<Rightarrow> okx_config \<Rightarrow> string \<Rightarrow> json" where
  "login_frame env cfg timestamp =
     jobject [(''op'', JStr ''login''),
       (''args'', JArr [jobject [(''apiKey'', JStr (ok_api_key cfg)), (''passphrase'', JStr (ok_passphrase cfg)),
          (''timestamp'', JStr timestamp), (''sign'', JStr (sign_ws_login env timestamp (ok_secret_key cfg)))]])]"

definition okx_subscribe_frame :: json where
  "okx_subscribe_frame =
     jobject [(''op'', JStr ''subscribe''),
       (''args'', JArr [jobject [(''channel'', JStr ''orders''), (''instType'', JStr ''SPOT'')]])]"

definition login_accepted :: "'w okx_env \<Rightarrow> string \<Rightarrow> bool" where
  "login_accepted env reply =
     (case env_parse env reply of
        None \<Rightarrow> False
      | Some ack \<Rightarrow> is_object ack \<and> checked_string ack ''event'' = ''login'' \<and> checked_string ack ''code'' = ''0'')"

definition subscribe_accepted :: "'w okx_env \<Rightarrow> string \<Rightarrow> bool" where
  "subscribe_accepted env reply =
     (case env_parse env reply of
        None \<Rightarrow> False
      | Some ack \<Rightarrow> is_object ack \<and> checked_string ack ''event'' = ''subscribe'')"

text \<open>One text frame of the read loop; a \<open>ping\<close> is answered, whatever the transport says.\<close>

definition handle_frame :: "'w okx_env \<Rightarrow> string \<Rightarrow> okx_output list" where
  "handle_frame env msg =
     (if msg = ''pong'' \<or> msg = ''ping'' then []
      else case env_parse env msg of
        None \<Rightarrow> [OkEvent (OfProtocolWarning ''non-JSON text frame skipped'')]
      | Some parsed \<Rightarrow> (case jfind parsed ''event'' of
          Some (JStr ev) \<Rightarrow> if ev = ''error'' then [OkEvent (OfProtocolWarning (''venue error event: '' @ msg))] else []
        | _ \<Rightarrow> map output_of (dispatch_orders_message (env_dump env) parsed)))"

section \<open>The session\<close>

record okx_turn =
  ot_stop :: bool
  ot_read :: "string option"
  ot_stop_late :: bool
  ot_watchdog :: bool

fun okx_read_loop :: "'w okx_env \<Rightarrow> okx_turn list \<Rightarrow> bool \<Rightarrow> string \<times> bool \<times> okx_output list" where
  "okx_read_loop env [] inbound = ([], inbound, [])"
| "okx_read_loop env (t # ts) inbound =
     (if ot_stop t then ([], inbound, [])
      else case ot_read t of
        None \<Rightarrow> (if ot_stop_late t then [] else if ot_watchdog t then ''watchdog closed a silent connection'' else ''connection lost'', inbound, [])
      | Some msg \<Rightarrow> (case okx_read_loop env ts True of (reason, b, outs) \<Rightarrow> (reason, b, handle_frame env msg @ outs)))"

record okx_script =
  os_connect_error :: "int option"
  os_now :: nat
  os_login_sent :: bool
  os_login_reply :: "string option"
  os_subscribe_sent :: bool
  os_subscribe_reply :: "string option"
  os_turns :: "okx_turn list"
  os_uptime :: int

definition okx_session_url :: "okx_config \<Rightarrow> string" where
  "okx_session_url cfg =
     (if ws_use_tls (ok_ws cfg) then ''wss://'' else ''ws://'') @ ws_host_for cfg @ '':'' @ int_to_string (ws_port (ok_ws cfg)) @ ws_path (ok_ws cfg)"

definition failed_session :: "string \<Rightarrow> feed_outcome \<times> okx_output list" where
  "failed_session reason = (\<lparr>fo_failure = reason, fo_healthy = False\<rparr>, [])"

text \<open>\<open>os_login_sent\<close> is the answer of the transport to \<open>login_frame\<close> with the timestamp
  \<open>utc_now_epoch_ms (os_now sc)\<close>, \<open>os_subscribe_sent\<close> that to \<open>okx_subscribe_frame\<close>.\<close>

definition okx_session_body :: "'w okx_env \<Rightarrow> okx_config \<Rightarrow> okx_script \<Rightarrow> feed_outcome \<times> okx_output list" where
  "okx_session_body env cfg sc =
     (case os_connect_error sc of
        Some e \<Rightarrow> failed_session (''connect failed to '' @ okx_session_url cfg @ '': error '' @ int_to_string e)
      | None \<Rightarrow>
          if \<not> os_login_sent sc then failed_session ''failed to send login request''
          else (case os_login_reply sc of
              None \<Rightarrow> failed_session ''connection closed waiting for login ack''
            | Some reply \<Rightarrow>
                if \<not> login_accepted env reply then failed_session (''login rejected: '' @ reply)
                else if \<not> os_subscribe_sent sc then failed_session ''failed to send subscribe request''
                else (case os_subscribe_reply sc of
                    None \<Rightarrow> failed_session ''connection closed waiting for subscribe ack''
                  | Some sub_reply \<Rightarrow>
                      if \<not> subscribe_accepted env sub_reply then failed_session (''subscribe rejected: '' @ sub_reply)
                      else (case okx_read_loop env (os_turns sc) False of (reason, inbound, outs) \<Rightarrow>
                        (\<lparr>fo_failure = reason, fo_healthy = inbound \<or> os_uptime sc \<ge> kHealthySessionMs\<rparr>,
                         OkEvent (OfConnected ''orders channel subscribed'') # outs)))))"

definition okx_run_session :: "'w okx_env \<Rightarrow> okx_config \<Rightarrow> okx_script \<Rightarrow> feed_outcome \<times> okx_output list" where
  "okx_run_session env cfg sc =
     (case okx_session_body env cfg sc of (outcome, outs) \<Rightarrow> (outcome, OkEvent (OfConnecting (okx_session_url cfg)) # outs))"

text \<open>The supervisor thread: the surroundings are what the feed has handed out so far.\<close>

definition okx_rounds :: "'w okx_env \<Rightarrow> okx_config \<Rightarrow> (okx_script \<times> bool \<times> rat) list \<Rightarrow> okx_output list feed_round list" where
  "okx_rounds env cfg = map (\<lambda>(sc, stopped, u01).
     \<lparr>fr_session = (\<lambda>outs. case okx_run_session env cfg sc of (outcome, new) \<Rightarrow> Some (outcome, outs @ new)),
      fr_stopped = stopped, fr_u01 = u01\<rparr>)"

definition okx_run_feed :: "'w okx_env \<Rightarrow> okx_config \<Rightarrow> (okx_script \<times> bool \<times> rat) list \<Rightarrow> okx_output list" where
  "okx_run_feed env cfg scripts =
     (case reconnect_loop (ok_retry cfg) (\<lambda>failure outs. outs @ [OkEvent (OfDisconnected failure)]) 0 (okx_rounds env cfg scripts) [] of
        None \<Rightarrow> []
      | Some (_, outs) \<Rightarrow> outs @ [OkEvent (OfStopped ''feed stopped'')])"

text \<open>The event handler of \<open>OkxConnector::start\<close>: \<open>Some b\<close> is a call of the connectivity handler.\<close>

definition okx_connectivity_of_event :: "okx_feed_event \<Rightarrow> bool option" where
  "okx_connectivity_of_event ev =
     (case ev of
        OfConnected _ \<Rightarrow> Some True
      | OfDisconnected _ \<Rightarrow> Some False
      | OfStopped _ \<Rightarrow> Some False
      | OfConnecting _ \<Rightarrow> None
      | OfProtocolWarning _ \<Rightarrow> None)"

section \<open>What a session hands out\<close>

lemma orders_message_reports:
  assumes "OkReport r \<in> set (map output_of (dispatch_orders_message dump parsed))"
  obtains items item where "jfind parsed ''data'' = Some (JArr items)" "item \<in> set items" "dispatch_item dump item = Report r"
proof -
  obtain out where out: "out \<in> set (dispatch_orders_message dump parsed)" "output_of out = OkReport r" using assms by auto
  have "out = Report r" using out(2) by (cases out) auto
  with out(1) show thesis using that
    by (auto simp: dispatch_orders_message_def split: option.splits json.splits if_splits)
qed

lemma read_loop_reports:
  assumes "OkReport r \<in> set (snd (snd (okx_read_loop env turns inbound)))"
  shows "\<exists>t msg parsed items item. t \<in> set turns \<and> ot_read t = Some msg \<and> env_parse env msg = Some parsed
    \<and> jfind parsed ''data'' = Some (JArr items) \<and> item \<in> set items \<and> dispatch_item (env_dump env) item = Report r"
  using assms
proof (induction env turns inbound rule: okx_read_loop.induct)
  case (2 env t ts inbound)
  obtain msg where msg: "ot_read t = Some msg" "\<not> ot_stop t" using "2.prems" by (auto split: if_splits option.splits)
  have split: "OkReport r \<in> set (handle_frame env msg) \<or> OkReport r \<in> set (snd (snd (okx_read_loop env ts True)))"
    using "2.prems" msg by (auto split: prod.splits)
  show ?case
  proof (cases "OkReport r \<in> set (handle_frame env msg)")
    case True
    then obtain parsed where parsed: "env_parse env msg = Some parsed"
        "OkReport r \<in> set (map output_of (dispatch_orders_message (env_dump env) parsed))"
      by (auto simp: handle_frame_def split: if_splits option.splits json.splits)
    then show ?thesis using msg by (elim orders_message_reports) (auto intro!: exI [of _ t])
  next
    case False
    then show ?thesis using split "2.IH" [OF msg(2,1)] by (meson list.set_intros(2))
  qed
qed simp

lemma session_body_outputs:
  assumes "okx_session_body env cfg sc = (outcome, outs)"
  shows "(outs = [] \<and> \<not> fo_healthy outcome) \<or>
    (\<exists>reply sub_reply. os_login_reply sc = Some reply \<and> login_accepted env reply \<and> os_subscribe_reply sc = Some sub_reply
       \<and> subscribe_accepted env sub_reply
       \<and> outs = OkEvent (OfConnected ''orders channel subscribed'') # snd (snd (okx_read_loop env (os_turns sc) False)))"
  using assms by (auto simp: okx_session_body_def failed_session_def split: option.splits if_splits prod.splits)

text \<open>A report is gated if the feed announced \<open>Connected\<close> before it and nothing but warnings and reports
  since. The supervisor keeps this over any number of sessions.\<close>

fun in_session_output :: "okx_output \<Rightarrow> bool" where
  "in_session_output (OkEvent (OfProtocolWarning _)) = True"
| "in_session_output (OkReport _) = True"
| "in_session_output _ = False"

definition gated :: "okx_output list \<Rightarrow> bool" where
  "gated outs \<longleftrightarrow> (\<forall>pre r post. outs = pre @ OkReport r # post \<longrightarrow>
     (\<exists>before d since. pre = before @ OkEvent (OfConnected d) # since \<and> list_all in_session_output since))"

lemma gated_Nil: "gated []"
  by (simp add: gated_def)

lemma gated_snoc_event:
  assumes "gated outs"
  shows "gated (outs @ [OkEvent ev])"
  unfolding gated_def
proof (intro allI impI)
  fix pre r post assume split: "outs @ [OkEvent ev] = pre @ OkReport r # post"
  then obtain post' where "post = post' @ [OkEvent ev]" by (cases post rule: rev_cases) auto
  with split have "outs = pre @ OkReport r # post'" by simp
  then show "\<exists>before d since. pre = before @ OkEvent (OfConnected d) # since \<and> list_all in_session_output since"
    using assms by (auto simp: gated_def)
qed

lemma read_loop_outputs: "list_all in_session_output (snd (snd (okx_read_loop env turns inbound)))"
proof (induction env turns inbound rule: okx_read_loop.induct)
  case (2 env t ts inbound)
  have "in_session_output (output_of out)" for out by (cases out) auto
  then have "list_all in_session_output (handle_frame env msg)" for msg
    by (auto simp: handle_frame_def list_all_iff split: option.splits json.splits)
  then show ?case using "2.IH" by (auto split: option.splits prod.splits)
qed simp

lemma gated_connected:
  assumes "gated outs" "list_all in_session_output rest"
  shows "gated (outs @ OkEvent (OfConnected d) # rest)"
  unfolding gated_def
proof (intro allI impI)
  fix pre r post assume split: "outs @ OkEvent (OfConnected d) # rest = pre @ OkReport r # post"
  consider us where "outs = pre @ OkReport r # us" | us where "pre = outs @ OkEvent (OfConnected d) # us" "rest = us @ OkReport r # post"
    using split by (auto simp: append_eq_append_conv2 Cons_eq_append_conv append_eq_Cons_conv)
  then show "\<exists>before d since. pre = before @ OkEvent (OfConnected d) # since \<and> list_all in_session_output since"
  proof cases
    case 1
    then show ?thesis using assms(1) by (auto simp: gated_def)
  next
    case 2
    then show ?thesis using assms(2) by auto
  qed
qed

interpretation okx_feed: supervised_feed gated
  "\<lambda>f. \<exists>sc. f = (\<lambda>outs. case okx_run_session env cfg sc of (outcome, new) \<Rightarrow> Some (outcome, outs @ new))"
  "\<lambda>failure outs. outs @ [OkEvent (OfDisconnected failure)]"
  for env :: "'w okx_env" and cfg
proof unfold_locales
  fix f w outcome w'
  assume "\<exists>sc. f = (\<lambda>outs. case okx_run_session env cfg sc of (outcome, new) \<Rightarrow> Some (outcome, outs @ new))"
    and g: "gated w" and run: "f w = Some (outcome, w')"
  then obtain sc where sc: "f = (\<lambda>outs. case okx_run_session env cfg sc of (outcome, new) \<Rightarrow> Some (outcome, outs @ new))" by blast
  obtain o1 outs where body: "okx_session_body env cfg sc = (o1, outs)" by (rule prod.exhaust)
  have w': "w' = (w @ [OkEvent (OfConnecting (okx_session_url cfg))]) @ outs"
    using run sc body by (simp add: okx_run_session_def)
  have g1: "gated (w @ [OkEvent (OfConnecting (okx_session_url cfg))])" using g by (rule gated_snoc_event)
  from session_body_outputs [OF body] show "gated w'"
  proof (elim disjE exE conjE)
    assume "outs = []"
    then show ?thesis using w' g1 by simp
  next
    assume "outs = OkEvent (OfConnected ''orders channel subscribed'') # snd (snd (okx_read_loop env (os_turns sc) False))"
    then show ?thesis unfolding w' using gated_connected [OF g1 read_loop_outputs] by simp
  qed
qed (rule gated_snoc_event)

lemma okx_run_feed_gated: "gated (okx_run_feed env cfg scripts)"
proof (cases "reconnect_loop (ok_retry cfg) (\<lambda>failure outs. outs @ [OkEvent (OfDisconnected failure)]) 0 (okx_rounds env cfg scripts) []")
  case (Some res)
  obtain past outs where res: "res = (past, outs)" by (rule prod.exhaust)
  have "gated outs"
    by (rule okx_feed.supervisor_keeps [OF Some [unfolded res] gated_Nil, of env cfg]) (auto simp: okx_rounds_def)
  then show ?thesis using Some res gated_snoc_event by (simp add: okx_run_feed_def)
qed (simp add: okx_run_feed_def gated_Nil)

text \<open>C29. The orders feed only speaks for an authenticated, subscribed session. If a session announces
  \<open>Connected\<close>, delivers a report or is counted healthy, then the venue accepted the login (event
  \<open>login\<close>, code 0) and the subscription, and every report is the normalized form of an item of a
  data message read in that session; and over any number of sessions of the supervisor, every
  report comes after a \<open>Connected\<close> with nothing but warnings and reports in between.\<close>

theorem okx_session_gated:
  assumes "okx_run_session env cfg sc = (outcome, outs)"
    and "fo_healthy outcome \<or> OkEvent (OfConnected d) \<in> set outs \<or> OkReport r \<in> set outs"
  shows "(\<exists>reply sub_reply. os_login_reply sc = Some reply \<and> login_accepted env reply
      \<and> os_subscribe_reply sc = Some sub_reply \<and> subscribe_accepted env sub_reply)
    \<and> (OkReport r \<in> set outs \<longrightarrow> (\<exists>t msg parsed items item. t \<in> set (os_turns sc) \<and> ot_read t = Some msg \<and> env_parse env msg = Some parsed
        \<and> jfind parsed ''data'' = Some (JArr items) \<and> item \<in> set items \<and> dispatch_item (env_dump env) item = Report r))
    \<and> gated (okx_run_feed env cfg scripts)"
proof -
  obtain outs' where body: "okx_session_body env cfg sc = (outcome, outs')" "outs = OkEvent (OfConnecting (okx_session_url cfg)) # outs'"
    using assms(1) by (auto simp: okx_run_session_def split: prod.splits)
  from session_body_outputs [OF body(1)] body(2) assms(2) read_loop_reports [of r env "os_turns sc" False] okx_run_feed_gated
  show ?thesis by (elim disjE exE conjE) auto
qed

definition demo_feed_env :: "unit okx_env" where
  "demo_feed_env = \<lparr>env_parse = (\<lambda>m.
       if m = ''login'' then Some (JObj [(''code'', JStr ''0''), (''event'', JStr ''login'')])
       else if m = ''sub'' then Some (JObj [(''event'', JStr ''subscribe'')])
       else Some (JObj [(''arg'', JObj []), (''data'', JArr [JObj [(''clOrdId'', JStr ''o1''), (''side'', JStr ''buy''), (''state'', JStr ''live'')]])])),
     env_dump = (\<lambda>_. []), env_hmac = (\<lambda>_ _. None), env_base64 = (\<lambda>s. s), env_timestamp = (\<lambda>w. ([], w)), env_http = (\<lambda>_ w. (None, w))\<rparr>"

definition demo_okx_script :: okx_script where
  "demo_okx_script = \<lparr>os_connect_error = None, os_now = 0, os_login_sent = True, os_login_reply = Some ''login'', os_subscribe_sent = True,
     os_subscribe_reply = Some ''sub'', os_turns = [\<lparr>ot_stop = False, ot_read = Some ''orders'', ot_stop_late = False, ot_watchdog = False\<rparr>],
     os_uptime = 5\<rparr>"

definition demo_okx_report :: execution_report where
  "demo_okx_report = \<lparr>er_client_order_id = ''o1'', er_exchange_order_id = [], er_state = Live, er_side = Buy,
     er_filled_quantity = [], er_average_fill_price = []\<rparr>"

lemma demo_okx_session:
  "okx_session_body demo_feed_env default_okx demo_okx_script
     = (\<lparr>fo_failure = [], fo_healthy = True\<rparr>, [OkEvent (OfConnected ''orders channel subscribed''), OkReport demo_okx_report])"
proof -
  let ?item = "JObj [(''clOrdId'', JStr ''o1''), (''side'', JStr ''buy''), (''state'', JStr ''live'')]"
  have "dispatch_item (\<lambda>_. []) ?item = Report demo_okx_report"
    by (simp add: dispatch_item_def parse_order_info_def field_string_def map_okx_state_def map_okx_side_def demo_okx_report_def Let_def)
  then have frame: "handle_frame demo_feed_env ''orders'' = [OkReport demo_okx_report]"
    by (simp add: handle_frame_def demo_feed_env_def dispatch_orders_message_def)
  have acks: "login_accepted demo_feed_env ''login''" "subscribe_accepted demo_feed_env ''sub''"
    by (simp_all add: demo_feed_env_def login_accepted_def subscribe_accepted_def checked_string_def)
  show ?thesis by (simp add: okx_session_body_def demo_okx_script_def acks frame)
qed

theorem okx_session_gated_witness:
  "\<exists>outcome outs r item. okx_run_session demo_feed_env default_okx demo_okx_script = (outcome, outs) \<and> fo_healthy outcome
     \<and> OkReport r \<in> set outs \<and> er_client_order_id r = ''o1'' \<and> dispatch_item (env_dump demo_feed_env) item = Report r"
proof -
  obtain outcome outs where run: "okx_run_session demo_feed_env default_okx demo_okx_script = (outcome, outs)" by (rule prod.exhaust)
  have sent: "fo_healthy outcome" "OkReport demo_okx_report \<in> set outs"
    using run demo_okx_session by (auto simp only: okx_run_session_def prod.case prod.inject list.set insert_iff feed_outcome.select_convs)
  from okx_session_gated [OF run, where r = demo_okx_report and d = "[]"] sent obtain item where
      "dispatch_item (env_dump demo_feed_env) item = Report demo_okx_report"
    by blast
  with run sent show ?thesis by (intro exI conjI) (assumption | simp add: demo_okx_report_def)+
qed

end
