(* ===== verification/Binance_Session.thy ===== *)
theory Binance_Session
  imports Binance_Calls Binance_Signed Ws_Feed
begin

text \<open>
  One session of the Binance WebSocket client, \<open>inline_time_sync\<close> and \<open>run_session\<close> of
  \<^verbatim>\<open>src/exchange/binance/binance_ws_client.cpp\<close>: connect, learn the venue clock, subscribe the user
  data stream, read frames until the connection ends.

  What the transport and the other threads do is the script of the session: the answers of
  connect, send and read, the clock readings, and the steps of callers between any two critical
  sections of the supervisor: before the connection is set and while it connects, while the
  clock query waits, while the subscription is signed and sent, while a read is blocked, and
  around the teardown. The read loop ends with the script where a stop is requested.
\<close>

section \<open>The other threads\<close>

fun is_caller_action :: "ws_action \<Rightarrow> bool" where
  "is_caller_action (CallBegin _ _) = True"
| "is_caller_action (CallSend _ _) = True"
| "is_caller_action (CallTimeout _) = True"
| "is_caller_action (CallWake _) = True"
| "is_caller_action (SetOffset _) = True"
| "is_caller_action _ = False"

definition other_step :: "ws_env \<Rightarrow> ws_action \<Rightarrow> ws_client \<Rightarrow> ws_client" where
  "other_step env a s = (if is_caller_action a then (case ws_act env a s of Some s' \<Rightarrow> s' | None \<Rightarrow> s) else s)"

definition run_others :: "ws_env \<Rightarrow> ws_action list \<Rightarrow> ws_client \<Rightarrow> ws_client" where
  "run_others env = fold (other_step env)"

section \<open>The clock query\<close>

definition store_server_time :: "int \<Rightarrow> json \<Rightarrow> int \<Rightarrow> ws_client \<Rightarrow> bool \<times> ws_client" where
  "store_server_time i parsed now s =
     (case (frame_id parsed, jfind parsed ''result'') of
        (Some j, Some res) \<Rightarrow>
          if j \<noteq> i \<or> \<not> is_object res then (False, s)
          else (case server_time_of res of
                  None \<Rightarrow> (False, s)
                | Some server \<Rightarrow> (True, s\<lparr>wc_offset := wrap64 (server - now)\<rparr>))
      | _ \<Rightarrow> (False, s))"

text \<open>The callers \<open>others\<close> act while the query waits for its answer.\<close>

definition inline_time_sync :: "ws_env \<Rightarrow> bool \<Rightarrow> ws_action list \<Rightarrow> string option \<Rightarrow> int \<Rightarrow> ws_client \<Rightarrow> bool \<times> ws_client" where
  "inline_time_sync env sent others reply now s =
     (let i = wc_next_id s; s1 = run_others env others (s\<lparr>wc_next_id := i + 1\<rparr>)
      in if \<not> sent then (False, s1)
         else case Option.bind reply (we_parse env) of
           None \<Rightarrow> (False, s1)
         | Some parsed \<Rightarrow> store_server_time i parsed now s1)"

section \<open>The read loop\<close>

record read_turn =
  tn_stop :: bool
  tn_others :: "ws_action list"
  tn_read :: "string option"
  tn_stop_late :: bool
  tn_now :: int

record session_point =
  sp_subscribed :: bool
  sp_served :: bool
  sp_since :: int

definition subscription_text :: "json \<Rightarrow> string option" where
  "subscription_text response = do {
     result \<leftarrow> (case jfind response ''result'' of None \<Rightarrow> Some (JObj []) | Some r \<Rightarrow> if is_object r then Some r else None);
     i \<leftarrow> value_number wrap64 result ''subscriptionId'' 0;
     Some (''user data stream subscribed (subscriptionId '' @ int_to_string i @ '')'')
   }"

text \<open>The part of the loop body after a frame was dispatched: \<open>Some reason\<close> leaves the loop.\<close>

definition judge_subscription :: "ws_env \<Rightarrow> int \<Rightarrow> json \<Rightarrow> session_point \<Rightarrow> ws_client
    \<Rightarrow> (string option \<times> session_point \<times> ws_client) option" where
  "judge_subscription env now response sp s = do {
     status \<leftarrow> value_number wrap32 response ''status'' 0;
     if status = 200 then do {
       detail \<leftarrow> subscription_text response;
       Some (None, sp\<lparr>sp_subscribed := True, sp_since := now\<rparr>, emit (BfConnected detail) s)
     } else Some (Some (''user data stream subscription rejected: '' @ we_dump env response), sp, s)
   }"

definition check_subscription :: "ws_env \<Rightarrow> int \<Rightarrow> bool \<Rightarrow> int \<Rightarrow> session_point \<Rightarrow> ws_client
    \<Rightarrow> (string option \<times> session_point \<times> ws_client) option" where
  "check_subscription env sid served now sp s =
     (if sp_subscribed sp then Some (None, if served then sp\<lparr>sp_served := True\<rparr> else sp, s)
      else case wc_slots s sid of
        Some p \<Rightarrow> (case pd_response p of
            Some response \<Rightarrow> judge_subscription env now response sp s
          | None \<Rightarrow> Some (if pd_failed p then Some ''connection lost during user data stream subscription'' else None, sp, s))
      | None \<Rightarrow> Some (None, sp, s))"

fun session_loop :: "ws_env \<Rightarrow> int \<Rightarrow> read_turn list \<Rightarrow> session_point \<Rightarrow> ws_client
    \<Rightarrow> (string \<times> session_point \<times> ws_client) option" where
  "session_loop env sid [] sp s = Some ([], sp, s)"
| "session_loop env sid (t # ts) sp s =
     (if tn_stop t then Some ([], sp, s)
      else let s1 = run_others env (tn_others t) s
           in case tn_read t of
                None \<Rightarrow> Some (if tn_stop_late t then [] else ''connection lost'', sp, s1)
              | Some msg \<Rightarrow> (case dispatch_message env msg s1 of
                  None \<Rightarrow> None
                | Some (served, s2) \<Rightarrow>
                    if wc_terminate s2 \<noteq> [] then Some (wc_terminate s2, sp, s2)
                    else (case check_subscription env sid served (tn_now t) sp s2 of
                            None \<Rightarrow> None
                          | Some (Some reason, sp', s3) \<Rightarrow> Some (reason, sp', s3)
                          | Some (None, sp', s3) \<Rightarrow> session_loop env sid ts sp' s3)))"

section \<open>The session\<close>

record session_script =
  sc_idle_others :: "ws_action list"
  sc_connect_error :: "int option"
  sc_others :: "ws_action list"
  sc_time_sent :: bool
  sc_sync_others :: "ws_action list"
  sc_time_reply :: "string option"
  sc_time_now :: int
  sc_sign_now :: int
  sc_sign_others :: "ws_action list"
  sc_subscribe_sent :: bool
  sc_send_others :: "ws_action list"
  sc_subscribe_at :: int
  sc_turns :: "read_turn list"
  sc_end :: int
  sc_leave_others :: "ws_action list"
  sc_erase_others :: "ws_action list"
  sc_close_others :: "ws_action list"

definition session_url :: "binance_config \<Rightarrow> string" where
  "session_url cfg = (if bn_use_tls cfg then ''wss://'' else ''ws://'') @ bn_host cfg @ '':'' @ int_to_string (bn_port cfg) @ bn_path cfg"

definition subscribe_frame :: "ws_env \<Rightarrow> binance_config \<Rightarrow> int \<Rightarrow> int \<Rightarrow> ws_client \<Rightarrow> json" where
  "subscribe_frame env cfg sid now s =
     request_frame sid ''userDataStream.subscribe.signature''
       (apply_signature (we_hmac env) cfg (wrap64 (now + wc_offset s)) (JObj []))"

text \<open>From the connected socket to the end of the read loop. The frame the transport answers to at
  \<open>sc_subscribe_sent\<close> is \<open>subscribe_frame\<close>, signed in the state after the clock query.\<close>

definition session_subscribe :: "ws_env \<Rightarrow> session_script \<Rightarrow> ws_client \<Rightarrow> ws_client" where
  "session_subscribe env sc s =
     run_others env (sc_sign_others sc)
       (snd (inline_time_sync env (sc_time_sent sc) (sc_sync_others sc) (sc_time_reply sc) (sc_time_now sc) s))"

definition session_body :: "ws_env \<Rightarrow> session_script \<Rightarrow> ws_client \<Rightarrow> (feed_outcome \<times> ws_client) option" where
  "session_body env sc s =
     (case register_pending (session_subscribe env sc s) of
        (sid, s0) \<Rightarrow>
          let s1 = run_others env (sc_send_others sc) s0
          in if \<not> sc_subscribe_sent sc then
            Some (\<lparr>fo_failure = ''failed to send user data stream subscription'', fo_healthy = False\<rparr>, erase_pending sid s1)
          else (case session_loop env sid (sc_turns sc) \<lparr>sp_subscribed = False, sp_served = False, sp_since = sc_subscribe_at sc\<rparr> s1 of
              None \<Rightarrow> None
            | Some (reason, sp, s2) \<Rightarrow>
                Some (\<lparr>fo_failure = reason,
                       fo_healthy = sp_subscribed sp \<and> (sp_served sp \<or> sc_end sc - sp_since sp \<ge> kHealthySessionMs)\<rparr>,
                  erase_pending sid (run_others env (sc_leave_others sc) s2))))"

definition end_session :: "ws_env \<Rightarrow> session_script \<Rightarrow> ws_client \<Rightarrow> ws_client" where
  "end_session env sc s =
     (let s1 = run_others env (sc_erase_others sc) s;
          s2 = run_others env (sc_close_others sc) (s1\<lparr>wc_client := False\<rparr>)
      in (fail_all_pending s2)\<lparr>wc_in_session := False\<rparr>)"

definition run_session :: "ws_env \<Rightarrow> binance_config \<Rightarrow> session_script \<Rightarrow> ws_client \<Rightarrow> (feed_outcome \<times> ws_client) option" where
  "run_session env cfg sc s =
     (let url = session_url cfg;
          s1 = run_others env (sc_others sc) (session_open url (run_others env (sc_idle_others sc) s))
      in case sc_connect_error sc of
           Some e \<Rightarrow> Some (\<lparr>fo_failure = ''connect failed to '' @ url @ '': error '' @ int_to_string e, fo_healthy = False\<rparr>, end_session env sc s1)
         | None \<Rightarrow> map_option (map_prod id (end_session env sc)) (session_body env sc s1))"

text \<open>The supervisor thread, \<open>run\<close>: one script per session.\<close>

definition feed_rounds :: "ws_env \<Rightarrow> binance_config \<Rightarrow> (session_script \<times> bool \<times> rat) list \<Rightarrow> ws_client feed_round list" where
  "feed_rounds env cfg = map (\<lambda>(sc, stopped, u01). \<lparr>fr_session = run_session env cfg sc, fr_stopped = stopped, fr_u01 = u01\<rparr>)"

definition run_feed :: "ws_env \<Rightarrow> binance_config \<Rightarrow> (session_script \<times> bool \<times> rat) list \<Rightarrow> ws_client
    \<Rightarrow> ((feed_outcome \<times> int) list \<times> ws_client) option" where
  "run_feed env cfg scripts s =
     map_option (map_prod id (emit (BfStopped ''feed stopped'')))
       (reconnect_loop (bn_retry cfg) (\<lambda>failure. emit (BfDisconnected failure)) 0 (feed_rounds env cfg scripts) s)"

section \<open>A session is an interleaving\<close>

text \<open>Every piece of a session is a sequence of actions of the client, so what holds of all
  reachable states holds of the states a session leads to.\<close>

definition acts_to :: "ws_env \<Rightarrow> ws_client \<Rightarrow> ws_client \<Rightarrow> bool" where
  "acts_to env s s' \<longleftrightarrow> (\<exists>tr. run_actions env tr s = Some s')"

lemma run_actions_append: "run_actions env (tr @ tr') s = Option.bind (run_actions env tr s) (run_actions env tr')"
proof -
  have none: "fold (\<lambda>a r. Option.bind r (ws_act env a)) tr' None = None" for tr' by (induction tr') simp_all
  show ?thesis by (cases "run_actions env tr s") (auto simp: run_actions_def none)
qed

lemma run_actions_Cons: "run_actions env (a # tr) s = Option.bind (ws_act env a s) (run_actions env tr)"
  using run_actions_append [of env "[a]" tr s] by (simp add: run_actions_def)

lemma acts_to_refl [simp]: "acts_to env s s"
  by (auto simp: acts_to_def run_actions_def intro!: exI [of _ "[]"])

lemma acts_to_trans: "acts_to env s s' \<Longrightarrow> acts_to env s' s'' \<Longrightarrow> acts_to env s s''"
  unfolding acts_to_def by (metis run_actions_append bind.bind_lunit)

lemma acts_to_act: "ws_act env a s = Some s' \<Longrightarrow> acts_to env s s'"
  by (auto simp: acts_to_def run_actions_def intro!: exI [of _ "[a]"])

lemma acts_to_ok:
  assumes "acts_to env s s'" "ws_ok s"
  shows "ws_ok s'"
proof -
  obtain tr where "run_actions env tr s = Some s'" using assms(1) by (auto simp: acts_to_def)
  then show ?thesis using assms(2)
  proof (induction tr arbitrary: s)
    case (Cons a tr)
    then show ?case using ws_act_ok by (auto simp: run_actions_Cons bind_eq_Some_conv)
  qed (simp add: run_actions_def)
qed

lemma acts_to_reach: "acts_to env s s' \<Longrightarrow> ws_reach env tr s \<Longrightarrow> \<exists>tr'. ws_reach env (tr @ tr') s'"
  by (auto simp: acts_to_def dest: ws_reach_run)

text \<open>Within a session the connection stays, and a number that was taken for something else never
  becomes the number of a call.\<close>

definition moves :: "ws_env \<Rightarrow> ws_client \<Rightarrow> ws_client \<Rightarrow> bool" where
  "moves env s s' \<longleftrightarrow> acts_to env s s' \<and> wc_client s' = wc_client s \<and> wc_in_session s' = wc_in_session s
     \<and> wc_next_id s \<le> wc_next_id s' \<and> (\<forall>i. i < wc_next_id s \<longrightarrow> wc_calls s i = None \<longrightarrow> wc_calls s' i = None)"

lemma moves_refl [simp]: "moves env s s"
  by (simp add: moves_def)

lemma moves_trans: "moves env s s' \<Longrightarrow> moves env s' s'' \<Longrightarrow> moves env s s''"
  unfolding moves_def by (auto intro: acts_to_trans)

fun is_session_edge :: "ws_action \<Rightarrow> bool" where
  "is_session_edge (SessionOpen _) = True"
| "is_session_edge SessionClose = True"
| "is_session_edge FailAll = True"
| "is_session_edge _ = False"

lemma ws_act_moves:
  assumes "ws_act env a s = Some s'" "\<not> is_session_edge a"
  shows "moves env s s'"
proof -
  have "wc_client s' = wc_client s \<and> wc_in_session s' = wc_in_session s \<and> wc_next_id s \<le> wc_next_id s'
     \<and> (\<forall>i. i < wc_next_id s \<longrightarrow> wc_calls s i = None \<longrightarrow> wc_calls s' i = None)"
  proof (cases a)
    case (SessionDispatch msg)
    then obtain b where "dispatch_message env msg s = Some (b, s')" using assms(1) by (auto split: if_splits)
    then show ?thesis by (cases rule: dispatch_cases) (auto simp: same_calls_def deliver_def split: if_splits)
  next
    case (CallSend i ok)
    then show ?thesis using assms(1)
      by (auto simp: call_send_def with_call_def set_phase_def erase_pending_def bind_eq_Some_conv split: if_splits)
  next
    case (CallTimeout i)
    then show ?thesis using assms(1)
      by (auto simp: call_timeout_def with_call_def set_phase_def erase_pending_def bind_eq_Some_conv split: if_splits)
  next
    case (CallWake i)
    then show ?thesis using assms(1)
      by (auto simp: call_wake_def with_call_def set_phase_def erase_pending_def bind_eq_Some_conv split: if_splits)
  qed (use assms in \<open>auto simp: call_begin_def register_pending_def Let_def emit_def erase_pending_def split: if_splits\<close>)
  then show ?thesis using acts_to_act [OF assms(1)] by (simp add: moves_def)
qed

lemma moves_others: "moves env s (run_others env as s)"
proof (induction as arbitrary: s)
  case (Cons a as)
  have "moves env s (other_step env a s)"
    using ws_act_moves [of env a s] by (cases a) (auto simp: other_step_def simp del: ws_act.simps split: option.splits)
  then show ?case using Cons moves_trans by (fastforce simp: run_others_def)
qed (simp add: run_others_def)

lemma moves_emit: "moves env s (emit ev s)"
  by (rule ws_act_moves [of env "SessionEmit ev"]) simp_all

lemma store_server_time_cases:
  "snd (store_server_time i parsed now s) = s \<or> (\<exists>v. snd (store_server_time i parsed now s) = s\<lparr>wc_offset := v\<rparr>)"
  unfolding store_server_time_def by (auto split: option.splits)

lemma moves_time_sync: "moves env s (snd (inline_time_sync env sent others reply now s))"
proof -
  let ?s1 = "run_others env others (s\<lparr>wc_next_id := wc_next_id s + 1\<rparr>)"
  have "moves env s (s\<lparr>wc_next_id := wc_next_id s + 1\<rparr>)" by (rule ws_act_moves [of env SessionNumber]) simp_all
  then have 1: "moves env s ?s1" using moves_others moves_trans by blast
  have 2: "moves env ?s1 (?s1\<lparr>wc_offset := v\<rparr>)" for v by (rule ws_act_moves [of env "SetOffset v"]) simp_all
  have "moves env ?s1 (snd (store_server_time i parsed now ?s1))" for i parsed
    using store_server_time_cases [of i parsed now ?s1] 2 moves_refl by metis
  then show ?thesis using 1 moves_trans [OF 1] unfolding inline_time_sync_def Let_def by (auto split: option.splits)
qed

lemma moves_check:
  assumes "check_subscription env sid served now sp s = Some (reason, sp', s')"
  shows "moves env s s'"
  using assms moves_emit
  by (auto simp: check_subscription_def judge_subscription_def bind_eq_Some_conv split: if_splits option.splits)

text \<open>An invariant of the read loop: it is kept by the callers, by a frame and by the check of the
  subscription.\<close>

lemma session_loop_invariant:
  assumes "session_loop env sid turns sp s = Some (reason, sp', s')" "P sp s"
    and "\<And>sp s as. P sp s \<Longrightarrow> P sp (run_others env as s)"
    and "\<And>sp s msg served s2. P sp s \<Longrightarrow> dispatch_message env msg s = Some (served, s2) \<Longrightarrow> P sp s2"
    and "\<And>sp s served now r sp2 s2. P sp s \<Longrightarrow> check_subscription env sid served now sp s = Some (r, sp2, s2) \<Longrightarrow> P sp2 s2"
  shows "P sp' s'"
  using assms(1,2)
proof (induction env\<equiv>env sid\<equiv>sid turns sp s rule: session_loop.induct)
  case (2 t ts sp s)
  let ?s1 = "run_others env (tn_others t) s"
  note others = assms(3) [OF "2.prems"(2), of "tn_others t"]
  show ?case
  proof (cases "tn_stop t \<or> tn_read t = None")
    case True
    then show ?thesis using "2.prems" others by (auto simp: Let_def split: if_splits option.splits)
  next
    case False
    then obtain msg where msg: "\<not> tn_stop t" "tn_read t = Some msg" by auto
    obtain served s2 where s2: "dispatch_message env msg ?s1 = Some (served, s2)"
      using "2.prems"(1) msg by (auto simp: Let_def split: option.splits)
    note frame = assms(4) [OF others s2]
    show ?thesis
    proof (cases "wc_terminate s2 \<noteq> []")
      case True
      then show ?thesis using "2.prems"(1) msg s2 frame by (simp add: Let_def)
    next
      case False
      obtain r sp1 s3 where c: "check_subscription env sid served (tn_now t) sp s2 = Some (r, sp1, s3)"
        using "2.prems"(1) msg s2 False by (auto simp: Let_def split: option.splits)
      note checked = assms(5) [OF frame c]
      show ?thesis
      proof (cases r)
        case None
        then have "session_loop env sid ts sp1 s3 = Some (reason, sp', s')"
          using "2.prems"(1) msg s2 False c by (simp add: Let_def)
        from "2.hyps" [OF msg(1) refl msg(2) s2 refl False c refl None refl this checked] show ?thesis .
      next
        case (Some x)
        then show ?thesis using "2.prems"(1) msg s2 False c checked by (simp add: Let_def)
      qed
    qed
  qed
qed simp

lemma moves_frame: "wc_client s \<Longrightarrow> dispatch_message env msg s = Some (served, s') \<Longrightarrow> moves env s s'"
  using ws_act_moves [of env "SessionDispatch msg" s s'] by simp

lemma moves_loop:
  assumes "session_loop env sid turns sp s = Some (reason, sp', s')" "wc_client s"
  shows "moves env s s'"
proof (rule session_loop_invariant [OF assms(1), of "\<lambda>_. moves env s"])
  have client: "wc_client s1" if "moves env s s1" for s1 using that assms(2) by (simp add: moves_def)
  show "moves env s s2" if "moves env s s1" "dispatch_message env msg s1 = Some (served, s2)" for s1 msg served s2
    using that client moves_frame moves_trans by blast
qed (auto intro: moves_trans moves_others moves_check)

section \<open>What a healthy session has seen\<close>

definition subscribed_at :: "int \<Rightarrow> nat \<Rightarrow> session_point \<Rightarrow> ws_client \<Rightarrow> bool" where
  "subscribed_at sid n sp s \<longleftrightarrow> ws_ok s \<and> sid < wc_next_id s \<and> n \<le> length (wc_events s) \<and> (sp_served sp \<longrightarrow> sp_subscribed sp)
     \<and> (sp_subscribed sp \<longrightarrow>
          (\<exists>p frame. wc_slots s sid = Some p \<and> pd_response p = Some frame \<and> value_number wrap32 frame ''status'' 0 = Some 200)
        \<and> (\<exists>d. BfConnected d \<in> set (drop n (wc_events s))))"

text \<open>Answers stay in their slots, and events are only added.\<close>

definition extends :: "ws_client \<Rightarrow> ws_client \<Rightarrow> bool" where
  "extends s s' \<longleftrightarrow> ws_ok s' \<and> wc_next_id s \<le> wc_next_id s' \<and> prefix (wc_events s) (wc_events s')
     \<and> (\<forall>i p frame. wc_slots s i = Some p \<longrightarrow> pd_response p = Some frame \<longrightarrow> wc_slots s' i = Some p)"

lemma extends_refl: "ws_ok s \<Longrightarrow> extends s s"
  by (simp add: extends_def)

lemma extends_trans: "extends s s' \<Longrightarrow> extends s' s'' \<Longrightarrow> extends s s''"
  unfolding extends_def by (auto intro: prefix_order.trans)

lemma subscribed_extends:
  assumes "subscribed_at sid n sp s" "extends s s'"
  shows "subscribed_at sid n sp s'"
proof -
  obtain evs where evs: "wc_events s' = wc_events s @ evs" using assms(2) by (auto simp: extends_def elim: prefixE)
  then have "set (drop n (wc_events s)) \<subseteq> set (drop n (wc_events s'))" by simp
  then show ?thesis using assms evs unfolding subscribed_at_def extends_def by fastforce
qed

lemma user_event_grows: "pred_option (\<lambda>s'. prefix (wc_events s) (wc_events s')) (handle_user_event ev s)"
  unfolding handle_user_event_def by (intro every_result) (simp_all add: emit_def warn_def)

lemma dispatch_event_grows: "pred_option (\<lambda>s'. prefix (wc_events s) (wc_events s')) (dispatch_event ev s)"
  unfolding dispatch_event_def by (intro every_result) (simp_all add: user_event_grows)

lemma dispatch_grows:
  assumes "dispatch_message env msg s = Some (b, s')"
  shows "prefix (wc_events s) (wc_events s')"
proof -
  have "pred_option (\<lambda>r. prefix (wc_events s) (wc_events (snd r))) (dispatch_message env msg s)"
    using dispatch_event_grows [of s]
    unfolding dispatch_message_def
    by (auto simp: emit_def warn_def deliver_def option.pred_map comp_def split: option.splits json.splits)
  then show ?thesis using assms by simp
qed

lemma slot_response_not_pending:
  assumes "ws_ok s" "wc_slots s i = Some p" "pd_response p = Some frame"
  shows "i \<notin> wc_pending s" "i < wc_next_id s"
  using assms by (auto simp: ws_ok_def entry_simps dest!: spec [of _ i])

lemma caller_extends:
  assumes "ws_ok s" "ws_act env a s = Some s'" "is_caller_action a"
  shows "extends s s'"
proof -
  have "wc_next_id s \<le> wc_next_id s' \<and> wc_events s' = wc_events s
     \<and> (\<forall>i. i < wc_next_id s \<longrightarrow> wc_slots s' i = wc_slots s i)"
    using assms(2,3)
    by (cases a) (auto simp: call_send_def call_timeout_def call_wake_def with_call_def set_phase_def erase_pending_def
        call_begin_def register_pending_def Let_def bind_eq_Some_conv split: if_splits)
  then show ?thesis using slot_response_not_pending(2) [OF assms(1)] ws_act_ok [OF assms(1,2)] by (auto simp: extends_def)
qed

lemma others_extend: "ws_ok s \<Longrightarrow> extends s (run_others env as s)"
proof (induction as arbitrary: s)
  case (Cons a as)
  have "extends s (other_step env a s)"
    using caller_extends [OF Cons.prems] extends_refl [OF Cons.prems] by (auto simp: other_step_def split: option.splits)
  moreover from this have "ws_ok (other_step env a s)" by (simp add: extends_def)
  ultimately show ?case using Cons.IH extends_trans by (fastforce simp: run_others_def)
qed (simp add: run_others_def extends_refl)

lemma extends_others: "extends s s' \<Longrightarrow> extends s (run_others env as s')"
  by (rule extends_trans, assumption, rule others_extend) (simp add: extends_def)

lemma dispatch_extends:
  assumes "ws_ok s" "dispatch_message env msg s = Some (b, s')"
  shows "extends s s'"
  using assms(2)
proof (cases rule: dispatch_cases)
  case 1
  then show ?thesis using same_calls_ok assms(1) dispatch_grows [OF assms(2)] by (auto simp: same_calls_def extends_def)
next
  case (2 i frame)
  have "ws_ok s'" using deliver_ok [OF assms(1) 2(3), of frame] 2(5) by (metis snd_conv)
  then show ?thesis using 2 slot_response_not_pending(1) [OF assms(1)] by (auto simp: deliver_def extends_def split: if_splits)
qed

lemma check_subscribed:
  assumes "subscribed_at sid n sp s" "check_subscription env sid served now sp s = Some (r, sp', s')"
  shows "subscribed_at sid n sp' s'"
proof (cases "\<not> sp_subscribed sp \<and> sp_subscribed sp'")
  case True
  then obtain p response detail where p: "wc_slots s sid = Some p" "pd_response p = Some response"
      "value_number wrap32 response ''status'' 0 = Some 200" "s' = emit (BfConnected detail) s"
    using assms(2)
    by (auto simp: check_subscription_def judge_subscription_def bind_eq_Some_conv split: if_splits option.splits)
  have "ws_ok s" "sid < wc_next_id s" "n \<le> length (wc_events s)" using assms(1) by (simp_all add: subscribed_at_def)
  then show ?thesis using p same_calls_ok [OF same_calls_simps(2)] True by (auto simp: subscribed_at_def emit_def)
next
  case False
  then have "s' = s" "sp_subscribed sp' = sp_subscribed sp" "sp_served sp' \<longrightarrow> sp_served sp \<or> sp_subscribed sp"
    using assms(2)
    by (auto simp: check_subscription_def judge_subscription_def bind_eq_Some_conv split: if_splits option.splits)
  then show ?thesis using assms(1) by (auto simp: subscribed_at_def)
qed

lemma loop_subscribed:
  assumes "session_loop env sid turns sp s = Some (reason, sp', s')" "subscribed_at sid n sp s"
  shows "subscribed_at sid n sp' s'"
proof (rule session_loop_invariant [OF assms(1), of "subscribed_at sid n"])
  show "subscribed_at sid n sp (run_others env as s)" if "subscribed_at sid n sp s" for sp s as
    using subscribed_extends [OF that] others_extend that by (auto simp: subscribed_at_def)
  show "subscribed_at sid n sp s2" if "subscribed_at sid n sp s" "dispatch_message env msg s = Some (served, s2)" for sp s msg served s2
    using subscribed_extends [OF that(1)] dispatch_extends [OF _ that(2)] that(1) by (auto simp: subscribed_at_def)
qed (use assms(2) check_subscribed in auto)

lemma action_extends:
  assumes "ws_ok s" "ws_act env a s = Some s'" "a = SessionNumber \<or> a = SessionSubscribe \<or> (\<exists>v. a = SetOffset v)"
  shows "extends s s'"
  using assms slot_response_not_pending(2) [OF assms(1)] ws_act_ok [OF assms(1,2)]
  by (force simp: extends_def register_pending_def Let_def)

lemma time_sync_extends:
  assumes "ws_ok s"
  shows "extends s (snd (inline_time_sync env sent others reply now s))"
proof -
  let ?s1 = "run_others env others (s\<lparr>wc_next_id := wc_next_id s + 1\<rparr>)"
  have 0: "extends s (s\<lparr>wc_next_id := wc_next_id s + 1\<rparr>)" using action_extends [OF assms, of env SessionNumber] by simp
  then have 1: "extends s ?s1" by (rule extends_others)
  then have ok: "ws_ok ?s1" by (simp add: extends_def)
  have offset: "extends ?s1 (?s1\<lparr>wc_offset := v\<rparr>)" for v using action_extends [OF ok, of env "SetOffset v"] by simp
  have "extends ?s1 (snd (store_server_time i parsed now ?s1))" for i parsed
    using store_server_time_cases [of i parsed now ?s1] extends_refl [OF ok] offset by metis
  then show ?thesis using 1 extends_trans [OF 1] unfolding inline_time_sync_def Let_def by (auto split: option.splits)
qed

text \<open>What a healthy session has seen: after its subscription was registered under the number \<open>sid\<close> it
  came to a state in which the slot of \<open>sid\<close>, no number of a call, holds an answer with status 200, and
  \<open>Connected\<close> was announced after the first \<open>n\<close> events.\<close>

definition session_proven :: "ws_env \<Rightarrow> nat \<Rightarrow> ws_client \<Rightarrow> ws_client \<Rightarrow> bool" where
  "session_proven env n s s' \<longleftrightarrow> (\<exists>sa p frame d. acts_to env s sa \<and> acts_to env (snd (register_pending sa)) s'
     \<and> wc_slots s' (wc_next_id sa) = Some p \<and> pd_response p = Some frame \<and> wc_calls s' (wc_next_id sa) = None
     \<and> value_number wrap32 frame ''status'' 0 = Some 200 \<and> BfConnected d \<in> set (drop n (wc_events s')))"

lemma session_proven_after:
  assumes "session_proven env n s s1" "acts_to env s1 s2" "ws_ok s1" "extends s1 s2"
    and "\<And>i. i < wc_next_id s1 \<Longrightarrow> wc_calls s1 i = None \<Longrightarrow> wc_calls s2 i = None"
  shows "session_proven env n s s2"
proof -
  obtain sa p frame d where p: "acts_to env s sa" "acts_to env (snd (register_pending sa)) s1" "wc_slots s1 (wc_next_id sa) = Some p"
      "pd_response p = Some frame" "wc_calls s1 (wc_next_id sa) = None" "value_number wrap32 frame ''status'' 0 = Some 200"
      "BfConnected d \<in> set (drop n (wc_events s1))"
    using assms(1) by (auto simp: session_proven_def)
  have "wc_slots s2 (wc_next_id sa) = Some p" "wc_calls s2 (wc_next_id sa) = None"
    using assms(4,5) p(3-5) slot_response_not_pending(2) [OF assms(3) p(3,4)] by (auto simp: extends_def)
  moreover have "BfConnected d \<in> set (drop n (wc_events s2))"
    using p(7) assms(4) by (auto simp: extends_def elim!: prefixE)
  ultimately show ?thesis using p acts_to_trans [OF p(2) assms(2)] unfolding session_proven_def by blast
qed

lemma session_proven_before: "acts_to env s0 s \<Longrightarrow> session_proven env n s s' \<Longrightarrow> session_proven env n s0 s'"
  unfolding session_proven_def using acts_to_trans by blast

lemma session_start:
  assumes "ws_ok s"
  obtains s0 where "register_pending (session_subscribe env sc s) = (wc_next_id (session_subscribe env sc s), s0)"
    "moves env s (session_subscribe env sc s)" "moves env (session_subscribe env sc s) s0" "extends s s0" "wc_client s0 = wc_client s"
    "wc_calls s0 (wc_next_id (session_subscribe env sc s)) = None" "wc_next_id (session_subscribe env sc s) < wc_next_id s0"
proof -
  define sa where "sa = session_subscribe env sc s"
  have sa: "moves env s sa" "extends s sa"
    using moves_trans [OF moves_time_sync moves_others] extends_others [OF time_sync_extends [OF assms]]
    by (simp_all add: sa_def session_subscribe_def)
  have ok: "ws_ok sa" using sa(2) by (simp add: extends_def)
  define s0 where "s0 = snd (register_pending sa)"
  have reg: "register_pending sa = (wc_next_id sa, s0)" by (simp add: s0_def register_pending_def Let_def)
  have sub: "moves env sa s0" by (rule ws_act_moves [of env SessionSubscribe]) (simp_all add: s0_def)
  have ext: "extends sa s0" by (rule action_extends [OF ok, of env SessionSubscribe]) (simp_all add: s0_def)
  have "entry_ok_at sa (wc_next_id sa)" using ok unfolding ws_ok_def by blast
  then have "wc_calls sa (wc_next_id sa) = None" by (auto simp: entry_ok_def split: option.splits)
  then have "wc_calls s0 (wc_next_id sa) = None" "wc_next_id sa < wc_next_id s0"
    by (auto simp: s0_def register_pending_def Let_def)
  moreover have "wc_client s0 = wc_client s" using sa(1) sub by (simp add: moves_def)
  ultimately show thesis
    using that [of s0] reg sa(1) sub extends_trans [OF sa(2) ext] by (simp add: sa_def)
qed

lemma session_body_spec:
  assumes "ws_ok s" "wc_client s" "n \<le> length (wc_events s)" "session_body env sc s = Some (out, s')"
  shows "moves env s s'" "fo_healthy out \<Longrightarrow> session_proven env n s s'"
proof -
  let ?sa = "session_subscribe env sc s"
  let ?sid = "wc_next_id ?sa"
  obtain s0 where s0: "register_pending ?sa = (?sid, s0)" "moves env s ?sa" "moves env ?sa s0" "extends s s0" "wc_client s0 = wc_client s"
      "wc_calls s0 ?sid = None" "?sid < wc_next_id s0"
    using session_start [OF assms(1)] by metis
  define s1 where "s1 = run_others env (sc_send_others sc) s0"
  have s1: "moves env s0 s1" "extends s s1"
    using moves_others extends_others [OF s0(4)] by (simp_all add: s1_def)
  have unsub: "moves env sx (erase_pending ?sid sx)" if "moves env s0 sx" for sx
    by (rule ws_act_moves [of env "SessionUnsubscribe ?sid"]) (use that s0 in \<open>simp_all add: moves_def\<close>)
  have whole: "moves env s sx" if "moves env s0 sx" for sx using moves_trans s0(2,3) that by blast
  let ?sp = "\<lparr>sp_subscribed = False, sp_served = False, sp_since = sc_subscribe_at sc\<rparr>"
  have client: "wc_client s1" using assms(2) s1(1) s0(5) by (simp add: moves_def)
  have loop: "\<exists>reason sp s2. session_loop env ?sid (sc_turns sc) ?sp s1 = Some (reason, sp, s2)
      \<and> s' = erase_pending ?sid (run_others env (sc_leave_others sc) s2) \<and> moves env s0 (run_others env (sc_leave_others sc) s2)
      \<and> (fo_healthy out \<longrightarrow> sp_subscribed sp)" if sent: "sc_subscribe_sent sc"
  proof -
    obtain reason sp s2 where l: "session_loop env ?sid (sc_turns sc) ?sp s1 = Some (reason, sp, s2)"
        "s' = erase_pending ?sid (run_others env (sc_leave_others sc) s2)" "fo_healthy out \<longrightarrow> sp_subscribed sp"
      using assms(4) s0(1) sent by (auto simp: session_body_def s1_def [symmetric] Let_def split: option.splits)
    moreover have "moves env s0 (run_others env (sc_leave_others sc) s2)"
      using moves_trans [OF s1(1)] moves_trans [OF moves_loop [OF l(1) client] moves_others] by blast
    ultimately show ?thesis by blast
  qed
  show "moves env s s'"
  proof (cases "sc_subscribe_sent sc")
    case False
    then show ?thesis using assms(4) s0(1) whole [OF moves_trans [OF s1(1) unsub [OF s1(1)]]] by (auto simp: session_body_def s1_def Let_def)
  next
    case True
    with loop show ?thesis using unsub moves_trans whole by blast
  qed
  show "session_proven env n s s'" if healthy: "fo_healthy out"
  proof -
    have "sc_subscribe_sent sc" using assms(4) s0(1) healthy by (auto simp: session_body_def Let_def split: if_splits)
    with loop healthy obtain reason sp s2 where l: "session_loop env ?sid (sc_turns sc) ?sp s1 = Some (reason, sp, s2)"
        "s' = erase_pending ?sid (run_others env (sc_leave_others sc) s2)" "moves env s0 (run_others env (sc_leave_others sc) s2)"
        "sp_subscribed sp" by blast
    have "n \<le> length (wc_events s1)" using assms(3) s1(2) prefix_length_le unfolding extends_def by fastforce
    then have "subscribed_at ?sid n ?sp s1" using s1 s0(7) by (simp add: subscribed_at_def extends_def moves_def)
    from loop_subscribed [OF l(1) this] have "subscribed_at ?sid n sp s2" .
    then have "subscribed_at ?sid n sp (run_others env (sc_leave_others sc) s2)"
      by (rule subscribed_extends) (rule others_extend, use \<open>subscribed_at ?sid n sp s2\<close> in \<open>simp add: subscribed_at_def\<close>)
    moreover have "wc_calls s' ?sid = None" using l(2,3) s0(6,7) by (simp add: moves_def erase_pending_def)
    moreover have "acts_to env s0 s'" "acts_to env s ?sa"
      using moves_trans [OF l(3) unsub [OF l(3)]] s0(2) by (simp_all add: l(2) moves_def)
    moreover have "snd (register_pending ?sa) = s0" "wc_slots s' = wc_slots (run_others env (sc_leave_others sc) s2)"
      "wc_events s' = wc_events (run_others env (sc_leave_others sc) s2)" using s0(1) by (simp_all add: l(2) erase_pending_def)
    ultimately show ?thesis using l(4) unfolding session_proven_def subscribed_at_def by metis
  qed
qed

lemma end_session_idle: "\<not> wc_in_session (end_session env sc s)" "\<not> wc_client (end_session env sc s)" "wc_pending (end_session env sc s) = {}"
proof -
  have "\<not> wc_client (run_others env as (x\<lparr>wc_client := False\<rparr>))" for as x
    using moves_others [of env "x\<lparr>wc_client := False\<rparr>" as] by (simp add: moves_def)
  then show "\<not> wc_client (end_session env sc s)" by (simp add: end_session_def fail_all_pending_def Let_def)
qed (simp_all add: end_session_def fail_all_pending_def Let_def)

lemma end_session_spec:
  assumes "ws_ok s"
  shows "acts_to env s (end_session env sc s)" "extends s (end_session env sc s)"
    "i < wc_next_id s \<Longrightarrow> wc_calls s i = None \<Longrightarrow> wc_calls (end_session env sc s) i = None"
proof -
  define s1 where "s1 = run_others env (sc_erase_others sc) s"
  define s2 where "s2 = s1\<lparr>wc_client := False\<rparr>"
  define s3 where "s3 = run_others env (sc_close_others sc) s2"
  define s4 where "s4 = (fail_all_pending s3)\<lparr>wc_in_session := False\<rparr>"
  have s4: "end_session env sc s = s4" by (simp add: end_session_def s1_def s2_def s3_def s4_def Let_def)
  have m: "moves env s s1" "moves env s2 s3" by (simp_all add: s1_def s3_def moves_others)
  have acts: "ws_act env SessionClose s1 = Some s2" "ws_act env FailAll s3 = Some s4"
    using m(2) by (simp_all add: s2_def s4_def moves_def)
  show "acts_to env s (end_session env sc s)"
    unfolding s4 by (rule acts_to_trans [OF acts_to_trans [OF _ acts_to_act [OF acts(1)]] acts_to_trans [OF _ acts_to_act [OF acts(2)]]])
      (use m in \<open>simp_all add: moves_def\<close>)
  have e1: "extends s s1" using others_extend [OF assms] by (simp add: s1_def)
  have e2: "extends s1 s2" using ws_act_ok [OF _ acts(1)] e1 by (simp add: extends_def s2_def)
  have e3: "extends s2 s3" using others_extend e2 by (simp add: extends_def s3_def)
  have e4: "extends s3 s4" using ws_act_ok [OF _ acts(2)] e3 slot_response_not_pending(1)
    by (auto simp: extends_def s4_def fail_all_pending_def)
  show "extends s (end_session env sc s)" using e1 e2 e3 e4 extends_trans unfolding s4 by blast
  show "wc_calls (end_session env sc s) i = None" if "i < wc_next_id s" "wc_calls s i = None"
    using that m by (simp add: s4 s4_def s2_def fail_all_pending_def moves_def)
qed

lemma session_runs:
  assumes "ws_reach env tr s" "\<not> wc_in_session s" "run_session env cfg sc s = Some (out, s')"
  shows "acts_to env s s'" "\<exists>s2. s' = end_session env sc s2"
    "fo_healthy out \<Longrightarrow> session_proven env (length (wc_events s)) s s'"
proof -
  define sw where "sw = run_others env (sc_idle_others sc) s"
  define so where "so = session_open (session_url cfg) sw"
  define s1 where "s1 = run_others env (sc_others sc) so"
  have ok: "ws_ok s" by (rule ws_reach_ok [OF assms(1)])
  have sw: "moves env s sw" "extends s sw" using moves_others others_extend [OF ok] by (simp_all add: sw_def)
  have opened: "acts_to env sw so"
    by (rule acts_to_act [of env "SessionOpen (session_url cfg)"]) (use assms(2) sw(1) in \<open>simp add: moves_def so_def\<close>)
  have okopen: "ws_ok so" using acts_to_ok [OF opened] sw(2) by (simp add: extends_def)
  have s1: "acts_to env s s1" "wc_client s1" "prefix (wc_events s) (wc_events s1)"
    using acts_to_trans [OF _ acts_to_trans [OF opened]] moves_others [of env so "sc_others sc"] sw
      others_extend [OF okopen, of env "sc_others sc"]
    by (auto simp: s1_def so_def moves_def extends_def session_open_def emit_def dest: append_prefixD intro: prefix_order.trans)
  have ok1: "ws_ok s1" using acts_to_ok [OF s1(1) ok] .
  have len: "length (wc_events s) \<le> length (wc_events s1)" using s1(3) by (rule prefix_length_le)
  obtain s2 where s2: "s' = end_session env sc s2" "acts_to env s1 s2" "fo_healthy out \<Longrightarrow> session_proven env (length (wc_events s)) s1 s2"
  proof (cases "sc_connect_error sc")
    case None
    then obtain sb where "session_body env sc s1 = Some (out, sb)" "s' = end_session env sc sb"
      using assms(3) by (auto simp: run_session_def s1_def so_def sw_def Let_def)
    then show thesis using that [of sb] session_body_spec [OF ok1 s1(2) len] by (auto simp: moves_def)
  next
    case (Some e)
    then show thesis using assms(3) that [of s1] by (auto simp: run_session_def s1_def so_def sw_def Let_def)
  qed
  have ok2: "ws_ok s2" using acts_to_ok [OF s2(2) ok1] .
  note finish = end_session_spec [OF ok2, where env = env and sc = sc]
  show "acts_to env s s'" using acts_to_trans [OF acts_to_trans [OF s1(1) s2(2)] finish(1)] by (simp add: s2(1))
  show "\<exists>s2. s' = end_session env sc s2" using s2(1) by blast
  show "session_proven env (length (wc_events s)) s s'" if "fo_healthy out"
    unfolding s2(1) by (rule session_proven_before [OF s1(1) session_proven_after [OF s2(3) [OF that] finish(1) ok2 finish(2,3)]])
qed

text \<open>The supervisor thread, over any number of sessions: between sessions, and when the feed has stopped,
  nothing is registered and no connection is up.\<close>

definition idle :: "ws_env \<Rightarrow> ws_client \<Rightarrow> bool" where
  "idle env s \<longleftrightarrow> (\<exists>tr. ws_reach env tr s) \<and> \<not> wc_in_session s \<and> \<not> wc_client s \<and> wc_pending s = {}"

interpretation binance_feed: supervised_feed "idle env" "\<lambda>f. \<exists>sc. f = run_session env cfg sc" "\<lambda>failure. emit (BfDisconnected failure)"
  for env cfg
proof unfold_locales
  fix f w outcome w' assume f: "\<exists>sc. f = run_session env cfg sc" and w: "idle env w" and run: "f w = Some (outcome, w')"
  obtain tr where "ws_reach env tr w" "\<not> wc_in_session w" using w by (auto simp: idle_def)
  moreover obtain sc where "run_session env cfg sc w = Some (outcome, w')" using f run by blast
  ultimately show "idle env w'" using session_runs(1,2) end_session_idle acts_to_reach unfolding idle_def by metis
next
  fix w failure assume "idle env w"
  then show "idle env (emit (BfDisconnected failure) w)"
    using ws_reach.act [where a = "SessionEmit (BfDisconnected failure)"] by (fastforce simp: idle_def emit_def)
qed

lemma run_feed_idle:
  assumes "idle env s" "run_feed env cfg scripts s = Some (past, s')"
  shows "idle env s'"
proof -
  obtain s1 where loop: "reconnect_loop (bn_retry cfg) (\<lambda>failure. emit (BfDisconnected failure)) 0 (feed_rounds env cfg scripts) s = Some (past, s1)"
      "s' = emit (BfStopped ''feed stopped'') s1"
    using assms(2) by (auto simp: run_feed_def)
  have "idle env s1"
    by (rule binance_feed.supervisor_keeps [OF loop(1) assms(1), of cfg]) (auto simp: feed_rounds_def)
  then show ?thesis
    using ws_reach.act [where a = "SessionEmit (BfStopped ''feed stopped'')"] by (fastforce simp: idle_def emit_def loop(2))
qed

text \<open>An answer in a slot that had none was delivered since.\<close>

lemma answer_delivered:
  assumes "run_actions env tr s = Some s'" "wc_slots s' i = Some p'" "pd_response p' = Some frame"
    and "\<nexists>p. wc_slots s i = Some p \<and> pd_response p = Some frame"
  shows "\<exists>before msg later s1. tr = before @ SessionDispatch msg # later \<and> run_actions env before s = Some s1 \<and> i \<in> wc_pending s1
    \<and> we_parse env msg = Some frame \<and> frame_id frame = Some i"
  using assms
proof (induction tr arbitrary: s)
  case (Cons a tr)
  then obtain s1 where s1: "ws_act env a s = Some s1" "run_actions env tr s1 = Some s'"
    by (auto simp: run_actions_Cons bind_eq_Some_conv)
  show ?case
  proof (cases "\<exists>p. wc_slots s1 i = Some p \<and> pd_response p = Some frame")
    case True
    then obtain msg where "a = SessionDispatch msg" "we_parse env msg = Some frame" "frame_id frame = Some i" "i \<in> wc_pending s"
      using ws_act_response [OF s1(1)] Cons.prems(4) by blast
    then show ?thesis by (intro exI [of _ "[]"] exI [of _ msg] exI [of _ tr] exI [of _ s]) (simp add: run_actions_def)
  next
    case False
    from Cons.IH [OF s1(2) Cons.prems(2,3) False] obtain before msg later s2 where
      "tr = before @ SessionDispatch msg # later" "run_actions env before s1 = Some s2" "i \<in> wc_pending s2"
      "we_parse env msg = Some frame" "frame_id frame = Some i" by blast
    then show ?thesis using s1(1)
      by (intro exI [of _ "a # before"] exI [of _ msg] exI [of _ later] exI [of _ s2]) (simp add: run_actions_Cons)
  qed
qed (simp add: run_actions_def)

text \<open>The actions \<open>tr'\<close> that follow the trace \<open>tr\<close> register a subscription under the number \<open>sid\<close>, new at that
  point, and read the frame \<open>frame\<close> of that number while it is registered.\<close>

definition subscription_answered :: "ws_env \<Rightarrow> ws_action list \<Rightarrow> ws_action list \<Rightarrow> int \<Rightarrow> json \<Rightarrow> bool" where
  "subscription_answered env tr tr' sid frame \<longleftrightarrow>
     (\<exists>trA trB msg trC sa sb. tr' = trA @ SessionSubscribe # trB @ SessionDispatch msg # trC
        \<and> ws_reach env (tr @ trA) sa \<and> sid = wc_next_id sa
        \<and> ws_reach env (tr @ trA @ SessionSubscribe # trB) sb \<and> sid \<in> wc_pending sb
        \<and> we_parse env msg = Some frame \<and> frame_id frame = Some sid)"

lemma proven_answered:
  assumes "ws_reach env tr s" "session_proven env n s s'"
  shows "\<exists>tr' sid frame d. run_actions env tr' s = Some s' \<and> subscription_answered env tr tr' sid frame \<and> wc_calls s' sid = None
    \<and> value_number wrap32 frame ''status'' 0 = Some 200 \<and> BfConnected d \<in> set (drop n (wc_events s'))"
proof -
  obtain sa p frame d trA trB where p: "run_actions env trA s = Some sa" "run_actions env trB (snd (register_pending sa)) = Some s'"
      "wc_slots s' (wc_next_id sa) = Some p" "pd_response p = Some frame" "wc_calls s' (wc_next_id sa) = None"
      "value_number wrap32 frame ''status'' 0 = Some 200" "BfConnected d \<in> set (drop n (wc_events s'))"
    using assms(2) by (auto simp: session_proven_def acts_to_def)
  have "\<nexists>p. wc_slots (snd (register_pending sa)) (wc_next_id sa) = Some p \<and> pd_response p = Some frame"
    by (simp add: register_pending_def Let_def)
  from answer_delivered [OF p(2-4) this] obtain before msg later sb where
    b: "trB = before @ SessionDispatch msg # later" "run_actions env before (snd (register_pending sa)) = Some sb"
      "wc_next_id sa \<in> wc_pending sb" "we_parse env msg = Some frame" "frame_id frame = Some (wc_next_id sa)" by blast
  have "run_actions env (trA @ SessionSubscribe # before) s = Some sb" "run_actions env (trA @ SessionSubscribe # trB) s = Some s'"
    using p(1,2) b(2) by (simp_all add: run_actions_append run_actions_Cons)
  then have "subscription_answered env tr (trA @ SessionSubscribe # trB) (wc_next_id sa) frame"
    unfolding subscription_answered_def
    by (intro exI [of _ trA] exI [of _ before] exI [of _ msg] exI [of _ later] exI [of _ sa] exI [of _ sb] conjI)
      (use ws_reach_run [OF assms(1)] p(1) b in simp_all)
  with p \<open>run_actions env (trA @ SessionSubscribe # trB) s = Some s'\<close> show ?thesis by blast
qed

text \<open>C11. A session leaves nothing behind, and is called healthy only on the venue's word. Whatever the
  transport, the venue and the callers do, a session that ends (the process not having died on
  an exception) is a sequence \<open>tr'\<close> of actions of the client after which no request is registered and
  no connection is up, so every call of that session has been answered or failed; and an outcome
  that resets the reconnect backoff means that in this session, within \<open>tr'\<close>, a subscription was
  registered under a new number, a frame with that number and status 200 was read while it was
  registered, and \<open>Connected\<close> was announced.\<close>

theorem session_outcome:
  assumes "ws_reach env tr s" "\<not> wc_in_session s" "run_session env cfg sc s = Some (out, s')"
  shows "\<exists>tr'. ws_reach env (tr @ tr') s' \<and> \<not> wc_in_session s' \<and> \<not> wc_client s' \<and> wc_pending s' = {}
    \<and> (\<forall>i c n p. wc_calls s' i = Some c \<longrightarrow> cl_phase c = Waiting n \<longrightarrow> wc_slots s' i = Some p \<longrightarrow> decided p)
    \<and> (fo_healthy out \<longrightarrow> (\<exists>sid frame d. subscription_answered env tr tr' sid frame \<and> wc_calls s' sid = None
        \<and> value_number wrap32 frame ''status'' 0 = Some 200 \<and> BfConnected d \<in> set (drop (length (wc_events s)) (wc_events s'))))"
proof -
  note run = session_runs [OF assms]
  obtain tr' where tr': "ws_reach env (tr @ tr') s'"
      "fo_healthy out \<longrightarrow> (\<exists>sid frame d. subscription_answered env tr tr' sid frame \<and> wc_calls s' sid = None
        \<and> value_number wrap32 frame ''status'' 0 = Some 200 \<and> BfConnected d \<in> set (drop (length (wc_events s)) (wc_events s')))"
    using run(1,3) proven_answered [OF assms(1)] acts_to_reach [OF _ assms(1)] ws_reach_run [OF assms(1)]
    by (cases "fo_healthy out") blast+
  have idle: "\<not> wc_in_session s'" "\<not> wc_client s'" "wc_pending s' = {}"
    using run(2) end_session_idle by auto
  have "decided p" if "wc_calls s' i = Some c" "cl_phase c = Waiting n" "wc_slots s' i = Some p" for i c n p
    using ws_reach_ok [OF tr'(1)] that idle by (auto simp: ws_ok_def entry_ok_def dest!: spec [of _ i])
  then show ?thesis using tr' idle by blast
qed

text \<open>A session that subscribes and serves one request of another thread; one that began during the clock
  query times out while the connection is closed.\<close>

definition demo_ack :: "int \<Rightarrow> json" where
  "demo_ack i = JObj [(''id'', JInt i), (''result'', JObj []), (''status'', JUInt 200)]"

definition demo_session_env :: ws_env where
  "demo_session_env = \<lparr>we_parse = (\<lambda>m. if m = ''subscribed'' then Some (demo_ack 3) else if m = ''one'' then Some (demo_ack 4) else None),
     we_dump = (\<lambda>_. []), we_hmac = (\<lambda>_ _. None)\<rparr>"

definition demo_script :: session_script where
  "demo_script = \<lparr>sc_idle_others = [], sc_connect_error = None, sc_others = [], sc_time_sent = True,
     sc_sync_others = [CallBegin ''time'' (JObj []), CallSend 2 True], sc_time_reply = None, sc_time_now = 0, sc_sign_now = 0, sc_sign_others = [],
     sc_subscribe_sent = True, sc_send_others = [], sc_subscribe_at = 0,
     sc_turns = [\<lparr>tn_stop = False, tn_others = [], tn_read = Some ''subscribed'', tn_stop_late = False, tn_now = 5\<rparr>,
       \<lparr>tn_stop = False, tn_others = [CallBegin ''order.place'' (JObj []), CallSend 4 True], tn_read = Some ''one'', tn_stop_late = False, tn_now = 9\<rparr>,
       \<lparr>tn_stop = False, tn_others = [], tn_read = None, tn_stop_late = False, tn_now = 10\<rparr>],
     sc_end = 10, sc_leave_others = [], sc_erase_others = [], sc_close_others = [CallTimeout 2]\<rparr>"

lemmas session_simps = run_session_def session_body_def session_subscribe_def end_session_def run_others_def other_step_def inline_time_sync_def
  check_subscription_def judge_subscription_def subscription_text_def value_number_def

theorem session_outcome_witness:
  "\<exists>out s' tr' sid frame. run_session demo_session_env default_binance demo_script fresh_client = Some (out, s')
     \<and> fo_failure out = ''connection lost'' \<and> ws_reach demo_session_env tr' s'
     \<and> subscription_answered demo_session_env [] tr' sid frame
     \<and> value_number wrap32 frame ''status'' 0 = Some 200"
proof -
  let ?run = "run_session demo_session_env default_binance demo_script fresh_client"
  have "case ?run of None \<Rightarrow> False | Some (out, s') \<Rightarrow> fo_failure out = ''connection lost'' \<and> fo_healthy out"
    by (simp add: session_simps act_simps demo_script_def demo_session_env_def demo_ack_def wrap32_def wrap64_def Let_def)
  then obtain out s' where run: "?run = Some (out, s')" "fo_failure out = ''connection lost''" "fo_healthy out"
    by (auto split: option.splits)
  have "\<not> wc_in_session fresh_client" by (simp add: fresh_client_def)
  from session_outcome [OF ws_reach.start this run(1)] run show ?thesis by auto
qed

end
