(* ===== verification/Gateway_Run.thy ===== *)
theory Gateway_Run
  imports Gateway OMS_Audit Rest_Orders OKX_Feed Binance_Session
begin

text \<open>
  The running gateway, the second half of \<open>main\<close> in \<^verbatim>\<open>apps/gateway_main.cpp\<close>: the handlers installed on
  the connectors' feeds, the audit pass with the cache behind \<open>GET /consistency\<close>, and the lines
  written to standard output.

  What the surroundings give a handler is its \<open>moment\<close>: the time, the answers of the venues and the
  traversal order of the registry. The counter of alerts is a \<open>uint64_t\<close>.
\<close>

record moment =
  mo_now :: nat
  mo_open :: "string \<Rightarrow> order_snapshot list result"
  mo_get :: "string \<Rightarrow> order_query \<Rightarrow> order_snapshot option result"
  mo_ids :: "oms \<Rightarrow> string list"

record gateway_run =
  gr_oms :: oms
  gr_cache :: consistency_cache
  gr_total_alerts :: nat
  gr_output :: "json list"

definition timestamp :: "moment \<Rightarrow> json" where
  "timestamp m = JStr (utc_now_iso_ms (mo_now m))"

definition json_count :: "nat \<Rightarrow> json" where
  "json_count n = JUInt n"

definition reconcile_summary_line :: "moment \<Rightarrow> reconcile_report \<Rightarrow> json" where
  "reconcile_summary_line m rep =
     jobject [(''ts'', timestamp m), (''event'', JStr ''reconcile''), (''adopted'', json_count (rp_adopted rep)),
       (''updated'', json_count (rp_updated rep)), (''terminalResolved'', json_count (rp_terminal_resolved rep)),
       (''absentRejected'', json_count (rp_absent_rejected rep)), (''unresolved'', json_count (rp_unresolved rep)),
       (''pendingListingFailed'', JBool (rp_pending_listing_failed rep))]"

definition consistency_alert_line :: "moment \<Rightarrow> consistency_alert \<Rightarrow> json" where
  "consistency_alert_line m a =
     jobject [(''ts'', timestamp m), (''event'', JStr ''consistency_alert''), (''clientOrderId'', JStr (al_client_order_id a)),
       (''check'', JStr (al_check a)), (''detail'', JStr (al_detail a))]"

definition alert_json :: "consistency_alert \<Rightarrow> json" where
  "alert_json a = jobject [(''clientOrderId'', JStr (al_client_order_id a)), (''check'', JStr (al_check a)), (''detail'', JStr (al_detail a))]"

definition consistency_snapshot :: "moment \<Rightarrow> audit_report \<Rightarrow> nat \<Rightarrow> json" where
  "consistency_snapshot m rep alert_count =
     jobject [(''ts'', timestamp m), (''status'', JStr ''ok''), (''ordersChecked'', json_count (ar_orders_checked rep)),
       (''venueLookups'', json_count (ar_venue_lookups rep)), (''lookupFailures'', json_count (ar_lookup_failures rep)),
       (''alerts'', JArr (map alert_json (ar_alerts rep))), (''totalAlerts'', json_count alert_count)]"

definition execution_report_line :: "moment \<Rightarrow> execution_report \<Rightarrow> json" where
  "execution_report_line m rep =
     jobject [(''ts'', timestamp m), (''event'', JStr ''execution_report''), (''clientOrderId'', JStr (er_client_order_id rep)),
       (''exchangeOrderId'', JStr (er_exchange_order_id rep)), (''state'', JStr (state_to_string (er_state rep))),
       (''filledQuantity'', JStr (er_filled_quantity rep)), (''averageFillPrice'', JStr (er_average_fill_price rep))]"

definition audit_line :: "moment \<Rightarrow> audit_report \<Rightarrow> json" where
  "audit_line m rep =
     jobject [(''ts'', timestamp m), (''event'', JStr ''audit''), (''ordersChecked'', json_count (ar_orders_checked rep)),
       (''venueLookups'', json_count (ar_venue_lookups rep)), (''lookupFailures'', json_count (ar_lookup_failures rep)),
       (''alerts'', json_count (length (ar_alerts rep)))]"

definition print_line :: "json \<Rightarrow> gateway_run \<Rightarrow> gateway_run" where
  "print_line j g = g\<lparr>gr_output := gr_output g @ [j]\<rparr>"

section \<open>Handlers\<close>

definition on_report :: "moment \<Rightarrow> execution_report \<Rightarrow> gateway_run \<Rightarrow> gateway_run" where
  "on_report m rep g = print_line (execution_report_line m rep) (g\<lparr>gr_oms := on_execution_report rep (gr_oms g)\<rparr>)"

definition reconcile_now :: "moment \<Rightarrow> gateway_run \<Rightarrow> gateway_run" where
  "reconcile_now m g =
     (case reconcile (mo_open m) (mo_get m) (mo_ids m) (gr_oms g) of (rep, s) \<Rightarrow>
        print_line (reconcile_summary_line m rep) (g\<lparr>gr_oms := s\<rparr>))"

definition on_connectivity :: "moment \<Rightarrow> bool \<Rightarrow> gateway_run \<Rightarrow> gateway_run" where
  "on_connectivity m up g =
     (if \<not> up then print_line (jobject [(''ts'', timestamp m), (''event'', JStr ''feed_disconnected'')]) g
      else reconcile_now m g)"

definition run_audit :: "moment \<Rightarrow> gateway_run \<Rightarrow> gateway_run" where
  "run_audit m g =
     (case audit (mo_get m) (mo_ids m (gr_oms g)) (gr_oms g) of (rep, s) \<Rightarrow>
        let alert_count = (gr_total_alerts g + length (ar_alerts rep)) mod 2 ^ 64;
            g1 = fold (\<lambda>a. print_line (consistency_alert_line m a)) (ar_alerts rep) (g\<lparr>gr_oms := s, gr_total_alerts := alert_count\<rparr>);
            g2 = print_line (audit_line m rep) g1
        in g2\<lparr>gr_cache := cache_store (consistency_snapshot m rep alert_count) (gr_cache g2)\<rparr>)"

text \<open>What the feeds and the audit scheduler make happen.\<close>

datatype happening = Reported execution_report | Connectivity bool | AuditDue

fun handle :: "moment \<times> happening \<Rightarrow> gateway_run \<Rightarrow> gateway_run" where
  "handle (m, Reported rep) g = on_report m rep g"
| "handle (m, Connectivity b) g = on_connectivity m b g"
| "handle (m, AuditDue) g = run_audit m g"

definition run_gateway :: "(moment \<times> happening) list \<Rightarrow> gateway_run \<Rightarrow> gateway_run" where
  "run_gateway hs = fold handle hs"

fun okx_happening :: "okx_output \<Rightarrow> happening option" where
  "okx_happening (OkEvent ev) = map_option Connectivity (okx_connectivity_of_event ev)"
| "okx_happening (OkReport rep) = Some (Reported rep)"

section \<open>The feeds only advance the registry\<close>

lemma print_line_sel [simp]:
  "gr_oms (print_line j g) = gr_oms g" "gr_cache (print_line j g) = gr_cache g" "gr_total_alerts (print_line j g) = gr_total_alerts g"
  by (simp_all add: print_line_def)

lemma fold_print_sel [simp]:
  "gr_oms (fold (\<lambda>a. print_line (f a)) as g) = gr_oms g" "gr_cache (fold (\<lambda>a. print_line (f a)) as g) = gr_cache g"
  "gr_total_alerts (fold (\<lambda>a. print_line (f a)) as g) = gr_total_alerts g"
  by (induction as arbitrary: g) simp_all

lemma fold_advances:
  assumes "\<And>x rep s. x \<in> set xs \<Longrightarrow> advances s (snd (f x (rep, s)))"
  shows "advances s (snd (fold f xs (rep, s)))"
  using assms
proof (induction xs arbitrary: rep s)
  case (Cons x xs)
  obtain rep' s' where "f x (rep, s) = (rep', s')" by (rule prod.exhaust)
  then show ?case using Cons.prems [of x s rep] Cons.IH [of s' rep'] Cons.prems advances_trans by fastforce
qed simp

lemma reconcile_advances: "advances s (snd (reconcile venue_open venue_get ids s))"
proof -
  obtain rep s1 where listed: "fold (\<lambda>v. reconcile_listing v (venue_open v)) (o_connectors s) (empty_report, s) = (rep, s1)"
    by (rule prod.exhaust)
  have "advances s s1"
    using fold_advances [of "o_connectors s" "\<lambda>v. reconcile_listing v (venue_open v)" s empty_report] listing_op.op_advances listed by simp
  moreover have "advances s1 (snd (fold (resolve_work venue_get) (worklist (ids s1) s1) (rep, s1)))"
    by (rule fold_advances) (rule work_op.op_advances)
  ultimately show ?thesis using listed advances_trans by (simp add: reconcile_def)
qed

lemma handle_advances: "advances (gr_oms g) (gr_oms (handle h g))"
proof (cases "(h, g)" rule: handle.cases)
  case (1 m rep g')
  then show ?thesis by (simp add: on_report_def report_op.op_advances)
next
  case (2 m b g')
  have "advances (gr_oms g) (gr_oms (reconcile_now m g))"
    using reconcile_advances [of "gr_oms g"] by (simp add: reconcile_now_def case_prod_beta)
  then show ?thesis using 2 by (simp add: on_connectivity_def)
next
  case (3 m g')
  have "quiet (gr_oms g) ((gr_oms g)\<lparr>o_notes := []\<rparr>)" by (simp add: quiet_def)
  then show ?thesis using 3 quiet_advances
    by (simp add: run_audit_def audit_def audit_begin_def Let_def)
qed

lemma run_gateway_advances: "advances (gr_oms g) (gr_oms (run_gateway hs g))"
  unfolding run_gateway_def
  by (induction hs arbitrary: g) (simp_all, meson advances_trans handle_advances)

text \<open>The alerts of the audits of a run.\<close>

fun alerts_of :: "(moment \<times> happening) list \<Rightarrow> gateway_run \<Rightarrow> consistency_alert list" where
  "alerts_of [] g = []"
| "alerts_of ((m, AuditDue) # hs) g =
     ar_alerts (fst (audit (mo_get m) (mo_ids m (gr_oms g)) (gr_oms g))) @ alerts_of hs (handle (m, AuditDue) g)"
| "alerts_of (h # hs) g = alerts_of hs (handle h g)"

lemma handle_total:
  "gr_total_alerts (handle (m, AuditDue) g)
     = (gr_total_alerts g + length (ar_alerts (fst (audit (mo_get m) (mo_ids m (gr_oms g)) (gr_oms g))))) mod 2 ^ 64"
  "gr_total_alerts (handle (m, Reported rep) g) = gr_total_alerts g"
  "gr_total_alerts (handle (m, Connectivity b) g) = gr_total_alerts g"
  by (simp_all add: run_audit_def on_report_def on_connectivity_def reconcile_now_def Let_def case_prod_beta)

lemma total_alerts:
  "gr_total_alerts (run_gateway hs g) mod 2 ^ 64 = (gr_total_alerts g + length (alerts_of hs g)) mod 2 ^ 64"
proof (induction hs g rule: alerts_of.induct)
  case (2 m hs g)
  then show ?case by (simp add: run_gateway_def handle_total mod_add_left_eq add.assoc del: handle.simps)
qed (simp_all add: run_gateway_def handle_total del: handle.simps)

text \<open>Whatever the venues' feeds say, orders only move forward. Hand the gateway any sequence of
  execution reports and connectivity changes of its feeds (each \<open>Connected\<close> reconciles against
  whatever the venues answer at that moment), with audit passes in between: every order that was
  known is still known and has evolved (same identity, lifecycle rank and fill mark never lower,
  a terminal state final), a well-filed registry stays so, the log has only grown, and the alert
  counter served by \<open>GET /consistency\<close> has counted exactly the alerts of the passes, modulo
  \<open>2\<^sup>6\<^sup>4\<close>.\<close>

lemma feeds_only_advance:
  "(\<forall>i r. o_orders (gr_oms g) i = Some r \<longrightarrow>
      (\<exists>r'. o_orders (gr_oms (run_gateway hs g)) i = Some r' \<and> evolves r r' \<and> (is_terminal (r_state r) \<longrightarrow> r_state r' = r_state r)))
   \<and> (registry_ok (gr_oms g) \<longrightarrow> registry_ok (gr_oms (run_gateway hs g)))
   \<and> (\<exists>new. log_events (gr_oms (run_gateway hs g)) = log_events (gr_oms g) @ new)
   \<and> gr_total_alerts (run_gateway hs g) mod 2 ^ 64 = (gr_total_alerts g + length (alerts_of hs g)) mod 2 ^ 64"
  using run_gateway_advances [of g hs] total_alerts [of hs g] evolves_terminal unfolding advances_def registry_le_def by blast

text \<open>Venues with no open orders, which know none.\<close>

definition demo_moment :: moment where
  "demo_moment = \<lparr>mo_now = 0, mo_open = (\<lambda>_. Inr []), mo_get = (\<lambda>_ _. Inr None), mo_ids = (\<lambda>_. [])\<rparr>"

end
