(* ===== verification/OMS_Replay.thy ===== *)
theory OMS_Replay
  imports OMS_Outcomes
begin

text \<open>
  Recovery from the log: \<open>load_from_log\<close> and \<open>apply_log_event\<close> of \<^verbatim>\<open>src/core/oms.cpp\<close>, and which
  histories a replay reproduces exactly.
\<close>

section \<open>Definitions\<close>

text \<open>The \<open>version\<close> of an event; 0 for a legacy event without one.\<close>

definition event_version :: "json \<Rightarrow> nat" where
  "event_version ev = (case jfind ev ''version'' of Some (JUInt n) \<Rightarrow> n | _ \<Rightarrow> 0)"

definition str_or :: "json \<Rightarrow> string \<Rightarrow> string \<Rightarrow> string" where
  "str_or ev nm d = opt_or (event_string ev nm) d"

definition placed_from_event :: "json \<Rightarrow> string \<Rightarrow> string \<Rightarrow> string \<Rightarrow> order_record" where
  "placed_from_event ev dflt_venue ty client_order_id =
     (let exchange_order_id = (if ty = ''place_submitted'' then [] else str_or ev ''exchangeOrderId'' []);
          r = \<lparr>r_client_order_id = client_order_id, r_symbol = str_or ev ''symbol'' [],
               r_venue = str_or ev ''venue'' dflt_venue, r_exchange_order_id = exchange_order_id,
               r_side = opt_or (parse_side (str_or ev ''side'' ''buy'')) Buy,
               r_type = opt_or (parse_order_type (str_or ev ''orderType'' ''limit'')) Limit,
               r_time_in_force = str_or ev ''timeInForce'' ''GTC'',
               r_price = str_or ev ''price'' [], r_quantity = str_or ev ''quantity'' [],
               r_state = (if ty = ''place_submitted'' then Pending else Live),
               r_filled_quantity = ''0'', r_average_fill_price = [],
               r_legs = (if exchange_order_id \<noteq> []
                 then [\<lparr>leg_version = (if event_version ev = 0 then 1 else event_version ev),
                        leg_exchange_order_id = exchange_order_id\<rparr>] else []),
               r_adopted = (ty = ''adopted''), r_rejection = None\<rparr>
      in if ty = ''adopted'' then
           r\<lparr>r_state := opt_or (parse_order_state (str_or ev ''state'' ''live'')) Live,
             r_filled_quantity := str_or ev ''filledQuantity'' ''0'',
             r_average_fill_price := str_or ev ''averageFillPrice'' []\<rparr>
         else r)"

definition rejected_from_event :: "json \<Rightarrow> string \<Rightarrow> string \<Rightarrow> order_record \<Rightarrow> order_record" where
  "rejected_from_event ev dflt_venue client_order_id r =
     r\<lparr>r_client_order_id := client_order_id, r_state := Rejected,
       r_symbol := str_or ev ''symbol'' (r_symbol r),
       r_venue := str_or ev ''venue'' (if r_venue r = [] then dflt_venue else r_venue r),
       r_rejection := Some (Error (str_or ev ''code'' ''rejected'') (str_or ev ''reason'' []))\<rparr>"

definition amended_values :: "json \<Rightarrow> order_record \<Rightarrow> order_record" where
  "amended_values ev r =
     (let r1 = (case event_string ev ''price'' of Some p \<Rightarrow> if p \<noteq> [] then r\<lparr>r_price := p\<rparr> else r | None \<Rightarrow> r)
      in case event_string ev ''quantity'' of Some q \<Rightarrow> if q \<noteq> [] then r1\<lparr>r_quantity := q\<rparr> else r1 | None \<Rightarrow> r1)"

definition amended_from_event :: "json \<Rightarrow> order_record \<Rightarrow> order_record" where
  "amended_from_event ev r0 =
     (let r = amended_values ev r0;
          exchange_order_id = str_or ev ''exchangeOrderId'' [];
          version = event_version ev
      in if version = 0 then
           let r1 = note_exchange_id r exchange_order_id
           in if parse_order_state (str_or ev ''state'' []) = Some Live \<and> r_state r1 = Canceled
              then r1\<lparr>r_state := Live\<rparr> else r1
         else
           let legs = (if version \<le> length (r_legs r) then
                         (if exchange_order_id \<noteq> []
                          then (r_legs r)[version - 1 := (r_legs r ! (version - 1))\<lparr>leg_exchange_order_id := exchange_order_id\<rparr>]
                          else r_legs r)
                       else r_legs r @ [\<lparr>leg_version = version, leg_exchange_order_id = exchange_order_id\<rparr>])
           in r\<lparr>r_legs := legs,
                r_exchange_order_id := (if exchange_order_id \<noteq> [] then exchange_order_id else r_exchange_order_id r)\<rparr>)"

definition state_from_event :: "json \<Rightarrow> order_record \<Rightarrow> order_record" where
  "state_from_event ev r =
     (case parse_order_state (str_or ev ''state'' []) of
        None \<Rightarrow> r
      | Some st \<Rightarrow>
          let r1 = snd (apply_observation r st (str_or ev ''filledQuantity'' []) (str_or ev ''averageFillPrice'' []) [] [] True)
          in if r_exchange_order_id r1 = [] then note_exchange_id r1 (str_or ev ''exchangeOrderId'' []) else r1)"

definition apply_log_event :: "json \<Rightarrow> oms \<Rightarrow> oms" where
  "apply_log_event ev s =
     (case (event_string ev ''type'', event_string ev ''clientOrderId'') of
        (Some ty, Some i) \<Rightarrow>
          if ty = ''place_submitted'' \<or> ty = ''place_accepted'' \<or> ty = ''adopted'' then
            s\<lparr>o_orders := (o_orders s)(i \<mapsto> placed_from_event ev (o_default_venue s) ty i)\<rparr>
          else if ty = ''rejected'' then
            s\<lparr>o_orders := (o_orders s)(i \<mapsto>
                rejected_from_event ev (o_default_venue s) i (opt_or (o_orders s i) default_record))\<rparr>
          else if ty = ''amended'' then
            (case o_orders s i of None \<Rightarrow> s | Some r \<Rightarrow> s\<lparr>o_orders := (o_orders s)(i \<mapsto> amended_from_event ev r)\<rparr>)
          else if ty = ''state'' then
            (case o_orders s i of None \<Rightarrow> s | Some r \<Rightarrow> s\<lparr>o_orders := (o_orders s)(i \<mapsto> state_from_event ev r)\<rparr>)
          else s
      | _ \<Rightarrow> s)"

definition load_from_log :: "(string \<Rightarrow> json option) \<Rightarrow> replay_faults \<Rightarrow> string option \<Rightarrow> oms
    \<Rightarrow> replay_stats result \<times> string option \<times> oms" where
  "load_from_log parse faults file s =
     (case o_log s of
        None \<Rightarrow> (Inr no_replay, file, s)
      | Some l \<Rightarrow> (case replay parse (sink_path l) faults file of
          (res, sunk, file') \<Rightarrow> (res, file', fold apply_log_event sunk s)))"

section \<open>Reading events back\<close>

lemma place_submitted_reads [simp]:
  "event_string (place_submitted_event r) ''type'' = Some (''place_submitted'')"
  "event_string (place_submitted_event r) ''clientOrderId'' = Some (r_client_order_id r)"
  "event_string (place_submitted_event r) ''symbol'' = Some (r_symbol r)"
  "event_string (place_submitted_event r) ''venue'' = Some (r_venue r)"
  "event_string (place_submitted_event r) ''side'' = Some (side_to_string (r_side r))"
  "event_string (place_submitted_event r) ''orderType'' = Some (type_to_string (r_type r))"
  "event_string (place_submitted_event r) ''price'' = Some (r_price r)"
  "event_string (place_submitted_event r) ''quantity'' = Some (r_quantity r)"
  "event_string (place_submitted_event r) ''timeInForce'' = Some (r_time_in_force r)"
  by (simp_all add: place_submitted_event_def event_string_def event_version_def jfind_jobject Let_def)

lemma place_accepted_reads [simp]:
  "event_string (place_accepted_event r) ''type'' = Some (''place_accepted'')"
  "event_string (place_accepted_event r) ''clientOrderId'' = Some (r_client_order_id r)"
  "event_string (place_accepted_event r) ''symbol'' = Some (r_symbol r)"
  "event_string (place_accepted_event r) ''venue'' = Some (r_venue r)"
  "event_string (place_accepted_event r) ''side'' = Some (side_to_string (r_side r))"
  "event_string (place_accepted_event r) ''orderType'' = Some (type_to_string (r_type r))"
  "event_string (place_accepted_event r) ''price'' = Some (r_price r)"
  "event_string (place_accepted_event r) ''quantity'' = Some (r_quantity r)"
  "event_string (place_accepted_event r) ''timeInForce'' = Some (r_time_in_force r)"
  "event_string (place_accepted_event r) ''exchangeOrderId'' = Some (r_exchange_order_id r)"
  "event_version (place_accepted_event r) = current_version r"
  by (simp_all add: place_accepted_event_def event_string_def event_version_def jfind_jobject Let_def)

lemma adopted_reads [simp]:
  "event_string (adopted_event r) ''type'' = Some (''adopted'')"
  "event_string (adopted_event r) ''clientOrderId'' = Some (r_client_order_id r)"
  "event_string (adopted_event r) ''symbol'' = Some (r_symbol r)"
  "event_string (adopted_event r) ''venue'' = Some (r_venue r)"
  "event_string (adopted_event r) ''side'' = Some (side_to_string (r_side r))"
  "event_string (adopted_event r) ''orderType'' = Some (type_to_string (r_type r))"
  "event_string (adopted_event r) ''price'' = Some (r_price r)"
  "event_string (adopted_event r) ''quantity'' = Some (r_quantity r)"
  "event_string (adopted_event r) ''timeInForce'' = Some (r_time_in_force r)"
  "event_string (adopted_event r) ''exchangeOrderId'' = Some (r_exchange_order_id r)"
  "event_string (adopted_event r) ''state'' = Some (state_to_string (r_state r))"
  "event_string (adopted_event r) ''filledQuantity'' = Some (r_filled_quantity r)"
  "event_string (adopted_event r) ''averageFillPrice'' = Some (r_average_fill_price r)"
  "event_version (adopted_event r) = current_version r"
  by (simp_all add: adopted_event_def place_accepted_event_def event_string_def event_version_def jfind_jobject Let_def)

lemma rejected_reads [simp]:
  "event_string (rejected_event r) ''type'' = Some (''rejected'')"
  "event_string (rejected_event r) ''clientOrderId'' = Some (r_client_order_id r)"
  "event_string (rejected_event r) ''symbol'' = Some (r_symbol r)"
  "event_string (rejected_event r) ''venue'' = Some (r_venue r)"
  "event_string (rejected_event r) ''code'' = Some (code (opt_or (r_rejection r) (Error [] [])))"
  "event_string (rejected_event r) ''reason'' = Some (message (opt_or (r_rejection r) (Error [] [])))"
  by (simp_all add: rejected_event_def event_string_def event_version_def jfind_jobject Let_def)

lemma amended_reads [simp]:
  "event_string (amended_event r) ''type'' = Some (''amended'')"
  "event_string (amended_event r) ''clientOrderId'' = Some (r_client_order_id r)"
  "event_string (amended_event r) ''price'' = Some (r_price r)"
  "event_string (amended_event r) ''quantity'' = Some (r_quantity r)"
  "event_string (amended_event r) ''state'' = Some (state_to_string (r_state r))"
  "event_string (amended_event r) ''exchangeOrderId'' = Some (r_exchange_order_id r)"
  "event_version (amended_event r) = current_version r"
  by (simp_all add: amended_event_def event_string_def event_version_def jfind_jobject Let_def)

lemma state_reads [simp]:
  "event_string (state_event r) ''type'' = Some (''state'')"
  "event_string (state_event r) ''clientOrderId'' = Some (r_client_order_id r)"
  "event_string (state_event r) ''state'' = Some (state_to_string (r_state r))"
  "event_string (state_event r) ''filledQuantity'' = Some (r_filled_quantity r)"
  "event_string (state_event r) ''averageFillPrice'' = Some (r_average_fill_price r)"
  "event_string (state_event r) ''exchangeOrderId'' = Some (r_exchange_order_id r)"
  "event_version (state_event r) = current_version r"
  by (simp_all add: state_event_def event_string_def event_version_def jfind_jobject Let_def)

text \<open>\<open>str_or\<close> on a field that is present.\<close>

lemma str_or_Some [simp]: "event_string ev nm = Some v \<Longrightarrow> str_or ev nm d = v"
  by (simp add: str_or_def)

section \<open>Single events\<close>

lemma apply_submitted:
  "o_orders (apply_log_event (place_submitted_event (place_candidate req v)) s) =
     (o_orders s)(rq_client_order_id req \<mapsto> place_candidate req v)"
  by (simp add: apply_log_event_def placed_from_event_def place_candidate_def Let_def)

lemma apply_accepted:
  assumes "r_state r = Live" "r_filled_quantity r = ''0''" "r_average_fill_price r = []"
    "\<not> r_adopted r" "r_rejection r = None"
    "r_legs r = (if r_exchange_order_id r = [] then [] else [\<lparr>leg_version = 1, leg_exchange_order_id = r_exchange_order_id r\<rparr>])"
  shows "o_orders (apply_log_event (place_accepted_event r) s) = (o_orders s)(r_client_order_id r \<mapsto> r)"
proof -
  have "placed_from_event (place_accepted_event r) d ''place_accepted'' (r_client_order_id r) = r" for d
    using assms by (intro order_record.equality) (auto simp: placed_from_event_def current_version_def Let_def)
  then show ?thesis by (simp add: apply_log_event_def)
qed

lemma apply_adopted:
  "o_orders (apply_log_event (adopted_event (snapshot_record sn v True)) s) =
     (o_orders s)(sn_client_order_id sn \<mapsto> snapshot_record sn v True)"
proof -
  let ?r = "snapshot_record sn v True"
  have "placed_from_event (adopted_event ?r) d ''adopted'' (r_client_order_id ?r) = ?r" for d
    by (intro order_record.equality)
      (auto simp: placed_from_event_def current_version_def snapshot_record_def Let_def)
  then show ?thesis using snapshot_record_ok(2) [of sn v True] by (simp add: apply_log_event_def)
qed

lemma apply_rejected:
  assumes "o_orders s (r_client_order_id r) = Some r" "r' = r\<lparr>r_state := Rejected, r_rejection := Some e\<rparr>"
  shows "o_orders (apply_log_event (rejected_event r') s) = (o_orders s)(r_client_order_id r \<mapsto> r')"
  using assms(1) by (simp add: assms(2) apply_log_event_def rejected_from_event_def)

text \<open>A \<open>state\<close> event repeats what an observation did.\<close>

lemma observe_fill_cases:
  assumes "a = (if avg \<noteq> [] then avg else r_average_fill_price r)"
    "r1 = r\<lparr>r_filled_quantity := filled, r_average_fill_price := a\<rparr>"
  shows "observe_fill r filled avg = (False, r)
    \<or> observe_fill r filled avg = (True, r1) \<and> observe_fill r filled a = (True, r1)"
  using assms by (simp add: observe_fill_def split: sum.split)

lemma observe_fill_again:
  assumes "r1 = snd (observe_fill r filled avg)"
  shows "snd (observe_fill r (r_filled_quantity r1) (r_average_fill_price r1)) = r1"
  using observe_fill_cases [OF refl refl, of r filled avg] assms
  by (elim disjE conjE) (simp_all add: observe_fill_stale raise_mark_self)

lemma move_replays: "ol.move s (ol.move s t) = ol.move s t"
  by (simp add: ol.move_def)

lemma observation_again:
  assumes "r1 = snd (apply_observation r st filled avg [] [] lc)"
  shows "snd (apply_observation r (r_state r1) (r_filled_quantity r1) (r_average_fill_price r1) [] [] True) = r1"
proof -
  let ?f = "snd (observe_fill r filled avg)"
  have r1: "r1 = ?f\<lparr>r_state := (if lc then ol.move (r_state r) st else r_state r)\<rparr>"
    unfolding assms apply_observation_record by (auto simp: Let_def frame_simps)
  have "ol.move (r_state r) (r_state r) = r_state r" by (simp add: ol.move_def)
  moreover have "snd (observe_fill r (r_filled_quantity r1) (r_average_fill_price r1)) = ?f"
    using observe_fill_again [OF refl, of r filled avg] by (simp add: r1)
  ultimately show ?thesis
    by (simp add: apply_observation_record Let_def r1 frame_simps move_replays)
qed

lemma observation_note_commute:
  "snd (apply_observation (note_exchange_id r x) st filled avg [] [] lc) =
     note_exchange_id (snd (apply_observation r st filled avg [] [] lc)) x"
proof -
  have fill: "snd (observe_fill (note_exchange_id r x) filled avg) = note_exchange_id (snd (observe_fill r filled avg)) x"
    by (auto simp: observe_fill_def note_exchange_id_def push_leg_def split: sum.splits)
  show ?thesis
    unfolding apply_observation_record fill
    by (auto simp: Let_def note_exchange_id_def push_leg_def frame_simps)
qed

lemma noting_fields:
  "r_state (note_exchange_id r x) = r_state r" "r_filled_quantity (note_exchange_id r x) = r_filled_quantity r"
  "r_average_fill_price (note_exchange_id r x) = r_average_fill_price r"
  by (simp_all add: note_exchange_id_def push_leg_def)

lemma reported_again: "state_from_event (state_event (snd (reported r rep lc))) r = snd (reported r rep lc)"
proof -
  let ?x = "er_exchange_order_id rep"
  let ?o = "\<lambda>r. snd (apply_observation r (er_state rep) (er_filled_quantity rep) (er_average_fill_price rep) [] [] lc)"
  have keep: "r_exchange_order_id (?o r) = r_exchange_order_id r"
    by (simp add: apply_observation_record Let_def frame_simps)
  show ?thesis
  proof (cases "r_exchange_order_id r = []")
    case False
    then show ?thesis
      using keep observation_again [OF refl, of r "er_state rep"] by (simp add: reported_def backfilled_def state_from_event_def Let_def)
  next
    case True
    have r': "snd (reported r rep lc) = note_exchange_id (?o r) ?x"
      using True by (simp add: reported_def backfilled_def observation_note_commute)
    have "snd (apply_observation r (r_state (?o r)) (r_filled_quantity (?o r)) (r_average_fill_price (?o r)) [] [] True) = ?o r"
      by (rule observation_again) simp
    moreover have "note_exchange_id (?o r) (r_exchange_order_id (note_exchange_id (?o r) ?x)) = note_exchange_id (?o r) ?x"
      using True keep by (auto simp: note_exchange_id_def push_leg_def)
    ultimately show ?thesis
      using True keep by (simp add: r' state_from_event_def Let_def noting_fields)
  qed
qed

section \<open>Histories a replay reproduces\<close>

text \<open>\<open>logs_as s s'\<close>: the events logged between \<open>s\<close> and \<open>s'\<close> turn, when replayed, the registry of \<open>s\<close>
  into that of \<open>s'\<close>.\<close>

definition logs_as :: "oms \<Rightarrow> oms \<Rightarrow> bool" where
  "logs_as s s' \<longleftrightarrow> o_default_venue s' = o_default_venue s
     \<and> (\<exists>evs. log_events s' = log_events s @ evs
        \<and> (\<forall>t. o_orders t = o_orders s \<longrightarrow> o_default_venue t = o_default_venue s \<longrightarrow>
             o_orders (fold apply_log_event evs t) = o_orders s'))"

definition writable :: "oms \<Rightarrow> bool" where
  "writable s \<longleftrightarrow> log_ready s \<and> o_log s \<noteq> None"

lemma apply_log_event_venue [simp]:
  "o_default_venue (apply_log_event ev s) = o_default_venue s"
  "o_default_venue (fold apply_log_event evs s) = o_default_venue s"
proof -
  show one: "o_default_venue (apply_log_event ev s) = o_default_venue s" for ev s
    by (simp add: apply_log_event_def split: option.splits)
  show "o_default_venue (fold apply_log_event evs s) = o_default_venue s"
    by (induction evs arbitrary: s) (simp_all add: one)
qed

lemma apply_log_event_cong:
  "o_orders t = o_orders s \<Longrightarrow> o_default_venue t = o_default_venue s \<Longrightarrow>
     o_orders (apply_log_event ev t) = o_orders (apply_log_event ev s)"
  by (simp add: apply_log_event_def split: option.splits)

lemma logs_as_trans [trans]:
  assumes "logs_as s1 s2" "logs_as s2 s3"
  shows "logs_as s1 s3"
proof -
  obtain evs1 evs2 where e: "log_events s2 = log_events s1 @ evs1" "log_events s3 = log_events s2 @ evs2"
    "\<And>t. o_orders t = o_orders s1 \<Longrightarrow> o_default_venue t = o_default_venue s1 \<Longrightarrow>
       o_orders (fold apply_log_event evs1 t) = o_orders s2"
    "\<And>t. o_orders t = o_orders s2 \<Longrightarrow> o_default_venue t = o_default_venue s2 \<Longrightarrow>
       o_orders (fold apply_log_event evs2 t) = o_orders s3"
    using assms unfolding logs_as_def by blast
  then show ?thesis
    using assms unfolding logs_as_def by (intro conjI exI [of _ "evs1 @ evs2"]) simp_all
qed

lemma logs_as_same:
  "o_orders s' = o_orders s \<Longrightarrow> log_events s' = log_events s \<Longrightarrow> o_default_venue s' = o_default_venue s \<Longrightarrow> logs_as s s'"
  unfolding logs_as_def by (intro conjI exI [of _ "[]"]) simp_all

lemma logs_as_one:
  assumes "log_events s' = log_events s @ [ev]" "o_orders s' = o_orders (apply_log_event ev s)"
    "o_default_venue s' = o_default_venue s"
  shows "logs_as s s'"
proof -
  have "o_orders (apply_log_event ev t) = o_orders s'"
    if "o_orders t = o_orders s" "o_default_venue t = o_default_venue s" for t
    using apply_log_event_cong [OF that, of ev] assms(2) by simp
  then show ?thesis unfolding logs_as_def using assms(1,3) by (intro conjI exI [of _ "[ev]"]) simp_all
qed

lemma writable_port: "writable s \<Longrightarrow> log_port s' = log_port s \<Longrightarrow> writable s'"
  by (auto simp: writable_def log_ready_def log_port_def split: option.splits)

lemma writable_append:
  assumes "writable s"
  shows "append_or_error ev s = (None, append_event ev s)" "log_events (append_event ev s) = log_events s @ [ev]"
    "writable (append_event ev s)" "o_default_venue (append_event ev s) = o_default_venue s"
proof -
  have ready: "log_ready s" using assms by (simp add: writable_def)
  show "append_or_error ev s = (None, append_event ev s)"
    using log_ready_append(1,3) [OF ready, of ev] by (metis prod.collapse)
  then show "log_events (append_event ev s) = log_events s @ [ev]"
    using append_or_error_events [of ev s] assms by (simp add: writable_def)
  have "quiet s (append_event ev s)" by simp
  then show "writable (append_event ev s)" "o_default_venue (append_event ev s) = o_default_venue s"
    using writable_port [OF assms] by (simp_all add: quiet_def)
qed

text \<open>A logged change of one entry.\<close>

lemma store_logs_as:
  assumes "writable s"
    and "\<And>t. o_orders t = (o_orders s)(i \<mapsto> r) \<Longrightarrow> o_orders (apply_log_event ev t) = (o_orders t)(i \<mapsto> r')"
  shows "logs_as (store_record i (s, r)) (store_record i (append_event ev s, r'))"
proof (rule logs_as_one)
  show "log_events (store_record i (append_event ev s, r')) = log_events (store_record i (s, r)) @ [ev]"
    by (simp add: writable_append(2) [OF assms(1)])
  show "o_default_venue (store_record i (append_event ev s, r')) = o_default_venue (store_record i (s, r))"
    by (simp add: store_record_def writable_append(4) [OF assms(1)])
  show "o_orders (store_record i (append_event ev s, r')) = o_orders (apply_log_event ev (store_record i (s, r)))"
    using assms(2) [of "store_record i (s, r)"] by (simp add: frame_simps)
qed

lemma apply_state_event:
  assumes "o_orders t i = Some r" "r_client_order_id r' = i" "state_from_event (state_event r') r = r'"
  shows "o_orders (apply_log_event (state_event r') t) = (o_orders t)(i \<mapsto> r')"
  using assms by (simp add: apply_log_event_def)

text \<open>Reports that leave a trace in the log for everything they change: they name no id, a leg
  that is known, or the first leg while moving the record.\<close>

definition clean_report :: "execution_report \<Rightarrow> order_record \<Rightarrow> bool" where
  "clean_report rep r \<longleftrightarrow> er_exchange_order_id rep = []
     \<or> (if r_legs r = [] then fst (reported r rep True)
        else leg_index_of r (er_exchange_order_id rep) \<noteq> None \<and> r_exchange_order_id r \<noteq> [])"

lemma observation_unchanged:
  assumes "\<not> fst (apply_observation r st filled avg [] [] lc)"
  shows "snd (apply_observation r st filled avg [] [] lc) = r"
proof -
  have fill: "\<not> fst (observe_fill r filled avg) \<Longrightarrow> observe_fill r filled avg = (False, r)"
    using observe_fill_cases [OF refl refl, of r filled avg] by auto
  have state: "\<not> fst (observe_state r st) \<Longrightarrow> observe_state r st = (False, r)"
    by (cases "st = r_state r"; cases "can_transition (r_state r) st")
      (simp_all add: observe_state_def apply_transition_def)
  show ?thesis
    using assms fill state
    by (cases lc) (auto simp: apply_observation_def observe_price_def observe_quantity_def case_prod_beta)
qed

lemma apply_report_logs_as:
  assumes "writable s" "r_client_order_id r = i" "apply_report r rep lc s = (s', r')"
    "fst (reported r rep lc) \<or> backfilled r rep = r"
  shows "logs_as (store_record i (s, r)) (store_record i (s', r'))"
proof -
  obtain b where b: "reported r rep lc = (b, r')"
    using apply_report_parts(1) [of r rep lc s] assms(3) by (metis prod.collapse snd_conv)
  let ?s1 = "s\<lparr>o_stats := (o_stats s)\<lparr>reports_applied := reports_applied (o_stats s) + 1\<rparr>\<rparr>"
  have w: "writable ?s1" by (rule writable_port [OF assms(1)]) simp
  have id: "r_client_order_id r' = i"
    using reporting.id_kept [where r = r and rep = rep and lc = lc and s = s] assms(2,3) by simp
  show ?thesis
  proof (cases b)
    case True
    then have s': "s' = append_event (state_event r') ?s1"
      using assms(3) b by (simp add: apply_report_def reported_def backfilled_def Let_def split: bool.splits if_splits)
    have "logs_as (store_record i (s, r)) (store_record i (?s1, r))"
      by (rule logs_as_same) (simp_all add: store_record_def)
    also have "logs_as (store_record i (?s1, r)) (store_record i (append_event (state_event r') ?s1, r'))"
      using w id reported_again [of r rep lc] b by (intro store_logs_as apply_state_event) auto
    finally show ?thesis by (simp add: s')
  next
    case False
    then have "r' = r" using assms(4) observation_unchanged b by (auto simp: reported_def) (metis fst_conv snd_conv)
    moreover have "s' = s\<lparr>o_stats := (o_stats s)\<lparr>reports_stale := reports_stale (o_stats s) + 1\<rparr>\<rparr>"
      using assms(3) b False by (simp add: apply_report_def reported_def backfilled_def Let_def split: bool.splits if_splits)
    ultimately show ?thesis by (intro logs_as_same) (simp_all add: store_record_def)
  qed
qed

lemma arbitrated_logs_as:
  assumes "writable s" "r_client_order_id r = i" "clean_report rep r" "apply_arbitrated_report rep (s, r) = (s', r')"
  shows "logs_as (store_record i (s, r)) (store_record i (s', r'))" "writable s'" "r_client_order_id r' = i"
proof -
  have q: "quiet s s'" using apply_arbitrated_parts(2) [where s = s and rep = rep and r = r] assms(4) by simp
  then show "writable s'" using writable_port [OF assms(1)] by (simp add: quiet_def)
  show "r_client_order_id r' = i"
    using arbitrating.id_kept [where s = s and rep = rep and r = r] assms(2,4) by simp
  obtain lc where lc: "apply_arbitrated_report rep (s, r) = apply_report r rep lc s"
    "fst (reported r rep lc) \<or> backfilled r rep = r"
  proof (cases "er_exchange_order_id rep = [] \<or> r_legs r = []")
    case True
    then have "fst (reported r rep True) \<or> backfilled r rep = r"
      using assms(3) by (auto simp: clean_report_def backfilled_def note_exchange_id_def)
    then show thesis using True that [of True] by (auto simp: apply_arbitrated_report_def)
  next
    case False
    then obtain m where "leg_index_of r (er_exchange_order_id rep) = Some m" "r_exchange_order_id r \<noteq> []"
      using assms(3) by (auto simp: clean_report_def)
    then show thesis
      using False that [of "\<not> m + 1 < length (r_legs r)"] by (auto simp: apply_arbitrated_report_def backfilled_def)
  qed
  then have "apply_report r rep lc s = (s', r')" using assms(4) by simp
  then show "logs_as (store_record i (s, r)) (store_record i (s', r'))"
    by (rule apply_report_logs_as [OF assms(1,2) _ lc(2)])
qed

text \<open>A batch of raced reports, each clean for the record it meets.\<close>

fun clean_reports :: "execution_report list \<Rightarrow> oms \<times> order_record \<Rightarrow> bool" where
  "clean_reports [] sr = True"
| "clean_reports (rep # reps) sr \<longleftrightarrow> clean_report rep (snd sr) \<and> clean_reports reps (apply_arbitrated_report rep sr)"

lemma raced_logs_as:
  assumes "writable s" "r_client_order_id r = i" "clean_reports reps (s, r)"
  shows "logs_as (store_record i (s, r)) (store_record i (apply_raced reps (s, r)))"
  using assms
proof (induction reps arbitrary: s r)
  case Nil
  then show ?case by (simp add: apply_raced_def logs_as_same)
next
  case (Cons rep reps)
  obtain s1 r1 where 1: "apply_arbitrated_report rep (s, r) = (s1, r1)" by fastforce
  have clean: "clean_report rep r" "clean_reports reps (s1, r1)" using Cons.prems(3) 1 by simp_all
  note step = arbitrated_logs_as [OF Cons.prems(1,2) clean(1) 1]
  have "logs_as (store_record i (s1, r1)) (store_record i (apply_raced reps (s1, r1)))"
    by (rule Cons.IH [OF step(2,3) clean(2)])
  with step(1) have "logs_as (store_record i (s, r)) (store_record i (apply_raced reps (s1, r1)))"
    by (rule logs_as_trans)
  then show ?case by (simp add: apply_raced_def 1)
qed

text \<open>
  \<open>clean_step\<close>: the critical sections that log everything they change in the registry. Left
  out are the steps whose effect a replay loses: legs adopted from unknown ids, ids changed by
  a cancel acknowledgement, price and quantity refreshed from snapshots, candidates rejected
  by the risk checks (only their rejection is logged) and raced reports dropped or unlogged.
\<close>

inductive clean_step :: "oms \<Rightarrow> oms \<Rightarrow> bool" where
  cs_place: "place_begin ids req venue hit s = (Send c w, s') \<Longrightarrow> clean_step s s'"
| cs_known: "o_orders s (rq_client_order_id req) = Some r \<Longrightarrow> place_begin ids req venue hit s = (h, s') \<Longrightarrow>
    clean_step s s'"
| cs_ack: "o_orders s (rq_client_order_id req) = Some (place_candidate req v) \<Longrightarrow>
    drain_raced_reports (rq_client_order_id req) s = (raced, s1) \<Longrightarrow>
    acked = (note_exchange_id (place_candidate req v) (pl_exchange_order_id p))\<lparr>r_state := Live\<rparr> \<Longrightarrow>
    clean_reports raced (append_event (place_accepted_event acked) s1, acked) \<Longrightarrow>
    place_finish req (Inr p) s = (res, s') \<Longrightarrow> clean_step s s'"
| cs_rejected: "o_orders s (rq_client_order_id req) = Some r \<Longrightarrow> \<not> is_terminal (r_state r) \<Longrightarrow>
    code e \<noteq> ''transport'' \<Longrightarrow> place_finish req (Inl e) s = (res, s') \<Longrightarrow> clean_step s s'"
| cs_unresolved: "o_orders s (rq_client_order_id req) = Some r \<Longrightarrow> code e = ''transport'' \<Longrightarrow>
    drain_raced_reports (rq_client_order_id req) s = (raced, s1) \<Longrightarrow> clean_reports raced (s1, r) \<Longrightarrow>
    place_finish req (Inl e) s = (res, s') \<Longrightarrow> clean_step s s'"
| cs_buffer: "o_raced s (er_client_order_id rep) \<noteq> None \<Longrightarrow> clean_step s (on_execution_report rep s)"
| cs_report: "o_raced s (er_client_order_id rep) = None \<Longrightarrow> o_orders s (er_client_order_id rep) = Some r \<Longrightarrow>
    clean_report rep r \<Longrightarrow> clean_step s (on_execution_report rep s)"
| cs_cancel: "o_orders s i = Some r \<Longrightarrow> pl_exchange_order_id p \<in> {[], r_exchange_order_id r} \<Longrightarrow>
    cancel_finish i (Inr p) s = (res, s') \<Longrightarrow> clean_step s s'"
| cs_amend_begin: "amend_begin ids cmd s = (h, s') \<Longrightarrow> clean_step s s'"
| cs_amend: "o_orders s (ac_client_order_id cmd) = Some r \<Longrightarrow>
    drain_raced_reports (ac_client_order_id cmd) s = (raced, s1) \<Longrightarrow>
    am_new_price w = Some pr \<Longrightarrow> am_new_quantity w = Some qt \<Longrightarrow>
    pr \<noteq> [] \<or> pr = r_price r \<Longrightarrow> qt \<noteq> [] \<or> qt = r_quantity r \<Longrightarrow> pl_exchange_order_id p \<noteq> [] \<Longrightarrow>
    r2 = append_amend_leg (r\<lparr>r_price := pr, r_quantity := qt\<rparr>) (pl_exchange_order_id p) \<Longrightarrow>
    clean_reports raced (append_event (amended_event r2) s1, r2) \<Longrightarrow>
    amend_finish cmd w (Inr p) s = (res, s') \<Longrightarrow> clean_step s s'"
| cs_adopt: "o_orders s (sn_client_order_id sn) = None \<Longrightarrow> adopt_snapshot venue sn (report, s) = (report', s') \<Longrightarrow>
    clean_step s s'"
| cs_absent: "o_orders s i = Some r \<Longrightarrow> resolve_item i (Inr None) (report, s) = (report', s') \<Longrightarrow> clean_step s s'"

inductive clean_run :: "oms \<Rightarrow> oms \<Rightarrow> bool" where
  cr_refl: "clean_run s s"
| cr_step: "clean_run s s' \<Longrightarrow> clean_step s' s'' \<Longrightarrow> clean_run s s''"

lemma clean_step_advances: "clean_step s s' \<Longrightarrow> advances s s'"
proof (induction rule: clean_step.induct)
  case (cs_place ids req venue hit s c w s')
  then show ?case using place_begin_op.op_advances [of s ids req venue hit] by simp
next
  case (cs_known s req r ids venue hit h s')
  then show ?case using place_begin_op.op_advances [of s ids req venue hit] by simp
next
  case (cs_ack s req v raced s1 acked p res s')
  then show ?case using place_finish_op.op_advances [of s req "Inr p"] by simp
next
  case (cs_rejected s req r e res s')
  then show ?case using place_finish_op.op_advances [of s req "Inl e"] by simp
next
  case (cs_unresolved s req r e raced s1 res s')
  then show ?case using place_finish_op.op_advances [of s req "Inl e"] by simp
next
  case (cs_cancel s i r p res s')
  then show ?case using cancel_op.op_advances [of s i "Inr p"] by simp
next
  case (cs_amend_begin ids cmd s h s')
  then show ?case using amend_begin_op.op_advances [of s ids cmd] by simp
next
  case (cs_amend s cmd r raced s1 w pr qt p r2 res s')
  then show ?case using amend_finish_op.op_advances [of s cmd w "Inr p"] by simp
next
  case (cs_adopt s sn venue report report' s')
  then show ?case using adopt_op.op_advances [of s venue sn report] by simp
next
  case (cs_absent s i r report report' s')
  then show ?case using resolve_op.op_advances [of s i "Inr None" report] by simp
qed (simp_all add: report_op.op_advances)

lemma store_self: "o_orders s i = Some r \<Longrightarrow> logs_as s (store_record i (s, r))"
  by (rule logs_as_same) (auto simp: store_record_def)

lemma logs_as_drain [simp]:
  "logs_as (s\<lparr>o_raced := x\<rparr>) s' \<longleftrightarrow> logs_as s s'" "logs_as s (s'\<lparr>o_raced := x\<rparr>) \<longleftrightarrow> logs_as s s'"
  by (simp_all add: logs_as_def)

lemma place_begin_logs_as:
  assumes "writable s" "place_begin ids req venue hit s = (Send c w, s')"
  shows "logs_as s s'"
proof -
  obtain t s1 where now: "latency_now s = (t, s1)" by fastforce
  then have q: "quiet s s1" "log_events s1 = log_events s"
    using quiet_latency(1) [of s]
    by (auto simp: latency_now_def lat_now_def split: option.splits prod.splits)
  let ?v = "if venue = [] then o_default_venue s1 else venue" and ?i = "rq_client_order_id req"
  let ?c = "place_candidate req ?v"
  obtain s2 where st: "place_stage ids req ?v s1 = (Send c w, s2)" "s' = place_send_latency req hit t s2"
    using assms(2) by (auto simp: place_begin_def now Let_def split: handler_step.splits prod.splits)
  have w1: "writable s1" using writable_port [OF assms(1)] q(1) by (simp add: quiet_def)
  note send = place_stage_send [OF st(1)]
  have cid: "r_client_order_id ?c = ?i" by (simp add: place_candidate_def)
  have s2: "\<exists>rc. s2 = (store_record ?i (append_event (place_submitted_event ?c) s1, ?c))\<lparr>o_raced := rc\<rparr>"
    using st(1) send(3-5) writable_append(1) [OF w1] cid
    by (auto simp: place_stage_def connector_for_def Let_def)
  then obtain rc where rc: "s2 = (store_record ?i (append_event (place_submitted_event ?c) s1, ?c))\<lparr>o_raced := rc\<rparr>" ..
  have "logs_as s s1" using q by (intro logs_as_same) (simp_all add: quiet_def)
  also have "logs_as s1 s2"
    unfolding rc logs_as_drain
    by (rule logs_as_one [where ev = "place_submitted_event ?c"])
      (simp_all add: writable_append(2) [OF w1] frame_simps apply_submitted,
       simp add: store_record_def writable_append(4) [OF w1])
  also have "logs_as s2 s'"
  proof (rule logs_as_same)
    show "log_events s' = log_events s2"
      by (simp add: st(2) place_send_latency_def latency_now_def lat_now_def latency_measure_def Let_def
          split: option.splits)
  qed (use quiet_send_latency [of s2 req hit t] in \<open>simp_all add: st(2) quiet_def\<close>)
  finally show ?thesis .
qed

lemma drained:
  assumes "drain_raced_reports i s = (raced, s1)"
  shows "s1 = s\<lparr>o_raced := (o_raced s)(i := None)\<rparr>" "writable s \<Longrightarrow> writable s1"
proof -
  show s1: "s1 = s\<lparr>o_raced := (o_raced s)(i := None)\<rparr>" using drain_parts(1) [of i s] assms by simp
  show "writable s \<Longrightarrow> writable s1" by (erule writable_port) (simp add: s1)
qed

lemma ack_logs_as:
  assumes "writable s" "o_orders s (rq_client_order_id req) = Some (place_candidate req v)"
    "drain_raced_reports (rq_client_order_id req) s = (raced, s1)"
    "acked = (note_exchange_id (place_candidate req v) (pl_exchange_order_id p))\<lparr>r_state := Live\<rparr>"
    "clean_reports raced (append_event (place_accepted_event acked) s1, acked)"
    "place_finish req (Inr p) s = (res, s')"
  shows "logs_as s s'"
proof -
  let ?i = "rq_client_order_id req" and ?c = "place_candidate req v" and ?s2 = "append_event (place_accepted_event acked) s1"
  note s1 = drained [OF assms(3)]
  have w1: "writable s1" using s1(2) assms(1) by simp
  have acked: "r_client_order_id acked = ?i" "r_state acked = Live" "r_filled_quantity acked = ''0''"
    "r_average_fill_price acked = []" "\<not> r_adopted acked" "r_rejection acked = None"
    "r_legs acked = (if r_exchange_order_id acked = [] then []
       else [\<lparr>leg_version = 1, leg_exchange_order_id = r_exchange_order_id acked\<rparr>])"
    by (simp_all add: assms(4) note_exchange_id_def push_leg_def place_candidate_def)
  have s': "s' = store_record ?i (apply_raced raced (?s2, acked))"
    using assms(2,3,6) s1(1) writable_append(1) [OF w1]
    by (simp add: place_finish_def Let_def apply_transition_def assms(4) note_exchange_id_def push_leg_def
        place_candidate_def case_prod_beta split: if_splits)
  have "logs_as s1 (store_record ?i (s1, ?c))" using assms(2) by (intro store_self) (simp add: s1(1))
  also have "logs_as (store_record ?i (s1, ?c)) (store_record ?i (?s2, acked))"
    using acked(1) apply_accepted [OF acked(2-7)] by (intro store_logs_as [OF w1]) simp
  also have "logs_as (store_record ?i (?s2, acked)) s'"
    unfolding s' using writable_append(3) [OF w1] acked(1) assms(5) by (rule raced_logs_as)
  finally show ?thesis by (simp add: s1(1))
qed

lemma rejected_logs_as:
  assumes "writable s" "o_orders s (rq_client_order_id req) = Some r" "\<not> is_terminal (r_state r)"
    "code e \<noteq> ''transport''" "place_finish req (Inl e) s = (res, s')" "r_client_order_id r = rq_client_order_id req"
  shows "logs_as s s'"
proof -
  let ?i = "rq_client_order_id req" and ?r = "r\<lparr>r_state := Rejected, r_rejection := Some e\<rparr>"
  obtain raced s1 where dr: "drain_raced_reports ?i s = (raced, s1)" by fastforce
  note s1 = drained [OF dr]
  have w1: "writable s1" using s1(2) assms(1) by simp
  have can: "can_transition (r_state r) Rejected" using assms(3) by (cases "r_state r") simp_all
  have s': "s' = store_record ?i (append_event (rejected_event ?r) s1, ?r)"
    using assms(2,4,5) s1(1) can writable_append(1) [OF w1]
    by (simp add: place_finish_def dr Let_def apply_transition_def)
  have "logs_as s1 (store_record ?i (s1, r))" using assms(2) by (intro store_self) (simp add: s1(1))
  also have "logs_as (store_record ?i (s1, r)) s'"
    unfolding s' using assms(6) apply_rejected [OF _ refl, of _ r e] by (intro store_logs_as [OF w1]) simp
  finally show ?thesis by (simp add: s1(1))
qed

lemma unresolved_logs_as:
  assumes "writable s" "o_orders s (rq_client_order_id req) = Some r" "code e = ''transport''"
    "drain_raced_reports (rq_client_order_id req) s = (raced, s1)" "clean_reports raced (s1, r)"
    "place_finish req (Inl e) s = (res, s')" "r_client_order_id r = rq_client_order_id req"
  shows "logs_as s s'"
proof -
  let ?i = "rq_client_order_id req"
  note s1 = drained [OF assms(4)]
  have "logs_as s1 (store_record ?i (s1, r))" using assms(2) by (intro store_self) (simp add: s1(1))
  also have "logs_as (store_record ?i (s1, r)) (store_record ?i (apply_raced raced (s1, r)))"
    using s1(2) assms(1,5,7) by (intro raced_logs_as) simp_all
  finally show ?thesis
    using assms(2,3,4,6) s1(1) by (auto simp: place_finish_def Let_def)
qed

lemma latency_same: "log_events (snd (latency_now s)) = log_events s" "log_events (latency_measure i ph a b s) = log_events s"
  by (simp_all add: latency_now_def lat_now_def latency_measure_def split: option.splits)

lemma report_logs_as:
  assumes "writable s0" "o_raced s0 (er_client_order_id rep) = None" "o_orders s0 (er_client_order_id rep) = Some r"
    "clean_report rep r" "r_client_order_id r = er_client_order_id rep"
  shows "logs_as s0 (on_execution_report rep s0)"
proof -
  let ?i = "er_client_order_id rep" and ?s = "snd (latency_now s0)"
  have q: "quiet s0 ?s" by simp
  have w: "writable ?s" using writable_port [OF assms(1)] q by (simp add: quiet_def)
  obtain s1 r1 where 1: "apply_arbitrated_report rep (?s, r) = (s1, r1)" by fastforce
  have "logs_as s0 ?s" using q by (intro logs_as_same) (simp_all add: latency_same quiet_def)
  also have "logs_as ?s (store_record ?i (?s, r))" using assms(3) by (intro store_self) (simp add: frame_simps)
  also have "logs_as (store_record ?i (?s, r)) (store_record ?i (s1, r1))"
    by (rule arbitrated_logs_as(1) [OF w assms(5,4) 1])
  also have "logs_as (store_record ?i (s1, r1)) (on_execution_report rep s0)"
  proof (rule logs_as_same)
    let ?s1 = "store_record ?i (s1, r1)"
    have "quiet ?s1 (latency_measure a ph b c (snd (latency_now ?s1)))" for a ph b c
      by (rule quiet_trans [OF quiet_latency])
    then show "o_orders (on_execution_report rep s0) = o_orders ?s1"
      "o_default_venue (on_execution_report rep s0) = o_default_venue ?s1"
      "log_events (on_execution_report rep s0) = log_events ?s1"
      using assms(2,3) 1 by (simp_all add: on_execution_report_def case_prod_beta frame_simps Let_def latency_same quiet_def)
  qed
  finally show ?thesis .
qed

lemma state_move_again:
  "can_transition (r_state r) st \<Longrightarrow> state_from_event (state_event (r\<lparr>r_state := st, r_rejection := e\<rparr>)) r = r\<lparr>r_state := st\<rparr>"
  by (simp add: state_from_event_def apply_observation_record observe_fill_stale raise_mark_self ol.move_def Let_def
      note_exchange_id_def)

lemma cancel_logs_as:
  assumes "writable s" "o_orders s i = Some r" "pl_exchange_order_id p \<in> {[], r_exchange_order_id r}"
    "cancel_finish i (Inr p) s = (res, s')" "r_client_order_id r = i"
  shows "logs_as s s'"
proof -
  have note_r: "note_exchange_id r (pl_exchange_order_id p) = r" using assms(3) by (auto simp: note_exchange_id_def)
  have self: "logs_as s (store_record i (s, r))" using assms(2) by (rule store_self)
  show ?thesis
  proof (cases "can_transition (r_state r) Canceled")
    case True
    let ?r = "r\<lparr>r_state := Canceled\<rparr>"
    have "logs_as (store_record i (s, r)) (store_record i (append_event (state_event ?r) s, ?r))"
      using assms(5) state_move_again [OF True, of "r_rejection r"]
      by (intro store_logs_as [OF assms(1)] apply_state_event) auto
    with self have "logs_as s (store_record i (append_event (state_event ?r) s, ?r))" by (rule logs_as_trans)
    then show ?thesis using assms(2,4) True note_r by (auto simp: cancel_finish_def apply_transition_def Let_def)
  next
    case False
    then show ?thesis using self assms(2,4) note_r by (auto simp: cancel_finish_def apply_transition_def Let_def)
  qed
qed

lemma apply_amended:
  assumes "legs_ok r" "x \<noteq> []" "pr \<noteq> [] \<or> pr = r_price r" "qt \<noteq> [] \<or> qt = r_quantity r"
    "r2 = append_amend_leg (r\<lparr>r_price := pr, r_quantity := qt\<rparr>) x"
  shows "amended_from_event (amended_event r2) r = r2"
proof -
  have r2: "r2 = r\<lparr>r_price := pr, r_quantity := qt,
      r_legs := r_legs r @ [\<lparr>leg_version = length (r_legs r) + 1, leg_exchange_order_id = x\<rparr>], r_exchange_order_id := x\<rparr>"
    using assms(2) by (simp add: assms(5) append_amend_leg_def push_leg_def)
  have "amended_values (amended_event r2) r = r\<lparr>r_price := pr, r_quantity := qt\<rparr>"
    using assms(3,4) by (auto simp: amended_values_def r2)
  moreover have "event_version (amended_event r2) = length (r_legs r) + 1"
    by (simp add: current_version_def r2)
  ultimately show ?thesis
    using assms(2) by (simp add: amended_from_event_def Let_def) (simp add: r2)
qed

lemma amend_logs_as:
  assumes "writable s" "o_orders s (ac_client_order_id cmd) = Some r" "r_client_order_id r = ac_client_order_id cmd"
    "legs_ok r" "drain_raced_reports (ac_client_order_id cmd) s = (raced, s1)"
    "am_new_price w = Some pr" "am_new_quantity w = Some qt"
    "pr \<noteq> [] \<or> pr = r_price r" "qt \<noteq> [] \<or> qt = r_quantity r" "pl_exchange_order_id p \<noteq> []"
    "r2 = append_amend_leg (r\<lparr>r_price := pr, r_quantity := qt\<rparr>) (pl_exchange_order_id p)"
    "clean_reports raced (append_event (amended_event r2) s1, r2)" "amend_finish cmd w (Inr p) s = (res, s')"
  shows "logs_as s s'"
proof -
  let ?i = "ac_client_order_id cmd" and ?s2 = "append_event (amended_event r2) s1"
  note s1 = drained [OF assms(5)]
  have w1: "writable s1" using s1(2) assms(1) by simp
  have id2: "r_client_order_id r2 = ?i" by (simp add: assms(3,11))
  have s': "s' = store_record ?i (apply_raced raced (?s2, r2))"
    using assms(2,5,6,7,11,13) s1(1) writable_append(1) [OF w1]
    by (simp add: amend_finish_def Let_def case_prod_beta)
  have ev: "o_orders (apply_log_event (amended_event r2) t) = (o_orders t)(?i \<mapsto> r2)"
    if "o_orders t = (o_orders s1)(?i \<mapsto> r)" for t
    using that id2 apply_amended [OF assms(4,10,8,9,11)] by (simp add: apply_log_event_def)
  have "logs_as s1 (store_record ?i (s1, r))" using assms(2) by (intro store_self) (simp add: s1(1))
  also have "logs_as (store_record ?i (s1, r)) (store_record ?i (?s2, r2))"
    using ev by (rule store_logs_as [OF w1])
  also have "logs_as (store_record ?i (?s2, r2)) s'"
    unfolding s' using writable_append(3) [OF w1] id2 assms(12) by (rule raced_logs_as)
  finally show ?thesis by (simp add: s1(1))
qed

lemma adopt_logs_as:
  assumes "writable s" "o_orders s (sn_client_order_id sn) = None" "adopt_snapshot venue sn (report, s) = (report', s')"
  shows "logs_as s s'"
proof (cases "sn_client_order_id sn = [] \<or> o_raced s (sn_client_order_id sn) \<noteq> None")
  case True
  then show ?thesis using assms(3) by (auto simp: adopt_snapshot_def logs_as_same)
next
  case False
  let ?r = "snapshot_record sn venue True"
  have s': "s' = store_record (sn_client_order_id sn) (append_event (adopted_event ?r) s, ?r)"
    using False assms(2,3) by (auto simp: adopt_snapshot_def record_from_snapshot_def Let_def snapshot_record_ok)
  show ?thesis
    unfolding s'
    by (rule logs_as_one [where ev = "adopted_event ?r"])
      (simp_all add: writable_append(2) [OF assms(1)] frame_simps apply_adopted,
       simp add: store_record_def writable_append(4) [OF assms(1)])
qed

lemma absent_logs_as:
  assumes "writable s" "o_orders s i = Some r" "resolve_item i (Inr None) (report, s) = (report', s')" "r_client_order_id r = i"
  shows "logs_as s s'"
proof (cases "can_transition (r_state r) Rejected")
  case True
  let ?m = "r\<lparr>r_state := Rejected\<rparr>" and ?r = "r\<lparr>r_state := Rejected, r_rejection := Some venue_absent\<rparr>"
  let ?s1 = "append_event (state_event ?r) s"
  have s': "s' = store_record i (append_event (rejected_event ?r) ?s1, ?r)"
    using assms(2,3) True by (simp add: resolve_item_def reject_absent_def apply_transition_def Let_def)
  have "logs_as s (store_record i (s, r))" using assms(2) by (rule store_self)
  also have "logs_as (store_record i (s, r)) (store_record i (?s1, ?m))"
    using assms(4) state_move_again [OF True, of "Some venue_absent"]
    by (intro store_logs_as [OF assms(1)]) (simp add: apply_log_event_def)
  also have "logs_as (store_record i (?s1, ?m)) s'"
    unfolding s' using assms(4) apply_rejected [of _ ?m ?r venue_absent] writable_append(3) [OF assms(1)]
    by (intro store_logs_as) simp_all
  finally show ?thesis .
next
  case False
  then have "s' = store_record i (s, r)"
    using assms(2,3) by (simp add: resolve_item_def reject_absent_def apply_transition_def Let_def)
  then show ?thesis using store_self [OF assms(2)] by simp
qed

lemma clean_step_logs_as:
  assumes "clean_step s s'" "writable s" "registry_ok s"
  shows "logs_as s s'"
proof -
  have id: "o_orders s i = Some r \<Longrightarrow> r_client_order_id r = i \<and> legs_ok r" for i r
    using assms(3) by (simp add: registry_ok_def)
  show ?thesis
    using assms(1,2) id
  proof (induction rule: clean_step.induct)
    case (cs_place ids req venue hit s c w s')
    then show ?case by (blast intro: place_begin_logs_as)
  next
    case (cs_known s req r ids venue hit h s')
    then have "s' = snd (latency_now s)" by (simp add: place_known)
    then show ?case using quiet_latency(1) [of s] by (intro logs_as_same) (simp_all add: latency_same quiet_def)
  next
    case (cs_ack s req v raced s1 acked p res s')
    show ?case by (rule ack_logs_as [OF cs_ack(6,1-5)])
  next
    case (cs_rejected s req r e res s')
    then show ?case using rejected_logs_as by blast
  next
    case (cs_unresolved s req r e raced s1 res s')
    then show ?case using unresolved_logs_as by blast
  next
    case (cs_buffer s rep)
    have "quiet s (snd (latency_now s))" by simp
    with cs_buffer(1) show ?case
      by (intro logs_as_same) (auto simp: on_execution_report_def case_prod_beta frame_simps latency_same quiet_def)
  next
    case (cs_report s rep r)
    then show ?case using report_logs_as by blast
  next
    case (cs_cancel s i r p res s')
    then show ?case using cancel_logs_as by blast
  next
    case (cs_amend_begin ids cmd s h s')
    have "o_default_venue s' = o_default_venue s" "log_events s' = log_events s"
      using cs_amend_begin(1) by (auto simp: amend_begin_def Let_def split: option.splits sum.splits if_splits)
    then show ?case using amend_begin_frame [OF cs_amend_begin(1)] by (intro logs_as_same) simp_all
  next
    case (cs_amend s cmd r raced s1 w pr qt p r2 res s')
    then show ?case by (intro amend_logs_as [OF cs_amend(11,1)]) auto
  next
    case (cs_adopt s sn venue report report' s')
    then show ?case using adopt_logs_as by blast
  next
    case (cs_absent s i r report report' s')
    then show ?case using absent_logs_as by blast
  qed
qed

lemma clean_run_logs_as:
  assumes "clean_run s s'" "writable s" "registry_ok s"
  shows "logs_as s s' \<and> writable s' \<and> registry_ok s'"
  using assms
proof (induction rule: clean_run.induct)
  case (cr_refl s)
  then show ?case by (simp add: logs_as_same)
next
  case (cr_step s s' s'')
  then have "advances s' s''" using clean_step_advances by blast
  then have "registry_ok s' \<longrightarrow> registry_ok s''" "log_port s'' = log_port s'"
    by (simp_all add: advances_def same_config_def)
  with cr_step show ?case using clean_step_logs_as logs_as_trans writable_port by blast
qed

section \<open>Properties\<close>

text \<open>C20. Recovery. After any run of critical sections that log everything they change, from a
  fresh system with a log that accepts writes, replaying the log into a fresh registry
  rebuilds the registry exactly: every field of every record, leg tables included.\<close>

theorem replay_rebuilds_registry:
  assumes "clean_run s0 s" "o_orders s0 = Map.empty" "log_events s0 = []" "log_ready s0" "o_log s0 \<noteq> None"
    and "o_orders fresh = Map.empty" "o_default_venue fresh = o_default_venue s0"
  shows "o_orders (fold apply_log_event (log_events s) fresh) = o_orders s"
proof -
  have "registry_ok s0" using assms(2) by (simp add: registry_ok_def)
  moreover have "writable s0" using assms(4,5) by (simp add: writable_def)
  ultimately have "logs_as s0 s" using clean_run_logs_as [OF assms(1)] by blast
  then show ?thesis using assms(2,3,6,7) by (auto simp: logs_as_def)
qed

theorem replay_rebuilds_registry_witness:
  "\<exists>s. clean_run (demo_oms\<lparr>o_log := Some demo_sink\<rparr>) s \<and> o_orders s ''c1'' = Some demo_live
     \<and> o_orders (fold apply_log_event (log_events s) demo_oms) ''c1'' = Some demo_live"
proof -
  let ?s0 = "demo_oms\<lparr>o_log := Some demo_sink\<rparr>" and ?c = "place_candidate demo_request ''okx''"
  let ?p = "\<lparr>pl_client_order_id = ''c1'', pl_exchange_order_id = ''x1''\<rparr> :: order_placement"
  have w: "log_ready ?s0" by (simp add: log_ready_def demo_sink_def)
  have cid: "r_client_order_id (place_candidate req v) = rq_client_order_id req" for req v
    by (simp add: place_candidate_def)
  have "\<exists>s1. place_begin [] demo_request [] (- 1) ?s0 = (Send ''okx'' demo_request, s1)
      \<and> o_orders s1 ''c1'' = Some ?c \<and> o_raced s1 ''c1'' = Some [] \<and> log_ready s1"
    by (simp add: demo_oms_def new_oms_def place_begin_def latency_now_def place_stage_def
        connector_for_def place_risk_def limits_for_def empty_risk_config_def append_or_error_def log_append_def
        demo_request_def demo_sink_def store_record_def place_send_latency_def log_ready_def cid Let_def)
  then obtain s1 where s1: "place_begin [] demo_request [] (- 1) ?s0 = (Send ''okx'' demo_request, s1)"
    "o_orders s1 (rq_client_order_id demo_request) = Some ?c" "o_raced s1 (rq_client_order_id demo_request) = Some []"
    "log_ready s1" by (auto simp: demo_request_def)
  obtain res s2 where s2: "place_finish demo_request (Inr ?p) s1 = (res, s2)" by fastforce
  have "o_orders s2 ''c1'' = Some demo_live"
    using place_outcome_law [OF s1(2-4) s2] by (simp add: demo_live_def demo_request_def)
  moreover have "clean_run ?s0 s2"
  proof (rule cr_step [OF cr_step [OF cr_refl cs_place [OF s1(1)]]], rule cs_ack [OF s1(2) _ refl _ s2])
    show "drain_raced_reports (rq_client_order_id demo_request) s1 =
        ([], s1\<lparr>o_raced := (o_raced s1)(rq_client_order_id demo_request := None)\<rparr>)"
      using s1(3) by (simp add: drain_raced_reports_def)
  qed simp
  moreover have "o_orders (fold apply_log_event (log_events s2) demo_oms) = o_orders s2"
    by (rule replay_rebuilds_registry [OF \<open>clean_run ?s0 s2\<close>])
      (simp_all add: w demo_oms_def new_oms_def log_events_def demo_sink_def log_ready_def)
  ultimately show ?thesis by auto
qed

text \<open>What a replay loses. When a report reveals an exchange id no leg knows (a lost amend
  acknowledgement), the registry adopts it as leg 2 and logs a \<open>state\<close> event that carries the
  id and the version, yet replaying that log yields a record that still has only the old leg
  and the old exchange id.\<close>

lemma replay_loses_discovered_leg:
  "\<exists>r r'.
     o_orders (on_execution_report (demo_report\<lparr>er_exchange_order_id := ''x2''\<rparr>)
       (demo_oms\<lparr>o_orders := [''c1'' \<mapsto> demo_live],
          o_log := Some (demo_sink\<lparr>sink_events := [place_accepted_event demo_live]\<rparr>)\<rparr>)) ''c1'' = Some r
     \<and> o_orders (fold apply_log_event (log_events (on_execution_report (demo_report\<lparr>er_exchange_order_id := ''x2''\<rparr>)
       (demo_oms\<lparr>o_orders := [''c1'' \<mapsto> demo_live],
          o_log := Some (demo_sink\<lparr>sink_events := [place_accepted_event demo_live]\<rparr>)\<rparr>))) demo_oms) ''c1'' = Some r'
     \<and> r_exchange_order_id r = ''x2'' \<and> length (r_legs r) = 2 \<and> r_filled_quantity r = ''1''
     \<and> r_exchange_order_id r' = ''x1'' \<and> length (r_legs r') = 1 \<and> r_filled_quantity r' = ''1''"
proof -
  let ?rep = "demo_report\<lparr>er_exchange_order_id := ''x2''\<rparr>"
  let ?s = "demo_oms\<lparr>o_orders := [''c1'' \<mapsto> demo_live],
          o_log := Some (demo_sink\<lparr>sink_events := [place_accepted_event demo_live]\<rparr>)\<rparr>"
  let ?r = "demo_live\<lparr>r_exchange_order_id := ''x2'',
      r_legs := r_legs demo_live @ [\<lparr>leg_version = Suc (Suc 0), leg_exchange_order_id = ''x2''\<rparr>],
      r_filled_quantity := ''1'', r_average_fill_price := ''99'', r_state := PartiallyFilled\<rparr>"
  have lat: "o_latency (store_record i (append_event ev s, r)) = o_latency s" for i ev s r
    by (auto simp: store_record_def append_event_def append_or_error_def count_write_failure_def
        split: option.splits prod.splits)
  obtain a b where ab: "parse_decimal ''1'' = Inr a" "parse_decimal ''0'' = Inr b" "compare_dec a b > 0"
  proof -
    have "is_ok (parse_decimal ''1'')" "is_ok (parse_decimal ''0'')"
      "(case parse_decimal ''1'' of Inr a \<Rightarrow> (case parse_decimal ''0'' of Inr b \<Rightarrow> compare_dec a b > 0 | Inl _ \<Rightarrow> False)
        | Inl _ \<Rightarrow> False)" by code_simp+
    then show thesis using that by (auto simp: is_ok_iff)
  qed
  have live: "r_filled_quantity demo_live = ''0''" "r_state demo_live = Live" "r_exchange_order_id demo_live = ''x1''"
    "r_legs demo_live = [\<lparr>leg_version = 1, leg_exchange_order_id = ''x1''\<rparr>]" "r_client_order_id demo_live = ''c1''"
    by (simp_all add: demo_live_def place_candidate_def demo_request_def)
  have fill: "observe_fill x ''1'' ''99'' = (True, x\<lparr>r_filled_quantity := ''1'', r_average_fill_price := ''99''\<rparr>)"
    if "r_filled_quantity x = ''0''" for x using that ab by (simp add: observe_fill_def)
  have run: "on_execution_report ?rep ?s = store_record ''c1'' (append_event (state_event ?r)
      (?s\<lparr>o_stats := empty_stats\<lparr>legs_discovered := 1, reports_applied := 1\<rparr>, o_notes := [(''c1'', ''x2'')]\<rparr>), ?r)"
    by (simp add: on_execution_report_def latency_now_def demo_oms_def new_oms_def demo_report_def
        apply_arbitrated_report_def live leg_index_of_def adopt_unknown_leg_def note_exchange_id_def push_leg_def
        note_discovered_leg_def kMaxDiscoveredLegNotes_def apply_report_def apply_observation_def fill
        observe_state_def apply_transition_def observe_price_def observe_quantity_def Let_def empty_stats_def lat)
  have log: "log_events (on_execution_report ?rep ?s) = [place_accepted_event demo_live, state_event ?r]"
    unfolding run by (simp add: append_event_def append_or_error_def log_append_def log_events_def demo_sink_def store_record_def Let_def)
  have placed: "o_orders (apply_log_event (place_accepted_event demo_live) demo_oms) ''c1'' = Some demo_live"
    using apply_accepted [of demo_live demo_oms] by (simp add: live demo_live_def [symmetric])
      (simp add: demo_live_def place_candidate_def)
  have pp: "parse_order_state ''partially_filled'' = Some PartiallyFilled" by code_simp
  have state: "\<exists>r'. o_orders (apply_log_event (state_event ?r) s') ''c1'' = Some r'
      \<and> r_exchange_order_id r' = ''x1'' \<and> length (r_legs r') = 1 \<and> r_filled_quantity r' = ''1''"
    if s': "o_orders s' ''c1'' = Some demo_live" for s'
    using s' pp by (simp add: live apply_log_event_def state_from_event_def apply_observation_def
        fill observe_state_def apply_transition_def observe_price_def observe_quantity_def Let_def)
  obtain r' where r': "o_orders (apply_log_event (state_event ?r)
        (apply_log_event (place_accepted_event demo_live) demo_oms)) ''c1'' = Some r'"
      "r_exchange_order_id r' = ''x1''" "length (r_legs r') = 1" "r_filled_quantity r' = ''1''"
    using state [OF placed] by blast
  have "o_orders (on_execution_report ?rep ?s) ''c1'' = Some ?r"
    unfolding run by (simp add: frame_simps)
  with r' show ?thesis unfolding log by (simp add: live)
qed

end
