(* ===== verification/Connector_Lifecycle.thy ===== *)
theory Connector_Lifecycle
  imports OKX_Feed Binance_Session
begin

text \<open>
  The life of a connector: its handlers, \<open>start\<close> and \<open>stop\<close>, and what its threads hand out in
  between. Covers the two connectors (\<^verbatim>\<open>okx_connector.cpp\<close>, \<^verbatim>\<open>binance_connector.cpp\<close>) and the feed
  objects they own (\<open>OkxOrdersFeed\<close>, \<open>BinanceWsClient\<close>).

  The core behind the handlers is a state of any type \<open>'g\<close>. A running thread is what it has still to
  hand out: the run of the supervisor (\<open>okx_run_feed\<close>, \<open>run_feed\<close>) on the scripts of its
  surroundings, which are an argument of \<open>start\<close>. Its last output, \<open>Stopped\<close>, is only handed out
  after a stop was requested.
\<close>

section \<open>Handlers\<close>

text \<open>The handlers of a connector; an empty \<open>std::function\<close> is \<open>None\<close>. Both connectors have these
  members and operations.\<close>

record 'g handlers =
  hn_report :: "(execution_report \<Rightarrow> 'g \<Rightarrow> 'g) option"
  hn_connectivity :: "(bool \<Rightarrow> 'g \<Rightarrow> 'g) option"

definition no_handlers :: "'g handlers" where
  "no_handlers = \<lparr>hn_report = None, hn_connectivity = None\<rparr>"

definition set_execution_report_handler :: "(execution_report \<Rightarrow> 'g \<Rightarrow> 'g) option \<Rightarrow> 'g handlers \<Rightarrow> 'g handlers" where
  "set_execution_report_handler h hs = hs\<lparr>hn_report := h\<rparr>"

definition set_connectivity_handler :: "(bool \<Rightarrow> 'g \<Rightarrow> 'g) option \<Rightarrow> 'g handlers \<Rightarrow> 'g handlers" where
  "set_connectivity_handler h hs = hs\<lparr>hn_connectivity := h\<rparr>"

definition forward_connectivity :: "bool \<Rightarrow> 'g handlers \<Rightarrow> 'g \<Rightarrow> 'g" where
  "forward_connectivity up hs g = (case hn_connectivity hs of Some handler \<Rightarrow> handler up g | None \<Rightarrow> g)"

definition forward_report :: "execution_report \<Rightarrow> 'g handlers \<Rightarrow> 'g \<Rightarrow> 'g" where
  "forward_report rep hs g = (case hn_report hs of Some handler \<Rightarrow> handler rep g | None \<Rightarrow> g)"

section \<open>The OKX orders feed\<close>

text \<open>A handler the connector gives to its feed reads the connector's own handlers when it is called.\<close>

type_synonym 'g upcall = "'g handlers \<Rightarrow> 'g \<Rightarrow> 'g"

record 'g orders_feed =
  xf_on_report :: "(execution_report \<Rightarrow> 'g upcall) option"
  xf_on_event :: "(okx_feed_event \<Rightarrow> 'g upcall) option"
  xf_supervisor :: "okx_output list option"
  xf_running :: bool

definition new_orders_feed :: "'g orders_feed" where
  "new_orders_feed = \<lparr>xf_on_report = None, xf_on_event = None, xf_supervisor = None, xf_running = False\<rparr>"

definition feed_set_report_handler :: "(execution_report \<Rightarrow> 'g upcall) option \<Rightarrow> 'g orders_feed \<Rightarrow> 'g orders_feed" where
  "feed_set_report_handler h f = f\<lparr>xf_on_report := h\<rparr>"

definition feed_set_event_handler :: "(okx_feed_event \<Rightarrow> 'g upcall) option \<Rightarrow> 'g orders_feed \<Rightarrow> 'g orders_feed" where
  "feed_set_event_handler h f = f\<lparr>xf_on_event := h\<rparr>"

definition feed_emit :: "'g orders_feed \<Rightarrow> okx_feed_event \<Rightarrow> 'g upcall" where
  "feed_emit f ev hs g = (case xf_on_event f of Some handler \<Rightarrow> handler ev hs g | None \<Rightarrow> g)"

definition feed_report :: "'g orders_feed \<Rightarrow> execution_report \<Rightarrow> 'g upcall" where
  "feed_report f rep hs g = (case xf_on_report f of Some handler \<Rightarrow> handler rep hs g | None \<Rightarrow> g)"

fun feed_hand_out :: "'g orders_feed \<Rightarrow> okx_output \<Rightarrow> 'g upcall" where
  "feed_hand_out f (OkEvent ev) hs g = feed_emit f ev hs g"
| "feed_hand_out f (OkReport rep) hs g = feed_report f rep hs g"

definition feed_start :: "'w okx_env \<Rightarrow> okx_config \<Rightarrow> (okx_script \<times> bool \<times> rat) list \<Rightarrow> 'g orders_feed \<Rightarrow> 'g orders_feed" where
  "feed_start env cfg scripts f =
     (if \<not> ws_enabled (ok_ws cfg) then f
      else if xf_running f then f
      else f\<lparr>xf_running := True, xf_supervisor := Some (okx_run_feed env cfg scripts)\<rparr>)"

text \<open>Joining the supervisor lets it hand out the rest of its run.\<close>

definition feed_stop :: "'g orders_feed \<Rightarrow> 'g handlers \<Rightarrow> 'g \<Rightarrow> 'g orders_feed \<times> 'g" where
  "feed_stop f hs g =
     (case xf_supervisor f of
        Some outs \<Rightarrow> (f\<lparr>xf_supervisor := None, xf_running := False\<rparr>, fold (\<lambda>out. feed_hand_out f out hs) outs g)
      | None \<Rightarrow> (f\<lparr>xf_running := False\<rparr>, g))"

text \<open>One output of the running supervisor.\<close>

definition feed_background :: "'g orders_feed \<Rightarrow> 'g handlers \<Rightarrow> 'g \<Rightarrow> 'g orders_feed \<times> 'g" where
  "feed_background f hs g =
     (case xf_supervisor f of
        Some (out # next_out # rest) \<Rightarrow> (f\<lparr>xf_supervisor := Some (next_out # rest)\<rparr>, feed_hand_out f out hs g)
      | _ \<Rightarrow> (f, g))"

section \<open>The OKX connector\<close>

record 'g okx_connector =
  oc_config :: okx_config
  oc_handlers :: "'g handlers"
  oc_feed :: "'g orders_feed option"

definition new_okx_connector :: "okx_config \<Rightarrow> 'g okx_connector" where
  "new_okx_connector cfg = \<lparr>oc_config = cfg, oc_handlers = no_handlers, oc_feed = None\<rparr>"

definition okx_event_handler :: "okx_feed_event \<Rightarrow> 'g upcall" where
  "okx_event_handler ev hs g = (case okx_connectivity_of_event ev of Some up \<Rightarrow> forward_connectivity up hs g | None \<Rightarrow> g)"

definition okx_start :: "'w okx_env \<Rightarrow> (okx_script \<times> bool \<times> rat) list \<Rightarrow> 'g okx_connector \<Rightarrow> 'g okx_connector" where
  "okx_start env scripts c =
     (if \<not> ws_enabled (ok_ws (oc_config c)) \<or> oc_feed c \<noteq> None then c
      else c\<lparr>oc_feed := Some (feed_start env (oc_config c) scripts
        (feed_set_event_handler (Some okx_event_handler) (feed_set_report_handler (Some forward_report) new_orders_feed)))\<rparr>)"

definition okx_stop :: "'g okx_connector \<Rightarrow> 'g \<Rightarrow> 'g okx_connector \<times> 'g" where
  "okx_stop c g =
     (case oc_feed c of
        Some f \<Rightarrow> (c\<lparr>oc_feed := None\<rparr>, forward_connectivity False (oc_handlers c) (snd (feed_stop f (oc_handlers c) g)))
      | None \<Rightarrow> (c, g))"

definition okx_background :: "'g okx_connector \<Rightarrow> 'g \<Rightarrow> 'g okx_connector \<times> 'g" where
  "okx_background c g =
     (case oc_feed c of
        Some f \<Rightarrow> (case feed_background f (oc_handlers c) g of (f', g') \<Rightarrow> (c\<lparr>oc_feed := Some f'\<rparr>, g'))
      | None \<Rightarrow> (c, g))"

section \<open>The Binance client\<close>

text \<open>The supervisor hands out the reports, the notifier the queued events, each in order; between the
  two streams any order is possible. Both threads are created by \<open>start\<close> and joined by \<open>stop\<close>.
  \<open>wt_final\<close> is the state of the client when the run is over.\<close>

record ws_threads =
  wt_reports :: "execution_report list"
  wt_events :: "binance_feed_event list"
  wt_final :: ws_client

record 'g binance_ws =
  wl_on_report :: "(execution_report \<Rightarrow> 'g upcall) option"
  wl_on_event :: "(binance_feed_event \<Rightarrow> 'g upcall) option"
  wl_threads :: "ws_threads option"
  wl_running :: bool
  wl_state :: ws_client

definition new_binance_ws :: "'g binance_ws" where
  "new_binance_ws = \<lparr>wl_on_report = None, wl_on_event = None, wl_threads = None, wl_running = False, wl_state = fresh_client\<rparr>"

definition ws_set_report_handler :: "(execution_report \<Rightarrow> 'g upcall) option \<Rightarrow> 'g binance_ws \<Rightarrow> 'g binance_ws" where
  "ws_set_report_handler h w = w\<lparr>wl_on_report := h\<rparr>"

definition ws_set_event_handler :: "(binance_feed_event \<Rightarrow> 'g upcall) option \<Rightarrow> 'g binance_ws \<Rightarrow> 'g binance_ws" where
  "ws_set_event_handler h w = w\<lparr>wl_on_event := h\<rparr>"

definition ws_report :: "'g binance_ws \<Rightarrow> execution_report \<Rightarrow> 'g upcall" where
  "ws_report w rep hs g = (case wl_on_report w of Some handler \<Rightarrow> handler rep hs g | None \<Rightarrow> g)"

definition ws_pump_one :: "'g binance_ws \<Rightarrow> binance_feed_event \<Rightarrow> 'g upcall" where
  "ws_pump_one w ev hs g = (case wl_on_event w of Some handler \<Rightarrow> handler ev hs g | None \<Rightarrow> g)"

text \<open>A run that raises ends the process (\<open>None\<close>).\<close>

definition ws_start :: "ws_env \<Rightarrow> binance_config \<Rightarrow> (session_script \<times> bool \<times> rat) list \<Rightarrow> 'g binance_ws \<Rightarrow> 'g binance_ws option" where
  "ws_start env cfg scripts w =
     (if wl_running w then Some w
      else case run_feed env cfg scripts (wl_state w) of
        None \<Rightarrow> None
      | Some (_, s) \<Rightarrow> Some (w\<lparr>wl_running := True,
          wl_threads := Some \<lparr>wt_reports = drop (length (wc_reports (wl_state w))) (wc_reports s), wt_events = wc_events s, wt_final = s\<rparr>\<rparr>))"

text \<open>The order in which two threads hand out: \<open>True\<close> for the first.\<close>

fun interleave :: "bool list \<Rightarrow> 'a list \<Rightarrow> 'a list \<Rightarrow> 'a list" where
  "interleave (True # bs) (x # xs) ys = x # interleave bs xs ys"
| "interleave (False # bs) xs (y # ys) = y # interleave bs xs ys"
| "interleave _ xs ys = xs @ ys"

definition ws_stop :: "bool list \<Rightarrow> 'g binance_ws \<Rightarrow> 'g handlers \<Rightarrow> 'g \<Rightarrow> 'g binance_ws \<times> 'g" where
  "ws_stop order w hs g =
     (case wl_threads w of
        Some t \<Rightarrow>
          (w\<lparr>wl_threads := None, wl_running := False, wl_state := fail_all_pending (snd (pump_events (wt_final t)))\<rparr>,
           fold (\<lambda>call. call hs) (interleave order (map (ws_report w) (wt_reports t)) (map (ws_pump_one w) (wt_events t))) g)
      | None \<Rightarrow> (w\<lparr>wl_running := False, wl_state := fail_all_pending (wl_state w)\<rparr>, g))"

text \<open>One report of the supervisor (\<open>True\<close>) or one event of the notifier.\<close>

definition ws_background :: "bool \<Rightarrow> 'g binance_ws \<Rightarrow> 'g handlers \<Rightarrow> 'g \<Rightarrow> 'g binance_ws \<times> 'g" where
  "ws_background supervisor w hs g =
     (case wl_threads w of
        None \<Rightarrow> (w, g)
      | Some t \<Rightarrow>
          if supervisor then (case wt_reports t of
              rep # rest \<Rightarrow> (w\<lparr>wl_threads := Some (t\<lparr>wt_reports := rest\<rparr>)\<rparr>, ws_report w rep hs g)
            | [] \<Rightarrow> (w, g))
          else (case wt_events t of
              ev # next_ev # rest \<Rightarrow> (w\<lparr>wl_threads := Some (t\<lparr>wt_events := next_ev # rest\<rparr>)\<rparr>, ws_pump_one w ev hs g)
            | _ \<Rightarrow> (w, g)))"

section \<open>The Binance connector\<close>

record 'g binance_connector =
  bc_config :: binance_config
  bc_handlers :: "'g handlers"
  bc_started :: bool
  bc_ws :: "'g binance_ws"

definition new_binance_connector :: "binance_config \<Rightarrow> 'g binance_connector" where
  "new_binance_connector cfg = \<lparr>bc_config = cfg, bc_handlers = no_handlers, bc_started = False, bc_ws = new_binance_ws\<rparr>"

text \<open>\<open>cerr\<close> writes a line to the standard error stream.\<close>

definition binance_event_handler :: "(string \<Rightarrow> 'g \<Rightarrow> 'g) \<Rightarrow> binance_feed_event \<Rightarrow> 'g upcall" where
  "binance_event_handler cerr ev hs g =
     (case ev of
        BfConnected _ \<Rightarrow> forward_connectivity True hs g
      | BfDisconnected _ \<Rightarrow> forward_connectivity False hs g
      | BfStopped _ \<Rightarrow> forward_connectivity False hs g
      | BfConnecting _ \<Rightarrow> g
      | BfProtocolWarning detail \<Rightarrow> cerr (''binance feed warning: '' @ detail) g)"

definition binance_start :: "(string \<Rightarrow> 'g \<Rightarrow> 'g) \<Rightarrow> ws_env \<Rightarrow> (session_script \<times> bool \<times> rat) list
    \<Rightarrow> 'g binance_connector \<Rightarrow> 'g binance_connector option" where
  "binance_start cerr env scripts c =
     (if bc_started c then Some c
      else map_option (\<lambda>w. c\<lparr>bc_started := True, bc_ws := w\<rparr>)
        (ws_start env (bc_config c) scripts
          (ws_set_event_handler (Some (binance_event_handler cerr)) (ws_set_report_handler (Some forward_report) (bc_ws c)))))"

definition binance_stop :: "bool list \<Rightarrow> 'g binance_connector \<Rightarrow> 'g \<Rightarrow> 'g binance_connector \<times> 'g" where
  "binance_stop order c g =
     (if bc_started c then
        (case ws_stop order (bc_ws c) (bc_handlers c) g of (w, g') \<Rightarrow>
           (c\<lparr>bc_ws := w, bc_started := False\<rparr>, forward_connectivity False (bc_handlers c) g'))
      else (c, g))"

definition binance_background :: "bool \<Rightarrow> 'g binance_connector \<Rightarrow> 'g \<Rightarrow> 'g binance_connector \<times> 'g" where
  "binance_background supervisor c g =
     (case ws_background supervisor (bc_ws c) (bc_handlers c) g of (w, g') \<Rightarrow> (c\<lparr>bc_ws := w\<rparr>, g'))"

section \<open>What is handed to the core\<close>

text \<open>A notice is one call of a handler of the connector, or one line on the error stream. The order of
  the reports and the order of the other notices are what the threads guarantee.\<close>

datatype venue_notice = NoticeReport execution_report | NoticeConnectivity bool | NoticeWarning string

fun notify :: "(string \<Rightarrow> 'g \<Rightarrow> 'g) \<Rightarrow> 'g handlers \<Rightarrow> venue_notice \<Rightarrow> 'g \<Rightarrow> 'g" where
  "notify cerr hs (NoticeReport rep) = forward_report rep hs"
| "notify cerr hs (NoticeConnectivity up) = forward_connectivity up hs"
| "notify cerr hs (NoticeWarning detail) = cerr detail"

fun is_report_notice :: "venue_notice \<Rightarrow> bool" where
  "is_report_notice (NoticeReport _) = True"
| "is_report_notice _ = False"

definition reports_in :: "venue_notice list \<Rightarrow> venue_notice list" where
  "reports_in ns = filter is_report_notice ns"

definition signals_in :: "venue_notice list \<Rightarrow> venue_notice list" where
  "signals_in ns = filter (\<lambda>n. \<not> is_report_notice n) ns"

definition same_streams :: "venue_notice list \<Rightarrow> venue_notice list \<Rightarrow> bool" where
  "same_streams ns ms \<longleftrightarrow> reports_in ns = reports_in ms \<and> signals_in ns = signals_in ms"

lemma streams_simps [simp]:
  "reports_in (ns @ ms) = reports_in ns @ reports_in ms" "signals_in (ns @ ms) = signals_in ns @ signals_in ms"
  "reports_in [] = []" "signals_in [] = []"
  by (simp_all add: reports_in_def signals_in_def)

lemma same_streams_refl [simp]: "same_streams ns ns"
  by (simp add: same_streams_def)

lemma same_streams_append:
  "same_streams (ns @ rest) due \<Longrightarrow> same_streams ms rest \<Longrightarrow> same_streams (ns @ ms) due"
  by (simp add: same_streams_def)

fun okx_notices :: "okx_output \<Rightarrow> venue_notice list" where
  "okx_notices (OkEvent ev) = (case okx_connectivity_of_event ev of Some up \<Rightarrow> [NoticeConnectivity up] | None \<Rightarrow> [])"
| "okx_notices (OkReport rep) = [NoticeReport rep]"

definition binance_notices :: "binance_feed_event \<Rightarrow> venue_notice list" where
  "binance_notices ev =
     (case ev of
        BfProtocolWarning detail \<Rightarrow> [NoticeWarning (''binance feed warning: '' @ detail)]
      | _ \<Rightarrow> (case connectivity_of_event ev of Some up \<Rightarrow> [NoticeConnectivity up] | None \<Rightarrow> []))"

lemma okx_hand_out_notices:
  assumes "xf_on_report f = Some forward_report" "xf_on_event f = Some okx_event_handler"
  shows "feed_hand_out f out hs g = fold (notify cerr hs) (okx_notices out) g"
  using assms by (cases out) (auto simp: feed_emit_def feed_report_def okx_event_handler_def split: option.splits)

lemma okx_fold_notices:
  assumes "xf_on_report f = Some forward_report" "xf_on_event f = Some okx_event_handler"
  shows "fold (\<lambda>out. feed_hand_out f out hs) outs g = fold (notify cerr hs) (concat (map okx_notices outs)) g"
  by (induction outs arbitrary: g) (simp_all add: okx_hand_out_notices [OF assms, where cerr = cerr])

lemma ws_calls_notices:
  assumes "wl_on_report w = Some forward_report" "wl_on_event w = Some (binance_event_handler cerr)"
  shows "ws_report w rep hs = fold (notify cerr hs) [NoticeReport rep]" "ws_pump_one w ev hs = fold (notify cerr hs) (binance_notices ev)"
  using assms by (auto simp: fun_eq_iff ws_report_def ws_pump_one_def binance_event_handler_def binance_notices_def connectivity_of_event_def
      split: binance_feed_event.splits)

section \<open>Interleaving\<close>

lemma interleave_map: "interleave bs (map f xs) (map f ys) = map f (interleave bs xs ys)"
  by (induction bs xs ys rule: interleave.induct) simp_all

lemma pure_streams:
  "list_all is_report_notice ns \<Longrightarrow> reports_in ns = ns" "list_all is_report_notice ns \<Longrightarrow> signals_in ns = []"
  "list_all (\<lambda>n. \<not> is_report_notice n) ns \<Longrightarrow> reports_in ns = []" "list_all (\<lambda>n. \<not> is_report_notice n) ns \<Longrightarrow> signals_in ns = ns"
  by (simp_all add: reports_in_def signals_in_def list_all_iff filter_empty_conv filter_id_conv)

lemma pure_concat: "(\<forall>x \<in> set xs. list_all P x) \<Longrightarrow> list_all P (concat xs)"
  by (induction xs) simp_all

lemma interleave_streams:
  assumes "\<forall>x \<in> set xs. list_all is_report_notice x" "\<forall>y \<in> set ys. list_all (\<lambda>n. \<not> is_report_notice n) y"
  shows "same_streams (concat (interleave bs xs ys)) (concat xs @ concat ys)"
  using assms
proof (induction bs xs ys rule: interleave.induct)
  case (2 bs xs y ys)
  then show ?case by (simp add: same_streams_def pure_streams pure_concat)
qed (simp_all add: same_streams_def pure_streams pure_concat)

section \<open>The contract of a connector's life\<close>

text \<open>\<open>due c\<close> is what the threads of \<open>c\<close> have still to hand out.\<close>

locale connector_lifecycle =
  fixes good :: "'c \<Rightarrow> bool" and running :: "'c \<Rightarrow> bool" and handlers_of :: "'c \<Rightarrow> 'g handlers" and cerr :: "string \<Rightarrow> 'g \<Rightarrow> 'g"
    and due :: "'c \<Rightarrow> venue_notice list"
    and background :: "'b \<Rightarrow> 'c \<Rightarrow> 'g \<Rightarrow> 'c \<times> 'g"
    and begin_work :: "'x \<Rightarrow> 'c \<Rightarrow> 'c option"
    and end_work :: "'y \<Rightarrow> 'c \<Rightarrow> 'g \<Rightarrow> 'c \<times> 'g"
  assumes background_keeps: "good c \<Longrightarrow> background b c g = (c', g') \<Longrightarrow> good c' \<and> handlers_of c' = handlers_of c \<and> running c' = running c"
    and background_notifies: "good c \<Longrightarrow> background b c g = (c', g') \<Longrightarrow>
      \<exists>ns. g' = fold (notify cerr (handlers_of c)) ns g \<and> same_streams (ns @ due c') (due c)"
    and idle_silent: "good c \<Longrightarrow> \<not> running c \<Longrightarrow> due c = []"
    and begin_keeps: "good c \<Longrightarrow> begin_work x c = Some c' \<Longrightarrow> good c' \<and> handlers_of c' = handlers_of c"
    and begin_again: "good c \<Longrightarrow> running c \<Longrightarrow> begin_work x c = Some c"
    and end_keeps: "good c \<Longrightarrow> end_work y c g = (c', g') \<Longrightarrow> good c' \<and> handlers_of c' = handlers_of c \<and> \<not> running c'"
    and end_drains: "good c \<Longrightarrow> running c \<Longrightarrow> end_work y c g = (c', g') \<Longrightarrow>
      \<exists>ns. g' = fold (notify cerr (handlers_of c)) (ns @ [NoticeConnectivity False]) g \<and> same_streams ns (due c)"
    and end_again: "good c \<Longrightarrow> \<not> running c \<Longrightarrow> end_work y c g = (c, g)"
begin

lemma running_notifies:
  assumes "good c" "fold (\<lambda>b (c, g). background b c g) bs (c, g) = (c', g')"
  shows "good c' \<and> handlers_of c' = handlers_of c \<and> running c' = running c
    \<and> (\<exists>ns. g' = fold (notify cerr (handlers_of c)) ns g \<and> same_streams (ns @ due c') (due c))"
  using assms
proof (induction bs arbitrary: c g)
  case Nil
  then show ?case by (intro conjI exI [of _ "[]"]) auto
next
  case (Cons b bs)
  obtain c1 g1 where one: "background b c g = (c1, g1)" by (rule prod.exhaust)
  obtain ns where ns: "g1 = fold (notify cerr (handlers_of c)) ns g" "same_streams (ns @ due c1) (due c)"
    using background_notifies [OF Cons.prems(1) one] by blast
  note kept = background_keeps [OF Cons.prems(1) one]
  have "fold (\<lambda>b (c, g). background b c g) bs (c1, g1) = (c', g')" using Cons.prems(2) one by simp
  from Cons.IH [OF _ this] kept obtain ms where ms: "g' = fold (notify cerr (handlers_of c)) ms g1" "same_streams (ms @ due c') (due c1)"
      "good c'" "handlers_of c' = handlers_of c" "running c' = running c" by auto
  then show ?case using ns same_streams_append [OF ns(2) ms(2)] by (intro conjI exI [of _ "ns @ ms"]) auto
qed

text \<open>From a start to the end of the stop, however the deliveries in between are timed: the core is told
  everything that was due, each stream in order, and that the feed is down at last.\<close>

lemma lifetime:
  assumes "good c" "running c" "fold (\<lambda>b (c, g). background b c g) bs (c, g) = (c1, g1)" "end_work y c1 g1 = (c2, g2)"
  shows "good c2 \<and> \<not> running c2 \<and> handlers_of c2 = handlers_of c
    \<and> (\<exists>ns. g2 = fold (notify cerr (handlers_of c)) (ns @ [NoticeConnectivity False]) g \<and> same_streams ns (due c))"
proof -
  obtain ns where c1: "good c1" "handlers_of c1 = handlers_of c" "running c1"
      and ns: "g1 = fold (notify cerr (handlers_of c)) ns g" "same_streams (ns @ due c1) (due c)"
    using running_notifies [OF assms(1,3)] assms(2) by auto
  obtain ms where ms: "g2 = fold (notify cerr (handlers_of c)) (ms @ [NoticeConnectivity False]) g1" "same_streams ms (due c1)"
    using end_drains [OF c1(1,3) assms(4)] c1(2) by auto
  have "g2 = fold (notify cerr (handlers_of c)) ((ns @ ms) @ [NoticeConnectivity False]) g" using ns(1) ms(1) by simp
  moreover have "same_streams (ns @ ms) (due c)" using same_streams_append ns(2) ms(2) by blast
  ultimately show ?thesis using end_keeps [OF c1(1) assms(4)] c1(2) by metis
qed

lemma end_notifies:
  assumes "good c" "end_work y c g = (c', g')"
  shows "\<exists>ns. g' = fold (notify cerr (handlers_of c)) ns g"
proof (cases "running c")
  case True
  then show ?thesis using end_drains [OF assms(1) _ assms(2)] by blast
next
  case False
  then show ?thesis using end_again [OF assms(1), of y g] assms(2) by (intro exI [of _ "[]"]) simp
qed

text \<open>A connector that is not running is silent.\<close>

lemma silent:
  assumes "good c" "\<not> running c" "background b c g = (c', g')"
  shows "g' = g"
proof -
  obtain ns where ns: "g' = fold (notify cerr (handlers_of c)) ns g" "same_streams (ns @ due c') (due c)"
    using background_notifies [OF assms(1,3)] by blast
  have "reports_in ns = []" "signals_in ns = []" using ns(2) idle_silent [OF assms(1,2)] by (simp_all add: same_streams_def)
  then have "ns = []" by (cases ns) (auto simp: reports_in_def signals_in_def split: if_splits)
  then show ?thesis using ns(1) by simp
qed

end

subsection \<open>Both connectors keep it\<close>

definition okx_running :: "'g okx_connector \<Rightarrow> bool" where
  "okx_running c \<longleftrightarrow> oc_feed c \<noteq> None"

definition okx_good :: "'g okx_connector \<Rightarrow> bool" where
  "okx_good c = (case oc_feed c of None \<Rightarrow> True
     | Some f \<Rightarrow> xf_on_report f = Some forward_report \<and> xf_on_event f = Some okx_event_handler \<and> xf_running f \<and> xf_supervisor f \<noteq> None)"

definition okx_due :: "'g okx_connector \<Rightarrow> venue_notice list" where
  "okx_due c = (case Option.bind (oc_feed c) xf_supervisor of None \<Rightarrow> [] | Some outs \<Rightarrow> concat (map okx_notices outs))"

lemmas okx_life_simps = okx_running_def okx_good_def okx_due_def okx_start_def okx_stop_def okx_background_def feed_start_def feed_stop_def
  feed_background_def new_orders_feed_def feed_set_report_handler_def feed_set_event_handler_def

interpretation okx_life: connector_lifecycle okx_good okx_running oc_handlers cerr okx_due "\<lambda>_ :: unit. okx_background"
  "\<lambda>(env, scripts) c. Some (okx_start env scripts c)" "\<lambda>_ :: unit. okx_stop"
  for cerr :: "string \<Rightarrow> 'g \<Rightarrow> 'g"
proof unfold_locales
  fix c c' :: "'g okx_connector" and g g' :: 'g
  assume good: "okx_good c"
  show "\<exists>ns. g' = fold (notify cerr (oc_handlers c)) ns g \<and> same_streams (ns @ okx_due c') (okx_due c)" if "okx_background c g = (c', g')"
  proof (cases "\<exists>f out out' rest. oc_feed c = Some f \<and> xf_supervisor f = Some (out # out' # rest)")
    case True
    then obtain f out out' rest where f: "oc_feed c = Some f" "xf_supervisor f = Some (out # out' # rest)" by blast
    with good that okx_hand_out_notices [of f, where cerr = cerr] show ?thesis
      by (intro exI [of _ "okx_notices out"]) (auto simp: okx_life_simps)
  next
    case False
    then have "c' = c \<and> g' = g" using that by (auto simp: okx_life_simps split: option.splits list.splits)
    then show ?thesis by (intro exI [of _ "[]"]) simp
  qed
  show "\<exists>ns. g' = fold (notify cerr (oc_handlers c)) (ns @ [NoticeConnectivity False]) g \<and> same_streams ns (okx_due c)"
    if up: "okx_running c" and run: "okx_stop c g = (c', g')"
  proof -
    obtain f outs where f: "oc_feed c = Some f" "xf_supervisor f = Some outs" using good up by (auto simp: okx_running_def okx_good_def)
    with good run okx_fold_notices [of f, where cerr = cerr] show ?thesis
      by (intro exI [of _ "okx_due c"]) (auto simp: okx_life_simps)
  qed
qed (auto simp: okx_life_simps split: option.splits list.splits if_splits)

definition binance_good :: "(string \<Rightarrow> 'g \<Rightarrow> 'g) \<Rightarrow> 'g binance_connector \<Rightarrow> bool" where
  "binance_good cerr c \<longleftrightarrow> (bc_started c \<longleftrightarrow> wl_threads (bc_ws c) \<noteq> None) \<and> (bc_started c \<longleftrightarrow> wl_running (bc_ws c))
     \<and> (bc_started c \<longrightarrow> wl_on_report (bc_ws c) = Some forward_report \<and> wl_on_event (bc_ws c) = Some (binance_event_handler cerr))
     \<and> \<not> wc_client (case wl_threads (bc_ws c) of None \<Rightarrow> wl_state (bc_ws c) | Some t \<Rightarrow> wt_final t)"

definition binance_due :: "'g binance_connector \<Rightarrow> venue_notice list" where
  "binance_due c =
     (case wl_threads (bc_ws c) of
        None \<Rightarrow> []
      | Some t \<Rightarrow> map NoticeReport (wt_reports t) @ concat (map binance_notices (wt_events t)))"

lemmas binance_life_simps = binance_good_def binance_due_def binance_start_def binance_stop_def binance_background_def ws_start_def ws_stop_def
  ws_background_def ws_set_report_handler_def ws_set_event_handler_def

text \<open>A run of the supervisor leaves no connection up.\<close>

interpretation binance_down: supervised_feed "\<lambda>s. \<not> wc_client s" "\<lambda>f. \<exists>env cfg sc. f = run_session env cfg sc" "\<lambda>failure. emit (BfDisconnected failure)"
  by unfold_locales
    (auto simp: run_session_def end_session_idle emit_def Let_def split: option.splits)

lemma run_feed_down:
  assumes "run_feed env cfg scripts s = Some (past, s')" "\<not> wc_client s"
  shows "\<not> wc_client s'"
proof -
  obtain s1 where loop: "reconnect_loop (bn_retry cfg) (\<lambda>failure. emit (BfDisconnected failure)) 0 (feed_rounds env cfg scripts) s = Some (past, s1)"
      "s' = emit (BfStopped ''feed stopped'') s1"
    using assms(1) by (auto simp: run_feed_def)
  have "\<not> wc_client s1" by (rule binance_down.supervisor_keeps [OF loop(1) assms(2)]) (auto simp: feed_rounds_def, blast)
  then show ?thesis by (simp add: loop(2) emit_def)
qed

lemma binance_notices_signals: "list_all (\<lambda>n. \<not> is_report_notice n) (binance_notices ev)"
  by (simp add: binance_notices_def connectivity_of_event_def split: binance_feed_event.splits)

text \<open>What is left of the streams after one report, or after one event.\<close>

lemma hand_out_report: "same_streams ([NoticeReport rep] @ map NoticeReport reps @ sigs) (map NoticeReport (rep # reps) @ sigs)"
  by (simp add: same_streams_def)

lemma hand_out_event:
  "same_streams (binance_notices ev @ map NoticeReport reps @ sigs) (map NoticeReport reps @ binance_notices ev @ sigs)"
proof -
  have "list_all is_report_notice (map NoticeReport reps)" by (simp add: list_all_iff)
  then show ?thesis using binance_notices_signals [of ev] by (simp add: same_streams_def pure_streams)
qed

lemma interleaved_calls:
  assumes "wl_on_report w = Some forward_report" "wl_on_event w = Some (binance_event_handler cerr)"
  shows "\<exists>ns. fold (\<lambda>call. call hs) (interleave order (map (ws_report w) reps) (map (ws_pump_one w) evs)) g = fold (notify cerr hs) ns g
    \<and> same_streams ns (map NoticeReport reps @ concat (map binance_notices evs))"
proof -
  let ?call = "\<lambda>ns hs. fold (notify cerr hs) ns" and ?reps = "map (\<lambda>rep. [NoticeReport rep]) reps" and ?evs = "map binance_notices evs"
  let ?ns = "interleave order ?reps ?evs"
  have "map (ws_report w) reps = map ?call ?reps" "map (ws_pump_one w) evs = map ?call ?evs"
    using ws_calls_notices [OF assms] by (simp_all add: fun_eq_iff)
  then have "interleave order (map (ws_report w) reps) (map (ws_pump_one w) evs) = map ?call ?ns"
    by (simp only: interleave_map)
  moreover have "fold (\<lambda>call. call hs) (map ?call nss) g = ?call (concat nss) hs g" for nss g
    by (induction nss arbitrary: g) simp_all
  moreover have "same_streams (concat ?ns) (concat ?reps @ concat ?evs)"
    by (rule interleave_streams) (auto simp: binance_notices_signals)
  moreover have "concat ?reps = map NoticeReport reps" by (induction reps) simp_all
  ultimately show ?thesis by (intro exI [of _ "concat ?ns"]) simp
qed

interpretation binance_life: connector_lifecycle "binance_good cerr" bc_started bc_handlers cerr binance_due binance_background
  "\<lambda>(env, scripts). binance_start cerr env scripts" binance_stop
  for cerr :: "string \<Rightarrow> 'g \<Rightarrow> 'g"
proof unfold_locales
  fix c c' :: "'g binance_connector" and g g' :: 'g and b order
  assume good: "binance_good cerr c"
  show "\<exists>ns. g' = fold (notify cerr (bc_handlers c)) ns g \<and> same_streams (ns @ binance_due c') (binance_due c)"
    if run: "binance_background b c g = (c', g')"
  proof (cases "wl_threads (bc_ws c)")
    case None
    then show ?thesis using run by (intro exI [of _ "[]"]) (auto simp: binance_life_simps)
  next
    case (Some t)
    then have wired: "wl_on_report (bc_ws c) = Some forward_report" "wl_on_event (bc_ws c) = Some (binance_event_handler cerr)"
      using good by (auto simp: binance_good_def)
    note calls = ws_calls_notices [OF wired]
    consider rep reps where "b" "wt_reports t = rep # reps" | ev ev' rest where "\<not> b" "wt_events t = ev # ev' # rest"
      | "c' = c" "g' = g"
      using run Some by (cases "wt_reports t"; cases "wt_events t" rule: remdups_adj.cases) (auto simp: binance_life_simps split: if_splits)
    then show ?thesis
    proof cases
      case 1
      then show ?thesis using run Some calls(1) [of rep] hand_out_report
        by (intro exI [of _ "[NoticeReport rep]"]) (auto simp: binance_life_simps)
    next
      case 2
      then show ?thesis using run Some calls(2) [of ev] hand_out_event
        by (intro exI [of _ "binance_notices ev"]) (auto simp: binance_life_simps)
    next
      case 3
      then show ?thesis by (intro exI [of _ "[]"]) simp
    qed
  qed
  show "\<exists>ns. g' = fold (notify cerr (bc_handlers c)) (ns @ [NoticeConnectivity False]) g \<and> same_streams ns (binance_due c)"
    if up: "bc_started c" and run: "binance_stop order c g = (c', g')"
  proof -
    obtain t where t: "wl_threads (bc_ws c) = Some t" "wl_on_report (bc_ws c) = Some forward_report"
        "wl_on_event (bc_ws c) = Some (binance_event_handler cerr)"
      using good up by (auto simp: binance_good_def)
    from interleaved_calls [OF t(2,3), of "bc_handlers c" order "wt_reports t" "wt_events t" g] t(1) up run show ?thesis
      by (auto simp: binance_life_simps)
  qed
qed (auto simp: binance_life_simps pump_events_def fail_all_pending_def run_feed_down split: option.splits list.splits if_splits prod.splits)

section \<open>Properties\<close>

text \<open>C12. An OKX connector loses nothing and ends down. Start a stopped connector, let its feed hand out
  any number of its outputs, and stop it: the core has been told exactly what the run of the feed
  produced (every report once and in order, every connectivity change in order), and last that the
  feed is down. Until then a second \<open>start\<close> does nothing; afterwards the connector is silent and a
  second \<open>stop\<close> does nothing.\<close>

theorem okx_lifetime:
  assumes "okx_good c" "\<not> okx_running c" "ws_enabled (ok_ws (oc_config c))"
    and "fold (\<lambda>_ (c, g). okx_background c g) (ticks :: unit list) (okx_start env scripts c, g) = (c1, g1)" "okx_stop c1 g1 = (c2, g2)"
  shows "(\<exists>ns. g2 = fold (notify cerr (oc_handlers c)) (ns @ [NoticeConnectivity False]) g
        \<and> same_streams ns (concat (map okx_notices (okx_run_feed env (oc_config c) scripts))))
    \<and> okx_start env' scripts' c1 = c1 \<and> \<not> okx_running c2 \<and> okx_stop c2 g2 = (c2, g2) \<and> okx_background c2 g2 = (c2, g2)"
proof -
  let ?c = "okx_start env scripts c"
  have started: "okx_good ?c" "okx_running ?c" "oc_handlers ?c = oc_handlers c"
      "okx_due ?c = concat (map okx_notices (okx_run_feed env (oc_config c) scripts))"
    using assms(1-3) by (auto simp: okx_life_simps)
  note run = assms(4,5)
  have c1: "okx_good c1" "okx_running c1" using okx_life.running_notifies [OF started(1) run(1)] started(2) by simp_all
  have life: "okx_good c2 \<and> \<not> okx_running c2 \<and> oc_handlers c2 = oc_handlers c
      \<and> (\<exists>ns. g2 = fold (notify cerr (oc_handlers c)) (ns @ [NoticeConnectivity False]) g \<and> same_streams ns (okx_due ?c))"
    using okx_life.lifetime [OF started(1,2) run, of cerr] started(3) by simp
  moreover have "okx_start env' scripts' c1 = c1" using c1(2) by (auto simp: okx_life_simps)
  moreover have "okx_stop c2 g2 = (c2, g2)" "okx_background c2 g2 = (c2, g2)" using life by (auto simp: okx_life_simps)
  ultimately show ?thesis unfolding started(4) by blast
qed

text \<open>A core that writes down what it is told.\<close>

definition noting_handlers :: "venue_notice list handlers" where
  "noting_handlers = set_connectivity_handler (Some (\<lambda>up ns. ns @ [NoticeConnectivity up]))
     (set_execution_report_handler (Some (\<lambda>rep ns. ns @ [NoticeReport rep])) no_handlers)"

definition noting_cerr :: "string \<Rightarrow> venue_notice list \<Rightarrow> venue_notice list" where
  "noting_cerr detail ns = ns @ [NoticeWarning detail]"

lemma noting: "fold (notify noting_cerr noting_handlers) ns ms = ms @ ns"
proof (induction ns arbitrary: ms)
  case (Cons n ns)
  then show ?case by (cases n) (simp_all add: noting_handlers_def noting_cerr_def set_connectivity_handler_def
      set_execution_report_handler_def forward_report_def forward_connectivity_def)
qed simp

definition demo_okx_life :: "venue_notice list okx_connector" where
  "demo_okx_life = (new_okx_connector default_okx)\<lparr>oc_handlers := noting_handlers\<rparr>"

lemma demo_okx_feed:
  "concat (map okx_notices (okx_run_feed demo_feed_env default_okx [(demo_okx_script, True, 0)]))
     = [NoticeConnectivity True, NoticeReport demo_okx_report, NoticeConnectivity False]"
  by (simp add: okx_run_feed_def okx_rounds_def okx_run_session_def demo_okx_session okx_connectivity_of_event_def)

theorem okx_lifetime_witness:
  "\<exists>ns c g. okx_background (okx_start demo_feed_env [(demo_okx_script, True, 0)] demo_okx_life) [] = (c, g)
     \<and> snd (okx_stop c g) = ns @ [NoticeConnectivity False]
     \<and> reports_in ns = [NoticeReport demo_okx_report] \<and> signals_in ns = [NoticeConnectivity True, NoticeConnectivity False]"
proof -
  let ?c = "okx_start demo_feed_env [(demo_okx_script, True, 0)] demo_okx_life"
  have c: "okx_good demo_okx_life" "\<not> okx_running demo_okx_life" "ws_enabled (ok_ws (oc_config demo_okx_life))"
      "oc_handlers demo_okx_life = noting_handlers" "oc_config demo_okx_life = default_okx"
    by (simp_all add: demo_okx_life_def new_okx_connector_def okx_good_def okx_running_def default_okx_def default_okx_ws_def)
  obtain c1 g1 where one: "okx_background ?c [] = (c1, g1)" by (rule prod.exhaust)
  obtain c2 g2 where stop: "okx_stop c1 g1 = (c2, g2)" by (rule prod.exhaust)
  have "fold (\<lambda>_ (c, g). okx_background c g) [()] (?c, []) = (c1, g1)" using one by simp
  from okx_lifetime [OF c(1-3) this stop, of noting_cerr] obtain ns where
    "g2 = ns @ [NoticeConnectivity False]" "same_streams ns [NoticeConnectivity True, NoticeReport demo_okx_report, NoticeConnectivity False]"
    unfolding c(4,5) noting demo_okx_feed by auto
  then show ?thesis using one stop by (auto simp: same_streams_def reports_in_def signals_in_def)
qed

text \<open>C13. Neither does a Binance connector. Over a run of its supervisor and notifier threads, however their
  deliveries are timed before and during the stop, the core is told every report of the run once and
  in order, every connectivity change and warning in order, and last that the feed is down; nothing
  is left registered and no connection is up. Until then a second \<open>start\<close> does nothing; afterwards
  the connector is silent and a second \<open>stop\<close> does nothing.\<close>

theorem binance_lifetime:
  assumes "binance_good cerr c" "\<not> bc_started c" "binance_start cerr env scripts c = Some c0"
    and "fold (\<lambda>b (c, g). binance_background b c g) ticks (c0, g) = (c1, g1)" "binance_stop order c1 g1 = (c2, g2)"
  shows "(\<exists>past s ns. run_feed env (bc_config c) scripts (wl_state (bc_ws c)) = Some (past, s)
        \<and> g2 = fold (notify cerr (bc_handlers c)) (ns @ [NoticeConnectivity False]) g
        \<and> reports_in ns = map NoticeReport (drop (length (wc_reports (wl_state (bc_ws c)))) (wc_reports s))
        \<and> signals_in ns = concat (map binance_notices (wc_events s)))
    \<and> wc_pending (wl_state (bc_ws c2)) = {} \<and> \<not> wc_client (wl_state (bc_ws c2))
    \<and> binance_start cerr env' scripts' c1 = Some c1 \<and> \<not> bc_started c2 \<and> binance_stop order' c2 g2 = (c2, g2)
    \<and> binance_background b c2 g2 = (c2, g2)"
proof -
  obtain past s where feed: "run_feed env (bc_config c) scripts (wl_state (bc_ws c)) = Some (past, s)"
    using assms(1-3) by (auto simp: binance_life_simps split: option.splits)
  let ?reps = "map NoticeReport (drop (length (wc_reports (wl_state (bc_ws c)))) (wc_reports s))" and ?sigs = "concat (map binance_notices (wc_events s))"
  have started: "binance_good cerr c0" "bc_started c0" "bc_handlers c0 = bc_handlers c" "binance_due c0 = ?reps @ ?sigs"
    using binance_life.begin_keeps [of cerr c "(env, scripts)" c0] assms(1-3) feed by (auto simp: binance_life_simps)
  have c1: "binance_good cerr c1" "bc_started c1" using binance_life.running_notifies [OF started(1) assms(4)] started(2) by simp_all
  have c2: "binance_good cerr c2" "\<not> bc_started c2" using binance_life.end_keeps [OF c1(1) assms(5)] by simp_all
  obtain ns where ns: "g2 = fold (notify cerr (bc_handlers c)) (ns @ [NoticeConnectivity False]) g" "same_streams ns (?reps @ ?sigs)"
    using binance_life.lifetime [OF started(1,2) assms(4,5)] started(3,4) by auto
  have "list_all is_report_notice ?reps" "list_all (\<lambda>n. \<not> is_report_notice n) ?sigs"
    using binance_notices_signals by (auto simp: list_all_iff)
  then have "reports_in ns = ?reps" "signals_in ns = ?sigs" using ns(2) by (simp_all add: same_streams_def pure_streams)
  moreover have "wc_pending (wl_state (bc_ws c2)) = {}" using assms(5) c1 by (auto simp: binance_life_simps fail_all_pending_def split: option.splits)
  moreover have "\<not> wc_client (wl_state (bc_ws c2))" using c2 by (auto simp: binance_good_def split: option.splits)
  moreover have "binance_background b c2 g2 = (c2, g2)" using c2 by (auto simp: binance_life_simps)
  moreover have "binance_start cerr env' scripts' c1 = Some c1" "binance_stop order' c2 g2 = (c2, g2)"
    using c1(2) c2(2) by (simp_all add: binance_start_def binance_stop_def)
  ultimately show ?thesis using feed ns(1) c2(2) by blast
qed

definition demo_binance_life :: "venue_notice list binance_connector" where
  "demo_binance_life = (new_binance_connector default_binance)\<lparr>bc_handlers := noting_handlers\<rparr>"

lemma demo_binance_feed:
  "\<exists>past s. run_feed demo_session_env default_binance [(demo_script, True, 0)] fresh_client = Some (past, s)
     \<and> concat (map binance_notices (wc_events s)) = [NoticeConnectivity True, NoticeConnectivity False]"
proof -
  let ?run = "run_session demo_session_env default_binance demo_script fresh_client"
  have "case ?run of None \<Rightarrow> False | Some (out, s) \<Rightarrow> concat (map binance_notices (wc_events s)) = [NoticeConnectivity True]"
    by (simp add: session_simps act_simps demo_script_def demo_session_env_def demo_ack_def wrap32_def wrap64_def Let_def
        binance_notices_def connectivity_of_event_def)
  then obtain out s where "?run = Some (out, s)" "concat (map binance_notices (wc_events s)) = [NoticeConnectivity True]"
    by (auto split: option.splits)
  then show ?thesis by (simp add: run_feed_def feed_rounds_def emit_def binance_notices_def connectivity_of_event_def)
qed

theorem binance_lifetime_witness:
  "\<exists>c0 ns. binance_start noting_cerr demo_session_env [(demo_script, True, 0)] demo_binance_life = Some c0
     \<and> snd (binance_stop [] c0 []) = ns @ [NoticeConnectivity False] \<and> signals_in ns = [NoticeConnectivity True, NoticeConnectivity False]"
proof -
  obtain past s where feed: "run_feed demo_session_env default_binance [(demo_script, True, 0)] fresh_client = Some (past, s)"
      "concat (map binance_notices (wc_events s)) = [NoticeConnectivity True, NoticeConnectivity False]"
    using demo_binance_feed by blast
  have c: "binance_good noting_cerr demo_binance_life" "\<not> bc_started demo_binance_life" "wl_state (bc_ws demo_binance_life) = fresh_client"
      "bc_handlers demo_binance_life = noting_handlers" "bc_config demo_binance_life = default_binance"
    by (simp_all add: demo_binance_life_def new_binance_connector_def new_binance_ws_def binance_good_def fresh_client_def)
  obtain c0 where start: "binance_start noting_cerr demo_session_env [(demo_script, True, 0)] demo_binance_life = Some c0"
    using feed(1) c by (auto simp: binance_life_simps)
  obtain c2 g2 where stop: "binance_stop [] c0 [] = (c2, g2)" by (rule prod.exhaust)
  have "fold (\<lambda>b (c, g). binance_background b c g) [] (c0, []) = (c0, [])" by simp
  from binance_lifetime [OF c(1,2) start this stop, where env' = demo_session_env and scripts' = "[]" and order' = "[]" and b = True] feed obtain ns where
    "g2 = ns @ [NoticeConnectivity False]" "signals_in ns = [NoticeConnectivity True, NoticeConnectivity False]"
    unfolding c(3-5) noting by auto
  then show ?thesis using start stop by auto
qed

end
