(* ===== verification/Gateway_Main.thy ===== *)
theory Gateway_Main
  imports Gateway_Run OMS_Replay Connector_Lifecycle
begin

text \<open>
  The process, \<open>main\<close> of \<^verbatim>\<open>apps/gateway_main.cpp\<close> from its arguments to its exit: configuration, the
  connectors, the order management system and its recovery, the handlers, the start of the venues,
  the first reconciliation and audit, serving, and the stop of the venues.

  What the surroundings give is the record \<open>surroundings\<close>; the moments at which handlers run are
  numbered. The venues' threads act from the start of the venues on, the audit thread and the workers
  of the HTTP server from the time the process serves, in any order. A step is one output of a feed
  with its handler, one audit pass, or one critical section of the core (\<open>OMS_System\<close>): of a REST call, or
  of a reconciliation whose requests to the venues others interrupt. The reconciliation at the start
  is modelled section by section, with the feeds delivering in between; the one a handler runs when a
  feed comes up is one step of that feed.
\<close>

section \<open>State\<close>

record surroundings =
  su_args :: "string list"
  su_parse :: "string \<Rightarrow> json option"
  su_config_file :: "string \<Rightarrow> string option"
  su_log_file :: "string option"
  su_faults :: replay_faults
  su_log_open :: bool
  su_write_ok :: "nat \<Rightarrow> bool"
  su_latency_clock :: "nat \<Rightarrow> int"
  su_moments :: "nat \<Rightarrow> moment"

text \<open>What the handlers act on: the running gateway, the next moment, and the two text streams.\<close>

record world =
  wd_run :: gateway_run
  wd_moments :: "nat \<Rightarrow> moment"
  wd_next :: nat
  wd_cerr :: "string list"
  wd_banner :: "string list"

definition at_next :: "(moment \<Rightarrow> gateway_run \<Rightarrow> gateway_run) \<Rightarrow> world \<Rightarrow> world" where
  "at_next f w = w\<lparr>wd_run := f (wd_moments w (wd_next w)) (wd_run w), wd_next := wd_next w + 1\<rparr>"

definition write_cerr :: "string \<Rightarrow> world \<Rightarrow> world" where
  "write_cerr text w = w\<lparr>wd_cerr := wd_cerr w @ [text]\<rparr>"

definition write_cout :: "string \<Rightarrow> world \<Rightarrow> world" where
  "write_cout text w = w\<lparr>wd_banner := wd_banner w @ [text]\<rparr>"

record process =
  pr_config :: gateway_config
  pr_default_venue :: string
  pr_world :: world
  pr_okx :: "world okx_connector option"
  pr_binance :: "world binance_connector option"
  pr_calls :: system

section \<open>Start-up\<close>

definition config_path :: "surroundings \<Rightarrow> string" where
  "config_path su = (case su_args su of path # _ \<Rightarrow> path | [] \<Rightarrow> ''config/gateway.json'')"

definition bracketed :: "error \<Rightarrow> string" where
  "bracketed e = ''['' @ code e @ ''] '' @ message e"

definition venue_complaint :: "gateway_config \<Rightarrow> string" where
  "venue_complaint cfg =
     (case okx_venue_config cfg of
        Inl e \<Rightarrow> ''invalid okx config: '' @ bracketed e
      | Inr _ \<Rightarrow> (case binance_venue_config cfg of
          Inl e \<Rightarrow> ''invalid binance config: '' @ bracketed e
        | Inr _ \<Rightarrow> ''error: no venue is configured (need an okx or binance section)''))"

definition startup_warnings :: "gateway_config \<Rightarrow> gateway_venues \<Rightarrow> string list" where
  "startup_warnings cfg g =
     (if gc_default_venue cfg \<in> set (connector_keys g) then []
      else [''warning: defaultVenue '' @ [quote_char] @ gc_default_venue cfg @ [quote_char] @ '' is not configured; using ''
              @ [quote_char] @ gv_default g @ [quote_char]])
     @ (if gc_persistence_log cfg \<noteq> None then []
        else [''warning: persistence is disabled (no persistence.logPath in config); recovery relies on venue reconciliation''])
     @ (if limits_for (gc_risk cfg) ''BTC-USDT'' = None \<and> rc_defaults (gc_risk cfg) = None \<and> rc_instruments (gc_risk cfg) = Map.empty
        then [''warning: no risk limits configured; pre-trade checks are disabled''] else [])"

definition open_event_log :: "surroundings \<Rightarrow> string \<Rightarrow> event_sink" where
  "open_event_log su path =
     \<lparr>sink_path = path, sink_open = su_log_open su, sink_events = [], sink_write_ok = su_write_ok su, sink_writes = 0\<rparr>"

definition open_latency_log :: "surroundings \<Rightarrow> string \<Rightarrow> latency_log" where
  "open_latency_log su path = \<lparr>lat_path = path, lat_clock = su_latency_clock su, lat_reads = 0, lat_lines = []\<rparr>"

definition main_oms :: "surroundings \<Rightarrow> gateway_config \<Rightarrow> gateway_venues \<Rightarrow> oms" where
  "main_oms su cfg g =
     gateway_oms cfg g (map_option (open_event_log su) (gc_persistence_log cfg)) (map_option (open_latency_log su) (gc_latency_log cfg))"

definition report_handler :: "execution_report \<Rightarrow> world \<Rightarrow> world" where
  "report_handler rep = at_next (\<lambda>m. on_report m rep)"

definition connectivity_handler :: "bool \<Rightarrow> world \<Rightarrow> world" where
  "connectivity_handler up = at_next (\<lambda>m. on_connectivity m up)"

definition installed :: "world handlers \<Rightarrow> world handlers" where
  "installed hs = set_connectivity_handler (Some connectivity_handler) (set_execution_report_handler (Some report_handler) hs)"

definition new_world :: "surroundings \<Rightarrow> string list \<Rightarrow> oms \<Rightarrow> world" where
  "new_world su complaints s =
     \<lparr>wd_run = \<lparr>gr_oms = s, gr_cache = fresh_cache, gr_total_alerts = 0, gr_output = []\<rparr>, wd_moments = su_moments su, wd_next = 0,
      wd_cerr = complaints, wd_banner = []\<rparr>"

text \<open>The text of a torn tail and of the number of recovered events.\<close>

definition recovery_banner :: "replay_stats \<Rightarrow> world \<Rightarrow> world" where
  "recovery_banner st w =
     write_cout (''recovered '' @ nat_to_string (rs_events st) @ '' events from the order log'')
       (if rs_tail_truncated st
        then write_cerr ''warning: order log had a torn tail; it was truncated to the last complete event'' w else w)"

text \<open>Up to the installed handlers; \<open>Inl\<close> is what is written to the error stream before the process exits
  with 1.\<close>

definition main_setup :: "surroundings \<Rightarrow> string list + process" where
  "main_setup su =
     (case load_config (su_parse su) (su_config_file su (config_path su)) (config_path su) of
        Inl e \<Rightarrow> Inl [''failed to load config '' @ config_path su @ '': '' @ bracketed e]
      | Inr cfg \<Rightarrow> (case configure_venues cfg of
          Inl _ \<Rightarrow> Inl [venue_complaint cfg]
        | Inr g \<Rightarrow> (case load_from_log (su_parse su) (su_faults su) (su_log_file su) (main_oms su cfg g) of
            (Inl e, _, _) \<Rightarrow>
              Inl (startup_warnings cfg g @ [''cannot replay order log '' @ opt_or (gc_persistence_log cfg) [] @ '': '' @ bracketed e])
          | (Inr st, _, s) \<Rightarrow>
              Inr \<lparr>pr_config = cfg, pr_default_venue = gv_default g,
                   pr_world = recovery_banner st (new_world su (startup_warnings cfg g) s),
                   pr_okx = map_option (\<lambda>c. (new_okx_connector c)\<lparr>oc_handlers := installed no_handlers\<rparr>) (gv_okx g),
                   pr_binance = map_option (\<lambda>c. (new_binance_connector c)\<lparr>bc_handlers := installed no_handlers\<rparr>) (gv_binance g),
                   pr_calls = start_system s\<rparr>)))"

section \<open>Running\<close>

text \<open>The start of the venues, on the runs their feeds will make; \<open>None\<close> if the run of the Binance client
  raises.\<close>

definition start_venues :: "'w okx_env \<Rightarrow> (okx_script \<times> bool \<times> rat) list \<Rightarrow> ws_env \<Rightarrow> (session_script \<times> bool \<times> rat) list
    \<Rightarrow> process \<Rightarrow> process option" where
  "start_venues oenv oscripts benv bscripts p =
     (let p1 = p\<lparr>pr_okx := map_option (okx_start oenv oscripts) (pr_okx p)\<rparr>
      in case pr_binance p1 of
           None \<Rightarrow> Some p1
         | Some c \<Rightarrow> map_option (\<lambda>c'. p1\<lparr>pr_binance := Some c'\<rparr>) (binance_start write_cerr benv bscripts c))"

definition in_world :: "(world \<Rightarrow> world) \<Rightarrow> process \<Rightarrow> process" where
  "in_world f p = p\<lparr>pr_world := f (pr_world p)\<rparr>"

definition startup_summary :: "reconcile_report \<Rightarrow> process \<Rightarrow> process" where
  "startup_summary report = in_world (at_next (\<lambda>m. print_line (reconcile_summary_line m report)))"

definition audit_pass :: "process \<Rightarrow> process" where
  "audit_pass = in_world (at_next run_audit)"

definition first_audit :: "process \<Rightarrow> process" where
  "first_audit p = (if gc_audit_interval_ms (pr_config p) > 0 then audit_pass p else p)"

fun comma_separated :: "string list \<Rightarrow> string" where
  "comma_separated [] = []"
| "comma_separated [v] = v"
| "comma_separated (v # vs) = v @ '', '' @ comma_separated vs"

definition listening_banner :: "process \<Rightarrow> process" where
  "listening_banner p =
     in_world (write_cout (''rest_exchange_gateway listening on port '' @ int_to_string (gc_rest_port (pr_config p)) @ '' (venues: ''
       @ comma_separated (venues (gr_oms (wd_run (pr_world p)))) @ ''; default: '' @ pr_default_venue p @ '')'')) p"

text \<open>After the HTTP server returned.\<close>

definition stop_okx :: "process \<Rightarrow> process" where
  "stop_okx p = (case pr_okx p of None \<Rightarrow> p
     | Some c \<Rightarrow> (case okx_stop c (pr_world p) of (c', w) \<Rightarrow> p\<lparr>pr_okx := Some c', pr_world := w\<rparr>))"

definition stop_binance :: "bool list \<Rightarrow> process \<Rightarrow> process" where
  "stop_binance order p = (case pr_binance p of None \<Rightarrow> p
     | Some c \<Rightarrow> (case binance_stop order c (pr_world p) of (c', w) \<Rightarrow> p\<lparr>pr_binance := Some c', pr_world := w\<rparr>))"

text \<open>The registry with the REST calls in flight, and a step of one of them.\<close>

definition as_system :: "process \<Rightarrow> system" where
  "as_system p = (pr_calls p)\<lparr>sys_oms := gr_oms (wd_run (pr_world p))\<rparr>"

definition with_system :: "system \<Rightarrow> process \<Rightarrow> process" where
  "with_system S p = (in_world (\<lambda>w. w\<lparr>wd_run := (wd_run w)\<lparr>gr_oms := sys_oms S\<rparr>\<rparr>) p)\<lparr>pr_calls := S\<rparr>"

inductive delivers :: "process \<Rightarrow> process \<Rightarrow> bool" where
  okx_delivers: "pr_okx p = Some c \<Longrightarrow> okx_background c (pr_world p) = (c', w) \<Longrightarrow> delivers p (p\<lparr>pr_okx := Some c', pr_world := w\<rparr>)"
| binance_delivers: "pr_binance p = Some c \<Longrightarrow> binance_background b c (pr_world p) = (c', w) \<Longrightarrow>
     delivers p (p\<lparr>pr_binance := Some c', pr_world := w\<rparr>)"

text \<open>The reconciliation \<open>main\<close> runs once the venues are started: the open orders of one venue after another,
  the collection of the worklist, one lookup after another. A critical section follows the answer of
  a venue, at a moment of its own; between the sections the feeds deliver.\<close>

datatype startup_phase = Listing "string list" | Resolving "work_item list"

definition reconcile_section :: "(moment \<Rightarrow> reconcile_report \<times> oms \<Rightarrow> reconcile_report \<times> oms) \<Rightarrow> reconcile_report \<Rightarrow> process
    \<Rightarrow> reconcile_report \<times> process" where
  "reconcile_section f report p =
     (let w = pr_world p
      in case f (wd_moments w (wd_next w)) (report, gr_oms (wd_run w)) of
           (report', s) \<Rightarrow> (report', p\<lparr>pr_world := w\<lparr>wd_run := (wd_run w)\<lparr>gr_oms := s\<rparr>, wd_next := wd_next w + 1\<rparr>\<rparr>))"

definition startup_work :: "process \<Rightarrow> work_item list" where
  "startup_work p =
     (let w = pr_world p; s = gr_oms (wd_run w)
      in worklist (mo_ids (wd_moments w (wd_next w)) s) s)"

inductive reconciling :: "process \<Rightarrow> startup_phase \<Rightarrow> reconcile_report \<Rightarrow> process \<Rightarrow> bool" for p where
  begins: "reconciling p (Listing (o_connectors (gr_oms (wd_run (pr_world p))))) empty_report p"
| meanwhile: "reconciling p ph report q \<Longrightarrow> delivers q q' \<Longrightarrow> reconciling p ph report q'"
| lists: "reconciling p (Listing (v # vs)) report q \<Longrightarrow>
     reconcile_section (\<lambda>m. reconcile_listing v (mo_open m v)) report q = (report', q') \<Longrightarrow> reconciling p (Listing vs) report' q'"
| collects: "reconciling p (Listing []) report q \<Longrightarrow> reconciling p (Resolving (startup_work q)) report q"
| resolves: "reconciling p (Resolving (item # items)) report q \<Longrightarrow>
     reconcile_section (\<lambda>m. resolve_work (mo_get m) item) report q = (report', q') \<Longrightarrow> reconciling p (Resolving items) report' q'"

inductive serves :: "process \<Rightarrow> process \<Rightarrow> bool" where
  feed_step: "delivers p p' \<Longrightarrow> serves p p'"
| audit_step: "serves p (audit_pass p)"
| core_step: "step (as_system p) S \<Longrightarrow> serves p (with_system S p)"

inductive delivering :: "process \<Rightarrow> process \<Rightarrow> bool" where
  delivering_refl: "delivering p p"
| delivering_step: "delivering p p1 \<Longrightarrow> delivers p1 p2 \<Longrightarrow> delivering p p2"

inductive serving :: "process \<Rightarrow> process \<Rightarrow> bool" where
  serving_refl: "serving p p"
| serving_step: "serving p p1 \<Longrightarrow> serves p1 p2 \<Longrightarrow> serving p p2"

text \<open>A run of the process, from the registry it sets up. The feeds deliver while \<open>main\<close> reconciles; the audit
  thread lives on while the venues are stopped.\<close>

inductive main_run :: "surroundings \<Rightarrow> 'w okx_env \<Rightarrow> (okx_script \<times> bool \<times> rat) list \<Rightarrow> ws_env \<Rightarrow> (session_script \<times> bool \<times> rat) list
    \<Rightarrow> bool list \<Rightarrow> process \<Rightarrow> process \<Rightarrow> bool" for su oenv oscripts benv bscripts order where
  main_runs: "main_setup su = Inr p0 \<Longrightarrow> start_venues oenv oscripts benv bscripts p0 = Some p1
     \<Longrightarrow> reconciling p1 (Resolving []) report p2 \<Longrightarrow> delivering (startup_summary report p2) p3 \<Longrightarrow> serving (listening_banner (first_audit p3)) p4
     \<Longrightarrow> serving (stop_okx p4) p5 \<Longrightarrow> serving (stop_binance order p5) p6
     \<Longrightarrow> main_run su oenv oscripts benv bscripts order p0 p6"

inductive_cases main_runE: "main_run su oenv oscripts benv bscripts order p0 p6"

section \<open>The audit thread\<close>

text \<open>One turn of the scheduler's loop: whether a stop is requested, the clock, and the clock after the
  pass where one is run. The result lists begin and end of every pass.\<close>

record audit_turn =
  at_stop :: bool
  at_now :: int
  at_after :: int

fun audit_scheduler :: "int \<Rightarrow> int \<Rightarrow> audit_turn list \<Rightarrow> (int \<times> int) list" where
  "audit_scheduler interval next_run [] = []"
| "audit_scheduler interval next_run (t # ts) =
     (if at_stop t then []
      else if at_now t < next_run then audit_scheduler interval next_run ts
      else (at_now t, at_after t) # audit_scheduler interval (at_after t + interval) ts)"

section \<open>The process is a run of the order management system\<close>

definition sys_of :: "system \<Rightarrow> world \<Rightarrow> system" where
  "sys_of calls w = calls\<lparr>sys_oms := gr_oms (wd_run w)\<rparr>"

lemma as_system_of: "as_system p = sys_of (pr_calls p) (pr_world p)"
  by (simp add: as_system_def sys_of_def)

lemma sys_of_text [simp]: "sys_of calls (write_cerr t w) = sys_of calls w" "sys_of calls (write_cout t w) = sys_of calls w"
  by (simp_all add: sys_of_def write_cerr_def write_cout_def)

lemma at_next_steps:
  assumes "\<And>m (S :: system) g. sys_oms S = gr_oms g \<Longrightarrow> steps S (S\<lparr>sys_oms := gr_oms (f m g)\<rparr>)"
  shows "steps (sys_of calls w) (sys_of calls (at_next f w))"
  using assms [of "sys_of calls w" "wd_run w" "wd_moments w (wd_next w)"] by (simp add: sys_of_def at_next_def)

lemma report_steps: "steps (sys_of calls w) (sys_of calls (report_handler rep w))"
  unfolding report_handler_def
proof (rule at_next_steps)
  fix m and S :: system and g :: gateway_run assume "sys_oms S = gr_oms g"
  then show "steps S (S\<lparr>sys_oms := gr_oms (on_report m rep g)\<rparr>)"
    using steps_step [OF steps_refl step.report [of S rep]] by (simp add: on_report_def)
qed

lemma reconcile_now_steps: "steps (sys_of calls w) (sys_of calls (at_next reconcile_now w))"
proof (rule at_next_steps)
  fix m and S :: system and g :: gateway_run assume "sys_oms S = gr_oms g"
  then show "steps S (S\<lparr>sys_oms := gr_oms (reconcile_now m g)\<rparr>)"
    using reconcile_steps [of S "mo_open m" "mo_get m" "mo_ids m"] by (simp add: reconcile_now_def case_prod_beta)
qed

lemma connectivity_steps: "steps (sys_of calls w) (sys_of calls (connectivity_handler up w))"
proof (cases up)
  case True
  then have "connectivity_handler up = at_next reconcile_now" by (simp add: connectivity_handler_def on_connectivity_def fun_eq_iff at_next_def)
  then show ?thesis using reconcile_now_steps by simp
next
  case False
  then have "sys_of calls (connectivity_handler up w) = sys_of calls w"
    by (simp add: connectivity_handler_def at_next_def on_connectivity_def sys_of_def)
  then show ?thesis by (simp add: steps_refl)
qed

lemma audit_steps: "steps (sys_of calls w) (sys_of calls (at_next run_audit w))"
proof (rule at_next_steps)
  fix m and S :: system and g :: gateway_run assume "sys_oms S = gr_oms g"
  then show "steps S (S\<lparr>sys_oms := gr_oms (run_audit m g)\<rparr>)"
    using steps_step [OF steps_refl step.drain_notes [of S]] by (simp add: run_audit_def audit_def audit_begin_def Let_def)
qed

lemma notify_steps: "steps (sys_of calls w) (sys_of calls (notify write_cerr (installed hs) n w))"
  using report_steps connectivity_steps
  by (cases n) (simp_all add: installed_def set_connectivity_handler_def set_execution_report_handler_def forward_report_def
      forward_connectivity_def steps_refl)

lemma notify_all_steps: "steps (sys_of calls w) (sys_of calls (fold (notify write_cerr (installed hs)) ns w))"
proof (induction ns arbitrary: w)
  case (Cons n ns)
  show ?case using steps_trans [OF Cons.IH notify_steps] by simp
qed (simp add: steps_refl)

text \<open>The connectors of the process: in order, and with the handlers of \<open>main\<close> on them.\<close>

definition wired :: "process \<Rightarrow> bool" where
  "wired p \<longleftrightarrow> pred_option (\<lambda>c. okx_good c \<and> oc_handlers c = installed no_handlers) (pr_okx p)
     \<and> pred_option (\<lambda>c. binance_good write_cerr c \<and> bc_handlers c = installed no_handlers) (pr_binance p)"

lemma wired_in_world [simp]: "wired (in_world f p) = wired p"
  by (simp add: wired_def in_world_def)

lemma okx_delivery:
  assumes "wired p" "pr_okx p = Some c" "okx_background c (pr_world p) = (c', w)"
  shows "wired (p\<lparr>pr_okx := Some c', pr_world := w\<rparr>)" "steps (sys_of calls (pr_world p)) (sys_of calls w)"
proof -
  have c: "okx_good c" "oc_handlers c = installed no_handlers" using assms(1,2) by (simp_all add: wired_def)
  show "wired (p\<lparr>pr_okx := Some c', pr_world := w\<rparr>)"
    using okx_life.background_keeps [OF c(1) assms(3)] c(2) assms(1) by (simp add: wired_def)
  show "steps (sys_of calls (pr_world p)) (sys_of calls w)"
    using okx_life.background_notifies [OF c(1) assms(3), of write_cerr] c(2) notify_all_steps by auto
qed

lemma binance_delivery:
  assumes "wired p" "pr_binance p = Some c" "binance_background b c (pr_world p) = (c', w)"
  shows "wired (p\<lparr>pr_binance := Some c', pr_world := w\<rparr>)" "steps (sys_of calls (pr_world p)) (sys_of calls w)"
proof -
  have c: "binance_good write_cerr c" "bc_handlers c = installed no_handlers" using assms(1,2) by (simp_all add: wired_def)
  show "wired (p\<lparr>pr_binance := Some c', pr_world := w\<rparr>)"
    using binance_life.background_keeps [OF c(1) assms(3)] c(2) assms(1) by (simp add: wired_def)
  show "steps (sys_of calls (pr_world p)) (sys_of calls w)"
    using binance_life.background_notifies [OF c(1) assms(3)] c(2) notify_all_steps by auto
qed

lemma as_with_system [simp]: "as_system (with_system S p) = S"
  by (simp add: as_system_def with_system_def in_world_def)

lemma delivers_steps:
  assumes "delivers p p'" "wired p"
  shows "wired p' \<and> steps (as_system p) (as_system p')"
  using assms
proof (induction rule: delivers.induct)
  case (okx_delivers p c c' w)
  then show ?case using okx_delivery by (simp add: as_system_of)
next
  case (binance_delivers p c b c' w)
  then show ?case using binance_delivery by (simp add: as_system_of)
qed

lemma serves_steps:
  assumes "serves p p'" "wired p"
  shows "wired p' \<and> steps (as_system p) (as_system p')"
  using assms
proof (induction rule: serves.induct)
  case (feed_step p p')
  then show ?case by (rule delivers_steps)
next
  case (audit_step p)
  then show ?case using audit_steps by (simp add: audit_pass_def as_system_of) (simp add: in_world_def)
next
  case (core_step p S)
  then show ?case using steps_step [OF steps_refl, of "as_system p" S] by (simp add: wired_def) (simp add: with_system_def in_world_def)
qed

lemma delivering_serving: "delivering p p' \<Longrightarrow> serving p p'"
  by (induction rule: delivering.induct) (auto intro: serving.intros feed_step)

text \<open>A venue that has been stopped stays so.\<close>

definition okx_stopped :: "process \<Rightarrow> bool" where
  "okx_stopped p \<longleftrightarrow> pred_option (\<lambda>c. \<not> okx_running c) (pr_okx p)"

definition binance_stopped :: "process \<Rightarrow> bool" where
  "binance_stopped p \<longleftrightarrow> pred_option (\<lambda>c. \<not> bc_started c) (pr_binance p)"

lemma serves_stopped: "serves p p' \<Longrightarrow> (okx_stopped p \<longrightarrow> okx_stopped p') \<and> (binance_stopped p \<longrightarrow> binance_stopped p')"
  by (auto simp: okx_stopped_def binance_stopped_def okx_running_def okx_background_def binance_background_def audit_pass_def in_world_def
      with_system_def elim!: serves.cases delivers.cases split: option.splits prod.splits)

lemma serving_stopped: "serving p p' \<Longrightarrow> (okx_stopped p \<longrightarrow> okx_stopped p') \<and> (binance_stopped p \<longrightarrow> binance_stopped p')"
  by (induction rule: serving.induct) (auto dest: serves_stopped)

lemma serving_steps:
  assumes "serving p p'" "wired p"
  shows "wired p' \<and> steps (as_system p) (as_system p')"
  using assms
proof (induction rule: serving.induct)
  case (serving_step p p1 p2)
  then show ?case using serves_steps steps_trans by blast
qed (simp add: steps_refl)

lemma start_venues_wired:
  assumes "start_venues oenv oscripts benv bscripts p = Some p'" "wired p"
  shows "wired p' \<and> pr_world p' = pr_world p \<and> pr_calls p' = pr_calls p"
proof -
  have okx: "okx_good (okx_start oenv oscripts c) \<and> oc_handlers (okx_start oenv oscripts c) = oc_handlers c" if "okx_good c" for c :: "world okx_connector"
    using okx_life.begin_keeps [OF that, of "(oenv, oscripts)"] by simp
  have binance: "binance_good write_cerr c' \<and> bc_handlers c' = bc_handlers c"
    if "binance_good write_cerr c" "binance_start write_cerr benv bscripts c = Some c'" for c c'
    using binance_life.begin_keeps [OF that(1), of "(benv, bscripts)"] that(2) by simp
  let ?p = "p\<lparr>pr_okx := map_option (okx_start oenv oscripts) (pr_okx p)\<rparr>"
  have w: "wired ?p" using assms(2) okx by (auto simp: wired_def option.pred_map pred_option_def)
  show ?thesis
  proof (cases "pr_binance p")
    case None
    then show ?thesis using assms(1) w by (auto simp: start_venues_def Let_def)
  next
    case (Some c)
    then obtain c' where c': "binance_start write_cerr benv bscripts c = Some c'" "p' = ?p\<lparr>pr_binance := Some c'\<rparr>"
      using assms(1) by (auto simp: start_venues_def Let_def)
    then show ?thesis using binance [OF _ c'(1)] w Some by (simp add: wired_def)
  qed
qed

lemma startup_steps:
  "wired (startup_summary report p) = wired p" "as_system (startup_summary report p) = as_system p"
  "wired (listening_banner (first_audit p)) = wired p" "steps (as_system p) (as_system (listening_banner (first_audit p)))"
proof -
  show "wired (startup_summary report p) = wired p" "as_system (startup_summary report p) = as_system p"
    by (simp_all add: startup_summary_def) (simp add: as_system_def in_world_def at_next_def print_line_def)
  have audit: "wired (first_audit p) = wired p" "steps (as_system p) (as_system (first_audit p))"
    using audit_steps by (simp_all add: first_audit_def audit_pass_def as_system_of steps_refl) (simp add: in_world_def)
  have "wired (listening_banner q) = wired q" "as_system (listening_banner q) = as_system q" for q
    by (simp_all add: listening_banner_def as_system_of) (simp add: in_world_def)
  then show "wired (listening_banner (first_audit p)) = wired p" "steps (as_system p) (as_system (listening_banner (first_audit p)))"
    using audit by simp_all
qed

text \<open>The reconciliation at the start, with what the feeds deliver meanwhile, is a run of the system: the
  lookups that are left are the work of the reconciler.\<close>

fun work_left :: "startup_phase \<Rightarrow> string list" where
  "work_left (Listing _) = []"
| "work_left (Resolving items) = map wi_id items"

abbreviation working :: "string list \<Rightarrow> system \<Rightarrow> process \<Rightarrow> system" where
  "working ids calls q \<equiv> sys_of (calls\<lparr>sys_work := sys_work calls @ ids\<rparr>) (pr_world q)"

lemma working_none [simp]: "working [] calls q = sys_of calls (pr_world q)"
  by simp

lemma reconcile_section_cases:
  assumes "reconcile_section f report q = (report', q')"
  obtains s m where "f m (report, gr_oms (wd_run (pr_world q))) = (report', s)" "wired q' = wired q" "pr_calls q' = pr_calls q"
    "gr_oms (wd_run (pr_world q')) = s"
  using assms by (auto simp: reconcile_section_def Let_def wired_def split: prod.splits)

lemma delivers_work:
  assumes "delivers q q'" "wired q"
  shows "wired q'" "pr_calls q' = pr_calls q" "steps (sys_of calls (pr_world q)) (sys_of calls (pr_world q'))"
  using assms okx_delivery binance_delivery by (auto elim!: delivers.cases)

lemma reconciling_steps:
  assumes "reconciling p ph report q" "wired p"
  shows "wired q \<and> pr_calls q = pr_calls p \<and> steps (as_system p) (working (work_left ph) (pr_calls p) q)"
  using assms(1)
proof (induction rule: reconciling.induct)
  case begins
  then show ?case using assms(2) by (simp add: as_system_of steps_refl)
next
  case (meanwhile ph report q q')
  then have "wired q" "pr_calls q = pr_calls p" by blast+
  with delivers_work [OF meanwhile.hyps(2)] show ?case
    using meanwhile.IH steps_trans [of "working (work_left ph) (pr_calls p) q" "working (work_left ph) (pr_calls p) q'"] by simp
next
  case (lists v vs report q report' q')
  obtain s and m :: moment where l: "reconcile_listing v (mo_open m v) (report, gr_oms (wd_run (pr_world q))) = (report', s)" "wired q' = wired q"
      "pr_calls q' = pr_calls q" "gr_oms (wd_run (pr_world q')) = s"
    by (rule reconcile_section_cases [OF lists(2)])
  have "steps (sys_of (pr_calls p) (pr_world q)) (sys_of (pr_calls p) (pr_world q'))"
    using listing_steps [of "sys_of (pr_calls p) (pr_world q)" "mo_open m" "[v]" report] l(1,4) by (simp add: sys_of_def)
  then show ?case using lists.IH l steps_trans by auto
next
  case (collects report q)
  let ?S = "sys_of (pr_calls p) (pr_world q)"
  have "step ?S (?S\<lparr>sys_work := sys_work ?S @ map wi_id (startup_work q)\<rparr>)"
    using step.collect [of ?S] by (simp add: startup_work_def Let_def sys_of_def)
  moreover have "?S\<lparr>sys_work := sys_work ?S @ map wi_id (startup_work q)\<rparr> = working (map wi_id (startup_work q)) (pr_calls p) q"
    by (simp add: sys_of_def)
  ultimately have "steps (as_system p) (working (map wi_id (startup_work q)) (pr_calls p) q)" if "steps (as_system p) ?S"
    using steps_step [OF that] by simp
  then show ?case using collects.IH by simp
next
  case (resolves item items report q report' q')
  let ?W = "\<lambda>ids q. working ids (pr_calls p) q"
  obtain s and m :: moment where l: "resolve_work (mo_get m) item (report, gr_oms (wd_run (pr_world q))) = (report', s)" "wired q' = wired q"
      "pr_calls q' = pr_calls q" "gr_oms (wd_run (pr_world q')) = s"
    by (rule reconcile_section_cases [OF resolves(2)])
  let ?S = "?W (map wi_id (item # items)) q"
  have "steps ?S (?S\<lparr>sys_oms := s, sys_work := sys_work (pr_calls p) @ map wi_id items\<rparr>)"
    by (rule resolve_work_step [of _ _ item _ "mo_get m" report report' s]) (use l(1) in \<open>simp_all add: sys_of_def\<close>)
  moreover have "?S\<lparr>sys_oms := s, sys_work := sys_work (pr_calls p) @ map wi_id items\<rparr> = ?W (map wi_id items) q'"
    by (simp add: sys_of_def l(4))
  ultimately have "steps ?S (?W (map wi_id items) q')" by simp
  then show ?case using resolves.IH l steps_trans by auto
qed

text \<open>Alone, and with the venues answering as at one moment, it is \<open>reconcile\<close>.\<close>

lemma section_at:
  assumes "wd_moments (pr_world q) = (\<lambda>_. m)" "f m (report, gr_oms (wd_run (pr_world q))) = (report', s)"
  obtains q' where "reconcile_section f report q = (report', q')" "gr_oms (wd_run (pr_world q')) = s" "wd_moments (pr_world q') = (\<lambda>_. m)"
    "pr_calls q' = pr_calls q"
  using assms by (simp add: reconcile_section_def Let_def)

lemma reconciling_lists:
  assumes "reconciling p (Listing vs) report q" "wd_moments (pr_world q) = (\<lambda>_. m)"
    and "fold (\<lambda>v. reconcile_listing v (mo_open m v)) vs (report, gr_oms (wd_run (pr_world q))) = (report', s')"
  shows "\<exists>q'. reconciling p (Listing []) report' q' \<and> gr_oms (wd_run (pr_world q')) = s' \<and> wd_moments (pr_world q') = (\<lambda>_. m)
    \<and> pr_calls q' = pr_calls q"
  using assms
proof (induction vs arbitrary: report q)
  case (Cons v vs)
  obtain r1 s1 where one: "reconcile_listing v (mo_open m v) (report, gr_oms (wd_run (pr_world q))) = (r1, s1)" by (rule prod.exhaust)
  obtain q1 where q1: "reconcile_section (\<lambda>m. reconcile_listing v (mo_open m v)) report q = (r1, q1)" "gr_oms (wd_run (pr_world q1)) = s1"
      "wd_moments (pr_world q1) = (\<lambda>_. m)" "pr_calls q1 = pr_calls q"
    using section_at [where f = "\<lambda>m. reconcile_listing v (mo_open m v)", OF Cons.prems(2) one] by metis
  show ?case using Cons.IH [OF lists [OF Cons.prems(1) q1(1)] q1(3)] Cons.prems(3) one q1(2,4) by simp
qed auto

lemma reconciling_resolves:
  assumes "reconciling p (Resolving items) report q" "wd_moments (pr_world q) = (\<lambda>_. m)"
    and "fold (resolve_work (mo_get m)) items (report, gr_oms (wd_run (pr_world q))) = (report', s')"
  shows "\<exists>q'. reconciling p (Resolving []) report' q' \<and> gr_oms (wd_run (pr_world q')) = s' \<and> wd_moments (pr_world q') = (\<lambda>_. m)
    \<and> pr_calls q' = pr_calls q"
  using assms
proof (induction items arbitrary: report q)
  case (Cons item items)
  obtain r1 s1 where one: "resolve_work (mo_get m) item (report, gr_oms (wd_run (pr_world q))) = (r1, s1)" by (rule prod.exhaust)
  obtain q1 where q1: "reconcile_section (\<lambda>m. resolve_work (mo_get m) item) report q = (r1, q1)" "gr_oms (wd_run (pr_world q1)) = s1"
      "wd_moments (pr_world q1) = (\<lambda>_. m)" "pr_calls q1 = pr_calls q"
    using section_at [where f = "\<lambda>m. resolve_work (mo_get m) item", OF Cons.prems(2) one] by metis
  show ?case using Cons.IH [OF resolves [OF Cons.prems(1) q1(1)] q1(3)] Cons.prems(3) one q1(2,4) by simp
qed auto

lemma reconciling_alone:
  assumes "wd_moments (pr_world p) = (\<lambda>_. m)"
    and "reconcile (mo_open m) (mo_get m) (mo_ids m) (gr_oms (wd_run (pr_world p))) = (report, s)"
  shows "\<exists>q. reconciling p (Resolving []) report q \<and> gr_oms (wd_run (pr_world q)) = s \<and> wd_moments (pr_world q) = (\<lambda>_. m)
    \<and> pr_calls q = pr_calls p"
proof -
  let ?s = "gr_oms (wd_run (pr_world p))"
  obtain r1 s1 where l: "fold (\<lambda>v. reconcile_listing v (mo_open m v)) (o_connectors ?s) (empty_report, ?s) = (r1, s1)" by (rule prod.exhaust)
  from reconciling_lists [OF begins assms(1) l] obtain q where q: "reconciling p (Listing []) r1 q"
    "gr_oms (wd_run (pr_world q)) = s1" "wd_moments (pr_world q) = (\<lambda>_. m)" "pr_calls q = pr_calls p" by blast
  have "fold (resolve_work (mo_get m)) (startup_work q) (r1, gr_oms (wd_run (pr_world q))) = (report, s)"
    using assms(2) l q(2,3) by (simp add: reconcile_def startup_work_def Let_def)
  from reconciling_resolves [OF collects [OF q(1)] q(3) this] q(4) show ?thesis by simp
qed

lemma stop_okx_steps:
  assumes "wired p"
  shows "wired (stop_okx p) \<and> steps (as_system p) (as_system (stop_okx p)) \<and> okx_stopped (stop_okx p)"
proof (cases "pr_okx p")
  case (Some c)
  obtain c' w where stop: "okx_stop c (pr_world p) = (c', w)" by (rule prod.exhaust)
  have c: "okx_good c" "oc_handlers c = installed no_handlers" using assms Some by (simp_all add: wired_def)
  show ?thesis
    using okx_life.end_keeps [OF c(1) stop] okx_life.end_notifies [OF c(1) stop, of write_cerr] notify_all_steps c(2) assms Some stop
    by (auto simp: stop_okx_def as_system_of wired_def okx_stopped_def)
qed (use assms in \<open>simp add: stop_okx_def steps_refl okx_stopped_def\<close>)

lemma stop_binance_steps:
  assumes "wired p"
  shows "wired (stop_binance order p) \<and> steps (as_system p) (as_system (stop_binance order p))
    \<and> binance_stopped (stop_binance order p) \<and> okx_stopped (stop_binance order p) = okx_stopped p"
proof (cases "pr_binance p")
  case (Some c)
  obtain c' w where stop: "binance_stop order c (pr_world p) = (c', w)" by (rule prod.exhaust)
  have c: "binance_good write_cerr c" "bc_handlers c = installed no_handlers" using assms Some by (simp_all add: wired_def)
  show ?thesis
    using binance_life.end_keeps [OF c(1) stop] binance_life.end_notifies [OF c(1) stop] notify_all_steps c(2) assms Some stop
    by (auto simp: stop_binance_def as_system_of wired_def binance_stopped_def okx_stopped_def)
qed (use assms in \<open>simp add: stop_binance_def steps_refl binance_stopped_def\<close>)

section \<open>What a set-up process is\<close>

lemma apply_log_frame:
  "o_raced (fold apply_log_event evs s) = o_raced s \<and> o_connectors (fold apply_log_event evs s) = o_connectors s
     \<and> o_default_venue (fold apply_log_event evs s) = o_default_venue s"
proof (induction evs arbitrary: s)
  case (Cons ev evs)
  have "o_raced (apply_log_event ev s) = o_raced s \<and> o_connectors (apply_log_event ev s) = o_connectors s
      \<and> o_default_venue (apply_log_event ev s) = o_default_venue s"
    by (auto simp: apply_log_event_def split: option.splits)
  then show ?case using Cons.IH by simp
qed simp

text \<open>The recovered registry.\<close>

lemma load_from_log_cases:
  assumes "load_from_log parse faults contents s = (Inr st, rest, s')"
  shows "\<exists>evs. s' = fold apply_log_event evs s \<and> (case o_log s of None \<Rightarrow> evs = []
     | Some l \<Rightarrow> replay parse (sink_path l) faults contents = (Inr st, evs, rest))"
  using assms by (auto simp: load_from_log_def intro: exI [of _ "[]"] split: option.splits prod.splits)

lemma main_setup_cases:
  assumes "main_setup su = Inr p"
  obtains g st rest where
    "load_config (su_parse su) (su_config_file su (config_path su)) (config_path su) = Inr (pr_config p)"
    "configure_venues (pr_config p) = Inr g"
    "load_from_log (su_parse su) (su_faults su) (su_log_file su) (main_oms su (pr_config p) g) = (Inr st, rest, gr_oms (wd_run (pr_world p)))"
    "pr_default_venue p = gv_default g" "pr_calls p = start_system (gr_oms (wd_run (pr_world p)))"
    "pr_okx p = map_option (\<lambda>c. (new_okx_connector c)\<lparr>oc_handlers := installed no_handlers\<rparr>) (gv_okx g)"
    "pr_binance p = map_option (\<lambda>c. (new_binance_connector c)\<lparr>bc_handlers := installed no_handlers\<rparr>) (gv_binance g)"
  using assms
  by (auto simp: main_setup_def recovery_banner_def new_world_def write_cout_def write_cerr_def split: sum.splits prod.splits)

lemma new_connectors_good:
  "okx_good ((new_okx_connector c)\<lparr>oc_handlers := hs\<rparr>)" "\<not> okx_running ((new_okx_connector c)\<lparr>oc_handlers := hs\<rparr>)"
  "binance_good cerr ((new_binance_connector b)\<lparr>bc_handlers := hs'\<rparr>)"
  by (simp_all add: new_okx_connector_def okx_good_def okx_running_def new_binance_connector_def new_binance_ws_def binance_good_def fresh_client_def)

lemma main_setup_wired: "main_setup su = Inr p \<Longrightarrow> wired p"
  by (erule main_setup_cases) (simp add: wired_def option.pred_map o_def new_connectors_good option.pred_True)

lemma main_setup_system:
  assumes "main_setup su = Inr p"
  shows "as_system p = start_system (gr_oms (wd_run (pr_world p)))" "o_raced (gr_oms (wd_run (pr_world p))) = Map.empty"
proof -
  show "as_system p = start_system (gr_oms (wd_run (pr_world p)))"
    by (rule main_setup_cases [OF assms]) (simp add: as_system_def start_system_def)
  obtain g st rest where "load_from_log (su_parse su) (su_faults su) (su_log_file su) (main_oms su (pr_config p) g)
      = (Inr st, rest, gr_oms (wd_run (pr_world p)))" using main_setup_cases [OF assms] by metis
  moreover have "o_raced (main_oms su (pr_config p) g) = Map.empty" by (simp add: main_oms_def gateway_oms_def new_oms_def)
  ultimately show "o_raced (gr_oms (wd_run (pr_world p))) = Map.empty" using load_from_log_cases apply_log_frame by metis
qed

text \<open>From the set-up to the end.\<close>

lemma main_run_steps:
  assumes "main_run su oenv oscripts benv bscripts order p0 p6"
  shows "steps (as_system p0) (as_system p6) \<and> okx_stopped p6 \<and> binance_stopped p6"
  using assms
proof (rule main_runE)
  fix p1 report p2 p3 p4 p5
  assume up: "main_setup su = Inr p0" "start_venues oenv oscripts benv bscripts p0 = Some p1"
    and first: "reconciling p1 (Resolving []) report p2" "delivering (startup_summary report p2) p3"
    and then_on: "serving (listening_banner (first_audit p3)) p4" "serving (stop_okx p4) p5" "serving (stop_binance order p5) p6"
  have p1: "wired p1" "as_system p1 = as_system p0"
    using start_venues_wired [OF up(2) main_setup_wired [OF up(1)]] by (simp_all add: as_system_of)
  have p2: "wired p2" "steps (as_system p1) (as_system p2)"
    using reconciling_steps [OF first(1) p1(1)] by (simp_all add: as_system_of)
  have p3: "wired p3" "steps (as_system p2) (as_system p3)"
    using serving_steps [OF delivering_serving [OF first(2)]] p2(1) by (simp_all add: startup_steps(1,2))
  have p4: "wired p4" "steps (as_system (listening_banner (first_audit p3))) (as_system p4)"
    using serving_steps [OF then_on(1)] p3(1) startup_steps(3) by simp_all
  note okx = stop_okx_steps [OF p4(1)]
  have p5: "wired p5" "steps (as_system (stop_okx p4)) (as_system p5)" "okx_stopped p5"
    using serving_steps [OF then_on(2)] serving_stopped [OF then_on(2)] okx by simp_all
  note binance = stop_binance_steps [OF p5(1), of order]
  have p6: "steps (as_system (stop_binance order p5)) (as_system p6)" "okx_stopped p6 \<and> binance_stopped p6"
    using serving_steps [OF then_on(3)] serving_stopped [OF then_on(3)] binance p5(3) by simp_all
  have "steps (as_system p0) (as_system p3)"
    using p1(2) steps_trans [OF p3(2) p2(2)] by simp
  moreover have "steps (as_system p3) (as_system p5)"
    using steps_trans [OF p5(2) steps_trans [OF _ steps_trans [OF p4(2) startup_steps(4)]]] okx by blast
  ultimately have "steps (as_system p0) (as_system p5)" by (rule steps_trans [rotated])
  with binance p6 show ?thesis using steps_trans by blast
qed

section \<open>Properties\<close>

text \<open>C2. The whole process keeps the promises of the order management system. From the set-up through the
  start of the venues, the first reconciliation with what the feeds deliver between its critical
  sections (a reconciliation that a feed's handler runs is one delivery), any interleaving of the feeds' deliveries, audit
  passes and the critical sections of REST calls, to the stop of the venues: the process is a run of
  the system of \<open>OMS_System\<close> from the registry recovered from the log; so no client order id is handed
  to a connector twice, and none that the log knows (a restart resends nothing); every recovered
  order is still known and has only evolved; and at the end no venue is running.\<close>

theorem gateway_process_safe:
  assumes "main_run su oenv oscripts benv bscripts order p0 p"
  shows "steps (start_system (gr_oms (wd_run (pr_world p0)))) (as_system p)
    \<and> distinct (sys_sent (as_system p)) \<and> (\<forall>i \<in> set (sys_sent (as_system p)). o_orders (gr_oms (wd_run (pr_world p0))) i = None)
    \<and> (\<forall>i r. o_orders (gr_oms (wd_run (pr_world p0))) i = Some r \<longrightarrow>
         (\<exists>r'. o_orders (gr_oms (wd_run (pr_world p))) i = Some r' \<and> evolves r r'))
    \<and> okx_stopped p \<and> binance_stopped p"
proof -
  from main_run_steps [OF assms] have run: "steps (as_system p0) (as_system p)" and down: "okx_stopped p" "binance_stopped p"
    by simp_all
  from assms have "main_setup su = Inr p0" by (rule main_runE)
  note ready = main_setup_system [OF this]
  have "sys_inv (as_system p)" using run steps_inv start_inv ready by metis
  moreover have "set (sys_sent (as_system p)) \<inter> dom (o_orders (gr_oms (wd_run (pr_world p0)))) = {}"
    using steps_sent [OF run] by (auto simp: ready(1) start_system_def)
  moreover have "\<exists>r'. o_orders (gr_oms (wd_run (pr_world p))) i = Some r' \<and> evolves r r'"
    if "o_orders (gr_oms (wd_run (pr_world p0))) i = Some r" for i r
    using steps_advances [OF run] that by (auto simp: advances_def registry_le_def as_system_def)
  ultimately show ?thesis using run down by (auto simp: ready(1) sys_inv_def sent_inv_def)
qed

text \<open>A gateway with both venues and no log, whose feeds are stopped at once, with one order on its way to
  the venue.\<close>

definition demo_surroundings :: surroundings where
  "demo_surroundings = \<lparr>su_args = [], su_parse = (\<lambda>_. Some demo_gateway_file), su_config_file = (\<lambda>_. Some []), su_log_file = None,
     su_faults = \<lparr>open_fails = False, read_fails = False, resize_error = None\<rparr>, su_log_open = True, su_write_ok = (\<lambda>_. True),
     su_latency_clock = (\<lambda>_. 0), su_moments = (\<lambda>_. demo_moment)\<rparr>"

lemma demo_process:
  "\<exists>p0. main_setup demo_surroundings = Inr p0 \<and> pr_okx p0 \<noteq> None \<and> wd_moments (pr_world p0) = (\<lambda>_. demo_moment)
     \<and> gr_oms (wd_run (pr_world p0)) = new_oms [''binance'', ''okx''] None empty_risk_config ''binance'' None"
proof -
  let ?s = "new_oms [''binance'', ''okx''] None empty_risk_config ''binance'' None"
  have "load_from_log parse faults contents ?s = (Inr no_replay, contents, ?s)" for parse faults contents
    by (simp add: load_from_log_def new_oms_def)
  then show ?thesis
    by (simp add: main_setup_def demo_surroundings_def demo_gateway_loaded demo_gateway_venues main_oms_def gateway_oms_def connector_keys_def)
      (simp add: demo_gateway_config_def default_gateway_def recovery_banner_def no_replay_def write_cout_def new_world_def)
qed

lemma demo_quiet:
  "\<exists>report. reconcile (mo_open demo_moment) (mo_get demo_moment) (mo_ids demo_moment) s = (report, s)"
  "gr_oms g = new_oms vs None rsk dflt None \<Longrightarrow> gr_oms (run_audit demo_moment g) = gr_oms g"
proof -
  have "fold (\<lambda>v. reconcile_listing v (Inr [])) vs (rep, s) = (rep, s)" for vs rep s
    by (induction vs) (simp_all add: reconcile_listing_def)
  then show "\<exists>report. reconcile (mo_open demo_moment) (mo_get demo_moment) (mo_ids demo_moment) s = (report, s)"
    by (simp add: reconcile_def demo_moment_def worklist_def map_filter_def case_prod_beta)
  show "gr_oms (run_audit demo_moment g) = gr_oms g" if "gr_oms g = new_oms vs None rsk dflt None"
    using that by (simp add: run_audit_def audit_def audit_begin_def demo_moment_def new_oms_def Let_def)
qed

lemma demo_started:
  assumes "main_setup demo_surroundings = Inr p0" "wd_moments (pr_world p0) = (\<lambda>_. demo_moment)"
    and "gr_oms (wd_run (pr_world p0)) = new_oms [''binance'', ''okx''] None empty_risk_config ''binance'' None"
  shows "\<exists>p1 report p2. start_venues demo_feed_env [] demo_session_env [] p0 = Some p1 \<and> reconciling p1 (Resolving []) report p2
    \<and> as_system (listening_banner (first_audit (startup_summary report p2))) = start_system (gr_oms (wd_run (pr_world p0)))"
proof -
  have "\<exists>c'. binance_start write_cerr demo_session_env [] c = Some c'" for c
    by (simp add: binance_start_def ws_start_def run_feed_def feed_rounds_def)
  then obtain p where p: "start_venues demo_feed_env [] demo_session_env [] p0 = Some p"
    by (cases "pr_binance p0") (simp_all add: start_venues_def Let_def, metis option.simps(9))
  have kept: "pr_world p = pr_world p0" "pr_calls p = pr_calls p0"
    using start_venues_wired [OF p main_setup_wired [OF assms(1)]] by simp_all
  obtain report where "reconcile (mo_open demo_moment) (mo_get demo_moment) (mo_ids demo_moment) (gr_oms (wd_run (pr_world p)))
      = (report, gr_oms (wd_run (pr_world p)))" using demo_quiet(1) by blast
  from reconciling_alone [OF _ this] assms(2) kept obtain q where q: "reconciling p (Resolving []) report q"
    "gr_oms (wd_run (pr_world q)) = gr_oms (wd_run (pr_world p0))" "wd_moments (pr_world q) = (\<lambda>_. demo_moment)" "pr_calls q = pr_calls p0"
    by auto
  define w where "w = pr_world (startup_summary report q)"
  have w: "gr_oms (wd_run w) = gr_oms (wd_run (pr_world p0))" "wd_moments w = (\<lambda>_. demo_moment)" "pr_calls (startup_summary report q) = pr_calls p0"
    using q by (simp_all add: w_def startup_summary_def in_world_def at_next_def print_line_def)
  have "gr_oms (wd_run (at_next run_audit w)) = gr_oms (wd_run w)"
    using demo_quiet(2) [of "wd_run w"] w(1,2) assms(3) by (simp add: at_next_def)
  then have "as_system (listening_banner (first_audit (startup_summary report q))) = as_system p0"
    using w by (simp add: listening_banner_def first_audit_def audit_pass_def in_world_def as_system_def write_cout_def w_def)
  then show ?thesis using main_setup_system(1) [OF assms(1)] p q(1) by auto
qed

theorem gateway_process_safe_witness:
  "\<exists>p0 p. main_run demo_surroundings demo_feed_env [] demo_session_env [] [] p0 p \<and> ''c1'' \<in> set (sys_sent (as_system p))
     \<and> distinct (sys_sent (as_system p)) \<and> okx_stopped p \<and> binance_stopped p"
proof -
  obtain p0 where p0: "main_setup demo_surroundings = Inr p0" "wd_moments (pr_world p0) = (\<lambda>_. demo_moment)"
      "gr_oms (wd_run (pr_world p0)) = new_oms [''binance'', ''okx''] None empty_risk_config ''binance'' None"
    using demo_process by blast
  obtain p1 report p2 where p1: "start_venues demo_feed_env [] demo_session_env [] p0 = Some p1"
      "as_system (listening_banner (first_audit (startup_summary report p2))) = start_system (gr_oms (wd_run (pr_world p0)))"
      "reconciling p1 (Resolving []) report p2"
    using demo_started [OF p0] by blast
  let ?p3 = "listening_banner (first_audit (startup_summary report p2))"
  obtain s' where s': "place_begin [] demo_request [] (- 1) (sys_oms (as_system ?p3)) = (Send ''binance'' demo_request, s')"
    by (simp add: p1(2) p0(3) start_system_def new_oms_def place_begin_def latency_now_def place_stage_def
        connector_for_def place_risk_def limits_for_def empty_risk_config_def append_or_error_def
        demo_request_def store_record_def place_send_latency_def Let_def)
  define S where "S = (as_system ?p3)\<lparr>sys_oms := s', sys_places := sys_places (as_system ?p3) @ [demo_request],
      sys_sent := sys_sent (as_system ?p3) @ [rq_client_order_id demo_request]\<rparr>"
  define p4 where "p4 = with_system S ?p3"
  define p where "p = stop_binance [] (stop_okx p4)"
  have served: "serving ?p3 p4"
    unfolding p4_def S_def by (rule serving_step [OF serving_refl core_step [OF step.place_send [OF s']]])
  have run: "main_run demo_surroundings demo_feed_env [] demo_session_env [] [] p0 p"
    unfolding p_def by (rule main_runs [OF p0(1) p1(1,3) delivering_refl served serving_refl serving_refl])
  have "sys_sent (as_system p) = sys_sent (as_system p4)" by (simp add: p_def as_system_def stop_okx_def stop_binance_def split: option.splits prod.splits)
  then have "''c1'' \<in> set (sys_sent (as_system p))" by (simp add: p4_def S_def demo_request_def)
  with gateway_process_safe [OF run] run show ?thesis by blast
qed

text \<open>C38. A process that gets as far as starting its venues is fit to run: port, audit interval and every risk
  limit are valid; the default venue is a connected one; each connector has a retry policy under which
  its operations return, the credentials the file gives (key and secret, and for OKX the passphrase),
  timings in range (for OKX the connect and read timeouts and those of the feed, for Binance the
  request timeout, the receive window and the keepalive), has the handlers of \<open>main\<close> installed, and has
  not been started; and the registry is exactly what the log says: the replay succeeded and its events
  were applied in order to an empty registry.\<close>

theorem gateway_starts_validated:
  assumes "main_setup su = Inr p"
  shows "gateway_config_ok (pr_config p) \<and> o_default_venue (gr_oms (wd_run (pr_world p))) = pr_default_venue p
    \<and> pr_default_venue p \<in> set (venues (gr_oms (wd_run (pr_world p))))
    \<and> (\<forall>c. pr_okx p = Some c \<longrightarrow> okx_config_ok (oc_config c) \<and> okx_credentials (gc_okx (pr_config p)) (oc_config c)
          \<and> oc_handlers c = installed no_handlers \<and> \<not> okx_running c)
    \<and> (\<forall>c. pr_binance p = Some c \<longrightarrow> binance_config_ok (bc_config c) \<and> binance_credentials (gc_binance (pr_config p)) (bc_config c)
          \<and> bc_handlers c = installed no_handlers \<and> \<not> bc_started c)
    \<and> (\<exists>g evs. gr_oms (wd_run (pr_world p)) = fold apply_log_event evs (main_oms su (pr_config p) g)
          \<and> (case gc_persistence_log (pr_config p) of None \<Rightarrow> evs = []
             | Some path \<Rightarrow> (\<exists>st rest. replay (su_parse su) path (su_faults su) (su_log_file su) = (Inr st, evs, rest))))"
proof -
  obtain g st rest where p: "load_config (su_parse su) (su_config_file su (config_path su)) (config_path su) = Inr (pr_config p)"
    "configure_venues (pr_config p) = Inr g"
    "load_from_log (su_parse su) (su_faults su) (su_log_file su) (main_oms su (pr_config p) g) = (Inr st, rest, gr_oms (wd_run (pr_world p)))"
    "pr_default_venue p = gv_default g" "pr_calls p = start_system (gr_oms (wd_run (pr_world p)))"
    "pr_okx p = map_option (\<lambda>c. (new_okx_connector c)\<lparr>oc_handlers := installed no_handlers\<rparr>) (gv_okx g)"
    "pr_binance p = map_option (\<lambda>c. (new_binance_connector c)\<lparr>bc_handlers := installed no_handlers\<rparr>) (gv_binance g)"
    by (rule main_setup_cases [OF assms])
  note valid = configured_gateway_validated [OF p(1,2)]
  obtain evs where evs: "gr_oms (wd_run (pr_world p)) = fold apply_log_event evs (main_oms su (pr_config p) g)"
      "case o_log (main_oms su (pr_config p) g) of None \<Rightarrow> evs = []
       | Some l \<Rightarrow> replay (su_parse su) (sink_path l) (su_faults su) (su_log_file su) = (Inr st, evs, rest)"
    using load_from_log_cases [OF p(3)] by blast
  have oms: "o_default_venue (gr_oms (wd_run (pr_world p))) = gv_default g" "venues (gr_oms (wd_run (pr_world p))) = connector_keys g"
    using apply_log_frame [of evs "main_oms su (pr_config p) g"] by (simp_all add: evs(1) venues_def main_oms_def gateway_oms_def new_oms_def)
  have "case gc_persistence_log (pr_config p) of None \<Rightarrow> evs = []
      | Some path \<Rightarrow> (\<exists>st rest. replay (su_parse su) path (su_faults su) (su_log_file su) = (Inr st, evs, rest))"
    using evs(2) by (auto simp: main_oms_def gateway_oms_def new_oms_def open_event_log_def split: option.splits)
  moreover have "\<forall>c. pr_okx p = Some c \<longrightarrow> okx_config_ok (oc_config c)
      \<and> okx_credentials (gc_okx (pr_config p)) (oc_config c) \<and> oc_handlers c = installed no_handlers \<and> \<not> okx_running c"
    using valid p(6) by (auto simp: new_okx_connector_def okx_running_def)
  moreover have "\<forall>c. pr_binance p = Some c \<longrightarrow> binance_config_ok (bc_config c)
      \<and> binance_credentials (gc_binance (pr_config p)) (bc_config c) \<and> bc_handlers c = installed no_handlers \<and> \<not> bc_started c"
    using valid p(7) by (auto simp: new_binance_connector_def)
  ultimately show ?thesis using valid evs(1) oms p(4) by auto
qed

theorem gateway_starts_validated_witness:
  "\<exists>p c. main_setup demo_surroundings = Inr p \<and> gateway_config_ok (pr_config p)
     \<and> pr_okx p = Some c \<and> okx_credentials (gc_okx (pr_config p)) (oc_config c) \<and> pr_default_venue p \<in> set (venues (gr_oms (wd_run (pr_world p))))"
proof -
  obtain p c where p: "main_setup demo_surroundings = Inr p" "pr_okx p = Some c" using demo_process by blast
  from gateway_starts_validated [OF p(1)] p show ?thesis by blast
qed

text \<open>A gateway without an \<open>okx\<close> section does not start. An absent section is represented by the
  empty object, which \<open>main\<close> takes for an enabled venue with default parameters; the OKX
  configuration has no default credentials, so \<open>main\<close> reports an invalid okx configuration and exits,
  whatever the \<open>binance\<close> section says.\<close>

lemma binance_only_gateway_refused:
  assumes "su_config_file su (config_path su) = Some contents" "su_parse su contents = Some conf" "jfind conf ''okx'' = None"
    and "load_config (su_parse su) (su_config_file su (config_path su)) (config_path su) = Inr cfg"
  shows "\<exists>e. okx_config_from_json (JObj []) = Inl e \<and> main_setup su = Inl [''invalid okx config: '' @ bracketed e]"
proof -
  obtain e where e: "configure_venues cfg = Inl e" "okx_config_from_json (JObj []) = Inl e" "okx_venue_config cfg = Inl e"
    using absent_okx_section_refused [OF assms(4,1,2,3)] by blast
  then show ?thesis using assms(4) by (simp add: main_setup_def venue_complaint_def)
qed

section \<open>The audit passes\<close>

text \<open>When the next pass is due, after the passes so far.\<close>

definition next_due :: "int \<Rightarrow> int \<Rightarrow> (int \<times> int) list \<Rightarrow> int" where
  "next_due interval next_run passes = (if passes = [] then next_run else snd (last passes) + interval)"

lemma scheduler_snoc:
  "audit_scheduler interval next_run (ts @ [t]) =
     (let passes = audit_scheduler interval next_run ts
      in if (\<exists>u \<in> set (ts @ [t]). at_stop u) \<or> at_now t < next_due interval next_run passes then passes
         else passes @ [(at_now t, at_after t)])"
  by (induction interval next_run ts rule: audit_scheduler.induct) (auto simp: Let_def next_due_def)

lemma scheduler_spaced:
  assumes "Suc n < length (audit_scheduler interval next_run ts)"
  shows "snd (audit_scheduler interval next_run ts ! n) + interval \<le> fst (audit_scheduler interval next_run ts ! Suc n)"
  using assms
proof (induction ts arbitrary: n rule: rev_induct)
  case (snoc t ts)
  let ?passes = "audit_scheduler interval next_run ts"
  show ?case
  proof (cases "Suc n < length ?passes")
    case True
    then show ?thesis using snoc.IH [of n] by (auto simp: scheduler_snoc Let_def nth_append)
  next
    case False
    with snoc.prems have last: "Suc n = length ?passes" "audit_scheduler interval next_run (ts @ [t]) = ?passes @ [(at_now t, at_after t)]"
      "next_due interval next_run ?passes \<le> at_now t"
      by (auto simp: scheduler_snoc Let_def split: if_splits)
    then have "?passes \<noteq> []" by auto
    moreover from this have "?passes ! n = last ?passes" using last(1) by (metis diff_Suc_1 last_conv_nth)
    ultimately show ?thesis using last by (simp add: nth_append next_due_def)
  qed
qed simp

text \<open>C39. Audit passes run on schedule: the first not before one interval after the thread's start, each further
  one not before one interval after the end of the previous one, and a turn of the loop that finds a
  pass due runs it at once unless a stop was requested.\<close>

theorem audit_passes_on_schedule:
  assumes "\<forall>u \<in> set (ts @ [t]). \<not> at_stop u"
  shows "(n = 0 \<longrightarrow> n < length (audit_scheduler interval (start + interval) ts) \<longrightarrow>
        start + interval \<le> fst (audit_scheduler interval (start + interval) ts ! n))
    \<and> (Suc n < length (audit_scheduler interval (start + interval) ts) \<longrightarrow>
        snd (audit_scheduler interval (start + interval) ts ! n) + interval \<le> fst (audit_scheduler interval (start + interval) ts ! Suc n))
    \<and> (next_due interval (start + interval) (audit_scheduler interval (start + interval) ts) \<le> at_now t \<longrightarrow>
        audit_scheduler interval (start + interval) (ts @ [t]) = audit_scheduler interval (start + interval) ts @ [(at_now t, at_after t)])"
proof -
  have "next_run \<le> fst (audit_scheduler interval next_run us ! 0)" if "audit_scheduler interval next_run us \<noteq> []" for next_run us
    using that by (induction interval next_run us rule: audit_scheduler.induct) auto
  then show ?thesis using scheduler_spaced assms by (auto simp: scheduler_snoc Let_def)
qed

theorem audit_passes_on_schedule_witness:
  "audit_scheduler 30000 (0 + 30000) ([\<lparr>at_stop = False, at_now = 29900, at_after = 0\<rparr>, \<lparr>at_stop = False, at_now = 30100, at_after = 30400\<rparr>]
      @ [\<lparr>at_stop = False, at_now = 60400, at_after = 60500\<rparr>]) = [(30100, 30400), (60400, 60500)]"
  using audit_passes_on_schedule [of "[\<lparr>at_stop = False, at_now = 29900, at_after = 0\<rparr>, \<lparr>at_stop = False, at_now = 30100, at_after = 30400\<rparr>]"
      "\<lparr>at_stop = False, at_now = 60400, at_after = 60500\<rparr>" 0 30000 0]
  by (simp add: next_due_def)

end
