(* ===== verification/Smoke.thy ===== *)
theory Smoke
  imports Rest_Support "HOL-Library.Word"
begin

text \<open>
  The smoke server, \<^verbatim>\<open>apps/smoke.cpp\<close>: the port of its command line and its only route. \<open>std::stoi\<close> throws on
  a text without a number and on one outside of \<open>int\<close> (\<open>None\<close>; nothing catches it); the port is the low
  16 bits of the number.
\<close>

definition is_space_char :: "char \<Rightarrow> bool" where
  "is_space_char c \<longleftrightarrow> ascii c = 32 \<or> 9 \<le> ascii c \<and> ascii c \<le> 13"

definition signed_digits :: "string \<Rightarrow> bool \<times> string" where
  "signed_digits cs = (case cs of [] \<Rightarrow> (False, [])
     | c # rest \<Rightarrow> if c = CHR ''-'' then (True, takeWhile is_digit_char rest)
         else if c = CHR ''+'' then (False, takeWhile is_digit_char rest) else (False, takeWhile is_digit_char cs))"

definition stoi :: "string \<Rightarrow> int option" where
  "stoi text =
     (case signed_digits (dropWhile is_space_char text) of (negative, ds) \<Rightarrow>
        let v = (if negative then - digits_val ds else digits_val ds)
        in if ds = [] \<or> v < - (2 ^ 31) \<or> 2 ^ 31 \<le> v then None else Some v)"

definition smoke_port :: "string list \<Rightarrow> 16 word option" where
  "smoke_port args = (case args of a # _ \<Rightarrow> map_option word_of_int (stoi a) | [] \<Rightarrow> Some 18080)"

definition smoke_health :: "dumper \<Rightarrow> http_response option" where
  "smoke_health dump = json_response dump 200 (jobject [(''status'', JStr ''ok'')])"

section \<open>The port\<close>

lemma signed_digits_int: "signed_digits (dropWhile is_space_char (int_to_string i)) = (i < 0, nat_to_string (nat \<bar>i\<bar>))"
proof -
  have all: "takeWhile is_digit_char (nat_to_string n) = nat_to_string n" for n
    using nat_to_string_digits by (simp add: takeWhile_eq_all_conv)
  have digit: "\<not> is_space_char c \<and> c \<noteq> CHR ''-'' \<and> c \<noteq> CHR ''+''" if "is_digit_char c" for c
    using that by (auto simp: is_digit_char_def is_space_char_def ascii_def)
  obtain c ds where n: "nat_to_string (nat i) = c # ds" by (metis list.exhaust nat_to_string_ne)
  then have "is_digit_char c" using nat_to_string_digits [of "nat i"] by simp
  then have "signed_digits (dropWhile is_space_char (nat_to_string (nat i))) = (False, nat_to_string (nat i))"
    using digit n all [of "nat i"] by (simp add: signed_digits_def)
  moreover have "signed_digits (dropWhile is_space_char (CHR ''-'' # nat_to_string (nat (- i)))) = (True, nat_to_string (nat (- i)))"
    using all by (simp add: signed_digits_def is_space_char_def ascii_def)
  ultimately show ?thesis by (simp add: int_to_string_def)
qed

text \<open>A printed \<open>int\<close> is read back, and one outside of \<open>int\<close> is refused.\<close>

lemma stoi_int_to_string: "stoi (int_to_string i) = (if - (2 ^ 31) \<le> i \<and> i < 2 ^ 31 then Some i else None)"
  by (simp add: stoi_def signed_digits_int Let_def)

text \<open>A port in range is taken as it is; any other \<open>int\<close> is taken modulo \<open>2\<^sup>1\<^sup>6\<close>, without a complaint.\<close>

lemma smoke_port_wraps:
  assumes "- (2 ^ 31) \<le> i" "i < 2 ^ 31"
  shows "\<exists>port. smoke_port [int_to_string i] = Some port \<and> uint port = i mod 2 ^ 16 \<and> (0 \<le> i \<and> i \<le> 65535 \<longrightarrow> uint port = i)"
proof -
  have "uint (word_of_int i :: 16 word) = i mod 2 ^ 16" by (simp add: uint_word_of_int)
  then show ?thesis using assms by (simp add: smoke_port_def stoi_int_to_string)
qed

end
