(* ===== verification/Spec2Isabelle.thy ===== *)
theory Spec2Isabelle
  imports OMS_Audit Rest_Orders Rest_Demo Binance_Stream Exchange_Connector Gateway_Main Smoke
begin

text \<open>
  This development models \<^verbatim>\<open>rest_exchange_gateway\<close>, a trading gateway that accepts orders over REST,
  keeps a registry of them, sends them to the venues OKX and Binance, and follows their execution
  through the venues' streams. It proves that an order is never sent twice by mistake, that the
  registry says of an order what the venues' answers establish, and that a restart, a reconnection or an
  inconsistent answer does not lose or revert what is known. Source paths below are relative to
  \<^verbatim>\<open>src/\<close> of the repository.

  \<^bold>\<open>The program and its theories\<close>

  \<^item> \<^verbatim>\<open>include/gateway/\<close>: \<open>Result\<close> and \<open>Error\<close> are \<open>Prelude\<close> (a sum, \<open>Inl\<close> the error); the order
    vocabulary, the enums and the request, snapshot and report structs are \<open>Connector_Types\<close>.
  \<^item> \<^verbatim>\<open>src/core/\<close>: \<open>Order_State\<close> (the transition table), \<open>Decimal\<close> (exact arithmetic over \<open>long long\<close> and
    \<open>__int128\<close>, the narrowing written out), \<open>Risk\<close> (pre-trade checks and their configuration), \<open>Event_Log\<close>
    (append and replay on the bytes of the log file), \<open>Double\<close> and \<open>Retry\<close>
    (the retry engine; \<open>double\<close> is rounded rational arithmetic), \<open>Clock\<close> (timestamps), \<open>Json\<close> (values and
    accessors of the JSON library), \<open>Gateway\<close> (configuration files, and the venues they configure).
  \<^item> \<^verbatim>\<open>src/core/oms.cpp\<close>, the order management system, is split: \<open>OMS_Record\<close> (records, exchange legs,
    observations), \<open>OMS_State\<close> (the state, event and latency log, statistics, reports), \<open>OMS_Handlers\<close> (\<open>place\<close>, \<open>cancel\<close>,
    \<open>amend\<close>, queries), \<open>OMS_Reconcile\<close>, \<open>OMS_Replay\<close> (\<open>load_from_log\<close>), \<open>OMS_Audit\<close>. Every handler is one
    function per critical section (\<open>place_begin\<close> up to the connector call, \<open>place_finish\<close> from its answer) and
    their composition; \<open>OMS_System\<close> is the interleaving of any number of calls as a step relation.
  \<^item> \<^verbatim>\<open>src/exchange/okx/\<close>: \<open>OKX_Wire\<close>, \<open>OKX_Client\<close> (REST client, signer, configuration), \<open>OKX_Resilient\<close>
    (resolve-then-retry), \<open>OKX_Connector\<close>, \<open>OKX_Feed\<close> (the orders feed: login, subscription, keepalive, sessions).
  \<^item> \<^verbatim>\<open>src/exchange/binance/\<close>: \<open>Binance_Wire\<close>, \<open>Binance_Resilient\<close> (API and engine), \<open>Binance_Connector\<close> (and
    configuration), \<open>Binance_Signer\<close>, \<open>Binance_Ws\<close> (the WebSocket client, one function per critical section),
    \<open>Binance_Calls\<close> (callers and supervisor interleaved), \<open>Binance_Signed\<close> (signed requests and the venue clock),
    \<open>Binance_Session\<close> (one connection from connect to teardown, and the supervisor thread), \<open>Binance_Stream\<close>
    (the user data stream).
  \<^item> \<^verbatim>\<open>src/exchange/ws_feed_support.hpp\<close> is \<open>Ws_Feed\<close>. \<^verbatim>\<open>src/rest/\<close> is \<open>Rest_Support\<close>, \<open>Rest_Orders\<close> and \<open>Rest_Demo\<close>.
    The threads of both connectors from \<open>start\<close> to \<open>stop\<close> are \<open>Connector_Lifecycle\<close>; the interface they
    implement, with its vocabulary of errors, is \<open>Exchange_Connector\<close>.
  \<^item> \<^verbatim>\<open>apps/gateway_main.cpp\<close>: the feed handlers and the audit pass are \<open>Gateway_Run\<close>; \<open>Gateway_Main\<close> is \<open>main\<close> from its
    arguments to its exit. A process is its configuration, its connectors, the registry with the calls in
    flight, and its two text streams; it is set up by \<open>main_setup\<close>, and \<open>main_run\<close> is the relation of all its
    runs: start of the venues, reconciliation (section by section, with deliveries of the feeds in between),
    serving (deliveries of the feeds, audit passes and critical
    sections of the core in any order), stop of the venues. \<^verbatim>\<open>apps/smoke.cpp\<close>, a link check, is \<open>Smoke\<close>.

  A struct is a record, an enum a datatype, \<open>Result\<close> a sum, an unordered map a partial function with the
  traversal order as an argument, a \<open>long long\<close> an integer with \<open>wrap64\<close> where it can wrap, bytes are 8-bit
  words. An exception of the JSON library that nothing catches, and a violated precondition, is \<open>None\<close>.

  \<^bold>\<open>Interfaces\<close>

  The contracts between components are locales, each interpreted on the model's own definitions:
  \<open>record_operation\<close> and \<open>registry_operation\<close> (what every handler keeps of a record and of the registry:
  identity, lifecycle rank, fill mark, legs, log), \<open>amounts\<close> (what the core needs of decimal arithmetic),
  \<open>guarded_resend\<close> (an engine that sends again only with a licence, a lookup of the request's own order, and
  makes no call that concerns another; interpreted on place, cancel and amend of both venues) and
  \<open>venue_placing\<close> (what an answer of a connector says of the venue's, where those are in order; interpreted on both
  connectors, and used here for \<open>new_order_settled\<close>), \<open>supervised_feed\<close> (what a session keeps for its supervisor;
  interpreted on the feeds of both venues), \<open>connector_lifecycle\<close> (what a connector hands to the core between
  \<open>start\<close> and \<open>stop\<close>) and \<open>exchange_interface\<close> (the errors its operations return), both interpreted on both
  connectors, and \<open>lifecycle\<close> (the transition table as an order).

  \<^bold>\<open>What is shown\<close>

  \<^item> Orders are sent once: \<open>each_order_sent_at_most_once\<close> over all interleavings of the core, restarts included;
    \<open>gateway_process_safe\<close> for every run of the process, which is a run of the core;
    \<open>okx_place_resent_only_after_absence\<close>, \<open>okx_cancel_amend_resent_only_when_harmless\<close> and
    \<open>binance_resent_only_when_licensed\<close> for the engines below it; \<open>signed_request_sent_again_only_after_skew\<close> for
    the frames on the wire.
  \<^item> The registry follows the venues: \<open>new_order_settled\<close> from the configuration down to the venue's answer,
    \<open>place_outcome_recorded\<close>, \<open>reconcile_verdicts\<close>, \<open>reconcile_repairs_drift\<close>, \<open>audit_clean_iff\<close>, and, for the streams,
    \<open>arbitration_by_leg\<close>, \<open>raced_reports_apply_after_ack\<close>, \<open>stream_normalized\<close> and \<open>okx_session_gated\<close>.
  \<^item> It only moves forward: \<open>records_only_evolve\<close>, \<open>open_place_owns_entry\<close> (with the lemmas
    \<open>transitions_never_regress\<close>, \<open>feeds_only_advance\<close>, \<open>local_audit_in_runs\<close>); and a restart rebuilds it:
    \<open>replay_recovers_appends\<close>, \<open>event_log_refines_sink\<close>, \<open>replay_rebuilds_registry\<close>, \<open>gateway_starts_validated\<close>.
  \<^item> The WebSocket client: \<open>answers_are_correlated\<close> (no answer reaches another call), \<open>callers_are_released\<close> (no
    call is left waiting), \<open>session_outcome\<close>, \<open>reconnect_backoff_restarts\<close>. The connectors: \<open>okx_lifetime\<close> and
    \<open>binance_lifetime\<close> (every report and connectivity change reaches the core once and in order, and a stopped
    connector has said so last), \<open>connector_error_vocabulary\<close>.
  \<^item> Functional behaviour of the rest: decimals, risk checks, REST validation and responses, configuration,
    start-up, termination and delays of retries, the schedule of audits.

  \<^bold>\<open>Inputs, bounds, fuel\<close>

  Nothing is bounded and no fuel is used: every loop of the sources that is modelled is structural or has a
  termination proof. Loops that run until the process stops (read loops, supervisor, keepalive, the
  gateway itself) recurse over the list of what the surroundings give them turn by turn, of any
  length; the end of the list is the stop request. The answers of venues and transport, the clock,
  random numbers, file-system faults and the scheduling of threads are arguments, so the theorems hold
  for all of them. The JSON parser and printer and OpenSSL's HMAC are arguments as well; where a property
  needs that a printed value parses back, that is the named hypothesis \<open>codec_ok\<close>. \<open>reconnect_backoff_restarts\<close>
  holds for fewer than \<open>2\<^sup>3\<^sup>1\<close> sessions, where the counter's cast to \<open>int\<close> is exact. Request numbers of the WebSocket
  client do not wrap (\<open>2\<^sup>6\<^sup>3\<close> requests).

  \<^bold>\<open>Not modelled\<close>

  Locks (a critical section is atomic; the two mutexes of one delivery in \<open>dispatch_message\<close> are one section,
  since between them only the addressed caller's own time-out can act). Crow's HTTP server, which hands the
  requests to the routes; the sockets and TLS of the HTTP and WebSocket libraries, whose answers are
  arguments; the system clock, sleeping and the random engine; creating the parent directories of the logs;
  and the debug dump of events. An exception that escapes a thread ends the process; the theorems on
  runs are about processes that did not end so.
\<close>

section \<open>A new order, from the request to the venue\<close>

lemma started_policies:
  assumes "configure_venues cfg = Inr g"
  shows "gv_okx g = Some oc \<Longrightarrow> 1 \<le> rp_max_attempts (ok_retry oc)" "gv_binance g = Some bc \<Longrightarrow> 1 \<le> rp_max_attempts (bn_retry bc)"
  using okx_config_policy [OF configure_venues_ok(2) [OF assms]] binance_config_validated(1) [OF configure_venues_ok(3) [OF assms]]
  by (auto simp: policy_ok_def binance_config_ok_def)

text \<open>C3. What the registry says of a new order rests on what the venue answered. In a gateway that its
  configuration lets start, with both venues, take an order that was unknown, that no report
  raced, and for which the answers of the venue it is routed to are in order: an error of a
  send is a transport failure or carries a venue code, an acknowledgement and an order that is
  found carry an order id (on OKX unless the acknowledgement reports a rejection, which is not
  the duplicate code), and where a send is rejected as a duplicate the last lookup is
  conclusive. When \<open>place\<close> returns and the order has a record, it is
  \<^item> rejected with the error of the risk limit that refused it; or
  \<^item> rejected with the venue's own rejection of the last send of this very order, and if that
    is one of a duplicate, the lookup after it found no order; or
  \<^item> pending, the last send having failed in transport with no lookup after it finding the order; or
  \<^item> live under a non-empty exchange identifier, given by the venue's acknowledgement of the last
    send or by a lookup of this order after it; \<open>place\<close> then returns the record, or the failure to
    log the acceptance.

  Where the answers are not in order the code can reject an order the venue has: on Binance an
  acknowledgement without an order id, and on both venues a duplicate rejection whose lookup is
  inconclusive, is recorded as a rejection.\<close>

theorem new_order_settled:
  assumes "configure_venues cfg = Inr g" "gv_okx g = Some oc" "gv_binance g = Some bc"
    and "o_orders s (rq_client_order_id req) = None" "o_raced s (rq_client_order_id req) = None"
    and okx: "connector_place (recorded client) (ok_retry oc) (lift_clock clk) req (w, []) = (oans, ow, ocalls)"
    and binance: "binance_submit api (bn_retry bc) bclk req v = (bans, bv, bcalls)"
    and orderly: "if (if venue = [] then o_default_venue s else venue) = ''okx'' then okx_orderly ocalls else binance_orderly bcalls"
    and "place (gateway_place_order (\<lambda>r. fst (connector_place client (ok_retry oc) clk r w))
           (\<lambda>r. fst (binance_place_order api (bn_retry bc) bclk r v))) ids req venue hit s = (Some res, s')"
    and "o_orders s' (rq_client_order_id req) = Some r"
  shows "if (if venue = [] then o_default_venue s else venue) = ''okx''
    then fresh_verdict ids s req res r (\<lambda>e. okx_refused req e ocalls) (okx_silent req ocalls) (\<lambda>x. okx_confirmed req x ocalls)
    else fresh_verdict ids s req res r (\<lambda>e. binance_refused req e bcalls) (binance_silent req bcalls) (\<lambda>x. binance_confirmed req x bcalls)"
proof -
  let ?vp = "gateway_place_order (\<lambda>r. fst (connector_place client (ok_retry oc) clk r w))
           (\<lambda>r. fst (binance_place_order api (bn_retry bc) bclk r v))"
  have vp: "?vp k req = (if k = ''okx'' then oans else bans)" for k
    using connector_place_recorded [OF okx] binance_submit_recorded [OF binance] by (simp add: gateway_place_order_def)
  show ?thesis
    using okx_venue.fresh_place_settled [OF started_policies(1) [OF assms(1,2)] assms(4,5) okx _ _ assms(9,10)]
      binance_venue.fresh_place_settled [OF started_policies(2) [OF assms(1,3)] assms(4,5) binance _ _ assms(9,10)] orderly
    by (simp add: vp split: if_splits)
qed

text \<open>A gateway with both venues, and an order for OKX whose first send is lost.\<close>

definition demo_order :: order_request where
  "demo_order = \<lparr>rq_client_order_id = ''c1'', rq_instrument_id = ''I'', rq_side = Buy, rq_type = Limit, rq_price = ''1'',
     rq_quantity = ''2'', rq_time_in_force = []\<rparr>"

definition demo_placing :: "okx_config \<Rightarrow> binance_config \<Rightarrow> string \<Rightarrow> order_request \<Rightarrow> order_placement result" where
  "demo_placing oc bc = gateway_place_order (\<lambda>r. fst (connector_place (demo_okx_venue None) (ok_retry oc) demo_retry_clock r 0))
     (\<lambda>r. fst (binance_place_order (binance_api_of demo_binance_venue) (bn_retry bc) demo_retry_clock r
        (0, \<lparr>st_gateway_to_wire = Map.empty, st_wire_to_gateway = Map.empty\<rparr>)))"

definition demo_registry :: oms where
  "demo_registry = new_oms [''binance'', ''okx''] None empty_risk_config ''binance'' None"

text \<open>The order is live under the identifier of the venue's acknowledgement.\<close>

lemma demo_place_live:
  assumes "ok_retry oc = default_policy"
  shows "\<exists>res s' r. place (demo_placing oc bc) [] demo_order ''okx'' kNoLatencyStamp demo_registry = (Some res, s')
    \<and> o_orders s' ''c1'' = Some r \<and> r_state r = Live"
proof -
  have "fst (connector_place (demo_okx_venue None) default_policy demo_retry_clock demo_order 0)
      = Inr \<lparr>pl_client_order_id = ''c1'', pl_exchange_order_id = ''x1''\<rparr>" by code_simp
  then have "place (demo_placing oc bc) [] demo_order ''okx'' kNoLatencyStamp demo_registry
      = place (\<lambda>_ _. Inr \<lparr>pl_client_order_id = ''c1'', pl_exchange_order_id = ''x1''\<rparr>) [] demo_order ''okx'' kNoLatencyStamp demo_registry"
    using assms place_reached [of "demo_placing oc bc" "[]" demo_order "''okx''" kNoLatencyStamp demo_registry]
    by (simp add: demo_placing_def gateway_place_order_def)
  moreover have "(case place (\<lambda>_ _. Inr \<lparr>pl_client_order_id = ''c1'', pl_exchange_order_id = ''x1''\<rparr>) [] demo_order ''okx'' kNoLatencyStamp demo_registry of
      (Some res, s') \<Rightarrow> (case o_orders s' ''c1'' of Some r \<Rightarrow> r_state r = Live | None \<Rightarrow> False) | _ \<Rightarrow> False)" by code_simp
  ultimately show ?thesis by (auto split: prod.splits option.splits)
qed

lemma demo_answers_orderly:
  "okx_orderly (snd (snd (connector_place (recorded (demo_okx_venue None)) default_policy (lift_clock demo_retry_clock) demo_order (0, []))))"
  by code_simp

theorem new_order_settled_witness:
  "\<exists>oc bc res s' r. place (demo_placing oc bc) [] demo_order ''okx'' kNoLatencyStamp demo_registry = (Some res, s')
     \<and> o_orders s' ''c1'' = Some r \<and> r_state r = Live 
     \<and> (\<exists>ocalls. okx_confirmed demo_order (r_exchange_order_id r) ocalls)"
proof -
  obtain g oc bc where cfg: "configure_venues demo_gateway_config = Inr g" "gv_okx g = Some oc" "gv_binance g = Some bc"
    and default: "ok_retry oc = default_policy" by (simp add: demo_gateway_venues default_okx_def)
  obtain res s' r where run: "place (demo_placing oc bc) [] demo_order ''okx'' kNoLatencyStamp demo_registry = (Some res, s')"
    and r: "o_orders s' ''c1'' = Some r" and live: "r_state r = Live"
    using demo_place_live [OF default] by blast
  let ?st = "\<lparr>st_gateway_to_wire = Map.empty, st_wire_to_gateway = Map.empty\<rparr>"
  obtain oans ow ocalls where okx: "connector_place (recorded (demo_okx_venue None)) (ok_retry oc) (lift_clock demo_retry_clock) demo_order (0, [])
      = (oans, ow, ocalls)" by (metis prod.exhaust)
  obtain bans bv bcalls where binance: "binance_submit (binance_api_of demo_binance_venue) (bn_retry bc) demo_retry_clock demo_order (0, ?st)
      = (bans, bv, bcalls)" by (metis prod.exhaust)
  have s: "o_orders demo_registry (rq_client_order_id demo_order) = None" "o_raced demo_registry (rq_client_order_id demo_order) = None"
    by (simp_all add: demo_registry_def new_oms_def)
  have r': "o_orders s' (rq_client_order_id demo_order) = Some r" using r by (simp add: demo_order_def)
  have orderly: "if (if ''okx'' = [] then o_default_venue demo_registry else ''okx'') = ''okx'' then okx_orderly ocalls else binance_orderly bcalls"
    using demo_answers_orderly okx default by simp
  from new_order_settled [OF cfg s okx binance orderly run [unfolded demo_placing_def] r']
  have "fresh_verdict [] demo_registry demo_order res r (\<lambda>e. okx_refused demo_order e ocalls) (okx_silent demo_order ocalls)
      (\<lambda>x. okx_confirmed demo_order x ocalls)" by simp
  with live have "\<exists>ocalls. okx_confirmed demo_order (r_exchange_order_id r) ocalls" by (auto simp: fresh_verdict_def)
  with run r live show ?thesis by blast
qed

end
